(* ===== verification/Prelude.thy ===== *)
theory Prelude
  imports Complex_Main "HOL-Library.Word" "HOL-Library.AList" "HOL-Library.Multiset"
begin

text \<open>
  What the components share: the exceptions of the program as a datatype, the monad of
  stateful code that may raise (the state reached so far is kept when an exception is raised,
  as Python keeps it), its proof rules, byte strings and Python's slices, dictionaries in
  insertion order, and a few facts on stable sorting.
\<close>

section \<open>Exceptions and results\<close>

text \<open>
  The exceptions the modelled code raises or lets through. \<open>PlainException\<close> is a bare
  \<open>raise Exception\<close>. \<open>LibraryError\<close> stands for any exception of a third-party package,
  named by a string.
\<close>

datatype exn =
    AssertionError
  | IndexError
  | KeyError
  | ValueError
  | TypeError
  | StructError
  | AttributeError
  | RecursionError
  | PlainException
  | MultiplexerError
  | DeserializationError
  | AuthenticationError
  | InvalidKeyError
  | FormatError
  | ECIESDecryptionError
  | WrongMAC
  | InvalidSignature
  | PacketExpired
  | UnknownCommandError
  | ProtocolError
  | SubProtocolError
  | SocketError
  | ZeroDivisionError
  | LibraryError string

type_synonym 'a res = "exn + 'a"

fun bind_res :: "'a res \<Rightarrow> ('a \<Rightarrow> 'b res) \<Rightarrow> 'b res" where
  "bind_res (Inl e) f = Inl e"
| "bind_res (Inr x) f = f x"

definition assert_res :: "bool \<Rightarrow> unit res" where
  "assert_res b = (if b then Inr () else Inl AssertionError)"

lemma assert_res_simps [simp]:
  "assert_res True = Inr ()" "assert_res False = Inl AssertionError"
  "assert_res b = Inr u \<longleftrightarrow> b" "assert_res b = Inl e \<longleftrightarrow> \<not> b \<and> e = AssertionError"
  by (auto simp: assert_res_def)

lemma bind_res_eq_Inr: "bind_res m f = Inr y \<longleftrightarrow> (\<exists>x. m = Inr x \<and> f x = Inr y)"
  by (cases m) auto

lemma bind_res_eq_Inl: "bind_res m f = Inl e \<longleftrightarrow> m = Inl e \<or> (\<exists>x. m = Inr x \<and> f x = Inl e)"
  by (cases m) auto

section \<open>Stateful code that may raise\<close>

text \<open>
  A statement takes the state and returns a result and the state it leaves. An exception
  keeps the changes made before it was raised.
\<close>

type_synonym ('s, 'a) prog = "'s \<Rightarrow> 'a res \<times> 's"

definition ret :: "'a \<Rightarrow> ('s, 'a) prog" where
  "ret x = (\<lambda>s. (Inr x, s))"

definition throw :: "exn \<Rightarrow> ('s, 'a) prog" where
  "throw e = (\<lambda>s. (Inl e, s))"

definition seq :: "('s, 'a) prog \<Rightarrow> ('a \<Rightarrow> ('s, 'b) prog) \<Rightarrow> ('s, 'b) prog" where
  "seq m f = (\<lambda>s. case m s of (Inl e, s') \<Rightarrow> (Inl e, s') | (Inr x, s') \<Rightarrow> f x s')"

definition gets :: "('s \<Rightarrow> 'a) \<Rightarrow> ('s, 'a) prog" where
  "gets f = (\<lambda>s. (Inr (f s), s))"

definition modify :: "('s \<Rightarrow> 's) \<Rightarrow> ('s, unit) prog" where
  "modify f = (\<lambda>s. (Inr (), f s))"

definition lift_res :: "'a res \<Rightarrow> ('s, 'a) prog" where
  "lift_res r = (\<lambda>s. (r, s))"

definition py_assert :: "bool \<Rightarrow> ('s, unit) prog" where
  "py_assert b = lift_res (assert_res b)"

text \<open>\<open>for x in xs: body\<close>, over a list fixed before the loop starts.\<close>

fun for_each :: "'a list \<Rightarrow> ('a \<Rightarrow> ('s, unit) prog) \<Rightarrow> ('s, unit) prog" where
  "for_each [] f = ret ()"
| "for_each (x # xs) f = seq (f x) (\<lambda>_. for_each xs f)"

lemmas prog_defs = ret_def throw_def seq_def gets_def modify_def lift_res_def py_assert_def

text \<open>A sequence ends normally when both parts do.\<close>

lemma seq_eq_Inr:
  "seq m f s = (Inr y, s') \<longleftrightarrow> (\<exists>x s1. m s = (Inr x, s1) \<and> f x s1 = (Inr y, s'))"
  by (auto simp: seq_def split: prod.split sum.split)

lemma gets_eq_Inr: "gets f s = (Inr x, s') \<longleftrightarrow> x = f s \<and> s' = s"
  by (auto simp: gets_def)

lemma modify_eq_Inr: "modify f s = (Inr x, s') \<longleftrightarrow> s' = f s"
  by (auto simp: modify_def)

lemma ret_eq_Inr: "ret y s = (Inr x, s') \<longleftrightarrow> x = y \<and> s' = s"
  by (auto simp: ret_def)

text \<open>Running a sequence from a state, one statement at a time.\<close>

lemma seq_gets_run: "seq (gets f) g s = g (f s) s"
  by (simp add: seq_def gets_def)

lemma seq_modify_run: "seq (modify f) g s = g () (f s)"
  by (simp add: seq_def modify_def)

lemma seq_run: "f s = (Inr x, s') \<Longrightarrow> seq f g s = g x s'"
  by (simp add: seq_def)

lemma modify_run: "modify f s = (Inr (), f s)"
  by (simp add: modify_def)

lemma gets_run: "gets f s = (Inr (f s), s)"
  by (simp add: gets_def)

lemma seq_assoc: "seq (seq f g) h = seq f (\<lambda>x. seq (g x) h)"
  by (rule ext) (simp add: seq_def split: prod.split sum.split)

lemma seq_lift_run:
  "seq (lift_res r) g s = (case r of Inl e \<Rightarrow> (Inl e, s) | Inr x \<Rightarrow> g x s)"
  by (simp add: seq_def lift_res_def split: sum.split)

lemmas step_simps = seq_gets_run seq_modify_run modify_run gets_run

lemma seq_assert_Inr: "seq (py_assert b) f s = (Inr y, s') \<longleftrightarrow> b \<and> f () s = (Inr y, s')"
  by (cases b) (simp_all add: py_assert_def seq_def lift_res_def)

text \<open>A value that is at hand is handed on.\<close>

lemma seq_ret [simp]: "seq (ret x) f = f x"
  by (simp add: seq_def ret_def)

lemma seq_lift_Inr [simp]: "seq (lift_res (Inr x)) f = f x"
  by (simp add: seq_def lift_res_def)

lemma seq_assert_True [simp]: "seq (py_assert True) f = f ()"
  by (simp add: py_assert_def assert_res_def)

lemmas run_simps = seq_eq_Inr gets_eq_Inr modify_eq_Inr ret_eq_Inr

subsection \<open>Proof rules\<close>

text \<open>
  \<open>triple P m Q E\<close>: from a state with \<open>P\<close>, a normal end satisfies \<open>Q\<close> of result and
  state, an exception \<open>E\<close> of exception and state. Every \<open>m\<close> ends, so this is total
  correctness.
\<close>

definition triple ::
  "('s \<Rightarrow> bool) \<Rightarrow> ('s, 'a) prog \<Rightarrow> ('a \<Rightarrow> 's \<Rightarrow> bool) \<Rightarrow> (exn \<Rightarrow> 's \<Rightarrow> bool) \<Rightarrow> bool" where
  "triple P m Q E \<longleftrightarrow>
     (\<forall>s. P s \<longrightarrow> (case m s of (Inr x, s') \<Rightarrow> Q x s' | (Inl e, s') \<Rightarrow> E e s'))"

named_theorems prog_rules "introduction rules for triples, one per statement"

lemma tripleI:
  "(\<And>s x s'. P s \<Longrightarrow> m s = (Inr x, s') \<Longrightarrow> Q x s') \<Longrightarrow>
   (\<And>s e s'. P s \<Longrightarrow> m s = (Inl e, s') \<Longrightarrow> E e s') \<Longrightarrow> triple P m Q E"
  unfolding triple_def by (auto split: sum.splits prod.splits)

lemma triple_Inr: "triple P m Q E \<Longrightarrow> P s \<Longrightarrow> m s = (Inr x, s') \<Longrightarrow> Q x s'"
  unfolding triple_def by fastforce

lemma triple_Inl: "triple P m Q E \<Longrightarrow> P s \<Longrightarrow> m s = (Inl e, s') \<Longrightarrow> E e s'"
  unfolding triple_def by fastforce

lemma triple_ret [prog_rules]: "(\<And>s. P s \<Longrightarrow> Q x s) \<Longrightarrow> triple P (ret x) Q E"
  by (simp add: triple_def ret_def)

lemma triple_throw [prog_rules]: "(\<And>s. P s \<Longrightarrow> E e s) \<Longrightarrow> triple P (throw e) Q E"
  by (simp add: triple_def throw_def)

lemma triple_gets [prog_rules]: "(\<And>s. P s \<Longrightarrow> Q (f s) s) \<Longrightarrow> triple P (gets f) Q E"
  by (simp add: triple_def gets_def)

lemma triple_modify [prog_rules]: "(\<And>s. P s \<Longrightarrow> Q () (f s)) \<Longrightarrow> triple P (modify f) Q E"
  by (simp add: triple_def modify_def)

lemma triple_assert [prog_rules]:
  "(\<And>s. P s \<Longrightarrow> b \<Longrightarrow> Q () s) \<Longrightarrow> (\<And>s. P s \<Longrightarrow> \<not> b \<Longrightarrow> E AssertionError s) \<Longrightarrow>
   triple P (py_assert b) Q E"
  by (auto simp: triple_def py_assert_def lift_res_def assert_res_def)

lemma triple_seq:
  "triple P m R E \<Longrightarrow> (\<And>x. triple (R x) (f x) Q E) \<Longrightarrow> triple P (seq m f) Q E"
  unfolding triple_def seq_def by (force split: sum.splits prod.splits)

lemma triple_if [prog_rules]:
  "(b \<Longrightarrow> triple P m Q E) \<Longrightarrow> (\<not> b \<Longrightarrow> triple P n Q E) \<Longrightarrow> triple P (if b then m else n) Q E"
  by simp

lemma triple_conseq:
  "triple P m Q E \<Longrightarrow> (\<And>s. P' s \<Longrightarrow> P s) \<Longrightarrow> (\<And>x s. Q x s \<Longrightarrow> Q' x s) \<Longrightarrow>
   (\<And>e s. E e s \<Longrightarrow> E' e s) \<Longrightarrow> triple P' m Q' E'"
  unfolding triple_def by (force split: sum.splits prod.splits)

text \<open>A loop whose body keeps an invariant keeps it.\<close>

lemma triple_for_each:
  assumes "\<And>x. x \<in> set xs \<Longrightarrow> triple I (f x) (\<lambda>_. I) E"
  shows "triple I (for_each xs f) (\<lambda>_. I) E"
  using assms
proof (induction xs)
  case Nil
  show ?case by (simp add: triple_ret)
next
  case (Cons x xs)
  then show ?case by (auto intro!: triple_seq)
qed

text \<open>The form most invariants take: kept by a normal end and by an exception alike.\<close>

definition keeps :: "('s \<Rightarrow> bool) \<Rightarrow> ('s, 'a) prog \<Rightarrow> bool" where
  "keeps I m \<longleftrightarrow> (\<forall>s. I s \<longrightarrow> I (snd (m s)))"

lemma keeps_triple: "keeps I m \<longleftrightarrow> triple I m (\<lambda>_. I) (\<lambda>_. I)"
  unfolding keeps_def triple_def by (simp split: sum.split prod.split) (metis prod.collapse snd_conv)

lemma keepsD: "keeps I m \<Longrightarrow> I s \<Longrightarrow> I (snd (m s))"
  by (simp add: keeps_def)

lemma keeps_result: "keeps I m \<Longrightarrow> I s \<Longrightarrow> m s = (r, s') \<Longrightarrow> I s'"
  by (metis keepsD snd_conv)

named_theorems keeps_rules "preservation rules, one per statement"

lemma keeps_ret [keeps_rules]: "keeps I (ret x)"
  by (simp add: keeps_def ret_def)

lemma keeps_throw [keeps_rules]: "keeps I (throw e)"
  by (simp add: keeps_def throw_def)

lemma keeps_gets [keeps_rules]: "keeps I (gets f)"
  by (simp add: keeps_def gets_def)

lemma keeps_lift [keeps_rules]: "keeps I (lift_res r)"
  by (simp add: keeps_def lift_res_def)

lemma keeps_assert [keeps_rules]: "keeps I (py_assert b)"
  by (simp add: py_assert_def keeps_lift)

lemma keeps_modify [keeps_rules]: "(\<And>s. I s \<Longrightarrow> I (f s)) \<Longrightarrow> keeps I (modify f)"
  by (simp add: keeps_def modify_def)

lemma keeps_seq [keeps_rules]: "keeps I m \<Longrightarrow> (\<And>x. keeps I (f x)) \<Longrightarrow> keeps I (seq m f)"
  unfolding keeps_triple by (rule triple_seq)

lemma keeps_if [keeps_rules]:
  "(b \<Longrightarrow> keeps I m) \<Longrightarrow> (\<not> b \<Longrightarrow> keeps I n) \<Longrightarrow> keeps I (if b then m else n)"
  by simp

lemma keeps_for_each [keeps_rules]:
  "(\<And>x. x \<in> set xs \<Longrightarrow> keeps I (f x)) \<Longrightarrow> keeps I (for_each xs f)"
  unfolding keeps_triple by (rule triple_for_each)

lemma keeps_option [keeps_rules]:
  "(x = None \<Longrightarrow> keeps I m) \<Longrightarrow> (\<And>y. x = Some y \<Longrightarrow> keeps I (f y)) \<Longrightarrow>
   keeps I (case x of None \<Rightarrow> m | Some y \<Rightarrow> f y)"
  by (cases x) auto

text \<open>A value read from the state is read from a state with the invariant.\<close>

lemma keeps_gets_seq:
  "(\<And>s. I s \<Longrightarrow> keeps I (g (f s))) \<Longrightarrow> keeps I (seq (gets f) g)"
  by (auto simp: keeps_def seq_def gets_def)

lemma keeps_lift_seq: "(\<And>x. r = Inr x \<Longrightarrow> keeps I (f x)) \<Longrightarrow> keeps I (seq (lift_res r) f)"
  by (auto simp: keeps_def seq_lift_run split: sum.split)

lemma keeps_read_seq:
  "(\<And>s x. I s \<Longrightarrow> f s = Inr x \<Longrightarrow> keeps I (g x)) \<Longrightarrow> keeps I (seq (\<lambda>s. (f s, s)) g)"
  by (auto simp: keeps_def seq_def split: sum.split)

text \<open>Statements that only keep the invariant, before one that does more.\<close>

lemma triple_keeps_seq: "keeps P m \<Longrightarrow> (\<And>x. triple P (f x) Q (\<lambda>_. P)) \<Longrightarrow> triple P (seq m f) Q (\<lambda>_. P)"
  unfolding keeps_triple by (rule triple_seq)

lemma triple_pure: "(p \<Longrightarrow> triple P m Q E) \<Longrightarrow> triple (\<lambda>s. P s \<and> p) m Q E"
  by (auto simp: triple_def)

section \<open>Byte strings and slices\<close>

type_synonym byte = "8 word"
type_synonym bytes = "byte list"

text \<open>
  \<open>xs[:j]\<close> with Python's negative indices: a negative \<open>j\<close> counts from the end and an index
  out of range is clamped.
\<close>

definition py_take :: "int \<Rightarrow> 'a list \<Rightarrow> 'a list" where
  "py_take j xs = (if 0 \<le> j then take (nat j) xs else take (nat (int (length xs) + j)) xs)"

definition slice :: "nat \<Rightarrow> nat \<Rightarrow> 'a list \<Rightarrow> 'a list" where
  "slice i j xs = take (j - i) (drop i xs)"

lemma length_slice [simp]: "length (slice i j xs) = min (j - i) (length xs - i)"
  by (simp add: slice_def)

lemma slice_0 [simp]: "slice 0 j xs = take j xs"
  by (simp add: slice_def)

text \<open>Unsigned big-endian integers, as \<open>struct.pack\<close> writes and \<open>struct.unpack\<close> reads them.\<close>

fun be_val :: "bytes \<Rightarrow> nat" where
  "be_val [] = 0"
| "be_val (b # bs) = unat b * 256 ^ length bs + be_val bs"

fun be_bytes :: "nat \<Rightarrow> nat \<Rightarrow> bytes" where
  "be_bytes 0 n = []"
| "be_bytes (Suc w) n = of_nat (n div 256 ^ w) # be_bytes w (n mod 256 ^ w)"

lemma length_be_bytes [simp]: "length (be_bytes w n) = w"
  by (induction w arbitrary: n) auto

lemma be_val_be_bytes: "n < 256 ^ w \<Longrightarrow> be_val (be_bytes w n) = n"
proof (induction w arbitrary: n)
  case 0
  then show ?case by simp
next
  case (Suc w)
  then have "n div 256 ^ w < 256"
    by (simp add: less_mult_imp_div_less)
  then have "unat (of_nat (n div 256 ^ w) :: byte) = n div 256 ^ w"
    by (simp add: unat_of_nat)
  moreover have "be_val (be_bytes w (n mod 256 ^ w)) = n mod 256 ^ w"
    by (rule Suc.IH) simp
  ultimately show ?case by (simp add: div_mult_mod_eq)
qed

lemma be_val_bound: "be_val bs < 256 ^ length bs"
proof (induction bs)
  case Nil
  then show ?case by simp
next
  case (Cons b bs)
  have "unat b < 256" using unsigned_less [of b] by simp
  have "unat b * 256 ^ length bs + be_val bs < (unat b + 1) * 256 ^ length bs"
    using Cons by simp
  also have "\<dots> \<le> 256 * 256 ^ length bs"
    using \<open>unat b < 256\<close> by (intro mult_le_mono1) simp
  finally show ?case by simp
qed

lemma be_val_zeros: "be_val (replicate n 0 @ bs) = be_val bs"
  by (induction n) simp_all

lemma be_val_replicate_zero [simp]: "be_val (replicate n 0) = 0"
  using be_val_zeros [of n "[]"] by simp

lemma be_bytes_be_val: "be_bytes (length bs) (be_val bs) = bs"
proof (induction bs)
  case Nil
  then show ?case by simp
next
  case (Cons b bs)
  have "(unat b * 256 ^ length bs + be_val bs) div 256 ^ length bs = unat b"
    using be_val_bound [of bs] by (simp add: div_add1_eq)
  moreover have "(unat b * 256 ^ length bs + be_val bs) mod 256 ^ length bs = be_val bs"
    using be_val_bound [of bs] by simp
  ultimately show ?case using Cons by simp
qed

section \<open>Dictionaries\<close>

text \<open>
  A dictionary is an association list in insertion order: assigning to a key that is present
  keeps its place, a new key goes to the end (\<open>AList.update\<close>), and \<open>del\<close> removes it
  (\<open>AList.delete\<close>).
\<close>

type_synonym ('k, 'v) dict = "('k \<times> 'v) list"

lemma set_delete_subset: "set (AList.delete k d) \<subseteq> set d"
  by (auto simp: AList.delete_eq)

lemma set_update_subset: "set (AList.update k v d) \<subseteq> insert (k, v) (set d)"
  by (induction d) auto

lemma in_keys_delete: "k' \<in> fst ` set (AList.delete k d) \<longleftrightarrow> k' \<noteq> k \<and> k' \<in> fst ` set d"
  by (force simp: AList.delete_eq)

lemma length_delete_less:
  "k \<in> fst ` set d \<Longrightarrow> length (AList.delete k d) < length d"
  unfolding AList.delete_eq by (auto intro!: length_filter_less)

section \<open>Stable sorting\<close>

text \<open>\<open>sorted(xs, key=f)\<close> is stable, as \<open>sort_key\<close> is.\<close>

lemma sort_key_sublist_prefix:
  assumes "sorted (map f xs)"
  shows "sort_key f xs = xs"
  using assms by (rule sort_key_id_if_sorted)

lemma filter_key_absent: "k \<notin> f ` set xs \<Longrightarrow> filter (\<lambda>x. f x \<noteq> k) xs = xs"
  by (induction xs) auto

lemma filter_concat_map:
  "filter P (concat (map g xs)) = concat (map (\<lambda>x. filter P (g x)) xs)"
  by (induction xs) auto

lemma mset_concat_map:
  "mset (concat (map f xs)) = \<Sum>\<^sub># (image_mset (\<lambda>x. mset (f x)) (mset xs))"
  by (induction xs) auto

lemma concat_all_empty: "(\<And>x. x \<in> set xs \<Longrightarrow> g x = []) \<Longrightarrow> concat (map g xs) = []"
  by (induction xs) auto

end
