(* ===== verification/Xor_Metric.thy ===== *)
theory Xor_Metric
  imports Prelude
begin

text \<open>
  The id space of Kademlia and its XOR metric. The ranges of the routing table's buckets are
  dyadic intervals (all ids with a given bit prefix). Seen from any target, a dyadic interval
  is a contiguous band of distances, and two disjoint ones are disjoint bands: this is why
  comparing buckets by the distance of one of their points compares all their nodes.
\<close>

unbundle bit_operations_syntax

lemma xor_right_cancel_int: "(x::int) XOR t = y XOR t \<longleftrightarrow> x = y"
  by (auto simp: bit_eq_iff bit_xor_iff)

lemma drop_bit_less_int: "drop_bit v (x::int) < drop_bit v y \<Longrightarrow> x < y"
  by (metis drop_bit_eq_div leD le_less_linear zdiv_mono1 zero_less_numeral zero_less_power)

section \<open>Dyadic intervals\<close>

definition dyadic_at :: "nat \<Rightarrow> int \<Rightarrow> int \<Rightarrow> bool" where
  "dyadic_at w s e \<longleftrightarrow> s mod 2 ^ w = 0 \<and> e = s + 2 ^ w - 1"

definition dyadic :: "int \<Rightarrow> int \<Rightarrow> bool" where
  "dyadic s e \<longleftrightarrow> (\<exists>w. dyadic_at w s e)"

lemma dyadic_at_mem:
  assumes "dyadic_at w s e"
  shows "s \<le> x \<and> x \<le> e \<longleftrightarrow> drop_bit w x = drop_bit w s"
proof -
  have s: "s = 2 ^ w * (s div 2 ^ w)" and e: "e = s + 2 ^ w - 1"
    using assms by (auto simp: dyadic_at_def mult_div_mod_eq [symmetric])
  have pos: "(0::int) < 2 ^ w" by simp
  have "s \<le> x \<and> x \<le> e \<longleftrightarrow> x div 2 ^ w = s div 2 ^ w"
  proof
    assume "s \<le> x \<and> x \<le> e"
    then have "0 \<le> x - s" "x - s < 2 ^ w" using e by auto
    then have "(x - s) div 2 ^ w = 0" by (rule div_pos_pos_trivial)
    moreover have "x div 2 ^ w = ((x - s) + 2 ^ w * (s div 2 ^ w)) div 2 ^ w"
      using s by simp
    ultimately show "x div 2 ^ w = s div 2 ^ w" using pos by simp
  next
    assume eq: "x div 2 ^ w = s div 2 ^ w"
    have x: "x = 2 ^ w * (x div 2 ^ w) + x mod 2 ^ w" by simp
    have "x = s + x mod 2 ^ w" using x s unfolding eq by linarith
    moreover have "0 \<le> x mod 2 ^ w" "x mod 2 ^ w < 2 ^ w" using pos by auto
    ultimately show "s \<le> x \<and> x \<le> e" using e by linarith
  qed
  then show ?thesis by (simp add: drop_bit_eq_div)
qed

lemma dyadic_at_lower_mono:
  assumes "dyadic_at w s e" "s \<le> x" "x \<le> e" "s \<le> y" "y \<le> e" "w \<le> v"
  shows "drop_bit v x = drop_bit v y"
proof -
  have "drop_bit w x = drop_bit w y"
    using assms dyadic_at_mem [OF assms(1), of x] dyadic_at_mem [OF assms(1), of y] by simp
  then have "drop_bit (v - w) (drop_bit w x) = drop_bit (v - w) (drop_bit w y)" by simp
  then show ?thesis using \<open>w \<le> v\<close> by (simp add: drop_bit_drop_bit)
qed

text \<open>The midpoint the code splits at halves a dyadic interval of two or more ids.\<close>

lemma dyadic_split:
  assumes "dyadic s e" "s < e"
  shows "dyadic s (s + (e - s) div 2)" "dyadic (s + (e - s) div 2 + 1) e"
proof -
  from assms(1) obtain w where w: "s mod 2 ^ w = 0" "e = s + 2 ^ w - 1"
    by (auto simp: dyadic_def dyadic_at_def)
  with assms(2) obtain v where v: "w = Suc v" by (cases w) auto
  have "(2 * (2::int) ^ v - 1) div 2 = 2 ^ v - 1" by linarith
  then have mid: "s + (e - s) div 2 = s + 2 ^ v - 1" using w(2) v by simp
  have d: "(2::int) ^ v dvd s" using w(1) v by (auto simp: mod_eq_0_iff_dvd dest: dvd_mult_right)
  then show "dyadic s (s + (e - s) div 2)"
    unfolding mid dyadic_def dyadic_at_def by (intro exI [of _ v]) simp
  have "(2::int) ^ v dvd s + 2 ^ v" using d by simp
  moreover have "e = s + 2 ^ v + 2 ^ v - 1" using w(2) v by simp
  ultimately show "dyadic (s + (e - s) div 2 + 1) e"
    unfolding mid dyadic_def dyadic_at_def by (intro exI [of _ v]) auto
qed

section \<open>The order of two dyadic intervals seen from a target\<close>

lemma xor_order_drop_bit:
  fixes x y x' y' t :: int
  assumes "drop_bit v x = drop_bit v x'" "drop_bit v y = drop_bit v y'"
    and "drop_bit v x \<noteq> drop_bit v y" and "x XOR t < y XOR t"
  shows "x' XOR t < y' XOR t"
proof -
  let ?d = "\<lambda>z. drop_bit v (z XOR t)"
  have "?d x \<noteq> ?d y" using assms(3) by (simp add: drop_bit_xor xor_right_cancel_int)
  moreover have "?d x \<le> ?d y" using assms(4) by (simp add: drop_bit_eq_div zdiv_mono1)
  moreover have "?d x = ?d x'" "?d y = ?d y'" using assms(1,2) by (simp_all add: drop_bit_xor)
  ultimately have "?d x' < ?d y'" by simp
  then show ?thesis by (rule drop_bit_less_int)
qed

lemma dyadic_order:
  assumes "dyadic s e" "dyadic s' e'" and disj: "e < s' \<or> e' < s"
    and x: "s \<le> x" "x \<le> e" "s \<le> x'" "x' \<le> e"
    and y: "s' \<le> y" "y \<le> e'" "s' \<le> y'" "y' \<le> e'"
    and less: "x XOR t < y XOR t"
  shows "x' XOR t < y' XOR t"
proof -
  from assms(1,2) obtain w w' where w: "dyadic_at w s e" "dyadic_at w' s' e'"
    by (auto simp: dyadic_def)
  let ?v = "max w w'"
  have "drop_bit ?v x = drop_bit ?v x'"
    by (rule dyadic_at_lower_mono [OF w(1) x]) simp
  moreover have "drop_bit ?v y = drop_bit ?v y'"
    by (rule dyadic_at_lower_mono [OF w(2) y]) simp
  moreover have "drop_bit ?v x \<noteq> drop_bit ?v y"
  proof (cases "w \<le> w'")
    case True
    then have v: "?v = w'" by simp
    have "\<not> (s' \<le> x \<and> x \<le> e')" using x disj by linarith
    then show ?thesis unfolding v dyadic_at_mem [OF w(2), of x]
      using dyadic_at_mem [OF w(2), of y] y by metis
  next
    case False
    then have v: "?v = w" by simp
    have "\<not> (s \<le> y \<and> y \<le> e)" using y disj by linarith
    then show ?thesis unfolding v dyadic_at_mem [OF w(1), of y]
      using dyadic_at_mem [OF w(1), of x] x by metis
  qed
  ultimately show ?thesis using less by (rule xor_order_drop_bit)
qed

end
