(* ===== verification/Kademlia_Node.thy ===== *)
theory Kademlia_Node
  imports Xor_Metric
begin

text \<open>
  The constants of \<open>devp2p/kademlia.py\<close> and its \<open>Node\<close>. Python integers are \<open>int\<close>. A node
  carries the identity of its Python object (\<open>oref\<close>): two objects can be equal (same public
  key) without being the same object, and attributes are set on the object.
\<close>

unbundle bit_operations_syntax

definition k_b :: int where "k_b = 8"
definition k_bucket_size :: nat where "k_bucket_size = 16"
definition k_request_timeout :: rat where "k_request_timeout = 3 * 300 / 1000"
definition k_idle_bucket_refresh_interval :: rat where "k_idle_bucket_refresh_interval = 3600"
definition k_find_concurrency :: nat where "k_find_concurrency = 3"
definition k_pubkey_size :: nat where "k_pubkey_size = 512"
definition k_id_size :: nat where "k_id_size = 256"
definition k_max_node_id :: int where "k_max_node_id = 2 ^ k_id_size - 1"

text \<open>
  \<open>utils.big_endian_to_int\<close>: leading zero bytes are stripped, the rest goes to the
  deserializer of \<open>rlp.sedes.big_endian_int\<close>, a parameter.
\<close>

definition big_endian_to_int :: "(bytes \<Rightarrow> int res) \<Rightarrow> bytes \<Rightarrow> int res" where
  "big_endian_to_int deserialize s = deserialize (dropWhile (\<lambda>b. b = 0) s)"

record node =
  oref :: nat
  pubkey :: bytes
  node_id :: int

text \<open>\<open>Node.__init__\<close>: \<open>sha3\<close> and the deserializer are the libraries' functions.\<close>

definition mk_node :: "(bytes \<Rightarrow> bytes) \<Rightarrow> (bytes \<Rightarrow> int res) \<Rightarrow> nat \<Rightarrow> bytes \<Rightarrow> node res" where
  "mk_node sha3 deserialize r pk =
     bind_res (assert_res (length pk = 64)) (\<lambda>_.
     bind_res (if k_id_size = 512 then big_endian_to_int deserialize pk
               else big_endian_to_int deserialize (sha3 pk)) (\<lambda>i.
     Inr \<lparr>oref = r, pubkey = pk, node_id = i\<rparr>))"

definition distance :: "node \<Rightarrow> node \<Rightarrow> int" where
  "distance n other = node_id n XOR node_id other"

definition id_distance :: "int \<Rightarrow> node \<Rightarrow> int" where
  "id_distance i n = node_id n XOR i"

definition node_lt :: "node \<Rightarrow> node \<Rightarrow> bool" where
  "node_lt n other \<longleftrightarrow> node_id n < node_id other"

definition node_eq :: "node \<Rightarrow> node \<Rightarrow> bool" where
  "node_eq n other \<longleftrightarrow> pubkey n = pubkey other"

text \<open>\<open>node in nodes\<close> and \<open>nodes.remove(node)\<close> compare with \<open>__eq__\<close>, so by public key.\<close>

definition node_mem :: "node \<Rightarrow> node list \<Rightarrow> bool" where
  "node_mem n ns \<longleftrightarrow> list_ex (\<lambda>m. node_eq m n) ns"

fun node_remove :: "node \<Rightarrow> node list \<Rightarrow> node list" where
  "node_remove n [] = []"
| "node_remove n (m # ms) = (if node_eq m n then ms else m # node_remove n ms)"

section \<open>Facts\<close>

lemma node_eq_refl [simp]: "node_eq n n"
  by (simp add: node_eq_def)

lemma node_mem_iff: "node_mem n ns \<longleftrightarrow> pubkey n \<in> pubkey ` set ns"
  unfolding node_mem_def node_eq_def list_ex_iff by (metis (no_types, lifting) imageE imageI)

lemma node_mem_simps [simp]:
  "\<not> node_mem n []" "node_mem n (m # ms) \<longleftrightarrow> node_eq m n \<or> node_mem n ms"
  by (simp_all add: node_mem_def)

lemma set_node_remove: "set (node_remove n ns) \<subseteq> set ns"
  by (induction ns) auto

lemma node_remove_distinct:
  assumes "distinct (map pubkey ns)"
  shows "node_remove n ns = filter (\<lambda>m. pubkey m \<noteq> pubkey n) ns"
  using assms
proof (induction ns)
  case Nil
  then show ?case by simp
next
  case (Cons m ms)
  have "filter (\<lambda>x. pubkey x \<noteq> pubkey m) ms = ms"
    using Cons.prems by (intro filter_True) (simp, metis imageI)
  with Cons show ?case by (auto simp: node_eq_def)
qed

lemma distinct_node_remove:
  "distinct (map pubkey ns) \<Longrightarrow> distinct (map pubkey (node_remove n ns))"
  by (simp add: node_remove_distinct distinct_map_filter)

lemma length_node_remove:
  "node_mem n ns \<Longrightarrow> length (node_remove n ns) = length ns - 1"
proof (induction ns)
  case Nil
  then show ?case by simp
next
  case (Cons m ms)
  then show ?case by (cases ms) auto
qed

lemma node_remove_id: "\<not> node_mem n ns \<Longrightarrow> node_remove n ns = ns"
  by (induction ns) auto

lemma mk_node_fields:
  "mk_node sha3 deserialize r pk = Inr n \<Longrightarrow>
   pubkey n = pk \<and> oref n = r \<and> length pk = 64 \<and>
   big_endian_to_int deserialize (sha3 pk) = Inr (node_id n)"
  by (auto simp: mk_node_def bind_res_eq_Inr k_id_size_def)

end
