(* ===== verification/Bucket_Interface.thy ===== *)
theory Bucket_Interface
  imports Kademlia_Node
begin

text \<open>
  The contract between the routing table (client) and its buckets (provider): what the table
  relies on when it adds to, removes from and splits a bucket, and the facts it derives for a
  list of buckets that tiles the id space.
\<close>

section \<open>Adjacent ranges\<close>

fun tiling :: "int \<Rightarrow> (int \<times> int) list \<Rightarrow> int \<Rightarrow> bool" where
  "tiling a [] z \<longleftrightarrow> a = z"
| "tiling a (r # rs) z \<longleftrightarrow> fst r = a \<and> a \<le> snd r \<and> tiling (snd r + 1) rs z"

lemma tiling_append: "tiling a (xs @ ys) z \<longleftrightarrow> (\<exists>m. tiling a xs m \<and> tiling m ys z)"
  by (induction xs arbitrary: a) auto

lemma tiling_le: "tiling a rs z \<Longrightarrow> a \<le> z"
  by (induction rs arbitrary: a) (auto, fastforce)

lemma tiling_bounds:
  "tiling a rs z \<Longrightarrow> r \<in> set rs \<Longrightarrow> a \<le> fst r \<and> fst r \<le> snd r \<and> snd r < z"
proof (induction rs arbitrary: a)
  case Nil
  then show ?case by simp
next
  case (Cons q rs)
  then have le: "snd q + 1 \<le> z" by (auto dest: tiling_le)
  show ?case
  proof (cases "r = q")
    case True
    with Cons.prems le show ?thesis by auto
  next
    case False
    with Cons.prems have "r \<in> set rs" "tiling (snd q + 1) rs z" "a \<le> snd q" by auto
    with Cons.IH show ?thesis by fastforce
  qed
qed

lemma tiling_mem:
  "tiling a rs z \<Longrightarrow> a \<le> x \<Longrightarrow> x < z \<Longrightarrow> \<exists>r \<in> set rs. fst r \<le> x \<and> x \<le> snd r"
proof (induction rs arbitrary: a)
  case (Cons r rs)
  show ?case
  proof (cases "x \<le> snd r")
    case False
    with Cons.prems have "\<exists>r\<in>set rs. fst r \<le> x \<and> x \<le> snd r" by (intro Cons.IH) auto
    then show ?thesis by auto
  qed (use Cons.prems in auto)
qed auto

lemma tiling_disjoint:
  assumes "tiling a rs z" "i < j" "j < length rs"
  shows "snd (rs ! i) < fst (rs ! j)"
  using assms
proof (induction rs arbitrary: a i j)
  case Nil
  then show ?case by simp
next
  case (Cons r rs)
  then obtain j' where j: "j = Suc j'" by (cases j) auto
  show ?case
  proof (cases i)
    case 0
    have "snd r + 1 \<le> fst (rs ! j')"
      using Cons.prems j tiling_bounds [of "snd r + 1" rs z "rs ! j'"] by auto
    with 0 j show ?thesis by simp
  next
    case (Suc i')
    with Cons j show ?thesis by auto
  qed
qed

lemma tiling_split_at:
  assumes "tiling a rs z" "i < length rs" "fst l = fst (rs ! i)" "fst l \<le> snd l"
    "fst u = snd l + 1" "fst u \<le> snd u" "snd u = snd (rs ! i)"
  shows "tiling a (take i rs @ l # u # drop (Suc i) rs) z"
proof -
  have "tiling a (take i rs @ rs ! i # drop (Suc i) rs) z"
    using assms(1,2) by (simp add: id_take_nth_drop [symmetric])
  with assms(3-) show ?thesis by (auto simp: tiling_append)
qed

section \<open>The interface\<close>

locale node_bucket =
  fixes members :: "'b \<Rightarrow> node list"
    and cached :: "'b \<Rightarrow> node list"
    and lo :: "'b \<Rightarrow> int"
    and hi :: "'b \<Rightarrow> int"
    and add :: "rat \<Rightarrow> node \<Rightarrow> 'b \<Rightarrow> 'b \<times> node option"
    and remove :: "node \<Rightarrow> 'b \<Rightarrow> 'b"
    and split :: "rat \<Rightarrow> 'b \<Rightarrow> 'b \<times> 'b"
    and invar :: "'b \<Rightarrow> bool"
  assumes invar_dyadic: "invar b \<Longrightarrow> dyadic (lo b) (hi b)"
    and invar_range: "invar b \<Longrightarrow> n \<in> set (members b) \<union> set (cached b) \<Longrightarrow>
           lo b \<le> node_id n \<and> node_id n \<le> hi b"
    and invar_distinct: "invar b \<Longrightarrow> distinct (map pubkey (members b))"
    and add_frame: "add t n b = (b', r) \<Longrightarrow> lo b' = lo b \<and> hi b' = hi b \<and> cached b' = cached b"
    and add_invar: "invar b \<Longrightarrow> lo b \<le> node_id n \<Longrightarrow> node_id n \<le> hi b \<Longrightarrow>
           add t n b = (b', r) \<Longrightarrow> invar b'"
    and add_None: "invar b \<Longrightarrow> add t n b = (b', None) \<Longrightarrow>
           members b' = filter (\<lambda>m. pubkey m \<noteq> pubkey n) (members b) @ [n]"
    and add_Some: "invar b \<Longrightarrow> add t n b = (b', Some c) \<Longrightarrow>
           members b' = members b \<and> pubkey n \<notin> pubkey ` set (members b) \<and>
           members b \<noteq> [] \<and> c = hd (members b)"
    and remove_frame: "lo (remove n b) = lo b \<and> hi (remove n b) = hi b \<and>
           cached (remove n b) = cached b"
    and remove_invar: "invar b \<Longrightarrow> invar (remove n b)"
    and remove_members: "invar b \<Longrightarrow>
           members (remove n b) = filter (\<lambda>m. pubkey m \<noteq> pubkey n) (members b)"
    and split_law: "invar b \<Longrightarrow> lo b < hi b \<Longrightarrow> split t b = (l, u) \<Longrightarrow>
           invar l \<and> invar u \<and> lo l = lo b \<and> hi u = hi b \<and> lo u = hi l + 1 \<and>
           lo b \<le> hi l \<and> hi l < hi b \<and>
           members l = filter (\<lambda>m. node_id m \<le> hi l) (members b) \<and>
           members u = filter (\<lambda>m. \<not> node_id m \<le> hi l) (members b) \<and>
           cached l = filter (\<lambda>m. node_id m \<le> hi l) (cached b) \<and>
           cached u = filter (\<lambda>m. \<not> node_id m \<le> hi l) (cached b)"
begin

abbreviation range :: "'b \<Rightarrow> int \<times> int" where
  "range b \<equiv> (lo b, hi b)"

text \<open>A list of buckets that covers the ids from \<open>a\<close> up to, not including, \<open>z\<close>.\<close>

definition table_ok :: "int \<Rightarrow> 'b list \<Rightarrow> int \<Rightarrow> bool" where
  "table_ok a bs z \<longleftrightarrow> tiling a (map range bs) z \<and> (\<forall>b \<in> set bs. invar b)"

definition contents :: "'b list \<Rightarrow> node list" where
  "contents bs = concat (map members bs)"

lemma table_ok_nth: "table_ok a bs z \<Longrightarrow> i < length bs \<Longrightarrow> invar (bs ! i)"
  by (simp add: table_ok_def)

lemma table_ok_update:
  assumes "table_ok a bs z" "i < length bs" "invar b'" "lo b' = lo (bs ! i)" "hi b' = hi (bs ! i)"
  shows "table_ok a (bs[i := b']) z"
proof -
  have "map range (bs[i := b']) = map range bs"
    using assms(2,4,5) by (simp add: map_update list_update_same_conv)
  with assms show ?thesis by (auto simp: table_ok_def dest: set_update_subset_insert [THEN subsetD])
qed

lemma table_ok_split:
  assumes ok: "table_ok a bs z" "i < length bs" and lt: "lo (bs ! i) < hi (bs ! i)"
    and sp: "split t (bs ! i) = (l, u)"
  shows "table_ok a (take i bs @ l # u # drop (Suc i) bs) z"
proof -
  note law = split_law [OF table_ok_nth [OF ok] lt sp]
  have "tiling a (take i (map range bs) @ range l # range u # drop (Suc i) (map range bs)) z"
    using ok law by (intro tiling_split_at) (auto simp: table_ok_def)
  with ok law show ?thesis
    by (auto simp: table_ok_def take_map drop_map dest: in_set_takeD in_set_dropD)
qed

lemma contents_at:
  assumes "i < length bs"
  shows "contents bs = contents (take i bs) @ members (bs ! i) @ contents (drop (Suc i) bs)"
  using arg_cong [OF id_take_nth_drop [OF assms], of contents] by (simp add: contents_def)

lemma contents_update_at:
  "i < length bs \<Longrightarrow>
   contents (bs[i := b']) = contents (take i bs) @ members b' @ contents (drop (Suc i) bs)"
  by (simp add: upd_conv_take_nth_drop contents_def)

lemma contents_split_mset:
  assumes ok: "table_ok a bs z" "i < length bs" and lt: "lo (bs ! i) < hi (bs ! i)"
    and sp: "split t (bs ! i) = (l, u)"
  shows "mset (contents (take i bs @ l # u # drop (Suc i) bs)) = mset (contents bs)"
proof -
  have "mset (members l) + mset (members u) = mset (members (bs ! i))"
    using split_law [OF table_ok_nth [OF ok] lt sp] by (simp add: multiset_partition [symmetric])
  then show ?thesis unfolding contents_at [OF ok(2)] by (simp add: contents_def)
qed

text \<open>The node with a given id can only be in the bucket whose range holds the id.\<close>

lemma contents_in_bucket:
  assumes ok: "table_ok a bs z" "i < length bs" and n: "n \<in> set (contents bs)"
    and r: "lo (bs ! i) \<le> node_id n" "node_id n \<le> hi (bs ! i)"
  shows "n \<in> set (members (bs ! i))"
proof -
  from n obtain j where j: "j < length bs" "n \<in> set (members (bs ! j))"
    unfolding contents_def by (auto simp: set_conv_nth [of bs])
  have t: "tiling a (map range bs) z" using ok by (simp add: table_ok_def)
  have nj: "lo (bs ! j) \<le> node_id n" "node_id n \<le> hi (bs ! j)"
    using invar_range [OF table_ok_nth [OF ok(1) j(1)]] j(2) by auto
  have "\<not> i < j" "\<not> j < i"
    using tiling_disjoint [OF t, of i j] tiling_disjoint [OF t, of j i] j(1) ok(2) nj r by auto
  then have "i = j" by simp
  with j(2) show ?thesis by simp
qed

lemma table_ok_Cons:
  "table_ok a (b # bs) z \<longleftrightarrow>
   invar b \<and> lo b = a \<and> a \<le> hi b \<and> table_ok (hi b + 1) bs z"
  by (auto simp: table_ok_def)

lemma contents_bounds:
  "table_ok a bs z \<Longrightarrow> n \<in> set (contents bs) \<Longrightarrow> a \<le> node_id n \<and> node_id n < z"
proof (induction bs arbitrary: a)
  case Nil
  then show ?case by (simp add: contents_def)
next
  case (Cons b bs)
  then have "hi b < z" using tiling_le by (fastforce simp: table_ok_def)
  with Cons show ?case
    using invar_range [of b n] by (fastforce simp: table_ok_Cons contents_def)
qed

lemma contents_distinct:
  assumes "table_ok a bs z"
    and "\<And>m n. m \<in> set (contents bs) \<Longrightarrow> n \<in> set (contents bs) \<Longrightarrow> pubkey m = pubkey n \<Longrightarrow>
      node_id m = node_id n"
  shows "distinct (map pubkey (contents bs))"
  using assms
proof (induction bs arbitrary: a)
  case Nil
  then show ?case by (simp add: contents_def)
next
  case (Cons b bs)
  then have b: "invar b" and ok: "table_ok (hi b + 1) bs z" by (simp_all add: table_ok_Cons)
  have c: "contents (b # bs) = members b @ contents bs" by (simp add: contents_def)
  have "distinct (map pubkey (contents bs))"
    using Cons.IH [OF ok] Cons.prems(2) unfolding c by simp
  moreover have "pubkey m \<noteq> pubkey n" if "m \<in> set (members b)" "n \<in> set (contents bs)" for m n
    using Cons.prems(2) [of m n] invar_range [OF b, of m] contents_bounds [OF ok, of n] that
    unfolding c by auto
  ultimately show ?case using invar_distinct [OF b] unfolding c by force
qed

end

end
