(* ===== verification/KBucket.thy ===== *)
theory KBucket
  imports Bucket_Interface
begin

text \<open>
  \<open>KBucket\<close> of \<open>devp2p/kademlia.py\<close>: at most 16 nodes of an id range, least recently seen
  first, and the interface the routing table uses it through.
\<close>

unbundle bit_operations_syntax

record kbucket =
  kb_start :: int
  kb_end :: int
  kb_nodes :: "node list"
  kb_replacement_cache :: "node list"
  kb_last_updated :: rat

definition mk_kbucket :: "rat \<Rightarrow> int \<Rightarrow> int \<Rightarrow> kbucket" where
  "mk_kbucket now s e =
     \<lparr>kb_start = s, kb_end = e, kb_nodes = [], kb_replacement_cache = [], kb_last_updated = now\<rparr>"

definition midpoint :: "kbucket \<Rightarrow> int" where
  "midpoint b = kb_start b + (kb_end b - kb_start b) div 2"

definition kb_distance :: "kbucket \<Rightarrow> node \<Rightarrow> int" where
  "kb_distance b n = midpoint b XOR node_id n"

definition kb_id_distance :: "int \<Rightarrow> kbucket \<Rightarrow> int" where
  "kb_id_distance i b = midpoint b XOR i"

definition nodes_by_id_distance :: "kbucket \<Rightarrow> int \<Rightarrow> node list" where
  "nodes_by_id_distance b i = sort_key (id_distance i) (kb_nodes b)"

definition kb_len :: "kbucket \<Rightarrow> nat" where
  "kb_len b = length (kb_nodes b)"

definition kb_contains :: "kbucket \<Rightarrow> node \<Rightarrow> bool" where
  "kb_contains b n \<longleftrightarrow> node_mem n (kb_nodes b)"

definition is_full :: "kbucket \<Rightarrow> bool" where
  "is_full b \<longleftrightarrow> kb_len b = k_bucket_size"

definition kb_head :: "kbucket \<Rightarrow> node res" where
  "kb_head b = (case kb_nodes b of [] \<Rightarrow> Inl IndexError | n # _ \<Rightarrow> Inr n)"

definition kb_tail :: "kbucket \<Rightarrow> node res" where
  "kb_tail b = (if kb_nodes b = [] then Inl IndexError else Inr (last (kb_nodes b)))"

definition in_range :: "kbucket \<Rightarrow> node \<Rightarrow> bool" where
  "in_range b n \<longleftrightarrow> kb_start b \<le> node_id n \<and> node_id n \<le> kb_end b"

text \<open>
  The digits of \<open>bin(x)[2:]\<close> of a non-negative \<open>x\<close>, and \<open>to_binary\<close> of \<open>depth\<close>: padded with
  zeros on the left to \<open>k_id_size\<close>. A digit is \<open>True\<close> for '1'. Node ids come from
  \<open>big_endian_to_int\<close> and are never negative.
\<close>

fun bin_digits :: "nat \<Rightarrow> bool list" where
  "bin_digits n = (if n < 2 then [n = 1] else bin_digits (n div 2) @ [odd n])"

declare bin_digits.simps [simp del]

definition to_binary :: "int \<Rightarrow> bool list" where
  "to_binary x = (let b = bin_digits (nat x) in replicate (k_id_size - length b) False @ b)"

text \<open>
  \<open>depth\<close>: the loop over \<open>range(k_id_size)\<close> returns \<open>i - 1\<close> for the first \<open>i\<close> at which two
  prefixes of length \<open>i\<close> differ, and raises when there is none.
\<close>

fun first_difference :: "bool list list \<Rightarrow> nat list \<Rightarrow> int res" where
  "first_difference bits [] = Inl PlainException"
| "first_difference bits (i # is) =
     (if length (remdups (map (take i) bits)) \<noteq> 1 then Inr (int i - 1)
      else first_difference bits is)"

definition depth :: "kbucket \<Rightarrow> int res" where
  "depth b =
     (if length (kb_nodes b) < 2 then Inr (int k_id_size)
      else first_difference (map (\<lambda>n. to_binary (node_id n)) (kb_nodes b)) [0..<k_id_size])"

definition should_split :: "kbucket \<Rightarrow> bool res" where
  "should_split b =
     bind_res (depth b) (\<lambda>d. Inr (is_full b \<and> (d mod k_b \<noteq> 0 \<and> d \<noteq> int k_id_size)))"

text \<open>
  \<open>add_node\<close>: the bucket afterwards, and the eviction candidate when it was full. The last
  branch has 16 nodes or more, so \<open>head\<close> does not raise there.
\<close>

definition kb_add_node :: "rat \<Rightarrow> node \<Rightarrow> kbucket \<Rightarrow> kbucket \<times> node option" where
  "kb_add_node now n b =
     (let b = b\<lparr>kb_last_updated := now\<rparr> in
      if node_mem n (kb_nodes b) then
        (b\<lparr>kb_nodes := node_remove n (kb_nodes b) @ [n]\<rparr>, None)
      else if kb_len b < k_bucket_size then
        (b\<lparr>kb_nodes := kb_nodes b @ [n]\<rparr>, None)
      else (b, case kb_head b of Inl _ \<Rightarrow> None | Inr h \<Rightarrow> Some h))"

definition kb_remove_node :: "node \<Rightarrow> kbucket \<Rightarrow> kbucket" where
  "kb_remove_node n b =
     (if \<not> node_mem n (kb_nodes b) then b
      else b\<lparr>kb_nodes := node_remove n (kb_nodes b)\<rparr>)"

text \<open>\<open>split\<close>: both new buckets are filled through \<open>add_node\<close>, in the old order.\<close>

fun distribute_nodes :: "rat \<Rightarrow> int \<Rightarrow> node list \<Rightarrow> kbucket \<times> kbucket \<Rightarrow> kbucket \<times> kbucket" where
  "distribute_nodes now splitid [] lu = lu"
| "distribute_nodes now splitid (n # ns) (lower, upper) =
     (if node_id n \<le> splitid
      then distribute_nodes now splitid ns (fst (kb_add_node now n lower), upper)
      else distribute_nodes now splitid ns (lower, fst (kb_add_node now n upper)))"

fun distribute_cache :: "int \<Rightarrow> node list \<Rightarrow> kbucket \<times> kbucket \<Rightarrow> kbucket \<times> kbucket" where
  "distribute_cache splitid [] lu = lu"
| "distribute_cache splitid (n # ns) (lower, upper) =
     (if node_id n \<le> splitid
      then distribute_cache splitid ns
             (lower\<lparr>kb_replacement_cache := kb_replacement_cache lower @ [n]\<rparr>, upper)
      else distribute_cache splitid ns
             (lower, upper\<lparr>kb_replacement_cache := kb_replacement_cache upper @ [n]\<rparr>))"

definition kb_split :: "rat \<Rightarrow> kbucket \<Rightarrow> kbucket \<times> kbucket" where
  "kb_split now b =
     (let splitid = midpoint b;
          lower = mk_kbucket now (kb_start b) splitid;
          upper = mk_kbucket now (splitid + 1) (kb_end b)
      in distribute_cache splitid (kb_replacement_cache b)
           (distribute_nodes now splitid (kb_nodes b) (lower, upper)))"

section \<open>The bucket invariant\<close>

definition kb_wf :: "kbucket \<Rightarrow> bool" where
  "kb_wf b \<longleftrightarrow> dyadic (kb_start b) (kb_end b) \<and>
     (\<forall>n \<in> set (kb_nodes b) \<union> set (kb_replacement_cache b). in_range b n) \<and>
     distinct (map pubkey (kb_nodes b)) \<and> kb_len b \<le> k_bucket_size"

lemma kb_wf_parts:
  assumes "kb_wf b"
  shows "dyadic (kb_start b) (kb_end b)" "distinct (map pubkey (kb_nodes b))"
    "length (kb_nodes b) \<le> 16"
    "n \<in> set (kb_nodes b) \<Longrightarrow> in_range b n" "n \<in> set (kb_replacement_cache b) \<Longrightarrow> in_range b n"
  using assms by (auto simp: kb_wf_def kb_len_def k_bucket_size_def)

text \<open>The three outcomes of \<open>add_node\<close>.\<close>

lemma kb_add_node_cases [consumes 1, case_names known room full]:
  assumes "distinct (map pubkey (kb_nodes b))"
  obtains (known) "node_mem n (kb_nodes b)"
      "kb_add_node now n b =
        (b\<lparr>kb_last_updated := now,
           kb_nodes := filter (\<lambda>m. pubkey m \<noteq> pubkey n) (kb_nodes b) @ [n]\<rparr>, None)"
  | (room) "\<not> node_mem n (kb_nodes b)" "length (kb_nodes b) < 16"
      "kb_add_node now n b = (b\<lparr>kb_last_updated := now, kb_nodes := kb_nodes b @ [n]\<rparr>, None)"
  | (full) "\<not> node_mem n (kb_nodes b)" "16 \<le> length (kb_nodes b)"
      "kb_add_node now n b = (b\<lparr>kb_last_updated := now\<rparr>, Some (hd (kb_nodes b)))"
proof (cases "node_mem n (kb_nodes b)")
  case True
  with assms known show ?thesis by (simp add: kb_add_node_def Let_def node_remove_distinct)
next
  case False
  show ?thesis
  proof (cases "length (kb_nodes b) < 16")
    case True
    with False room show ?thesis
      by (simp add: kb_add_node_def Let_def kb_len_def k_bucket_size_def)
  next
    case False
    then obtain h t where "kb_nodes b = h # t" by (cases "kb_nodes b") auto
    with False full \<open>\<not> node_mem n (kb_nodes b)\<close> show ?thesis
      by (simp add: kb_add_node_def Let_def kb_len_def k_bucket_size_def kb_head_def)
  qed
qed

lemma kb_add_node_frame:
  assumes "kb_add_node now n b = (b', r)"
  shows "kb_start b' = kb_start b \<and> kb_end b' = kb_end b \<and>
    kb_replacement_cache b' = kb_replacement_cache b \<and> kb_last_updated b' = now"
  using assms by (auto simp: kb_add_node_def Let_def split: if_splits)

lemma not_node_mem_filter:
  "\<not> node_mem n ns \<Longrightarrow> filter (\<lambda>m. pubkey m \<noteq> pubkey n) ns = ns"
  by (simp add: node_mem_iff filter_key_absent)

lemma kb_add_node_wf:
  assumes "kb_wf b" "in_range b n" "kb_add_node now n b = (b', r)"
  shows "kb_wf b'"
proof -
  note p = kb_wf_parts [OF assms(1)]
  have d: "distinct (map pubkey (filter (\<lambda>m. pubkey m \<noteq> pubkey n) (kb_nodes b) @ [n]))"
    using p(2) by (auto simp: distinct_map_filter)
  from p(2) show ?thesis
  proof (cases rule: kb_add_node_cases [where n = n and now = now])
    case known
    from known(1) obtain m where "m \<in> set (kb_nodes b)" "pubkey m = pubkey n"
      unfolding node_mem_iff by (metis imageE)
    then have "length (filter (\<lambda>m. pubkey m \<noteq> pubkey n) (kb_nodes b)) < length (kb_nodes b)"
      by (auto intro: length_filter_less [of m])
    with known assms p d show ?thesis
      by (auto simp: kb_wf_def in_range_def kb_len_def k_bucket_size_def)
  next
    case room
    with assms p d show ?thesis
      by (auto simp: kb_wf_def in_range_def kb_len_def k_bucket_size_def not_node_mem_filter)
  next
    case full
    with assms p show ?thesis
      by (auto simp: kb_wf_def in_range_def kb_len_def k_bucket_size_def)
  qed
qed

lemma kb_remove_node_eq:
  "distinct (map pubkey (kb_nodes b)) \<Longrightarrow>
   kb_remove_node n b = b\<lparr>kb_nodes := filter (\<lambda>m. pubkey m \<noteq> pubkey n) (kb_nodes b)\<rparr>"
  by (simp add: kb_remove_node_def node_remove_distinct not_node_mem_filter)

lemma kb_wf_filter:
  assumes "kb_wf b"
  shows "kb_wf (b\<lparr>kb_nodes := filter P (kb_nodes b)\<rparr>)"
proof -
  have "length (filter P (kb_nodes b)) \<le> k_bucket_size"
    using assms by (auto simp: kb_wf_def kb_len_def intro: order_trans [OF length_filter_le])
  with assms show ?thesis
    by (auto simp: kb_wf_def kb_len_def in_range_def distinct_map_filter)
qed

lemma kb_remove_node_wf: "kb_wf b \<Longrightarrow> kb_wf (kb_remove_node n b)"
  by (simp add: kb_remove_node_eq kb_wf_parts(2) kb_wf_filter)

section \<open>Splitting\<close>

lemma distribute_nodes_eq:
  assumes "distinct (map pubkey (kb_nodes l @ ns))" "distinct (map pubkey (kb_nodes u @ ns))"
    and "length (kb_nodes l @ ns) \<le> 16" "length (kb_nodes u @ ns) \<le> 16"
    and "kb_last_updated l = now" "kb_last_updated u = now"
  shows "distribute_nodes now s ns (l, u) =
    (l\<lparr>kb_nodes := kb_nodes l @ filter (\<lambda>n. node_id n \<le> s) ns\<rparr>,
     u\<lparr>kb_nodes := kb_nodes u @ filter (\<lambda>n. \<not> node_id n \<le> s) ns\<rparr>)"
  using assms
proof (induction ns arbitrary: l u)
  case Nil
  then show ?case by simp
next
  case (Cons n ns)
  have new: "\<not> node_mem n (kb_nodes l)" "\<not> node_mem n (kb_nodes u)"
    using Cons.prems(1,2) by (auto simp: node_mem_iff)
  have add: "fst (kb_add_node now n b) = b\<lparr>kb_nodes := kb_nodes b @ [n]\<rparr>"
    if "\<not> node_mem n (kb_nodes b)" "length (kb_nodes b) < 16" "kb_last_updated b = now" for b
    using that by (simp add: kb_add_node_def Let_def kb_len_def k_bucket_size_def)
  show ?case
    using Cons.prems new by (auto simp: add Cons.IH)
qed

lemma distribute_cache_eq:
  "distribute_cache s ns (l, u) =
    (l\<lparr>kb_replacement_cache := kb_replacement_cache l @ filter (\<lambda>n. node_id n \<le> s) ns\<rparr>,
     u\<lparr>kb_replacement_cache := kb_replacement_cache u @ filter (\<lambda>n. \<not> node_id n \<le> s) ns\<rparr>)"
  by (induction ns arbitrary: l u) auto

lemma kb_split_eq:
  assumes "distinct (map pubkey (kb_nodes b))" "length (kb_nodes b) \<le> 16"
  shows "kb_split now b =
    (\<lparr>kb_start = kb_start b, kb_end = midpoint b,
      kb_nodes = filter (\<lambda>n. node_id n \<le> midpoint b) (kb_nodes b),
      kb_replacement_cache = filter (\<lambda>n. node_id n \<le> midpoint b) (kb_replacement_cache b),
      kb_last_updated = now\<rparr>,
     \<lparr>kb_start = midpoint b + 1, kb_end = kb_end b,
      kb_nodes = filter (\<lambda>n. \<not> node_id n \<le> midpoint b) (kb_nodes b),
      kb_replacement_cache = filter (\<lambda>n. \<not> node_id n \<le> midpoint b) (kb_replacement_cache b),
      kb_last_updated = now\<rparr>)"
  using assms
  by (simp add: kb_split_def Let_def mk_kbucket_def distribute_nodes_eq distribute_cache_eq)

lemma midpoint_bounds:
  "kb_start b < kb_end b \<Longrightarrow> kb_start b \<le> midpoint b \<and> midpoint b < kb_end b"
  by (simp add: midpoint_def)

lemma kb_split_wf:
  assumes "kb_wf b" "kb_start b < kb_end b" "kb_split now b = (l, u)"
  shows "kb_wf l \<and> kb_wf u"
proof -
  note p = kb_wf_parts [OF assms(1)]
  have "length (filter P (kb_nodes b)) \<le> 16" for P
    using p(3) length_filter_le [of P "kb_nodes b"] by linarith
  with assms p dyadic_split [OF p(1) assms(2)] show ?thesis
    by (auto simp: kb_split_eq kb_wf_def in_range_def kb_len_def k_bucket_size_def midpoint_def
        distinct_map_filter)
qed

section \<open>The bucket implements the interface\<close>

interpretation kb: node_bucket kb_nodes kb_replacement_cache kb_start kb_end
    kb_add_node kb_remove_node kb_split kb_wf
proof (unfold_locales, goal_cases)
  case (1 b)
  then show ?case by (rule kb_wf_parts)
next
  case (2 b n)
  then show ?case using kb_wf_parts(4,5) [of b n] by (auto simp: in_range_def)
next
  case (3 b)
  then show ?case by (rule kb_wf_parts)
next
  case (4 t n b b' r)
  then show ?case by (auto dest: kb_add_node_frame)
next
  case (5 b n t b' r)
  then show ?case by (auto intro: kb_add_node_wf simp: in_range_def)
next
  case (6 b t n b')
  from kb_wf_parts(2) [OF 6(1)] show ?case
    by (cases rule: kb_add_node_cases [where n = n and now = t]) (use 6 in \<open>auto simp: not_node_mem_filter\<close>)
next
  case (7 b t n b' c)
  from kb_wf_parts(2) [OF 7(1)] show ?case
    by (cases rule: kb_add_node_cases [where n = n and now = t]) (use 7 in \<open>auto simp: node_mem_iff\<close>)
next
  case (8 n b)
  show ?case by (simp add: kb_remove_node_def)
next
  case (9 b n)
  then show ?case by (rule kb_remove_node_wf)
next
  case (10 b n)
  then show ?case using kb_wf_parts(2) by (simp add: kb_remove_node_eq)
next
  case (11 b t l u)
  note p = kb_wf_parts [OF 11(1)]
  show ?case using kb_split_wf [OF 11] midpoint_bounds [OF 11(2)] 11(3) p
    by (auto simp: kb_split_eq)
qed

end
