(* ===== verification/KBucket_Depth.thy ===== *)
theory KBucket_Depth
  imports KBucket
begin

text \<open>
  \<open>KBucket.depth\<close> against its specification: the number of leading bits (of 256) that all node
  ids of the bucket share.
\<close>

unbundle bit_operations_syntax

section \<open>The binary representation\<close>

lemma bin_digits_bits:
  defines "L n \<equiv> length (bin_digits n)"
  shows "bin_digits n = map (bit n) (rev [0..<L n]) \<and> n < 2 ^ L n \<and> (L n = 1 \<or> 2 ^ (L n - 1) \<le> n)"
proof (induction n rule: bin_digits.induct)
  case (1 n)
  show ?case
  proof (cases "n < 2")
    case True
    then have "n = 0 \<or> n = 1" by auto
    then show ?thesis by (auto simp: L_def bin_digits.simps [of n] bit_0)
  next
    case False
    let ?m = "n div 2"
    from False 1 have IH: "bin_digits ?m = map (bit ?m) (rev [0..<L ?m])" "?m < 2 ^ L ?m"
      "L ?m = 1 \<or> 2 ^ (L ?m - 1) \<le> ?m" by auto
    have L: "L n = Suc (L ?m)" using False by (simp add: L_def bin_digits.simps [of n])
    have "0 < L ?m" using IH(2) False by (cases "L ?m") auto
    have "rev [0..<Suc (L ?m)] = map Suc (rev [0..<L ?m]) @ [0]"
      by (simp add: upt_rec [of 0] map_Suc_upt [symmetric] rev_map [symmetric] del: upt_Suc)
    moreover have "bit n (Suc j) = bit ?m j" for j by (simp add: bit_Suc)
    ultimately have "bin_digits n = map (bit n) (rev [0..<L n])"
      using False IH(1) by (simp add: L bin_digits.simps [of n] bit_0 o_def del: upt_Suc)
    moreover have "n < 2 ^ L n" using IH(2) by (simp add: L)
    moreover have "2 ^ (L n - 1) \<le> n"
    proof (cases "L ?m = 1")
      case True
      with False show ?thesis by (simp add: L)
    next
      case c: False
      with IH(3) have "2 * 2 ^ (L ?m - 1) \<le> 2 * ?m" by simp
      with \<open>0 < L ?m\<close> show ?thesis by (cases "L ?m") (auto simp: L)
    qed
    ultimately show ?thesis by simp
  qed
qed

lemma to_binary_bits:
  assumes "0 \<le> x" "x < 2 ^ 256"
  shows "to_binary x = map (bit x) (rev [0..<256])"
proof -
  let ?n = "nat x" and ?L = "length (bin_digits (nat x))"
  note d = bin_digits_bits [of ?n]
  have n: "?n < 2 ^ 256" using assms by (simp add: nat_less_iff)
  have "?L \<le> 256"
  proof (rule ccontr)
    assume "\<not> ?L \<le> 256"
    then have "2 ^ 256 \<le> (2::nat) ^ (?L - 1)" by (intro power_increasing) auto
    with n d \<open>\<not> ?L \<le> 256\<close> show False by linarith
  qed
  then have split: "[0..<256] = [0..<?L] @ [?L..<256]" using upt_add_eq_append [of 0 ?L "256 - ?L"] by simp
  have "\<not> bit ?n j" if "?L \<le> j" for j
  proof -
    have "?n < 2 ^ j" using d that by (meson less_le_trans one_le_numeral power_increasing)
    then show ?thesis by (simp add: bit_iff_odd)
  qed
  then have "map (bit ?n) (rev [?L..<256]) = replicate (256 - ?L) False"
    by (intro replicate_eqI) auto
  then have "to_binary x = map (bit ?n) (rev [0..<256])"
    using d split by (simp add: to_binary_def Let_def k_id_size_def)
  moreover have "bit ?n = bit x" using assms(1) by (auto simp: fun_eq_iff bit_nat_iff)
  ultimately show ?thesis by simp
qed

lemma take_to_binary:
  assumes "0 \<le> x" "x < 2 ^ 256" "0 \<le> y" "y < 2 ^ 256" "i \<le> 256"
  shows "take i (to_binary x) = take i (to_binary y) \<longleftrightarrow> drop_bit (256 - i) x = drop_bit (256 - i) y"
proof -
  have hi: "\<not> bit z j" if "0 \<le> z" "z < 2 ^ 256" "256 \<le> j" for z :: int and j
  proof -
    have "z < 2 ^ j" using that by (meson less_le_trans one_le_numeral power_increasing)
    with that show ?thesis by (simp add: bit_iff_odd)
  qed
  have "take i (rev [0..<256]) = rev [256 - i..<256]"
    by (simp add: take_rev)
  then have "take i (to_binary x) = take i (to_binary y) \<longleftrightarrow> (\<forall>j\<in>{256 - i..<256}. bit x j = bit y j)"
    using assms by (simp add: to_binary_bits take_map)
  also have "\<dots> \<longleftrightarrow> (\<forall>k. bit x (256 - i + k) = bit y (256 - i + k))"
  proof
    assume l: "\<forall>j\<in>{256 - i..<256}. bit x j = bit y j"
    show "\<forall>k. bit x (256 - i + k) = bit y (256 - i + k)"
    proof
      fix k
      show "bit x (256 - i + k) = bit y (256 - i + k)"
        using l hi [of x "256 - i + k"] hi [of y "256 - i + k"] assms
        by (cases "256 - i + k < 256") auto
    qed
  next
    assume r: "\<forall>k. bit x (256 - i + k) = bit y (256 - i + k)"
    show "\<forall>j\<in>{256 - i..<256}. bit x j = bit y j"
      using r by (metis atLeastLessThan_iff le_add_diff_inverse)
  qed
  also have "\<dots> \<longleftrightarrow> drop_bit (256 - i) x = drop_bit (256 - i) y"
    by (simp add: bit_eq_iff [of "drop_bit _ x"] bit_drop_bit_eq)
  finally show ?thesis .
qed

section \<open>The loop\<close>

lemma remdups_length_1:
  assumes "xs \<noteq> []"
  shows "length (remdups xs) = 1 \<longleftrightarrow> (\<forall>x\<in>set xs. \<forall>y\<in>set xs. x = y)"
proof -
  have "length (remdups xs) = card (set xs)" by (simp add: length_remdups_card_conv)
  moreover have "card (set xs) = 1 \<longleftrightarrow> (\<forall>x\<in>set xs. \<forall>y\<in>set xs. x = y)"
    using assms by (auto simp: card_1_singleton_iff) (metis hd_in_set singletonI subsetI subset_antisym insert_subset empty_subsetI)
  ultimately show ?thesis by simp
qed

lemma first_difference_Inr:
  "first_difference bits [a..<b] = Inr d \<Longrightarrow>
   \<exists>i. a \<le> i \<and> i < b \<and> d = int i - 1 \<and> length (remdups (map (take i) bits)) \<noteq> 1 \<and>
       (\<forall>j. a \<le> j \<and> j < i \<longrightarrow> length (remdups (map (take j) bits)) = 1)"
proof (induction "b - a" arbitrary: a)
  case 0
  then show ?case by simp
next
  case (Suc n)
  then have ab: "[a..<b] = a # [Suc a..<b]" by (simp add: upt_conv_Cons)
  show ?case
  proof (cases "length (remdups (map (take a) bits)) = 1")
    case True
    with Suc ab obtain i where "Suc a \<le> i" "i < b" "d = int i - 1"
      "length (remdups (map (take i) bits)) \<noteq> 1"
      "\<forall>j. Suc a \<le> j \<and> j < i \<longrightarrow> length (remdups (map (take j) bits)) = 1"
      by (metis Suc_diff_Suc diff_Suc_1 first_difference.simps(2) zero_less_Suc zero_less_diff)
    with True show ?thesis by (intro exI [of _ i]) (auto simp: le_eq_less_or_eq [of a])
  next
    case False
    with Suc ab show ?thesis by (intro exI [of _ a]) auto
  qed
qed

lemma first_difference_Inl:
  "first_difference bits is = Inl e \<longleftrightarrow>
   e = PlainException \<and> (\<forall>i\<in>set is. length (remdups (map (take i) bits)) = 1)"
  by (induction "is") auto

section \<open>The specification\<close>

text \<open>All the ids have the same \<open>k\<close> leading bits.\<close>

definition shared_bits :: "node list \<Rightarrow> nat \<Rightarrow> bool" where
  "shared_bits ns k \<longleftrightarrow> (\<forall>m\<in>set ns. \<forall>n\<in>set ns.
     drop_bit (256 - k) (node_id m) = drop_bit (256 - k) (node_id n))"

definition id_bounded :: "node \<Rightarrow> bool" where
  "id_bounded n \<longleftrightarrow> 0 \<le> node_id n \<and> node_id n < 2 ^ 256"

lemma remdups_take_shared:
  assumes "ns \<noteq> []" "\<forall>n\<in>set ns. id_bounded n" "i \<le> 256"
  shows "length (remdups (map (take i) (map (\<lambda>n. to_binary (node_id n)) ns))) = 1 \<longleftrightarrow>
    shared_bits ns i"
proof -
  have "length (remdups (map (take i) (map (\<lambda>n. to_binary (node_id n)) ns))) = 1 \<longleftrightarrow>
      (\<forall>m\<in>set ns. \<forall>n\<in>set ns. take i (to_binary (node_id m)) = take i (to_binary (node_id n)))"
    using assms(1) by (subst remdups_length_1) auto
  then show ?thesis using assms(2,3)
    by (simp add: shared_bits_def id_bounded_def take_to_binary)
qed

lemma depth_Inr:
  assumes "2 \<le> length (kb_nodes b)" "\<forall>n\<in>set (kb_nodes b). id_bounded n" "depth b = Inr d"
  shows "0 \<le> d \<and> d \<le> 254 \<and> shared_bits (kb_nodes b) (nat d) \<and> \<not> shared_bits (kb_nodes b) (nat d + 1)"
proof -
  let ?ns = "kb_nodes b" and ?bits = "map (\<lambda>n. to_binary (node_id n)) (kb_nodes b)"
  have ne: "?ns \<noteq> []" using assms(1) by auto
  have "first_difference ?bits [0..<256] = Inr d"
    using assms by (simp add: depth_def k_id_size_def split: if_splits)
  then obtain i where i: "i < 256" "d = int i - 1" "length (remdups (map (take i) ?bits)) \<noteq> 1"
    "\<forall>j. j < i \<longrightarrow> length (remdups (map (take j) ?bits)) = 1"
    by (auto dest!: first_difference_Inr)
  have ns: "\<not> shared_bits ?ns i" using i(1,3) remdups_take_shared [OF ne assms(2), of i] by simp
  have "shared_bits ?ns 0"
    using assms(2) by (auto simp: shared_bits_def id_bounded_def drop_bit_eq_div)
  with ns have "0 < i" by (cases i) auto
  then have "shared_bits ?ns (i - 1)"
    using i(1,4) remdups_take_shared [OF ne assms(2), of "i - 1"] by simp
  with ns \<open>0 < i\<close> i(1,2) show ?thesis by (auto simp: nat_diff_distrib)
qed

lemma shared_bits_mono:
  assumes "shared_bits ns k" "j \<le> k" "k \<le> 256"
  shows "shared_bits ns j"
proof -
  have "drop_bit (256 - j) x = drop_bit (k - j) (drop_bit (256 - k) x)" for x :: int
    using assms(2,3) by (simp add: drop_bit_drop_bit)
  with assms(1) show ?thesis unfolding shared_bits_def by metis
qed

lemma depth_Inl:
  assumes "\<forall>n\<in>set (kb_nodes b). id_bounded n"
  shows "depth b = Inl e \<longleftrightarrow>
    2 \<le> length (kb_nodes b) \<and> e = PlainException \<and> shared_bits (kb_nodes b) 255"
proof (cases "2 \<le> length (kb_nodes b)")
  case True
  let ?ns = "kb_nodes b" and ?bits = "map (\<lambda>n. to_binary (node_id n)) (kb_nodes b)"
  have ne: "?ns \<noteq> []" using True by auto
  have "depth b = Inl e \<longleftrightarrow> e = PlainException \<and>
      (\<forall>i<256. length (remdups (map (take i) ?bits)) = 1)"
    using True by (auto simp: depth_def k_id_size_def first_difference_Inl)
  also have "\<dots> \<longleftrightarrow> e = PlainException \<and> (\<forall>i<256. shared_bits ?ns i)"
    using remdups_take_shared [OF ne assms] by simp
  also have "\<dots> \<longleftrightarrow> e = PlainException \<and> shared_bits ?ns 255"
    by (auto intro: shared_bits_mono [of ?ns 255])
  finally show ?thesis using True by simp
qed (simp add: depth_def)

text \<open>Three pairwise different ids cannot share 255 bits, so a full bucket has a depth.\<close>

lemma shared_255_few:
  assumes "shared_bits ns 255"
  shows "card (node_id ` set ns) \<le> 2"
proof (cases "ns = []")
  case False
  then obtain m where m: "m \<in> set ns" by (cases ns) auto
  have "node_id n \<in> {2 * (node_id m div 2), 2 * (node_id m div 2) + 1}" if "n \<in> set ns" for n
  proof -
    have e: "node_id n div 2 = node_id m div 2"
      using assms [unfolded shared_bits_def, rule_format, OF that m] by (simp add: drop_bit_eq_div)
    have "node_id n = 2 * (node_id n div 2) + node_id n mod 2" by simp
    moreover have "node_id n mod 2 = 0 \<or> node_id n mod 2 = 1" by auto
    ultimately have "node_id n = 2 * (node_id n div 2) \<or> node_id n = 2 * (node_id n div 2) + 1"
      by linarith
    then show ?thesis unfolding e by simp
  qed
  then have "node_id ` set ns \<subseteq> {2 * (node_id m div 2), 2 * (node_id m div 2) + 1}" by blast
  then have "card (node_id ` set ns) \<le> card {2 * (node_id m div 2), 2 * (node_id m div 2) + 1}"
    by (intro card_mono) auto
  then show ?thesis by (simp add: card_insert_if)
qed simp

lemma depth_defined:
  assumes "\<forall>n\<in>set (kb_nodes b). id_bounded n" "distinct (map node_id (kb_nodes b))"
    "length (kb_nodes b) \<noteq> 2"
  shows "\<exists>d. depth b = Inr d"
proof (rule ccontr)
  assume "\<nexists>d. depth b = Inr d"
  then obtain e where "depth b = Inl e" by (cases "depth b") auto
  then have "2 \<le> length (kb_nodes b)" "shared_bits (kb_nodes b) 255"
    using depth_Inl [OF assms(1)] by auto
  moreover have "card (node_id ` set (kb_nodes b)) = length (kb_nodes b)"
    using distinct_card [OF assms(2)] by simp
  ultimately show False using shared_255_few assms(3) by fastforce
qed

end
