(* ===== verification/Routing_Table.thy ===== *)
theory Routing_Table
  imports KBucket_Depth
begin

text \<open>
  \<open>RoutingTable\<close> of \<open>devp2p/kademlia.py\<close>: a list of buckets. A bucket object that the code
  looks up and then changes in place is the index of the bucket in the list. \<open>time.time()\<close> is
  read once per operation (\<open>now\<close>).
\<close>

unbundle bit_operations_syntax

record rtable =
  this_node :: node
  buckets :: "kbucket list"

definition mk_rtable :: "rat \<Rightarrow> node \<Rightarrow> rtable" where
  "mk_rtable now n = \<lparr>this_node = n, buckets = [mk_kbucket now 0 k_max_node_id]\<rparr>"

text \<open>\<open>bucket_by_node\<close>: the first bucket with \<open>node.id < bucket.end\<close>, which must start at or below it.\<close>

fun find_bucket :: "int \<Rightarrow> kbucket list \<Rightarrow> nat res" where
  "find_bucket i [] = Inl PlainException"
| "find_bucket i (b # bs) =
     (if i < kb_end b then bind_res (assert_res (kb_start b \<le> i)) (\<lambda>_. Inr 0)
      else bind_res (find_bucket i bs) (\<lambda>j. Inr (Suc j)))"

definition bucket_by_node :: "node \<Rightarrow> rtable \<Rightarrow> nat res" where
  "bucket_by_node n rt = find_bucket (node_id n) (buckets rt)"

definition split_bucket :: "rat \<Rightarrow> nat \<Rightarrow> rtable \<Rightarrow> rtable" where
  "split_bucket now i rt =
     (case kb_split now (buckets rt ! i) of
        (a, b) \<Rightarrow> rt\<lparr>buckets := take i (buckets rt) @ a # b # drop (Suc i) (buckets rt)\<rparr>)"

definition idle_buckets :: "rat \<Rightarrow> rtable \<Rightarrow> kbucket list" where
  "idle_buckets now rt =
     filter (\<lambda>b. kb_last_updated b < now - k_idle_bucket_refresh_interval) (buckets rt)"

definition not_full_buckets :: "rtable \<Rightarrow> kbucket list" where
  "not_full_buckets rt = filter (\<lambda>b. kb_len b < k_bucket_size) (buckets rt)"

definition rt_remove_node :: "node \<Rightarrow> (rtable, unit) prog" where
  "rt_remove_node n rt =
     (case bucket_by_node n rt of
        Inl e \<Rightarrow> (Inl e, rt)
      | Inr i \<Rightarrow> (Inr (), rt\<lparr>buckets := (buckets rt)[i := kb_remove_node n (buckets rt ! i)]\<rparr>))"

definition rt_contains :: "node \<Rightarrow> rtable \<Rightarrow> bool res" where
  "rt_contains n rt = bind_res (bucket_by_node n rt) (\<lambda>i. Inr (kb_contains (buckets rt ! i) n))"

definition rt_len :: "rtable \<Rightarrow> nat" where
  "rt_len rt = sum_list (map kb_len (buckets rt))"

definition rt_nodes :: "rtable \<Rightarrow> node list" where
  "rt_nodes rt = concat (map kb_nodes (buckets rt))"

definition buckets_by_id_distance :: "int \<Rightarrow> rtable \<Rightarrow> kbucket list" where
  "buckets_by_id_distance i rt = sort_key (kb_id_distance i) (buckets rt)"

definition buckets_by_distance :: "node \<Rightarrow> rtable \<Rightarrow> kbucket list" where
  "buckets_by_distance n rt = buckets_by_id_distance (node_id n) rt"

text \<open>
  \<open>neighbours\<close>, for a target id (a \<open>Node\<close> argument is replaced by its id first). In the inner
  loop \<open>n is not node\<close> compares a node with an integer and always holds, and \<open>break\<close> leaves
  the inner loop only: the outer one goes on with the next bucket.
\<close>

fun collect_nodes :: "nat \<Rightarrow> node list \<Rightarrow> node list \<Rightarrow> node list" where
  "collect_nodes limit acc [] = acc"
| "collect_nodes limit acc (n # ns) =
     (let acc = acc @ [n] in if length acc = limit then acc else collect_nodes limit acc ns)"

definition neighbours :: "nat \<Rightarrow> int \<Rightarrow> rtable \<Rightarrow> node list" where
  "neighbours k i rt =
     take k (sort_key (id_distance i)
       (foldl (\<lambda>acc b. collect_nodes (k * 2) acc (nodes_by_id_distance b i)) []
          (buckets_by_id_distance i rt)))"

definition neighbours_within_distance :: "int \<Rightarrow> int \<Rightarrow> rtable \<Rightarrow> node list" where
  "neighbours_within_distance i d rt =
     sort_key (id_distance i) (filter (\<lambda>n. id_distance i n \<le> d) (rt_nodes rt))"

section \<open>Finding a bucket\<close>

lemma find_bucket_Inr:
  "find_bucket x bs = Inr i \<Longrightarrow>
   i < length bs \<and> kb_start (bs ! i) \<le> x \<and> x < kb_end (bs ! i) \<and> (\<forall>b\<in>set (take i bs). kb_end b \<le> x)"
proof (induction bs arbitrary: i)
  case (Cons b bs)
  show ?case
  proof (cases "x < kb_end b")
    case True
    with Cons.prems show ?thesis by (auto simp: bind_res_eq_Inr)
  next
    case False
    with Cons.prems obtain j where "find_bucket x bs = Inr j" "i = Suc j"
      by (auto simp: bind_res_eq_Inr)
    with Cons.IH [of j] False show ?thesis by auto
  qed
qed simp

lemma find_bucket_append:
  "\<forall>b\<in>set xs. kb_end b \<le> x \<Longrightarrow>
   find_bucket x (xs @ ys) = bind_res (find_bucket x ys) (\<lambda>j. Inr (length xs + j))"
proof (induction xs)
  case Nil
  then show ?case by (cases "find_bucket x ys") auto
next
  case (Cons b xs)
  then show ?case by (cases "find_bucket x ys") auto
qed

lemma distribute_bounds:
  "distribute_nodes now s ns (l, u) = (l', u') \<Longrightarrow>
   kb_start l' = kb_start l \<and> kb_end l' = kb_end l \<and> kb_start u' = kb_start u \<and> kb_end u' = kb_end u"
proof (induction ns arbitrary: l u)
  case Nil
  then show ?case by simp
next
  case (Cons n ns)
  obtain la r where l: "kb_add_node now n l = (la, r)" by force
  obtain ua q where u: "kb_add_node now n u = (ua, q)" by force
  show ?case using Cons kb_add_node_frame [OF l] kb_add_node_frame [OF u] l u
    by (auto split: if_splits)
qed

lemma kb_split_bounds:
  assumes "kb_split now b = (l, u)"
  shows "kb_start l = kb_start b \<and> kb_end l = midpoint b \<and> kb_start u = midpoint b + 1 \<and> kb_end u = kb_end b"
proof -
  obtain l' u' where d: "distribute_nodes now (midpoint b) (kb_nodes b)
      (mk_kbucket now (kb_start b) (midpoint b), mk_kbucket now (midpoint b + 1) (kb_end b)) = (l', u')"
    by force
  with assms distribute_bounds [OF d] show ?thesis
    by (auto simp: kb_split_def Let_def distribute_cache_eq mk_kbucket_def)
qed

section \<open>Adding a node\<close>

text \<open>
  What a retry works on: the width of the bucket found for the node. Splitting the bucket
  narrows it, for any list of buckets, so \<open>add_node\<close> ends.
\<close>

definition found_width :: "node \<Rightarrow> rtable \<Rightarrow> nat" where
  "found_width n rt =
     (case bucket_by_node n rt of
        Inl _ \<Rightarrow> 0 | Inr i \<Rightarrow> nat (kb_end (buckets rt ! i) - kb_start (buckets rt ! i)))"

lemma found_width_split:
  assumes i: "bucket_by_node n rt = Inr i"
    and b': "kb_start b' = kb_start (buckets rt ! i)" "kb_end b' = kb_end (buckets rt ! i)"
  shows "found_width n (split_bucket now i (rt\<lparr>buckets := (buckets rt)[i := b']\<rparr>)) < found_width n rt"
proof -
  let ?x = "node_id n" and ?bs = "buckets rt"
  from i have f: "i < length ?bs" "kb_start (?bs ! i) \<le> ?x" "?x < kb_end (?bs ! i)"
    "\<forall>b\<in>set (take i ?bs). kb_end b \<le> ?x"
    using find_bucket_Inr by (auto simp: bucket_by_node_def)
  obtain l u where lu: "kb_split now b' = (l, u)" by force
  note s = kb_split_bounds [OF lu]
  have mid: "kb_start b' \<le> midpoint b'" "midpoint b' < kb_end b'"
    using midpoint_bounds [of b'] f b' by auto
  have "find_bucket ?x (take i ?bs @ l # u # drop (Suc i) ?bs) =
      bind_res (find_bucket ?x (l # u # drop (Suc i) ?bs)) (\<lambda>j. Inr (i + j))"
    using f by (simp add: find_bucket_append)
  moreover have "found_width n rt = nat (kb_end b' - kb_start b')"
    using i b' by (simp add: found_width_def)
  ultimately show ?thesis
    using f(1-3) s mid b' lu
    by (auto simp: found_width_def bucket_by_node_def split_bucket_def nth_append assert_res_def
        split: sum.splits)
qed

function rt_add_node :: "rat \<Rightarrow> node \<Rightarrow> (rtable, node option) prog" where
  "rt_add_node now n rt =
     (if node_eq n (this_node rt) then (Inl AssertionError, rt)
      else case bucket_by_node n rt of
        Inl e \<Rightarrow> (Inl e, rt)
      | Inr i \<Rightarrow>
          let (b, eviction_candidate) = kb_add_node now n (buckets rt ! i);
              rt' = rt\<lparr>buckets := (buckets rt)[i := b]\<rparr>
          in case eviction_candidate of
               None \<Rightarrow> (Inr None, rt')
             | Some c \<Rightarrow>
                 (case depth b of
                    Inl e \<Rightarrow> (Inl e, rt')
                  | Inr d \<Rightarrow>
                      if in_range b (this_node rt) \<or> (d mod k_b \<noteq> 0 \<and> d \<noteq> int k_id_size)
                      then rt_add_node now n (split_bucket now i rt')
                      else (Inr (Some c), rt')))"
  by pat_completeness auto
termination
proof (relation "measure (\<lambda>(now, n, rt). found_width n rt)", goal_cases)
  case (2 now n rt i xy b c rt' c' d)
  then show ?case using kb_add_node_frame [of now n "buckets rt ! i" b c]
    by (auto intro!: found_width_split)
qed simp

declare rt_add_node.simps [simp del]

end
