(* ===== verification/Table_Interface.thy ===== *)
theory Table_Interface
  imports Kademlia_Node
begin

text \<open>
  The contract between the discovery protocol (client) and its routing table (provider): what
  \<open>add_node\<close>, \<open>remove_node\<close> and \<open>neighbours\<close> promise, whatever the table does with buckets, and
  what the protocol concludes from it.
\<close>

unbundle bit_operations_syntax

text \<open>The nodes other than a given one, in order.\<close>

abbreviation others :: "node \<Rightarrow> node list \<Rightarrow> node list" where
  "others n ns \<equiv> filter (\<lambda>m. pubkey m \<noteq> pubkey n) ns"

locale node_table =
  fixes nodes :: "'t \<Rightarrow> node list"
    and caches :: "'t \<Rightarrow> node list"
    and self :: "'t \<Rightarrow> node"
    and valid :: "node \<Rightarrow> bool"
    and invar :: "'t \<Rightarrow> bool"
    and add :: "rat \<Rightarrow> node \<Rightarrow> ('t, node option) prog"
    and remove :: "node \<Rightarrow> ('t, unit) prog"
    and closest :: "nat \<Rightarrow> int \<Rightarrow> 't \<Rightarrow> node list"
  assumes invar_nodes: "invar t \<Longrightarrow> n \<in> set (nodes t) \<union> set (caches t) \<Longrightarrow>
           valid n \<and> pubkey n \<noteq> pubkey (self t)"
    and invar_distinct: "invar t \<Longrightarrow> distinct (map pubkey (nodes t))"
    and valid_id: "valid m \<Longrightarrow> valid n \<Longrightarrow> pubkey m = pubkey n \<Longrightarrow> node_id m = node_id n"
    and valid_nonneg: "valid n \<Longrightarrow> 0 \<le> node_id n"
    and add_frame: "invar t \<Longrightarrow> valid n \<Longrightarrow> pubkey n \<noteq> pubkey (self t) \<Longrightarrow> add now n t = (r, t') \<Longrightarrow>
           invar t' \<and> self t' = self t \<and> mset (caches t') = mset (caches t)"
    and add_done: "invar t \<Longrightarrow> valid n \<Longrightarrow> pubkey n \<noteq> pubkey (self t) \<Longrightarrow>
           add now n t = (Inr None, t') \<Longrightarrow>
           mset (nodes t') = mset (others n (nodes t)) + {#n#}"
    and add_rejected: "invar t \<Longrightarrow> valid n \<Longrightarrow> pubkey n \<noteq> pubkey (self t) \<Longrightarrow>
           add now n t = (Inr (Some c), t') \<Longrightarrow>
           mset (nodes t') = mset (nodes t) \<and> pubkey n \<notin> pubkey ` set (nodes t) \<and> c \<in> set (nodes t)"
    and add_failed: "invar t \<Longrightarrow> valid n \<Longrightarrow> pubkey n \<noteq> pubkey (self t) \<Longrightarrow>
           add now n t = (Inl e, t') \<Longrightarrow> mset (nodes t') = mset (nodes t)"
    and remove_frame: "invar t \<Longrightarrow> valid n \<Longrightarrow> remove n t = (q, t') \<Longrightarrow>
           invar t' \<and> self t' = self t \<and> mset (caches t') = mset (caches t)"
    and remove_done: "invar t \<Longrightarrow> valid n \<Longrightarrow> remove n t = (Inr (), t') \<Longrightarrow>
           mset (nodes t') = mset (others n (nodes t))"
    and remove_failed: "invar t \<Longrightarrow> valid n \<Longrightarrow> remove n t = (Inl e, t') \<Longrightarrow> t' = t"
    and closest_law: "invar t \<Longrightarrow> closest k i t = take k (sort_key (id_distance i) (nodes t))"
begin

text \<open>What the operations keep, in the form the loops of the protocol need it.\<close>

lemma add_keeps:
  assumes "valid n" "pubkey n \<noteq> pubkey l"
  shows "keeps (\<lambda>t. invar t \<and> self t = l) (add now n)"
  unfolding keeps_def using add_frame assms by (metis prod.collapse)

lemma remove_keeps:
  assumes "valid n"
  shows "keeps (\<lambda>t. invar t \<and> self t = l) (remove n)"
  unfolding keeps_def using remove_frame assms by (metis prod.collapse)

lemma removed_absent:
  "invar t \<Longrightarrow> valid n \<Longrightarrow> remove n t = (Inr (), t') \<Longrightarrow> pubkey n \<notin> pubkey ` set (nodes t')"
  using mset_eq_setD [OF remove_done] by auto

lemma remove_subset:
  assumes "invar t" "valid n" "remove n t = (r, t')"
  shows "set (nodes t') \<subseteq> set (nodes t)"
proof (cases r)
  case (Inl e)
  with assms show ?thesis using remove_failed by auto
next
  case (Inr u)
  with assms show ?thesis using mset_eq_setD [OF remove_done [of t n t']] by auto
qed

lemma added_present:
  assumes "invar t" "valid n" "pubkey n \<noteq> pubkey (self t)" "add now n t = (Inr None, t')"
  shows "n \<in> set (nodes t')"
  using arg_cong [OF add_done [OF assms], of set_mset] by auto

text \<open>What \<open>closest\<close> returns.\<close>

lemma closest_subset: "invar t \<Longrightarrow> set (closest k i t) \<subseteq> set (nodes t)"
  by (auto simp: closest_law dest: in_set_takeD)

lemma closest_valid:
  "invar t \<Longrightarrow> n \<in> set (closest k i t) \<Longrightarrow> valid n \<and> pubkey n \<noteq> pubkey (self t)"
  using closest_subset invar_nodes by blast

lemma closest_length: "invar t \<Longrightarrow> length (closest k i t) = min k (length (nodes t))"
  by (simp add: closest_law)

lemma closest_distinct: "invar t \<Longrightarrow> distinct (map pubkey (closest k i t))"
  using invar_distinct [of t] by (simp add: closest_law distinct_map inj_on_def) (metis in_set_takeD set_sort)

lemma closest_nearest:
  assumes "invar t" "m \<in> set (closest k i t)" "n \<in> set (nodes t)" "n \<notin> set (closest k i t)"
  shows "id_distance i m \<le> id_distance i n"
proof -
  let ?xs = "sort_key (id_distance i) (nodes t)"
  have "n \<in> set (drop k ?xs)"
    using assms by (metis UnE append_take_drop_id closest_law set_append set_sort)
  moreover have "m \<in> set (take k ?xs)" using assms by (simp add: closest_law)
  moreover have "sorted (map (id_distance i) (take k ?xs @ drop k ?xs))" by simp
  ultimately show ?thesis by (simp only: map_append sorted_append) auto
qed

lemma closest_hd:
  assumes "invar t" "n \<in> set (nodes t)" "0 < k"
  obtains m ms where "closest k i t = m # ms" "m \<in> set (nodes t)" "id_distance i m \<le> id_distance i n"
proof -
  let ?xs = "sort_key (id_distance i) (nodes t)"
  have "?xs \<noteq> []" using assms(2) by (metis empty_iff empty_set set_sort)
  then obtain m ms where xs: "?xs = m # ms" by (cases ?xs) auto
  have "sorted (map (id_distance i) ?xs)" by simp
  moreover have "n \<in> set ?xs" "m \<in> set ?xs" using assms(2) by (simp, simp only: xs, simp)
  ultimately have "id_distance i m \<le> id_distance i n" unfolding xs by auto
  moreover have "closest k i t = m # take (k - 1) ms"
    using assms(1,3) by (cases k) (simp_all add: closest_law xs)
  ultimately show ?thesis using that \<open>m \<in> set ?xs\<close> by simp
qed

text \<open>A node that was just added is the closest to its own id: its distance is zero.\<close>

lemma closest_to_added:
  assumes "invar t" "valid n" "pubkey n \<noteq> pubkey (self t)" "add now n t = (Inr None, t')" "0 < k"
  obtains m ms where "closest k (node_id n) t' = m # ms" "node_id m = node_id n"
proof -
  have t': "invar t'" using add_frame assms(1-4) by blast
  obtain m ms where m: "closest k (node_id n) t' = m # ms" "m \<in> set (nodes t')"
    "id_distance (node_id n) m \<le> id_distance (node_id n) n"
    using closest_hd [OF t' added_present [OF assms(1-4)] assms(5)] .
  have "0 \<le> node_id m XOR node_id n"
    using valid_nonneg [OF assms(2)] invar_nodes [OF t'] valid_nonneg [of m] m(2) by simp
  with m(3) have "node_id m XOR node_id n = 0" by (simp add: id_distance_def)
  then have "node_id m = node_id n" by (metis xor.right_neutral xor_self_eq xor.left_commute xor.commute)
  with m(1) that show ?thesis by blast
qed

end

end
