(* ===== verification/Routing_Invariant.thy ===== *)
theory Routing_Invariant
  imports Routing_Table Table_Interface
begin

text \<open>
  The invariant of the routing table and what every operation does to it. \<open>h\<close> is the id
  function: the id the code computes from a public key.
\<close>

unbundle bit_operations_syntax

definition node_ok :: "(bytes \<Rightarrow> int) \<Rightarrow> node \<Rightarrow> bool" where
  "node_ok h n \<longleftrightarrow> length (pubkey n) = 64 \<and> node_id n = h (pubkey n) \<and> id_bounded n"

definition rt_caches :: "rtable \<Rightarrow> node list" where
  "rt_caches rt = concat (map kb_replacement_cache (buckets rt))"

definition rt_wf :: "(bytes \<Rightarrow> int) \<Rightarrow> rtable \<Rightarrow> bool" where
  "rt_wf h rt \<longleftrightarrow> kb.table_ok 0 (buckets rt) (2 ^ 256) \<and> node_ok h (this_node rt) \<and>
     (\<forall>n \<in> set (rt_nodes rt) \<union> set (rt_caches rt).
        node_ok h n \<and> pubkey n \<noteq> pubkey (this_node rt))"

lemma rt_nodes_contents: "rt_nodes rt = kb.contents (buckets rt)"
  by (simp add: rt_nodes_def kb.contents_def)

lemma rt_wf_table: "rt_wf h rt \<Longrightarrow> kb.table_ok 0 (buckets rt) (2 ^ 256)"
  by (simp add: rt_wf_def)

lemma rt_wf_bucket: "rt_wf h rt \<Longrightarrow> i < length (buckets rt) \<Longrightarrow> kb_wf (buckets rt ! i)"
  by (rule kb.table_ok_nth [OF rt_wf_table])

lemma bucket_nodes_subset:
  "i < length (buckets rt) \<Longrightarrow> set (kb_nodes (buckets rt ! i)) \<subseteq> set (rt_nodes rt)"
  by (auto simp: rt_nodes_def intro: bexI [OF _ nth_mem])

lemma rt_wf_node: "rt_wf h rt \<Longrightarrow> n \<in> set (rt_nodes rt) \<Longrightarrow> node_ok h n"
  by (simp add: rt_wf_def)

text \<open>A fresh table.\<close>

lemma mk_rtable_wf: "node_ok h n \<Longrightarrow> rt_wf h (mk_rtable now n)"
proof -
  have "dyadic 0 (2 ^ 256 - 1)"
    unfolding dyadic_def dyadic_at_def by (intro exI [of _ 256]) simp
  then show "node_ok h n \<Longrightarrow> rt_wf h (mk_rtable now n)"
    by (simp add: rt_wf_def mk_rtable_def mk_kbucket_def rt_nodes_def rt_caches_def k_max_node_id_def
        k_id_size_def kb.table_ok_def kb_wf_def kb_len_def)
qed

section \<open>Looking a bucket up\<close>

text \<open>On a table that tiles the id space, the lookup finds the bucket unless the id is an end.\<close>

lemma find_bucket_tiling:
  assumes "tiling a (map (\<lambda>b. (kb_start b, kb_end b)) bs) z" "a \<le> x" "x < z"
  shows "(\<exists>i. find_bucket x bs = Inr i) \<longleftrightarrow> (\<forall>b\<in>set bs. kb_end b \<noteq> x)"
  using assms
proof (induction bs arbitrary: a)
  case Nil
  then show ?case by simp
next
  case (Cons b bs)
  then have t: "tiling (kb_end b + 1) (map (\<lambda>b. (kb_start b, kb_end b)) bs) z"
    and a: "kb_start b = a" "a \<le> kb_end b" by auto
  have later: "kb_end b < kb_end c \<and> kb_end b < kb_start c" if "c \<in> set bs" for c
    using tiling_bounds [OF t, of "(kb_start c, kb_end c)"] that by auto
  consider "x < kb_end b" | "x = kb_end b" | "kb_end b < x" by linarith
  then show ?case
  proof cases
    case 1
    then have "\<forall>c\<in>set bs. kb_end c \<noteq> x" using later by fastforce
    with 1 Cons.prems a show ?thesis by auto
  next
    case 2
    have "\<nexists>i. find_bucket x bs = Inr i"
      using later 2 by (metis find_bucket_Inr nth_mem not_le)
    then have "\<nexists>i. find_bucket x (b # bs) = Inr i" using 2 by (auto simp: bind_res_eq_Inr)
    with 2 show ?thesis by simp
  next
    case 3
    with Cons.IH [OF t] Cons.prems have "(\<exists>i. find_bucket x bs = Inr i) \<longleftrightarrow> (\<forall>b\<in>set bs. kb_end b \<noteq> x)"
      by simp
    with 3 show ?thesis by (auto simp: bind_res_eq_Inr)
  qed
qed

lemma bucket_by_node_Inr:
  assumes "bucket_by_node n rt = Inr i"
  shows "i < length (buckets rt)" "in_range (buckets rt ! i) n" "node_id n < kb_end (buckets rt ! i)"
  using find_bucket_Inr [of "node_id n" "buckets rt" i] assms
  by (auto simp: bucket_by_node_def in_range_def)

lemma bucket_by_node_defined:
  assumes "rt_wf h rt" "id_bounded n"
  shows "(\<exists>i. bucket_by_node n rt = Inr i) \<longleftrightarrow> (\<forall>b\<in>set (buckets rt). kb_end b \<noteq> node_id n)"
  unfolding bucket_by_node_def
  by (rule find_bucket_tiling) (use assms in \<open>auto simp: rt_wf_def kb.table_ok_def id_bounded_def\<close>)

text \<open>Membership in the bucket of a node's id is membership in the table.\<close>

lemma rt_member_bucket:
  assumes wf: "rt_wf h rt" and n: "node_ok h n" and i: "bucket_by_node n rt = Inr i"
  shows "node_mem n (kb_nodes (buckets rt ! i)) \<longleftrightarrow> pubkey n \<in> pubkey ` set (rt_nodes rt)"
proof
  assume "node_mem n (kb_nodes (buckets rt ! i))"
  then show "pubkey n \<in> pubkey ` set (rt_nodes rt)"
    using bucket_nodes_subset [OF bucket_by_node_Inr(1) [OF i]] by (auto simp: node_mem_iff)
next
  assume "pubkey n \<in> pubkey ` set (rt_nodes rt)"
  then obtain m where m: "m \<in> set (rt_nodes rt)" "pubkey n = pubkey m" by (rule imageE)
  have "node_id m = node_id n" using rt_wf_node [OF wf m(1)] n m(2) by (simp add: node_ok_def)
  then have "m \<in> set (kb_nodes (buckets rt ! i))"
    using kb.contents_in_bucket [OF rt_wf_table [OF wf] bucket_by_node_Inr(1) [OF i], of m]
      m(1) bucket_by_node_Inr(2) [OF i] by (simp add: rt_nodes_contents in_range_def)
  then show "node_mem n (kb_nodes (buckets rt ! i))" using m(2) by (simp add: node_mem_iff)
qed

lemma rt_contains_iff:
  "rt_wf h rt \<Longrightarrow> node_ok h n \<Longrightarrow> rt_contains n rt = Inr c \<Longrightarrow>
   c \<longleftrightarrow> pubkey n \<in> pubkey ` set (rt_nodes rt)"
  by (auto simp: rt_contains_def kb_contains_def bind_res_eq_Inr rt_member_bucket)

section \<open>Replacing and splitting a bucket\<close>

lemma rt_nodes_update:
  "i < length (buckets rt) \<Longrightarrow>
   rt_nodes (rt\<lparr>buckets := (buckets rt)[i := b]\<rparr>) =
   concat (map kb_nodes (take i (buckets rt))) @ kb_nodes b @ concat (map kb_nodes (drop (Suc i) (buckets rt)))"
  by (simp add: rt_nodes_def upd_conv_take_nth_drop)

lemma rt_nodes_at:
  "i < length (buckets rt) \<Longrightarrow>
   rt_nodes rt = concat (map kb_nodes (take i (buckets rt))) @ kb_nodes (buckets rt ! i) @
     concat (map kb_nodes (drop (Suc i) (buckets rt)))"
  using rt_nodes_update [of i rt "buckets rt ! i"] by simp

lemma rt_caches_at:
  "i < length (buckets rt) \<Longrightarrow>
   rt_caches (rt\<lparr>buckets := (buckets rt)[i := b]\<rparr>) =
   concat (map kb_replacement_cache (take i (buckets rt))) @ kb_replacement_cache b @
   concat (map kb_replacement_cache (drop (Suc i) (buckets rt)))"
  by (simp add: rt_caches_def upd_conv_take_nth_drop)

lemma rt_caches_update_same:
  assumes "i < length (buckets rt)" "kb_replacement_cache b = kb_replacement_cache (buckets rt ! i)"
  shows "rt_caches (rt\<lparr>buckets := (buckets rt)[i := b]\<rparr>) = rt_caches rt"
proof -
  have "map kb_replacement_cache ((buckets rt)[i := b]) = map kb_replacement_cache (buckets rt)"
    using assms by (metis map_update list_update_id nth_map)
  then show ?thesis by (simp add: rt_caches_def)
qed

lemma rt_wf_update:
  assumes wf: "rt_wf h rt" "i < length (buckets rt)"
    and b: "kb_wf b" "kb_start b = kb_start (buckets rt ! i)" "kb_end b = kb_end (buckets rt ! i)"
      "kb_replacement_cache b = kb_replacement_cache (buckets rt ! i)"
    and new: "\<And>n. n \<in> set (kb_nodes b) \<Longrightarrow>
      n \<in> set (kb_nodes (buckets rt ! i)) \<or> node_ok h n \<and> pubkey n \<noteq> pubkey (this_node rt)"
  shows "rt_wf h (rt\<lparr>buckets := (buckets rt)[i := b]\<rparr>)"
proof -
  have "kb.table_ok 0 ((buckets rt)[i := b]) (2 ^ 256)"
    using kb.table_ok_update [OF rt_wf_table [OF wf(1)] wf(2) b(1-3)] .
  moreover have "node_ok h n \<and> pubkey n \<noteq> pubkey (this_node rt)"
    if "n \<in> set (rt_nodes (rt\<lparr>buckets := (buckets rt)[i := b]\<rparr>))" for n
  proof -
    have "n \<in> set (rt_nodes rt) \<or> n \<in> set (kb_nodes b)"
      using that wf(2) unfolding rt_nodes_update [OF wf(2)] rt_nodes_at [OF wf(2)] by auto
    moreover have "set (kb_nodes (buckets rt ! i)) \<subseteq> set (rt_nodes rt)"
      unfolding rt_nodes_at [OF wf(2)] by auto
    ultimately show ?thesis using wf(1) new unfolding rt_wf_def by blast
  qed
  ultimately show ?thesis using wf(1) rt_caches_update_same [OF wf(2) b(4)]
    by (auto simp: rt_wf_def)
qed

lemma split_bucket_spec:
  assumes wf: "rt_wf h rt" "i < length (buckets rt)" and lt: "kb_start (buckets rt ! i) < kb_end (buckets rt ! i)"
  shows "rt_wf h (split_bucket now i rt)" "this_node (split_bucket now i rt) = this_node rt"
    "mset (rt_nodes (split_bucket now i rt)) = mset (rt_nodes rt)"
    "mset (rt_caches (split_bucket now i rt)) = mset (rt_caches rt)"
proof -
  obtain l u where lu: "kb_split now (buckets rt ! i) = (l, u)" by force
  note ok = rt_wf_table [OF wf(1)] wf(2)
  have law: "kb_replacement_cache l = filter (\<lambda>m. node_id m \<le> kb_end l) (kb_replacement_cache (buckets rt ! i))"
    "kb_replacement_cache u = filter (\<lambda>m. \<not> node_id m \<le> kb_end l) (kb_replacement_cache (buckets rt ! i))"
    using kb.split_law [OF rt_wf_bucket [OF wf] lt lu] by auto
  let ?rt = "split_bucket now i rt"
  have bs: "buckets ?rt = take i (buckets rt) @ l # u # drop (Suc i) (buckets rt)"
    using lu by (simp add: split_bucket_def)
  show "this_node ?rt = this_node rt" using lu by (simp add: split_bucket_def)
  show nodes: "mset (rt_nodes ?rt) = mset (rt_nodes rt)"
    using kb.contents_split_mset [OF ok lt lu] by (simp add: rt_nodes_contents bs)
  show caches: "mset (rt_caches ?rt) = mset (rt_caches rt)"
    using rt_caches_at [OF wf(2), of "buckets rt ! i"] law
    by (simp add: rt_caches_def bs multiset_partition [symmetric])
  have "kb.table_ok 0 (buckets ?rt) (2 ^ 256)"
    using kb.table_ok_split [OF ok lt lu] by (simp add: bs)
  then show "rt_wf h ?rt"
    using wf(1) mset_eq_setD [OF nodes] mset_eq_setD [OF caches] \<open>this_node ?rt = this_node rt\<close>
    by (simp add: rt_wf_def)
qed

section \<open>add_node and remove_node\<close>

lemma rt_nodes_distinct:
  assumes "rt_wf h rt"
  shows "distinct (map pubkey (rt_nodes rt))"
  unfolding rt_nodes_contents
  by (rule kb.contents_distinct [OF rt_wf_table [OF assms]])
    (use assms in \<open>auto simp: rt_wf_def rt_nodes_contents node_ok_def\<close>)

text \<open>Changing only the members of one bucket by a filter on public keys changes the table so.\<close>

lemma others_elsewhere:
  assumes wf: "rt_wf h rt" and n: "node_ok h n" and i: "bucket_by_node n rt = Inr i"
  shows "mset (rt_nodes (rt\<lparr>buckets := (buckets rt)[i := b\<lparr>kb_nodes := others n (kb_nodes (buckets rt ! i)) @ ns\<rparr>]\<rparr>)) =
    mset (others n (rt_nodes rt)) + mset ns"
proof -
  note il = bucket_by_node_Inr(1) [OF i]
  let ?A = "concat (map kb_nodes (take i (buckets rt)))"
    and ?B = "concat (map kb_nodes (drop (Suc i) (buckets rt)))"
  have "others n ?A = ?A \<and> others n ?B = ?B"
  proof (cases "pubkey n \<in> pubkey ` set (rt_nodes rt)")
    case True
    then have "pubkey n \<in> pubkey ` set (kb_nodes (buckets rt ! i))"
      using rt_member_bucket [OF wf n i] by (simp add: node_mem_iff)
    then have "pubkey n \<notin> pubkey ` set ?A" "pubkey n \<notin> pubkey ` set ?B"
      using rt_nodes_distinct [OF wf] unfolding rt_nodes_at [OF il]
      by (simp_all only: map_append distinct_append set_map set_append) blast+
    then show ?thesis by (simp only: filter_key_absent simp_thms)
  next
    case False
    then have "pubkey n \<notin> pubkey ` set ?A" "pubkey n \<notin> pubkey ` set ?B"
      unfolding rt_nodes_at [OF il] by (simp_all only: set_append image_Un Un_iff de_Morgan_disj not_False_eq_True)
    then show ?thesis by (simp only: filter_key_absent simp_thms)
  qed
  then show ?thesis unfolding rt_nodes_update [OF il] by (simp add: rt_nodes_at [OF il])
qed

lemma rt_remove_node_spec:
  assumes wf: "rt_wf h rt" and n: "node_ok h n" and rm: "rt_remove_node n rt = (r, rt')"
  shows "rt_wf h rt'" "this_node rt' = this_node rt" "rt_caches rt' = rt_caches rt"
    "r = Inr u \<Longrightarrow> mset (rt_nodes rt') = mset (others n (rt_nodes rt))"
    "r = Inl e \<Longrightarrow> rt' = rt"
proof -
  have *: "rt_wf h rt' \<and> this_node rt' = this_node rt \<and> rt_caches rt' = rt_caches rt \<and>
    (case r of Inr _ \<Rightarrow> mset (rt_nodes rt') = mset (others n (rt_nodes rt)) | Inl _ \<Rightarrow> rt' = rt)"
  proof (cases "bucket_by_node n rt")
    case (Inl e)
    with rm wf show ?thesis by (auto simp: rt_remove_node_def)
  next
    case (Inr i)
    let ?b = "buckets rt ! i" and ?b' = "kb_remove_node n (buckets rt ! i)"
    note il = bucket_by_node_Inr(1) [OF Inr] and bwf = rt_wf_bucket [OF wf bucket_by_node_Inr(1) [OF Inr]]
    have rt': "r = Inr ()" "rt' = rt\<lparr>buckets := (buckets rt)[i := ?b']\<rparr>"
      using rm Inr by (auto simp: rt_remove_node_def)
    have b': "?b' = ?b\<lparr>kb_nodes := others n (kb_nodes ?b) @ []\<rparr>"
      using kb_remove_node_eq [OF kb_wf_parts(2) [OF bwf]] by simp
    have "rt_wf h rt'" unfolding rt'
      by (rule rt_wf_update [OF wf il])
        (use kb.remove_frame [of n ?b] kb.remove_members [OF bwf, of n] kb.remove_invar [OF bwf] in auto)
    moreover have "mset (rt_nodes rt') = mset (others n (rt_nodes rt))"
      unfolding rt' b' others_elsewhere [OF wf n Inr] by simp
    ultimately show ?thesis
      using rt_caches_update_same [OF il, of ?b'] kb.remove_frame [of n ?b] by (simp add: rt')
  qed
  then show "rt_wf h rt'" "this_node rt' = this_node rt" "rt_caches rt' = rt_caches rt"
    "r = Inr u \<Longrightarrow> mset (rt_nodes rt') = mset (others n (rt_nodes rt))" "r = Inl e \<Longrightarrow> rt' = rt"
    by auto
qed

text \<open>
  What \<open>add_node\<close> promises: the node is in, or the least recently seen node of the full bucket
  that should hold it is returned and nothing changed but the shape of the table, or the lookup
  raised on the way.
\<close>

definition add_node_post :: "node \<Rightarrow> rtable \<Rightarrow> node option res \<Rightarrow> rtable \<Rightarrow> bool" where
  "add_node_post n rt r rt' \<longleftrightarrow>
     (case r of
        Inr None \<Rightarrow> mset (rt_nodes rt') = mset (others n (rt_nodes rt)) + {#n#}
      | Inr (Some c) \<Rightarrow> mset (rt_nodes rt') = mset (rt_nodes rt) \<and>
          pubkey n \<notin> pubkey ` set (rt_nodes rt) \<and>
          (\<exists>b \<in> set (buckets rt'). in_range b n \<and> \<not> in_range b (this_node rt) \<and> is_full b \<and>
             kb_head b = Inr c \<and> (\<exists>d. depth b = Inr d \<and> (d mod k_b = 0 \<or> d = int k_id_size)))
      | Inl _ \<Rightarrow> mset (rt_nodes rt') = mset (rt_nodes rt))"

lemma rt_add_node_spec:
  assumes "rt_wf h rt" "node_ok h n" "pubkey n \<noteq> pubkey (this_node rt)"
    "rt_add_node now n rt = (r, rt')"
  shows "rt_wf h rt' \<and> this_node rt' = this_node rt \<and> mset (rt_caches rt') = mset (rt_caches rt) \<and>
    add_node_post n rt r rt'"
  using assms
proof (induction now n rt rule: rt_add_node.induct)
  case (1 now n rt)
  note wf = "1.prems"(1) and n = "1.prems"(2) and other = "1.prems"(3)
  have ne: "\<not> node_eq n (this_node rt)" using other by (simp add: node_eq_def)
  show ?case
  proof (cases "bucket_by_node n rt")
    case (Inl e)
    with "1.prems" ne show ?thesis by (auto simp: rt_add_node.simps [of now n rt] add_node_post_def)
  next
    case (Inr i)
    note il = bucket_by_node_Inr(1) [OF Inr]
    let ?b = "buckets rt ! i"
    note bwf = rt_wf_bucket [OF wf il]
    obtain b c where bc: "kb_add_node now n ?b = (b, c)" by force
    let ?rt = "rt\<lparr>buckets := (buckets rt)[i := b]\<rparr>"
    note fr = kb_add_node_frame [OF bc]
    have bwf': "kb_wf b" using kb_add_node_wf [OF bwf bucket_by_node_Inr(2) [OF Inr] bc] .
    have members: "m \<in> set (kb_nodes b) \<Longrightarrow> m \<in> set (kb_nodes ?b) \<or> m = n" for m
      using kb.add_None [OF bwf, of now n b] kb.add_Some [OF bwf, of now n b] bc by (cases c) auto
    have wf': "rt_wf h ?rt"
      by (rule rt_wf_update [OF wf il bwf']) (use fr members n other in auto)
    have caches: "rt_caches ?rt = rt_caches rt" using rt_caches_update_same [OF il] fr by simp
    show ?thesis
    proof (cases c)
      case None
      then have r: "r = Inr None" "rt' = ?rt"
        using "1.prems"(4) ne Inr bc by (auto simp: rt_add_node.simps [of now n rt])
      have "kb_nodes b = others n (kb_nodes ?b) @ [n]" using kb.add_None [OF bwf] bc None by simp
      then have "b = b\<lparr>kb_nodes := others n (kb_nodes ?b) @ [n]\<rparr>" by simp
      then have "mset (rt_nodes ?rt) = mset (others n (rt_nodes rt)) + mset [n]"
        using others_elsewhere [OF wf n Inr, where b = b and ns = "[n]"] by metis
      with wf' caches r show ?thesis by (simp add: add_node_post_def)
    next
      case (Some h')
      note full = kb.add_Some [OF bwf bc [unfolded Some]]
      have same: "rt_nodes ?rt = rt_nodes rt"
        using full unfolding rt_nodes_update [OF il] rt_nodes_at [OF il] by simp
      show ?thesis
      proof (cases "depth b")
        case (Inl e)
        then have r: "r = Inl e" "rt' = ?rt"
          using "1.prems"(4) ne Inr bc Some by (auto simp: rt_add_node.simps [of now n rt])
        with wf' caches same show ?thesis by (simp add: add_node_post_def)
      next
        case d: (Inr d)
        show ?thesis
        proof (cases "in_range b (this_node rt) \<or> (d mod k_b \<noteq> 0 \<and> d \<noteq> int k_id_size)")
          case True
          then have rec: "rt_add_node now n (split_bucket now i ?rt) = (r, rt')"
            using "1.prems"(4) ne Inr bc Some d by (auto simp: rt_add_node.simps [of now n rt])
          have lt: "kb_start (buckets ?rt ! i) < kb_end (buckets ?rt ! i)"
            using find_bucket_Inr [of "node_id n" "buckets rt" i] Inr fr il
            by (auto simp: bucket_by_node_def)
          note sp = split_bucket_spec [OF wf' _ lt, of now]
          have il': "i < length (buckets ?rt)" using il by simp
          have "rt_wf h rt' \<and> this_node rt' = this_node (split_bucket now i ?rt) \<and>
            mset (rt_caches rt') = mset (rt_caches (split_bucket now i ?rt)) \<and>
            add_node_post n (split_bucket now i ?rt) r rt'"
            by (rule "1.IH" [OF ne Inr bc [symmetric] refl refl Some d True sp(1) [OF il'] n _ rec])
              (use sp(2) [OF il'] other in simp)
          moreover have "add_node_post n (split_bucket now i ?rt) r rt' = add_node_post n rt r rt'"
            using sp(2,3) [OF il'] same mset_eq_setD [OF sp(3) [OF il']]
            by (auto simp: add_node_post_def split: sum.splits option.splits)
          ultimately show ?thesis using sp(2,4) [OF il'] caches by simp
        next
          case False
          then have r: "r = Inr (Some h')" "rt' = ?rt"
            using "1.prems"(4) ne Inr bc Some d by (auto simp: rt_add_node.simps [of now n rt])
          have "is_full b" "kb_head b = Inr h'"
            using bc Some full bwf by (auto simp: kb_add_node_def Let_def is_full_def kb_head_def kb_len_def
                kb_wf_def split: if_splits list.splits)
          moreover have "in_range b n" using bucket_by_node_Inr(2) [OF Inr] fr by (simp add: in_range_def)
          moreover have "pubkey n \<notin> pubkey ` set (rt_nodes rt)"
            using rt_member_bucket [OF wf n Inr] full by (simp add: node_mem_iff)
          moreover have "b \<in> set (buckets ?rt)" using il by (simp add: set_update_memI)
          ultimately show ?thesis using wf' caches same r d False
            by (auto simp: add_node_post_def intro!: bexI [of _ b])
        qed
      qed
    qed
  qed
qed

text \<open>A node that was added is the newest of its bucket, whatever was split on the way.\<close>

lemma kb_add_node_newest:
  "kb_add_node now n b = (b', None) \<Longrightarrow> \<exists>ms. kb_nodes b' = ms @ [n]"
  by (auto simp: kb_add_node_def Let_def kb_head_def kb_len_def k_bucket_size_def split: if_splits list.splits sum.splits)

lemma rt_add_node_newest:
  "rt_add_node now n rt = (Inr None, rt') \<Longrightarrow>
   \<exists>b \<in> set (buckets rt'). in_range b n \<and> kb_last_updated b = now \<and> (\<exists>ms. kb_nodes b = ms @ [n])"
proof (induction now n rt rule: rt_add_node.induct)
  case (1 now n rt)
  from "1.prems" have ne: "\<not> node_eq n (this_node rt)" by (auto simp: rt_add_node.simps [of now n rt])
  from "1.prems" ne obtain i where i: "bucket_by_node n rt = Inr i"
    by (auto simp: rt_add_node.simps [of now n rt] split: sum.splits)
  obtain b c where bc: "kb_add_node now n (buckets rt ! i) = (b, c)" by force
  note il = bucket_by_node_Inr [OF i]
  show ?case
  proof (cases c)
    case None
    then have "rt' = rt\<lparr>buckets := (buckets rt)[i := b]\<rparr>"
      using "1.prems" ne i bc by (auto simp: rt_add_node.simps [of now n rt])
    with kb_add_node_newest [OF bc [unfolded None]] kb_add_node_frame [OF bc] il show ?thesis
      by (auto simp: in_range_def set_update_memI intro!: bexI [of _ b])
  next
    case (Some m)
    obtain d where d: "depth b = Inr d" "in_range b (this_node rt) \<or> (d mod k_b \<noteq> 0 \<and> d \<noteq> int k_id_size)"
      "rt_add_node now n (split_bucket now i (rt\<lparr>buckets := (buckets rt)[i := b]\<rparr>)) = (Inr None, rt')"
      using "1.prems" ne i bc Some by (auto simp: rt_add_node.simps [of now n rt] Let_def split: sum.splits if_splits)
    show ?thesis by (rule "1.IH" [OF ne i bc [symmetric] refl refl Some d])
  qed
qed

end
