(* ===== verification/Neighbours.thy ===== *)
theory Neighbours
  imports Routing_Invariant "HOL-Library.Sublist"
begin

text \<open>
  \<open>RoutingTable.neighbours\<close> returns the closest nodes of the table. The code sorts the buckets
  by the distance of their midpoints, collects nodes bucket by bucket and leaves a bucket early
  when twice the wanted number is reached. On a table whose buckets are disjoint dyadic ranges
  the collected list is already in order of distance, so nothing it skips can be among the
  first.
\<close>

unbundle bit_operations_syntax

section \<open>Collecting\<close>

lemma collect_nodes_take:
  "length acc < limit \<Longrightarrow> collect_nodes limit acc ns = take limit (acc @ ns)"
proof (induction ns arbitrary: acc)
  case Nil
  then show ?case by simp
next
  case (Cons n ns)
  show ?case
  proof (cases "Suc (length acc) = limit")
    case True
    then show ?thesis by (auto simp: Let_def)
  next
    case False
    with Cons.prems Cons.IH [of "acc @ [n]"] show ?thesis by (simp add: Let_def)
  qed
qed

lemma collect_nodes_all:
  "limit \<le> length acc \<Longrightarrow> collect_nodes limit acc ns = acc @ ns"
proof (induction ns arbitrary: acc)
  case (Cons n ns)
  then show ?case using Cons.IH [of "acc @ [n]"] by (auto simp: Let_def)
qed simp

text \<open>
  The whole loop: what it collects is a subsequence of all the nodes in bucket order and agrees
  with it on the first \<open>limit\<close> nodes.
\<close>

lemma take_take_append: "n \<le> length xs \<Longrightarrow> take n (take n xs @ ys) = take n (xs @ ys)"
  by simp

lemma collect_loop:
  "subseq (foldl (collect_nodes limit) acc nss) (acc @ concat nss) \<and>
   take limit (foldl (collect_nodes limit) acc nss) = take limit (acc @ concat nss)"
proof (induction nss arbitrary: acc)
  case Nil
  then show ?case by simp
next
  case (Cons ns nss)
  let ?acc = "collect_nodes limit acc ns"
  have acc: "?acc = acc @ ns \<or> ?acc = take limit (acc @ ns) \<and> limit \<le> length (acc @ ns)"
    by (cases "length acc < limit"; cases "limit \<le> length (acc @ ns)")
      (auto simp: collect_nodes_take collect_nodes_all)
  then have "subseq (?acc @ concat nss) ((acc @ ns) @ concat nss)"
    by (metis subseq_append subseq_order.refl subseq_rev_drop_many append_take_drop_id)
  moreover have "take limit (?acc @ concat nss) = take limit ((acc @ ns) @ concat nss)"
    using acc take_take_append [of limit "acc @ ns" "concat nss"] by auto
  ultimately show ?case using Cons [of ?acc] by (auto intro: subseq_order.trans)
qed

lemma sorted_wrt_subseq: "subseq xs ys \<Longrightarrow> sorted_wrt P ys \<Longrightarrow> sorted_wrt P xs"
  by (induction rule: list_emb.induct) (auto dest: list_emb_set)

lemma sorted_concat_map:
  assumes "sorted_wrt (\<lambda>b c. \<forall>x\<in>set (g b). \<forall>y\<in>set (g c). f x \<le> f y) bs"
    and "\<forall>b\<in>set bs. sorted (map f (g b))"
  shows "sorted (map f (concat (map g bs)))"
  using assms by (induction bs) (auto simp: sorted_append)

lemma concat_map_single:
  "distinct bs \<Longrightarrow> b \<in> set bs \<Longrightarrow> (\<And>c. c \<in> set bs \<Longrightarrow> c \<noteq> b \<Longrightarrow> g c = []) \<Longrightarrow>
   concat (map g bs) = g b"
proof (induction bs)
  case (Cons a bs)
  show ?case
  proof (cases "a = b")
    case True
    with Cons.prems have "concat (map g bs) = []" by (intro concat_all_empty) auto
    with True show ?thesis by simp
  next
    case False
    with Cons.prems(2,3) have "g a = []" "b \<in> set bs" by auto
    with Cons show ?thesis by simp
  qed
qed simp

section \<open>The order of the buckets\<close>

lemma table_buckets_disjoint:
  assumes ok: "kb.table_ok a bs z" and b: "b \<in> set bs" "c \<in> set bs" "b \<noteq> c"
  shows "kb_end b < kb_start c \<or> kb_end c < kb_start b"
proof -
  obtain i j where ij: "i < length bs" "b = bs ! i" "j < length bs" "c = bs ! j"
    using b by (auto simp: in_set_conv_nth)
  with b(3) have "i < j \<or> j < i" by (metis linorder_neqE_nat)
  with tiling_disjoint [of a "map (\<lambda>b. (kb_start b, kb_end b)) bs" z] ok ij show ?thesis
    by (auto simp: kb.table_ok_def)
qed

lemma table_bucket_bounds:
  "kb.table_ok a bs z \<Longrightarrow> b \<in> set bs \<Longrightarrow> kb_wf b \<and> kb_start b \<le> kb_end b"
  using tiling_bounds [of a "map (\<lambda>b. (kb_start b, kb_end b)) bs" z] by (auto simp: kb.table_ok_def)

lemma table_buckets_distinct: "kb.table_ok a bs z \<Longrightarrow> distinct bs"
proof (induction bs arbitrary: a)
  case (Cons b bs)
  then have ok: "kb.table_ok (kb_end b + 1) bs z" and le: "kb_start b \<le> kb_end b"
    by (auto simp: kb.table_ok_Cons)
  have "b \<notin> set bs"
  proof
    assume "b \<in> set bs"
    then have "kb_end b + 1 \<le> kb_start b"
      using tiling_bounds [of "kb_end b + 1" "map (\<lambda>b. (kb_start b, kb_end b)) bs" z
          "(kb_start b, kb_end b)"] ok by (auto simp: kb.table_ok_def)
    with le show False by simp
  qed
  with Cons.IH [OF ok] show ?case by simp
qed simp

lemma midpoint_in: "kb_start b \<le> kb_end b \<Longrightarrow> kb_start b \<le> midpoint b \<and> midpoint b \<le> kb_end b"
  by (simp add: midpoint_def)

text \<open>A bucket with the nearer midpoint has only nearer nodes.\<close>

lemma nearer_bucket_nearer_nodes:
  assumes ok: "kb.table_ok a bs z" and bc: "b \<in> set bs" "c \<in> set bs" "b \<noteq> c"
    and le: "kb_id_distance t b \<le> kb_id_distance t c"
    and xy: "x \<in> set (kb_nodes b)" "y \<in> set (kb_nodes c)"
  shows "id_distance t x < id_distance t y"
proof -
  note b = table_bucket_bounds [OF ok bc(1)] and c = table_bucket_bounds [OF ok bc(2)]
  note mb = midpoint_in [OF conjunct2 [OF b]] and mc = midpoint_in [OF conjunct2 [OF c]]
  note disj = table_buckets_disjoint [OF ok bc]
  have "midpoint b \<noteq> midpoint c" using disj mb mc by linarith
  then have "midpoint b XOR t < midpoint c XOR t"
    using le by (simp add: kb_id_distance_def less_le xor_right_cancel_int)
  moreover have "in_range b x" "in_range c y"
    using kb_wf_parts(4) [OF conjunct1 [OF b] xy(1)] kb_wf_parts(4) [OF conjunct1 [OF c] xy(2)]
    by simp_all
  ultimately show ?thesis
    unfolding id_distance_def in_range_def
    using mb mc dyadic_order [OF kb_wf_parts(1) [OF conjunct1 [OF b]]
        kb_wf_parts(1) [OF conjunct1 [OF c]] disj, of "midpoint b" "node_id x" "midpoint c" "node_id y" t]
    by blast
qed

lemma sorted_wrt_with_distinct:
  "sorted_wrt P xs \<Longrightarrow> distinct xs \<Longrightarrow> sorted_wrt (\<lambda>x y. P x y \<and> x \<noteq> y \<and> x \<in> set xs \<and> y \<in> set xs) xs"
  by (simp add: sorted_wrt_iff_nth_less nth_eq_iff_index_eq)

lemma sorted_sort_key: "sorted (map f (sort_key f xs))"
  by simp

text \<open>All the nodes in the order the loop visits them: the stable sort by distance.\<close>

lemma bucketwise_sort:
  assumes ok: "kb.table_ok a bs z"
  shows "concat (map (\<lambda>b. sort_key (id_distance t) (kb_nodes b)) (sort_key (kb_id_distance t) bs)) =
    sort_key (id_distance t) (concat (map kb_nodes bs))"
proof -
  let ?f = "id_distance t" and ?g = "\<lambda>b. sort_key (id_distance t) (kb_nodes b)"
    and ?bs = "sort_key (kb_id_distance t) bs"
  have dist: "distinct bs" by (rule table_buckets_distinct [OF ok])
  have "sorted_wrt (\<lambda>b c. kb_id_distance t b \<le> kb_id_distance t c) ?bs"
    using sorted_sort_key [of "kb_id_distance t" bs] by (simp add: sorted_wrt_map)
  from sorted_wrt_with_distinct [OF this] dist
  have P: "sorted_wrt (\<lambda>b c. kb_id_distance t b \<le> kb_id_distance t c \<and> b \<noteq> c \<and>
      b \<in> set ?bs \<and> c \<in> set ?bs) ?bs" by simp
  have "sorted_wrt (\<lambda>b c. \<forall>x\<in>set (?g b). \<forall>y\<in>set (?g c). ?f x \<le> ?f y) ?bs"
    by (rule sorted_wrt_mono_rel [OF _ P])
      (auto intro: less_imp_le nearer_bucket_nearer_nodes [OF ok])
  then have sorted: "sorted (map ?f (concat (map ?g ?bs)))"
    by (rule sorted_concat_map) simp
  have same: "filter (\<lambda>x. ?f k = ?f x) (concat (map ?g ?bs)) =
      filter (\<lambda>x. ?f k = ?f x) (concat (map kb_nodes bs))" if "k \<in> set (concat (map ?g ?bs))" for k
  proof -
    let ?P = "\<lambda>x. ?f k = ?f x"
    from that obtain b where b: "b \<in> set bs" "k \<in> set (kb_nodes b)" by auto
    have none: "filter ?P (kb_nodes c) = []" if "c \<in> set bs" "c \<noteq> b" for c
    proof -
      have "?f k \<noteq> ?f x" if "x \<in> set (kb_nodes c)" for x
        using nearer_bucket_nearer_nodes [OF ok b(1) \<open>c \<in> set bs\<close> \<open>c \<noteq> b\<close> [symmetric] _ b(2) that, of t]
          nearer_bucket_nearer_nodes [OF ok \<open>c \<in> set bs\<close> b(1) \<open>c \<noteq> b\<close> _ that b(2), of t]
        by (metis less_irrefl linear)
      then show ?thesis by (simp add: filter_empty_conv)
    qed
    have st: "filter ?P (?g c) = filter ?P (kb_nodes c)" for c
      using sort_key_stable [of ?f "?f k" "kb_nodes c"] by (metis (mono_tags, lifting) filter_cong)
    have "concat (map (\<lambda>c. filter ?P (kb_nodes c)) ?bs) = filter ?P (kb_nodes b)"
      by (rule concat_map_single) (use dist b none in auto)
    moreover have "concat (map (\<lambda>c. filter ?P (kb_nodes c)) bs) = filter ?P (kb_nodes b)"
      by (rule concat_map_single) (use dist b none in auto)
    ultimately show ?thesis by (simp add: filter_concat_map st)
  qed
  have "mset (concat (map ?g ?bs)) = mset (concat (map kb_nodes bs))"
    by (simp only: mset_concat_map mset_sort)
  from properties_for_sort_key [OF this same sorted] show ?thesis by simp
qed

section \<open>The result\<close>

lemma neighbours_eq:
  assumes "rt_wf h rt"
  shows "neighbours k t rt = take k (sort_key (id_distance t) (rt_nodes rt))"
proof -
  let ?f = "id_distance t"
  let ?nss = "map (\<lambda>b. sort_key ?f (kb_nodes b)) (sort_key (kb_id_distance t) (buckets rt))"
  let ?R = "foldl (collect_nodes (k * 2)) [] ?nss"
  have all: "concat ?nss = sort_key ?f (rt_nodes rt)"
    using bucketwise_sort [OF rt_wf_table [OF assms]] by (simp add: rt_nodes_def)
  have sub: "subseq ?R (concat ?nss)" and pre: "take (k * 2) ?R = take (k * 2) (concat ?nss)"
    using collect_loop [of "k * 2" "[]" ?nss] by auto
  have "sorted (map ?f (concat ?nss))" by (simp add: all)
  then have "sorted (map ?f ?R)" using sorted_wrt_subseq [OF subseq_map [OF sub, of ?f]] by blast
  then have "sort_key ?f ?R = ?R" by (rule sort_key_id_if_sorted)
  moreover have "neighbours k t rt = take k (sort_key ?f ?R)"
    by (simp add: neighbours_def foldl_map nodes_by_id_distance_def buckets_by_id_distance_def)
  moreover have "take k ?R = take k (concat ?nss)"
    using arg_cong [OF pre, of "take k"] by (simp add: min_def split: if_splits)
  ultimately show ?thesis by (simp add: all)
qed

lemma neighbours_subset: "rt_wf h rt \<Longrightarrow> set (neighbours k t rt) \<subseteq> set (rt_nodes rt)"
  by (auto simp: neighbours_eq dest: in_set_takeD)

section \<open>The table implements the interface\<close>

interpretation rt: node_table rt_nodes rt_caches this_node "node_ok h" "rt_wf h"
    rt_add_node rt_remove_node neighbours for h
proof (unfold_locales, goal_cases)
  case (1 t n)
  then show ?case by (simp add: rt_wf_def)
next
  case (2 t)
  then show ?case by (rule rt_nodes_distinct)
next
  case (3 m n)
  then show ?case by (simp add: node_ok_def)
next
  case (4 n)
  then show ?case by (simp add: node_ok_def id_bounded_def)
next
  case (5 t n now r t')
  then show ?case using rt_add_node_spec by blast
next
  case (6 t n now t')
  then show ?case using rt_add_node_spec [OF 6] by (simp add: add_node_post_def)
next
  case (7 t n now c t')
  then have post: "add_node_post n t (Inr (Some c)) t'" using rt_add_node_spec [OF 7] by simp
  then obtain b where b: "b \<in> set (buckets t')" "kb_head b = Inr c"
    by (auto simp: add_node_post_def)
  then have "c \<in> set (rt_nodes t')"
    by (auto simp: kb_head_def rt_nodes_def split: list.splits intro!: bexI [of _ b])
  with post show ?case using mset_eq_setD [of "rt_nodes t'" "rt_nodes t"]
    by (auto simp: add_node_post_def)
next
  case (8 t n now e t')
  then show ?case using rt_add_node_spec [OF 8] by (simp add: add_node_post_def)
next
  case (9 t n r t')
  then show ?case using rt_remove_node_spec(1-3) [OF 9] by simp
next
  case (10 t n t')
  then show ?case by (rule rt_remove_node_spec) simp
next
  case (11 t n e t')
  then show ?case by (rule rt_remove_node_spec) simp
next
  case (12 t k i)
  then show ?case by (rule neighbours_eq)
qed

end
