(* ===== verification/Kademlia_Protocol.thy ===== *)
theory Kademlia_Protocol
  imports Neighbours
begin

text \<open>
  \<open>KademliaProtocol\<close> of \<open>devp2p/kademlia.py\<close>. The calls of the wire interface that return are recorded
  in \<open>sent\<close>, in order. A call may raise, which ends the handler where it stands. What the wire does
  with a message, the echo that \<open>send_ping\<close> returns, and the values of \<open>random.randint\<close> are given by
  the environment and may depend on everything sent before. The clock is read once per handler. The optional attribute \<open>address\<close> of node objects is a map from object identities.
  Logging is left out.
\<close>

datatype wire_msg =
    Ping node
  | Pong node bytes
  | FindNode node int
  | Neighbours node "node list"

text \<open>
  \<open>on_wire\<close> takes the addresses of the node objects, what was sent before and the message; it raises, or
  returns the identification of the message, which only \<open>send_ping\<close> passes on.
\<close>

record 'a env =
  clock :: rat
  on_wire :: "(nat \<Rightarrow> 'a option) \<Rightarrow> wire_msg list \<Rightarrow> wire_msg \<Rightarrow> bytes res"
  randint :: "wire_msg list \<Rightarrow> int \<Rightarrow> int \<Rightarrow> int"

record 'a kad =
  local_node :: node
  routing :: rtable
  expected_pongs :: "(bytes, rat \<times> node \<times> node option) dict"
  find_requests :: "(int, rat) dict"
  deleted_pingids :: "bytes set"
  address_of :: "nat \<Rightarrow> 'a option"
  sent :: "wire_msg list"

definition mk_kad :: "rat \<Rightarrow> node \<Rightarrow> (nat \<Rightarrow> 'a option) \<Rightarrow> 'a kad" where
  "mk_kad now n addrs =
     \<lparr>local_node = n, routing = mk_rtable now n, expected_pongs = [], find_requests = [],
      deleted_pingids = {}, address_of = addrs, sent = []\<rparr>"

definition on_routing :: "(rtable, 'r) prog \<Rightarrow> ('a kad, 'r) prog" where
  "on_routing m = (\<lambda>s. case m (routing s) of (r, rt) \<Rightarrow> (r, s\<lparr>routing := rt\<rparr>))"

definition post_message :: "'a env \<Rightarrow> wire_msg \<Rightarrow> ('a kad, bytes) prog" where
  "post_message env m =
     seq (gets (\<lambda>s. on_wire env (address_of s) (sent s) m)) (\<lambda>r.
     seq (lift_res r) (\<lambda>echoed.
     seq (modify (\<lambda>s. s\<lparr>sent := sent s @ [m]\<rparr>)) (\<lambda>_.
     ret echoed)))"

definition send_message :: "'a env \<Rightarrow> wire_msg \<Rightarrow> ('a kad, unit) prog" where
  "send_message env m = seq (post_message env m) (\<lambda>_. ret ())"

text \<open>\<open>WireInterface.send_ping\<close>: the message goes out and its identification comes back.\<close>

definition send_ping :: "'a env \<Rightarrow> node \<Rightarrow> ('a kad, bytes) prog" where
  "send_ping env n = post_message env (Ping n)"

definition mkpingid :: "bytes \<Rightarrow> node \<Rightarrow> bytes res" where
  "mkpingid echoed n = bind_res (assert_res (pubkey n \<noteq> [])) (\<lambda>_. Inr (echoed @ pubkey n))"

definition ping :: "'a env \<Rightarrow> node \<Rightarrow> node option \<Rightarrow> ('a kad, unit) prog" where
  "ping env n replacement =
     seq (gets local_node) (\<lambda>this.
     seq (py_assert (\<not> node_eq n this)) (\<lambda>_.
     seq (send_ping env n) (\<lambda>echoed.
     seq (lift_res (mkpingid echoed n)) (\<lambda>pingid.
     seq (py_assert (pingid \<noteq> [])) (\<lambda>_.
     modify (\<lambda>s. s\<lparr>expected_pongs :=
       AList.update pingid (clock env + k_request_timeout, n, replacement) (expected_pongs s)\<rparr>))))))"

definition query_neighbours :: "'a env \<Rightarrow> int \<Rightarrow> ('a kad, unit) prog" where
  "query_neighbours env targetid =
     seq (gets (\<lambda>s. neighbours k_bucket_size targetid (routing s))) (\<lambda>ns.
     for_each (take k_find_concurrency ns) (\<lambda>n. send_message env (FindNode n targetid)))"

definition find_node :: "'a env \<Rightarrow> int \<Rightarrow> node option \<Rightarrow> ('a kad, unit) prog" where
  "find_node env targetid via_node =
     seq (modify (\<lambda>s. s\<lparr>find_requests :=
            AList.update targetid (clock env + k_request_timeout) (find_requests s)\<rparr>)) (\<lambda>_.
     case via_node of
       Some v \<Rightarrow> send_message env (FindNode v targetid)
     | None \<Rightarrow> query_neighbours env targetid)"

definition bootstrap :: "'a env \<Rightarrow> node list \<Rightarrow> ('a kad, unit) prog" where
  "bootstrap env nodes =
     for_each nodes (\<lambda>n.
       seq (gets local_node) (\<lambda>this.
       if node_eq n this then ret ()
       else seq (on_routing (rt_add_node (clock env) n)) (\<lambda>_.
            find_node env (node_id this) (Some n))))"

section \<open>update\<close>

text \<open>
  The loop over the expected pongs that timed out: the pinged node is evicted; a registered
  replacement ends the loop (the caller then updates with it), and so does the eviction of the
  very node the update is for.
\<close>

datatype expiry = Replace node | Stop | Continue

fun expire ::
  "'a env \<Rightarrow> node \<Rightarrow> (bytes \<times> rat \<times> node \<times> node option) list \<Rightarrow> ('a kad, expiry) prog" where
  "expire env n [] = ret Continue"
| "expire env n ((pid, timeout, m, replacement) # rest) =
     (if clock env > timeout then
        seq (modify (\<lambda>s. s\<lparr>deleted_pingids := insert pid (deleted_pingids s),
                             expected_pongs := AList.delete pid (expected_pongs s)\<rparr>)) (\<lambda>_.
        seq (on_routing (rt_remove_node m)) (\<lambda>_.
        case replacement of
          Some r \<Rightarrow> ret (Replace r)
        | None \<Rightarrow> if node_eq m n then ret Stop else expire env n rest))
      else expire env n rest)"

text \<open>\<open>self.routing.bucket_by_node(replacement).replacement_cache.append(replacement)\<close>.\<close>

definition cache_replacement :: "node \<Rightarrow> (rtable, unit) prog" where
  "cache_replacement r rt =
     (case bucket_by_node r rt of
        Inl e \<Rightarrow> (Inl e, rt)
      | Inr i \<Rightarrow>
          let b = buckets rt ! i in
          (Inr (), rt\<lparr>buckets := (buckets rt)
             [i := b\<lparr>kb_replacement_cache := kb_replacement_cache b @ [r]\<rparr>]\<rparr>))"

text \<open>If this node was registered for an eviction test, its pong has arrived.\<close>

definition receive_expected :: "bytes option \<Rightarrow> ('a kad, unit) prog" where
  "receive_expected pingid =
     (case pingid of
        None \<Rightarrow> ret ()
      | Some pid \<Rightarrow>
          seq (gets (\<lambda>s. map_of (expected_pongs s) pid)) (\<lambda>entry.
          case entry of
            None \<Rightarrow> ret ()
          | Some (timeout, m, replacement) \<Rightarrow>
              seq (case replacement of
                     Some r \<Rightarrow> on_routing (cache_replacement r)
                   | None \<Rightarrow> ret ()) (\<lambda>_.
              modify (\<lambda>s. s\<lparr>expected_pongs := AList.delete pid (expected_pongs s)\<rparr>))))"

definition ping_replacements :: "'a env \<Rightarrow> ('a kad, unit) prog" where
  "ping_replacements env =
     seq (gets (\<lambda>s. concat (map kb_replacement_cache (not_full_buckets (routing s))))) (\<lambda>ns.
     for_each ns (\<lambda>n. ping env n None))"

definition refresh_idle_buckets :: "'a env \<Rightarrow> ('a kad, unit) prog" where
  "refresh_idle_buckets env =
     seq (gets (\<lambda>s. idle_buckets (clock env) (routing s))) (\<lambda>bs.
     for_each bs (\<lambda>b.
       seq (gets (\<lambda>s. randint env (sent s) (kb_start b) (kb_end b))) (\<lambda>rid.
       find_node env rid None)))"

text \<open>\<open>update\<close> from the pong bookkeeping on.\<close>

definition add_and_refresh :: "'a env \<Rightarrow> node \<Rightarrow> bytes option \<Rightarrow> ('a kad, unit) prog" where
  "add_and_refresh env n pingid =
     seq (receive_expected pingid) (\<lambda>_.
     seq (on_routing (rt_add_node (clock env) n)) (\<lambda>eviction_candidate.
     seq (case eviction_candidate of
            Some c \<Rightarrow> ping env c (Some n)
          | None \<Rightarrow> ret ()) (\<lambda>_.
     seq (ping_replacements env) (\<lambda>_.
     seq (refresh_idle_buckets env) (\<lambda>_.
     modify (\<lambda>s. s\<lparr>find_requests :=
       filter (\<lambda>(nodeid, timeout). clock env \<le> timeout) (find_requests s)\<rparr>))))))"

definition surprising_pong :: "bytes option \<Rightarrow> 'a kad \<Rightarrow> bool" where
  "surprising_pong pingid s =
     (case pingid of
        None \<Rightarrow> False
      | Some pid \<Rightarrow> pid \<noteq> [] \<and> map_of (expected_pongs s) pid = None)"

lemma expire_length:
  "length (expected_pongs (snd (expire env n es s))) \<le> length (expected_pongs s)"
proof (induction es arbitrary: s)
  case Nil
  then show ?case by (simp add: ret_def)
next
  case (Cons e es)
  obtain pid t m r where e: "e = (pid, t, m, r)" by (metis prod.exhaust)
  have "length (AList.delete pid (expected_pongs s)) \<le> length (expected_pongs s)"
    by (simp add: AList.delete_eq)
  then show ?case
    using Cons.IH [of s]
      Cons.IH [of "s\<lparr>deleted_pingids := insert pid (deleted_pingids s),
        expected_pongs := AList.delete pid (expected_pongs s),
        routing := snd (rt_remove_node m (routing s))\<rparr>"]
    by (auto simp: e prog_defs on_routing_def split: sum.splits option.splits prod.splits)
qed

lemma expire_Replace_length:
  assumes "expire env n es s = (Inr (Replace r), s')" "fst ` set es \<subseteq> fst ` set (expected_pongs s)"
  shows "length (expected_pongs s') < length (expected_pongs s)"
  using assms
proof (induction es)
  case Nil
  then show ?case by (simp add: ret_def)
next
  case (Cons e es)
  obtain pid t m r' where e: "e = (pid, t, m, r')" by (metis prod.exhaust)
  show ?case
  proof (cases "clock env > t")
    case False
    with Cons e show ?thesis by simp
  next
    case True
    have lt: "length (AList.delete pid (expected_pongs s)) < length (expected_pongs s)"
      using Cons.prems(2) e by (intro length_delete_less) auto
    let ?s = "s\<lparr>deleted_pingids := insert pid (deleted_pingids s),
        expected_pongs := AList.delete pid (expected_pongs s),
        routing := snd (rt_remove_node m (routing s))\<rparr>"
    show ?thesis using Cons.prems(1) True lt expire_length [of env n es ?s]
      by (auto simp: e prog_defs on_routing_def split: sum.splits option.splits prod.splits if_splits)
  qed
qed

function update :: "'a env \<Rightarrow> node \<Rightarrow> bytes option \<Rightarrow> ('a kad, unit) prog" where
  "update env n pingid s =
     (if node_eq n (local_node s) then (Inr (), s)
      else if surprising_pong pingid s then (Inr (), s)
      else case expire env n (expected_pongs s) s of
        (Inl e, s') \<Rightarrow> (Inl e, s')
      | (Inr (Replace r), s') \<Rightarrow> update env r None s'
      | (Inr Stop, s') \<Rightarrow> (Inr (), s')
      | (Inr Continue, s') \<Rightarrow> add_and_refresh env n pingid s')"
  by pat_completeness auto
termination
  by (relation "measure (\<lambda>(env, n, pingid, s). length (expected_pongs s))")
    (auto dest!: sym [of _ "expire _ _ _ _"] expire_Replace_length)

declare update.simps [simp del]

section \<open>The messages received\<close>

definition recv_ping :: "'a env \<Rightarrow> node \<Rightarrow> bytes \<Rightarrow> ('a kad, unit) prog" where
  "recv_ping env remote ech =
     seq (gets local_node) (\<lambda>this.
     if node_eq remote this then ret ()
     else seq (update env remote None) (\<lambda>_. send_message env (Pong remote ech)))"

text \<open>
  \<open>recv_pong\<close>: when the remote has an address and is the closest known node to its own id, the
  object in the table gets the remote's address.
\<close>

definition learn_address :: "node \<Rightarrow> 'a kad \<Rightarrow> 'a kad" where
  "learn_address remote s =
     (case address_of s (oref remote) of
        None \<Rightarrow> s
      | Some a \<Rightarrow>
          (case neighbours k_bucket_size (node_id remote) (routing s) of
             [] \<Rightarrow> s
           | m # _ \<Rightarrow>
               if node_eq m remote then s\<lparr>address_of := (address_of s)(oref m \<mapsto> a)\<rparr> else s))"

definition recv_pong :: "'a env \<Rightarrow> node \<Rightarrow> bytes \<Rightarrow> ('a kad, unit) prog" where
  "recv_pong env remote echoed =
     seq (gets local_node) (\<lambda>this.
     seq (py_assert (\<not> node_eq remote this)) (\<lambda>_.
     seq (lift_res (mkpingid echoed remote)) (\<lambda>pingid.
     seq (modify (learn_address remote)) (\<lambda>_.
     update env remote (Some pingid)))))"

text \<open>\<open>[n for n in neighbours if n not in self.routing]\<close>: the lookup may raise.\<close>

fun filter_unknown :: "rtable \<Rightarrow> node list \<Rightarrow> node list res" where
  "filter_unknown rt [] = Inr []"
| "filter_unknown rt (n # ns) =
     bind_res (rt_contains n rt) (\<lambda>known.
     bind_res (filter_unknown rt ns) (\<lambda>rest.
     Inr (if known then rest else n # rest)))"

text \<open>The body of the loop over the find requests.\<close>

definition forward_find :: "'a env \<Rightarrow> node list \<Rightarrow> int \<times> rat \<Rightarrow> ('a kad, unit) prog" where
  "forward_find env ns request =
     (case request of (nodeid, timeout) \<Rightarrow>
        let closest = sort_key (id_distance nodeid) ns in
        if clock env < timeout then
          seq (gets (\<lambda>s. neighbours k_bucket_size nodeid (routing s))) (\<lambda>known.
          seq (gets local_node) (\<lambda>this.
          seq (py_assert (known = [] \<or> \<not> node_eq (hd known) this)) (\<lambda>_.
          for_each (take k_find_concurrency closest) (\<lambda>c.
            if known = [] \<or> id_distance nodeid c < id_distance nodeid (hd known)
            then send_message env (FindNode c nodeid) else ret ()))))
        else ret ())"

definition recv_neighbours :: "'a env \<Rightarrow> node \<Rightarrow> node list \<Rightarrow> ('a kad, unit) prog" where
  "recv_neighbours env remote ns =
     seq (gets local_node) (\<lambda>this.
     let ns = filter (\<lambda>n. \<not> node_eq n this) ns in
     seq (\<lambda>s. (filter_unknown (routing s) ns, s)) (\<lambda>ns.
     seq (gets find_requests) (\<lambda>requests.
     seq (for_each requests (forward_find env ns)) (\<lambda>_.
     for_each ns (\<lambda>n. if \<not> node_eq n this then ping env n None else ret ())))))"

definition recv_find_node :: "'a env \<Rightarrow> node \<Rightarrow> int \<Rightarrow> ('a kad, unit) prog" where
  "recv_find_node env remote targetid =
     seq (update env remote None) (\<lambda>_.
     seq (gets (\<lambda>s. neighbours k_bucket_size targetid (routing s))) (\<lambda>found.
     send_message env (Neighbours remote found)))"

text \<open>Everything that can happen to the protocol object.\<close>

datatype kad_event =
    RecvPing node bytes
  | RecvPong node bytes
  | RecvFindNode node int
  | RecvNeighbours node "node list"
  | Bootstrap "node list"
  | Lookup int "node option"

fun kad_step :: "'a env \<Rightarrow> kad_event \<Rightarrow> ('a kad, unit) prog" where
  "kad_step env (RecvPing n ech) = recv_ping env n ech"
| "kad_step env (RecvPong n ech) = recv_pong env n ech"
| "kad_step env (RecvFindNode n i) = recv_find_node env n i"
| "kad_step env (RecvNeighbours n ns) = recv_neighbours env n ns"
| "kad_step env (Bootstrap ns) = bootstrap env ns"
| "kad_step env (Lookup i via) = find_node env i via"

end
