(* ===== verification/Kademlia_Invariant.thy ===== *)
theory Kademlia_Invariant
  imports Kademlia_Protocol
begin

text \<open>
  The invariant of the discovery protocol: the routing table is well formed, the local node is
  never a contact, never pinged and never expected to answer, and every expected pong is filed
  under an id that ends with the public key of the node it is expected from. Every handler
  keeps it on every path, exceptions included, and so it holds in every reachable state.
\<close>

definition peer_of :: "(bytes \<Rightarrow> int) \<Rightarrow> node \<Rightarrow> node \<Rightarrow> bool" where
  "peer_of h l n \<longleftrightarrow> node_ok h n \<and> pubkey n \<noteq> pubkey l"

definition pong_entry_ok :: "(bytes \<Rightarrow> int) \<Rightarrow> node \<Rightarrow> bytes \<times> rat \<times> node \<times> node option \<Rightarrow> bool" where
  "pong_entry_ok h l = (\<lambda>(pid, t, n, r).
     peer_of h l n \<and> (\<exists>e. pid = e @ pubkey n) \<and> (case r of None \<Rightarrow> True | Some m \<Rightarrow> peer_of h l m))"

definition kad_inv :: "(bytes \<Rightarrow> int) \<Rightarrow> node \<Rightarrow> 'a kad \<Rightarrow> bool" where
  "kad_inv h l s \<longleftrightarrow>
     local_node s = l \<and> this_node (routing s) = l \<and> rt_wf h (routing s) \<and>
     distinct (map fst (expected_pongs s)) \<and>
     (\<forall>e \<in> set (expected_pongs s). pong_entry_ok h l e) \<and>
     (\<forall>n. Ping n \<in> set (sent s) \<longrightarrow> pubkey n \<noteq> pubkey l)"

lemma kad_invD:
  assumes "kad_inv h l s"
  shows "local_node s = l" "this_node (routing s) = l" "rt_wf h (routing s)"
    "distinct (map fst (expected_pongs s))"
    "e \<in> set (expected_pongs s) \<Longrightarrow> pong_entry_ok h l e"
  using assms by (simp_all add: kad_inv_def)

lemma entry_peer:
  "kad_inv h l s \<Longrightarrow> (pid, t, n, r) \<in> set (expected_pongs s) \<Longrightarrow> peer_of h l n"
  "kad_inv h l s \<Longrightarrow> (pid, t, n, Some m) \<in> set (expected_pongs s) \<Longrightarrow> peer_of h l m"
  by (auto dest!: kad_invD(5) simp: pong_entry_ok_def)

lemma mk_kad_inv: "node_ok h n \<Longrightarrow> kad_inv h n (mk_kad now n addrs)"
  using mk_rtable_wf [of h n now] by (simp add: kad_inv_def mk_kad_def) (simp_all add: mk_rtable_def)

section \<open>Statements that keep the invariant\<close>

lemma on_routing_keeps:
  assumes "keeps (\<lambda>t. rt_wf h t \<and> this_node t = l) m"
  shows "keeps (kad_inv h l) (on_routing m)"
  unfolding keeps_def
proof (intro allI impI)
  fix s
  assume s: "kad_inv h l s"
  obtain r t where m: "m (routing s) = (r, t)" by force
  have "rt_wf h t \<and> this_node t = l"
    using keepsD [OF assms, of "routing s"] kad_invD(2,3) [OF s] m by simp
  with s m show "kad_inv h l (snd (on_routing m s))"
    by (simp add: on_routing_def kad_inv_def)
qed

lemma add_node_keeps:
  "peer_of h l n \<Longrightarrow> keeps (kad_inv h l) (on_routing (rt_add_node now n))"
  by (intro on_routing_keeps rt.add_keeps) (simp_all add: peer_of_def)

lemma remove_node_keeps:
  "peer_of h l n \<Longrightarrow> keeps (kad_inv h l) (on_routing (rt_remove_node n))"
  by (intro on_routing_keeps rt.remove_keeps) (simp add: peer_of_def)

lemma keeps_post [keeps_rules]:
  "(\<And>s. I s \<Longrightarrow> I (s\<lparr>sent := sent s @ [m]\<rparr>)) \<Longrightarrow> keeps I (post_message env m)"
  unfolding post_message_def by (intro keeps_seq keeps_gets keeps_lift keeps_modify keeps_ret)

lemma keeps_send [keeps_rules]:
  "(\<And>s. I s \<Longrightarrow> I (s\<lparr>sent := sent s @ [m]\<rparr>)) \<Longrightarrow> keeps I (send_message env m)"
  unfolding send_message_def by (intro keeps_seq keeps_post keeps_ret)

lemma send_keeps:
  "(\<And>n. m = Ping n \<Longrightarrow> pubkey n \<noteq> pubkey l) \<Longrightarrow> keeps (kad_inv h l) (send_message env m)"
  by (rule keeps_send) (auto simp: kad_inv_def)

lemma forget_pong_keeps:
  "keeps (kad_inv h l) (modify (\<lambda>s. s\<lparr>expected_pongs := AList.delete pid (expected_pongs s)\<rparr>))"
  by (rule keeps_modify) (auto simp: kad_inv_def distinct_delete dest: set_delete_subset [THEN subsetD])

lemma drop_pong_keeps:
  "keeps (kad_inv h l) (modify (\<lambda>s. s\<lparr>deleted_pingids := insert pid (deleted_pingids s),
     expected_pongs := AList.delete pid (expected_pongs s)\<rparr>))"
  by (rule keeps_modify) (auto simp: kad_inv_def distinct_delete dest: set_delete_subset [THEN subsetD])

lemma find_requests_keeps:
  "keeps (kad_inv h l) (modify (\<lambda>s. s\<lparr>find_requests := f s\<rparr>))"
  by (rule keeps_modify) (simp add: kad_inv_def)

lemma expect_pong_keeps:
  assumes "pong_entry_ok h l (pid, v)"
  shows "keeps (kad_inv h l) (modify (\<lambda>s. s\<lparr>expected_pongs := AList.update pid v (expected_pongs s)\<rparr>))"
  by (rule keeps_modify)
    (use assms in \<open>auto simp: kad_inv_def distinct_update dest: set_update_subset [THEN subsetD]\<close>)

text \<open>Two handlers read a value out of the state and use it after the state has moved on.\<close>

lemma cache_replacement_wf:
  assumes wf: "rt_wf h rt" and r: "node_ok h r" "pubkey r \<noteq> pubkey (this_node rt)"
  shows "rt_wf h (snd (cache_replacement r rt))" "this_node (snd (cache_replacement r rt)) = this_node rt"
proof -
  have *: "rt_wf h (snd (cache_replacement r rt)) \<and> this_node (snd (cache_replacement r rt)) = this_node rt"
  proof (cases "bucket_by_node r rt")
    case (Inl e)
    with wf show ?thesis by (simp add: cache_replacement_def)
  next
    case (Inr i)
    note il = bucket_by_node_Inr [OF Inr]
    let ?b = "buckets rt ! i"
    let ?b' = "?b\<lparr>kb_replacement_cache := kb_replacement_cache ?b @ [r]\<rparr>"
    have "kb_wf ?b'"
      using rt_wf_bucket [OF wf il(1)] il(2) by (auto simp: kb_wf_def in_range_def kb_len_def)
    then have "kb.table_ok 0 ((buckets rt)[i := ?b']) (2 ^ 256)"
      by (intro kb.table_ok_update [OF rt_wf_table [OF wf] il(1)]) simp_all
    moreover have "rt_nodes (rt\<lparr>buckets := (buckets rt)[i := ?b']\<rparr>) = rt_nodes rt"
      using rt_nodes_update [OF il(1), of ?b'] rt_nodes_at [OF il(1)] by simp
    moreover have "set (rt_caches (rt\<lparr>buckets := (buckets rt)[i := ?b']\<rparr>)) \<subseteq> insert r (set (rt_caches rt))"
      using rt_caches_at [OF il(1), of ?b'] rt_caches_at [OF il(1), of ?b] by auto
    ultimately show ?thesis using wf r Inr
      by (auto simp: cache_replacement_def Let_def rt_wf_def)
  qed
  then show "rt_wf h (snd (cache_replacement r rt))" "this_node (snd (cache_replacement r rt)) = this_node rt"
    by simp_all
qed

lemma cache_replacement_keeps:
  "peer_of h l r \<Longrightarrow> keeps (kad_inv h l) (on_routing (cache_replacement r))"
  by (intro on_routing_keeps) (auto simp: keeps_def peer_of_def cache_replacement_wf)

lemma send_ping_keeps:
  "pubkey n \<noteq> pubkey l \<Longrightarrow> keeps (kad_inv h l) (send_ping env n)"
  unfolding send_ping_def by (rule keeps_post) (auto simp: kad_inv_def)

lemma ping_keeps:
  assumes "node_ok h n" "\<And>m. r = Some m \<Longrightarrow> peer_of h l m"
  shows "keeps (kad_inv h l) (ping env n r :: ('a kad, unit) prog)"
proof (cases "pubkey n = pubkey l")
  case True
  then have "snd (ping env n r s) = s" if "kad_inv h l s" for s :: "'a kad"
    using kad_invD(1) [OF that] by (simp add: ping_def prog_defs node_eq_def)
  then show ?thesis by (simp add: keeps_def)
next
  case False
  have "keeps (kad_inv h l) (seq (lift_res (mkpingid echoed n)) (\<lambda>pingid.
     seq (py_assert (pingid \<noteq> [])) (\<lambda>_.
     modify (\<lambda>s :: 'a kad. s\<lparr>expected_pongs := AList.update pingid (clock env + k_request_timeout, n, r)
       (expected_pongs s)\<rparr>))))" for echoed
  proof (cases "mkpingid echoed n")
    case (Inl e)
    then show ?thesis by (simp add: keeps_def prog_defs)
  next
    case (Inr pid)
    then have "pid = echoed @ pubkey n" by (auto simp: mkpingid_def bind_res_eq_Inr)
    then have "pong_entry_ok h l (pid, clock env + k_request_timeout, n, r)"
      using assms False by (auto simp: pong_entry_ok_def peer_of_def split: option.split)
    then have "keeps (kad_inv h l) (seq (py_assert (pid \<noteq> [])) (\<lambda>_.
     modify (\<lambda>s :: 'a kad. s\<lparr>expected_pongs := AList.update pid (clock env + k_request_timeout, n, r)
       (expected_pongs s)\<rparr>)))"
      by (intro keeps_seq keeps_assert expect_pong_keeps)
    with Inr show ?thesis by (simp add: keeps_def seq_def lift_res_def)
  qed
  note file_keeps = this
  show ?thesis unfolding ping_def
    by (intro keeps_seq [of _ "gets _"] keeps_seq [of _ "py_assert _"]
        keeps_seq [of _ "send_ping _ _"] keeps_gets keeps_assert send_ping_keeps False file_keeps)
qed

lemma query_neighbours_keeps: "keeps (kad_inv h l) (query_neighbours env i)"
  unfolding query_neighbours_def by (intro keeps_seq keeps_gets keeps_for_each send_keeps) simp

lemma find_node_keeps: "keeps (kad_inv h l) (find_node env i via)"
  unfolding find_node_def
  by (cases via) (auto intro!: keeps_seq find_requests_keeps query_neighbours_keeps send_keeps)

lemma bootstrap_keeps:
  assumes "\<forall>n \<in> set ns. node_ok h n"
  shows "keeps (kad_inv h l) (bootstrap env ns)"
  unfolding bootstrap_def
proof (intro keeps_for_each keeps_gets_seq)
  fix n and s :: "'a kad"
  assume n: "n \<in> set ns" and s: "kad_inv h l s"
  show "keeps (kad_inv h l) (if node_eq n (local_node s) then ret ()
     else seq (on_routing (rt_add_node (clock env) n)) (\<lambda>_. find_node env (node_id (local_node s)) (Some n)))"
    using n assms kad_invD(1) [OF s]
    by (intro keeps_if keeps_ret keeps_seq add_node_keeps find_node_keeps)
      (simp add: peer_of_def node_eq_def)
qed

section \<open>update\<close>

text \<open>The loop over the expired pongs; a replacement it ends with is a contact.\<close>

lemma expire_keeps:
  assumes "\<forall>e \<in> set es. pong_entry_ok h l e"
  shows "keeps (kad_inv h l) (expire env n es)"
  using assms
proof (induction es)
  case Nil
  show ?case by (simp add: keeps_ret)
next
  case (Cons e es)
  obtain pid t m r where e: "e = (pid, t, m, r)" by (metis prod.exhaust)
  then have "peer_of h l m" using Cons.prems by (simp add: pong_entry_ok_def)
  with Cons show ?case
    unfolding e expire.simps
    by (intro keeps_if keeps_seq drop_pong_keeps remove_node_keeps keeps_option keeps_ret) simp_all
qed

lemma expire_Replace_peer:
  "expire env n es s = (Inr (Replace r), s') \<Longrightarrow> \<forall>e \<in> set es. pong_entry_ok h l e \<Longrightarrow> peer_of h l r"
proof (induction es arbitrary: s)
  case Nil
  then show ?case by (simp add: ret_def)
next
  case (Cons e es)
  obtain pid t m q where e: "e = (pid, t, m, q)" by (metis prod.exhaust)
  show ?case
  proof (cases "clock env > t")
    case True
    with Cons e show ?thesis
      by (auto simp: prog_defs pong_entry_ok_def split: sum.splits prod.splits option.splits if_splits)
  qed (use Cons e in auto)
qed

lemma receive_expected_keeps:
  "keeps (kad_inv h l) (receive_expected pingid :: ('a kad, unit) prog)"
proof (cases pingid)
  case (Some pid)
  have "keeps (kad_inv h l) (case map_of (expected_pongs s) pid of None \<Rightarrow> ret () :: ('a kad, unit) prog
     | Some (t, m, r) \<Rightarrow> seq (case r of Some r \<Rightarrow> on_routing (cache_replacement r) | None \<Rightarrow> ret ())
         (\<lambda>_. modify (\<lambda>s. s\<lparr>expected_pongs := AList.delete pid (expected_pongs s)\<rparr>)))"
    if s: "kad_inv h l s" for s :: "'a kad"
  proof (cases "map_of (expected_pongs s) pid")
    case (Some v)
    obtain t m r where v: "v = (t, m, r)" by (metis prod.exhaust)
    have "keeps (kad_inv h l) (case r of Some r \<Rightarrow> on_routing (cache_replacement r) :: ('a kad, unit) prog
        | None \<Rightarrow> ret ())"
      using map_of_SomeD [OF Some] entry_peer(2) [OF s] unfolding v
      by (cases r) (auto intro: keeps_ret cache_replacement_keeps)
    then show ?thesis unfolding Some v option.case prod.case
      by (rule keeps_seq) (rule forget_pong_keeps)
  qed (simp add: keeps_ret)
  with Some show ?thesis by (simp add: receive_expected_def keeps_gets_seq)
qed (simp add: receive_expected_def keeps_ret)

lemma caches_peers:
  assumes "kad_inv h l s" "n \<in> set (concat (map kb_replacement_cache (not_full_buckets (routing s))))"
  shows "peer_of h l n"
proof -
  have "n \<in> set (rt_caches (routing s))"
    using assms(2) by (auto simp: rt_caches_def not_full_buckets_def)
  then show ?thesis using rt.invar_nodes [OF kad_invD(3) [OF assms(1)]] kad_invD(2) [OF assms(1)]
    by (auto simp: peer_of_def)
qed

lemma ping_replacements_keeps: "keeps (kad_inv h l) (ping_replacements env)"
  unfolding ping_replacements_def
  by (intro keeps_gets_seq keeps_for_each ping_keeps) (auto simp: caches_peers [unfolded peer_of_def])

lemma refresh_idle_buckets_keeps: "keeps (kad_inv h l) (refresh_idle_buckets env)"
  unfolding refresh_idle_buckets_def
  by (intro keeps_seq keeps_gets keeps_for_each find_node_keeps)

lemma add_and_refresh_keeps:
  assumes n: "peer_of h l n"
  shows "keeps (kad_inv h l) (add_and_refresh env n pingid)"
  unfolding add_and_refresh_def keeps_triple
proof (rule triple_seq [OF receive_expected_keeps [unfolded keeps_triple]], rule triple_seq)
  let ?R = "\<lambda>c s. kad_inv h l s \<and> (\<forall>m. c = Some m \<longrightarrow> peer_of h l m)"
  show "triple (kad_inv h l) (on_routing (rt_add_node (clock env) n)) ?R (\<lambda>_. kad_inv h l)"
  proof (rule tripleI)
    fix s c s'
    assume s: "kad_inv h l s" and r: "on_routing (rt_add_node (clock env) n) s = (Inr c, s')"
    then have s': "kad_inv h l s'" using keeps_result [OF add_node_keeps [OF n]] by blast
    obtain t where t: "rt_add_node (clock env) n (routing s) = (Inr c, t)"
      using r by (auto simp: on_routing_def split: prod.splits)
    have "peer_of h l m" if "c = Some m" for m
    proof -
      note s = kad_invD [OF s]
      have "node_ok h n" "pubkey n \<noteq> pubkey (this_node (routing s))"
        using n s(2) by (auto simp: peer_of_def)
      then have "m \<in> set (rt_nodes (routing s))" using rt.add_rejected [OF s(3)] t that by blast
      then show ?thesis using rt.invar_nodes [OF s(3)] s(2) by (auto simp: peer_of_def)
    qed
    with s' show "?R c s'" by simp
  next
    fix s e s'
    assume "kad_inv h l s" "on_routing (rt_add_node (clock env) n) s = (Inl e, s')"
    then show "kad_inv h l s'" using keeps_result [OF add_node_keeps [OF n]] by blast
  qed
next
  fix c :: "node option"
  show "triple (\<lambda>s. kad_inv h l s \<and> (\<forall>m. c = Some m \<longrightarrow> peer_of h l m))
    (seq (case c of Some c \<Rightarrow> ping env c (Some n) | None \<Rightarrow> ret ())
      (\<lambda>_. seq (ping_replacements env) (\<lambda>_. seq (refresh_idle_buckets env)
        (\<lambda>_. modify (\<lambda>s. s\<lparr>find_requests :=
          filter (\<lambda>(nodeid, timeout). clock env \<le> timeout) (find_requests s)\<rparr>)))))
    (\<lambda>_. kad_inv h l) (\<lambda>_. kad_inv h l)"
  proof (cases "\<forall>m. c = Some m \<longrightarrow> peer_of h l m")
    case True
    with n have "keeps (kad_inv h l)
      (seq (case c of Some c \<Rightarrow> ping env c (Some n) | None \<Rightarrow> ret ())
        (\<lambda>_. seq (ping_replacements env) (\<lambda>_. seq (refresh_idle_buckets env)
          (\<lambda>_. modify (\<lambda>s. s\<lparr>find_requests :=
            filter (\<lambda>(nodeid, timeout). clock env \<le> timeout) (find_requests s)\<rparr>)))))"
      by (intro keeps_seq keeps_option keeps_ret ping_keeps ping_replacements_keeps
          refresh_idle_buckets_keeps find_requests_keeps) (auto simp: peer_of_def)
    then show ?thesis unfolding keeps_triple by (rule triple_conseq) auto
  qed (auto simp: triple_def)
qed

lemma update_keeps: "node_ok h n \<Longrightarrow> keeps (kad_inv h l) (update env n pingid)"
  unfolding keeps_def
proof (intro allI impI)
  fix s
  show "node_ok h n \<Longrightarrow> kad_inv h l s \<Longrightarrow> kad_inv h l (snd (update env n pingid s))"
  proof (induction env n pingid s rule: update.induct)
    case (1 env n pingid s)
    obtain x s' where x: "expire env n (expected_pongs s) s = (x, s')" by force
    have es: "\<forall>e \<in> set (expected_pongs s). pong_entry_ok h l e" using kad_invD(5) [OF "1.prems"(2)] by blast
    have s': "kad_inv h l s'" using keeps_result [OF expire_keeps [OF es] "1.prems"(2) x] .
    show ?case
    proof (cases "node_eq n (local_node s) \<or> surprising_pong pingid s")
      case True
      with "1.prems" show ?thesis by (auto simp: update.simps)
    next
      case False
      then have peer: "peer_of h l n"
        using "1.prems" kad_invD(1) [OF "1.prems"(2)] by (simp add: peer_of_def node_eq_def)
      show ?thesis
      proof (cases "\<exists>r. x = Inr (Replace r)")
        case True
        then obtain r where r: "x = Inr (Replace r)" by blast
        have "node_ok h r" using expire_Replace_peer [OF x [unfolded r] es] by (simp add: peer_of_def)
        with "1.IH" [of x s' "Replace r" r] False x r s' show ?thesis
          by (simp add: update.simps [of env n pingid s])
      next
        case False
        with \<open>\<not> (node_eq n (local_node s) \<or> surprising_pong pingid s)\<close> x s'
          keepsD [OF add_and_refresh_keeps [OF peer] s'] show ?thesis
          by (auto simp: update.simps [of env n pingid s] split: sum.split expiry.split)
      qed
    qed
  qed
qed

section \<open>The messages received\<close>

lemma learn_address_keeps: "keeps (kad_inv h l) (modify (learn_address n))"
  by (rule keeps_modify) (auto simp: learn_address_def kad_inv_def split: option.split list.split)

lemma recv_ping_keeps: "node_ok h n \<Longrightarrow> keeps (kad_inv h l) (recv_ping env n ech)"
  unfolding recv_ping_def
  by (intro keeps_seq keeps_gets keeps_if keeps_ret update_keeps send_keeps) auto

lemma recv_pong_keeps: "node_ok h n \<Longrightarrow> keeps (kad_inv h l) (recv_pong env n ech)"
  unfolding recv_pong_def
  by (intro keeps_seq keeps_gets keeps_assert keeps_lift learn_address_keeps update_keeps)

lemma recv_find_node_keeps: "node_ok h n \<Longrightarrow> keeps (kad_inv h l) (recv_find_node env n i)"
  unfolding recv_find_node_def
  by (intro keeps_seq keeps_gets update_keeps send_keeps) auto

lemma filter_unknown_subset: "filter_unknown rt ns = Inr ns' \<Longrightarrow> set ns' \<subseteq> set ns"
  by (induction ns arbitrary: ns') (auto simp: bind_res_eq_Inr split: if_splits)

lemma forward_find_keeps: "keeps (kad_inv h l) (forward_find env ns request)"
  unfolding forward_find_def Let_def split_beta
  by (intro keeps_if keeps_seq keeps_gets keeps_assert keeps_for_each send_keeps keeps_ret) auto

lemma recv_neighbours_keeps:
  assumes "\<forall>n \<in> set ns. node_ok h n"
  shows "keeps (kad_inv h l) (recv_neighbours env remote ns :: ('a kad, unit) prog)"
  unfolding recv_neighbours_def Let_def
proof (rule keeps_seq, rule keeps_gets, rule keeps_read_seq)
  fix this :: node and s :: "'a kad" and ns'
  assume "filter_unknown (routing s) (filter (\<lambda>n. \<not> node_eq n this) ns) = Inr ns'"
  then have "\<forall>n \<in> set ns'. node_ok h n" using assms filter_unknown_subset by fastforce
  then show "keeps (kad_inv h l) (seq (gets find_requests) (\<lambda>requests.
     seq (for_each requests (forward_find env ns')) (\<lambda>_.
     for_each ns' (\<lambda>n. if \<not> node_eq n this then ping env n None else ret ()))) :: ('a kad, unit) prog)"
    by (intro keeps_seq keeps_gets keeps_for_each forward_find_keeps keeps_if ping_keeps keeps_ret) auto
qed

text \<open>
  The nodes an event brings were built by \<open>Node.__init__\<close>: 64 byte keys, the id the hash of the
  key.
\<close>

fun event_nodes :: "kad_event \<Rightarrow> node list" where
  "event_nodes (RecvPing n ech) = [n]"
| "event_nodes (RecvPong n ech) = [n]"
| "event_nodes (RecvFindNode n i) = [n]"
| "event_nodes (RecvNeighbours n ns) = n # ns"
| "event_nodes (Bootstrap ns) = ns"
| "event_nodes (Lookup i via) = (case via of None \<Rightarrow> [] | Some v \<Rightarrow> [v])"

definition event_ok :: "(bytes \<Rightarrow> int) \<Rightarrow> kad_event \<Rightarrow> bool" where
  "event_ok h ev \<longleftrightarrow> list_all (node_ok h) (event_nodes ev)"

lemma kad_step_keeps: "event_ok h ev \<Longrightarrow> keeps (kad_inv h l) (kad_step env ev)"
  by (cases ev) (auto simp: event_ok_def list_all_iff intro: recv_ping_keeps recv_pong_keeps
      recv_find_node_keeps recv_neighbours_keeps bootstrap_keeps find_node_keeps)

text \<open>
  The states the protocol object can be in: any sequence of events, each with its own clock and
  its own echoes, a handler that raises leaving the changes made so far.
\<close>

inductive kad_reach :: "(bytes \<Rightarrow> int) \<Rightarrow> node \<Rightarrow> 'a kad \<Rightarrow> bool" for h l where
  start: "node_ok h l \<Longrightarrow> kad_reach h l (mk_kad now l addrs)"
| event: "kad_reach h l s \<Longrightarrow> event_ok h ev \<Longrightarrow> kad_step env ev s = (r, s') \<Longrightarrow> kad_reach h l s'"

inductive_cases kad_reachE: "kad_reach h l s"

lemma kad_reach_inv: "kad_reach h l s \<Longrightarrow> kad_inv h l s"
proof (induction rule: kad_reach.induct)
  case (start now addrs)
  then show ?case by (rule mk_kad_inv)
next
  case (event s ev env r s')
  then show ?case using keeps_result [OF kad_step_keeps] by blast
qed

end
