(* ===== verification/Kademlia_Behaviour.thy ===== *)
theory Kademlia_Behaviour
  imports Kademlia_Invariant
begin

text \<open>
  What the operations of the protocol send and change, as equations and as invariants of one
  component of the state: the messages in order, the routing table, the registered pongs.
\<close>

section \<open>Messages in order\<close>

lemma post_message_Inr:
  "post_message env m s = (Inr e, s') \<longleftrightarrow>
   on_wire env (address_of s) (sent s) m = Inr e \<and> s' = s\<lparr>sent := sent s @ [m]\<rparr>"
  by (cases "on_wire env (address_of s) (sent s) m") (auto simp: post_message_def prog_defs)

lemma send_message_Inr:
  "send_message env m s = (Inr u, s') \<longleftrightarrow>
   (\<exists>e. on_wire env (address_of s) (sent s) m = Inr e) \<and> s' = s\<lparr>sent := sent s @ [m]\<rparr>"
  by (auto simp: send_message_def run_simps post_message_Inr)

lemma for_each_send_if:
  "for_each ns (\<lambda>n. if P n then send_message env (f n) else ret ()) s = (Inr (), s') \<Longrightarrow>
   s' = s\<lparr>sent := sent s @ map f (filter P ns)\<rparr>"
proof (induction ns arbitrary: s)
  case (Cons n ns)
  from Cons.prems show ?case by (cases "P n") (auto simp: run_simps send_message_Inr dest!: Cons.IH)
qed (simp add: ret_def)

lemma for_each_send:
  "for_each ns (\<lambda>n. send_message env (f n)) s = (Inr (), s') \<Longrightarrow> s' = s\<lparr>sent := sent s @ map f ns\<rparr>"
  using for_each_send_if [of ns "\<lambda>_. True" env f s s'] by simp

lemma query_neighbours_Inr:
  "query_neighbours env i s = (Inr u, s') \<Longrightarrow> s' = s\<lparr>sent := sent s @
     map (\<lambda>n. FindNode n i) (take k_find_concurrency (neighbours k_bucket_size i (routing s)))\<rparr>"
  by (auto simp: query_neighbours_def run_simps dest!: for_each_send)

text \<open>A ping that goes through: one message out, one pong registered, nothing else changed.\<close>

lemma ping_Inr:
  assumes "ping env n r s = (Inr u, s')"
  obtains e where "pubkey n \<noteq> pubkey (local_node s)" "on_wire env (address_of s) (sent s) (Ping n) = Inr e"
    "s' = s\<lparr>sent := sent s @ [Ping n],
      expected_pongs := AList.update (e @ pubkey n) (clock env + k_request_timeout, n, r) (expected_pongs s)\<rparr>"
  using assms by (auto simp: ping_def send_ping_def seq_eq_Inr gets_eq_Inr modify_eq_Inr post_message_Inr py_assert_def
      lift_res_def mkpingid_def assert_res_def node_eq_def split: if_splits)

lemma keeps_ping:
  assumes "\<And>s. I s \<Longrightarrow> I (s\<lparr>sent := sent s @ [Ping n]\<rparr>)"
    "\<And>s e. I s \<Longrightarrow> I (s\<lparr>expected_pongs :=
       AList.update (e @ pubkey n) (clock env + k_request_timeout, n, r) (expected_pongs s)\<rparr>)"
  shows "keeps I (ping env n r)"
  unfolding ping_def send_ping_def
  by (intro keeps_seq keeps_gets keeps_assert keeps_post keeps_lift_seq keeps_modify assms)
    (auto simp: mkpingid_def bind_res_eq_Inr intro!: assms)

text \<open>A ping that fails leaves what the invariant needs: it registers nothing.\<close>

lemma ping_Inl:
  assumes "ping env n r s = (Inl e, s')" "pubkey n \<noteq> []"
  shows "s' = s"
  using assms by (auto simp: ping_def send_ping_def post_message_def prog_defs mkpingid_def assert_res_def
      split: if_splits sum.splits)

lemma for_each_ping:
  assumes "for_each ns (\<lambda>n. ping env n None) s = (Inr u, s')"
  shows "sent s' = sent s @ map Ping ns \<and> routing s' = routing s \<and> find_requests s' = find_requests s"
  using assms
proof (induction ns arbitrary: s)
  case Nil
  then show ?case by (simp add: ret_def)
next
  case (Cons n ns)
  then obtain s1 where s1: "ping env n None s = (Inr (), s1)"
    "for_each ns (\<lambda>n. ping env n None) s1 = (Inr u, s')"
    by (auto simp: seq_def split: prod.splits sum.splits)
  obtain e where "s1 = s\<lparr>sent := sent s @ [Ping n], expected_pongs :=
      AList.update (e @ pubkey n) (clock env + k_request_timeout, n, None) (expected_pongs s)\<rparr>"
    by (rule ping_Inr [OF s1(1)])
  with Cons.IH [OF s1(2)] show ?case by simp
qed

section \<open>The routing table\<close>

text \<open>Only the three calls on \<open>routing\<close> change it.\<close>

lemma send_routing: "keeps (\<lambda>s. P (routing s)) (send_message env m)"
  by (rule keeps_send) simp

lemma ping_routing: "keeps (\<lambda>s. P (routing s)) (ping env n r)"
  by (rule keeps_ping) simp_all

lemma find_node_routing: "keeps (\<lambda>s. P (routing s)) (find_node env i via)"
  unfolding find_node_def query_neighbours_def
  by (cases via) (auto intro!: keeps_seq keeps_modify keeps_gets keeps_for_each send_routing)

lemma ping_replacements_routing: "keeps (\<lambda>s. P (routing s)) (ping_replacements env)"
  unfolding ping_replacements_def by (intro keeps_seq keeps_gets keeps_for_each ping_routing)

lemma refresh_idle_buckets_routing: "keeps (\<lambda>s. P (routing s)) (refresh_idle_buckets env)"
  unfolding refresh_idle_buckets_def
  by (intro keeps_seq keeps_gets keeps_for_each find_node_routing)

lemma cache_replacement_nodes: "rt_nodes (snd (cache_replacement r rt)) = rt_nodes rt"
proof (cases "bucket_by_node r rt")
  case (Inr i)
  note il = bucket_by_node_Inr(1) [OF Inr]
  show ?thesis using rt_nodes_update [OF il, of "(buckets rt ! i)\<lparr>kb_replacement_cache := kb_replacement_cache (buckets rt ! i) @ [r]\<rparr>"]
      rt_nodes_at [OF il] Inr by (simp add: cache_replacement_def Let_def)
qed (simp add: cache_replacement_def)

lemma receive_expected_nodes: "keeps (\<lambda>s. P (rt_nodes (routing s))) (receive_expected pingid)"
proof (cases pingid)
  case (Some pid)
  have "keeps (\<lambda>s. P (rt_nodes (routing s))) (on_routing (cache_replacement r))" for r
    by (auto simp: keeps_def on_routing_def split: prod.split)
      (metis cache_replacement_nodes snd_conv)
  then show ?thesis
    by (auto simp: Some receive_expected_def split: option.split
        intro!: keeps_seq keeps_gets keeps_modify keeps_ret keeps_option)
qed (simp add: receive_expected_def keeps_ret)

text \<open>A result of a statement on the table is a result of the table's own operation.\<close>

lemma on_routing_Inr:
  "on_routing m s = (Inr x, s') \<longleftrightarrow> (\<exists>t. m (routing s) = (Inr x, t) \<and> s' = s\<lparr>routing := t\<rparr>)"
  by (auto simp: on_routing_def split: prod.split)

text \<open>
  What \<open>update\<close> does to the contacts once the expired pings are dealt with: the node is the
  newest contact of its bucket and no other contact is lost; or the table was full for it, and then the
  first message is a ping to the head of the full bucket, the least recently seen contact, and its
  pong is registered with the node as the replacement, unless the same contact is pinged once more.
\<close>

definition newest :: "node \<Rightarrow> rtable \<Rightarrow> bool" where
  "newest n rt \<longleftrightarrow> (\<exists>b \<in> set (buckets rt). in_range b n \<and> (\<exists>ms. kb_nodes b = ms @ [n]))"

definition tests_head :: "'a env \<Rightarrow> node \<Rightarrow> 'a kad \<Rightarrow> 'a kad \<Rightarrow> bool" where
  "tests_head env n s s' \<longleftrightarrow>
     (\<exists>b \<in> set (buckets (routing s')). \<exists>c echoed later.
        in_range b n \<and> is_full b \<and> kb_head b = Inr c \<and> sent s' = sent s @ Ping c # later \<and>
        on_wire env (address_of s) (sent s) (Ping c) = Inr echoed \<and>
        ((\<forall>m. Ping m \<in> set later \<longrightarrow> pubkey m \<noteq> pubkey c) \<longrightarrow>
         (echoed @ pubkey c, clock env + k_request_timeout, c, Some n) \<in> set (expected_pongs s')))"

definition adds_node :: "'a env \<Rightarrow> node \<Rightarrow> 'a kad \<Rightarrow> 'a kad \<Rightarrow> bool" where
  "adds_node env n s s' \<longleftrightarrow>
     mset (rt_nodes (routing s')) = mset (others n (rt_nodes (routing s))) + {#n#} \<and> newest n (routing s') \<or>
     mset (rt_nodes (routing s')) = mset (rt_nodes (routing s)) \<and>
     pubkey n \<notin> pubkey ` set (rt_nodes (routing s)) \<and> tests_head env n s s'"

text \<open>The registered pong of the test stays, while nobody else with that key is pinged.\<close>

definition tested ::
  "(bytes \<Rightarrow> int) \<Rightarrow> node \<Rightarrow> wire_msg list \<Rightarrow> bytes \<Rightarrow> node \<Rightarrow> rat \<times> node \<times> node option \<Rightarrow> 'a kad \<Rightarrow> bool" where
  "tested h l base e c v s \<longleftrightarrow> kad_inv h l s \<and>
     (\<exists>later. sent s = base @ later \<and>
        ((\<exists>m. Ping m \<in> set later \<and> pubkey m = pubkey c) \<or> (e @ pubkey c, v) \<in> set (expected_pongs s)))"

lemma set_update_other: "k \<noteq> k' \<Longrightarrow> (k, v) \<in> set d \<Longrightarrow> (k, v) \<in> set (AList.update k' v' d)"
  by (induction d) auto

lemma ping_tested:
  assumes "node_ok h n" "length (pubkey c) = 64"
  shows "keeps (tested h l base e c v) (ping env n None :: ('a kad, unit) prog)"
  unfolding keeps_def
proof (intro allI impI)
  fix s :: "'a kad" assume t: "tested h l base e c v s"
  obtain r s' where r: "ping env n None s = (r, s')" by force
  have inv: "kad_inv h l s'"
    using keeps_result [OF ping_keeps [OF assms(1)] _ r] t by (auto simp: tested_def)
  have len: "length (pubkey n) = 64" using assms(1) by (simp add: node_ok_def)
  show "tested h l base e c v (snd (ping env n None s))"
  proof (cases r)
    case (Inl x)
    with ping_Inl [of env n None s x s'] r t len show ?thesis by (cases "pubkey n") auto
  next
    case (Inr u)
    obtain e' where s': "s' = s\<lparr>sent := sent s @ [Ping n],
        expected_pongs := AList.update (e' @ pubkey n) (clock env + k_request_timeout, n, None) (expected_pongs s)\<rparr>"
      using ping_Inr [of env n None s u s'] r Inr by metis
    have "e' @ pubkey n \<noteq> e @ pubkey c" if "pubkey n \<noteq> pubkey c" using that len assms(2) by simp
    with t s' inv show ?thesis unfolding r snd_conv
      by (fastforce simp: tested_def intro: set_update_other)
  qed
qed

lemma add_and_refresh_tested:
  assumes "length (pubkey c) = 64"
  shows "keeps (tested h l base e c v) (ping_replacements env :: ('a kad, unit) prog)"
    "keeps (tested h l base e c v) (refresh_idle_buckets env :: ('a kad, unit) prog)"
proof -
  have "node_ok h n" if "tested h l base e c v s"
    "n \<in> set (concat (map kb_replacement_cache (not_full_buckets (routing s))))" for n and s :: "'a kad"
    using caches_peers [of h l s n] that by (simp add: tested_def peer_of_def)
  then show "keeps (tested h l base e c v) (ping_replacements env :: ('a kad, unit) prog)"
    unfolding ping_replacements_def by (intro keeps_gets_seq keeps_for_each ping_tested assms) blast
  have send: "keeps (tested h l base e c v) (send_message env (FindNode n i) :: ('a kad, unit) prog)" for n i
    by (rule keeps_send) (auto simp: tested_def kad_inv_def)
  show "keeps (tested h l base e c v) (refresh_idle_buckets env :: ('a kad, unit) prog)"
    unfolding refresh_idle_buckets_def find_node_def query_neighbours_def option.case
    by (intro keeps_seq keeps_gets keeps_for_each keeps_modify send) (auto simp: tested_def kad_inv_def)
qed

lemma receive_expected_frame: "keeps (\<lambda>s. P (sent s) (address_of s)) (receive_expected pingid)"
proof -
  have "keeps (\<lambda>s. P (sent s) (address_of s)) (on_routing m)" for m :: "(rtable, 'b) prog"
    by (auto simp: keeps_def on_routing_def split: prod.split)
  then show ?thesis unfolding receive_expected_def
    by (auto split: option.split intro!: keeps_seq keeps_gets keeps_ret keeps_option keeps_modify)
qed

lemma add_and_refresh_adds:
  assumes inv: "kad_inv h l s" and n: "peer_of h l n"
    and run: "add_and_refresh env n pingid s = (Inr u, s')"
  shows "adds_node env n s s'"
proof -
  from run obtain s1 c s2 s3 s4 s5 where
    s1: "receive_expected pingid s = (Inr (), s1)"
    and s2: "on_routing (rt_add_node (clock env) n) s1 = (Inr c, s2)"
    and s3: "(case c of Some c \<Rightarrow> ping env c (Some n) | None \<Rightarrow> ret ()) s2 = (Inr (), s3)"
    and s4: "ping_replacements env s3 = (Inr (), s4)"
    and s5: "refresh_idle_buckets env s4 = (Inr (), s5)"
    and s': "routing s' = routing s5" "sent s' = sent s5" "expected_pongs s' = expected_pongs s5"
    unfolding add_and_refresh_def by (auto simp: run_simps)
  have nodes1: "rt_nodes (routing s1) = rt_nodes (routing s)"
    using keeps_result [OF receive_expected_nodes [of "\<lambda>x. x = rt_nodes (routing s)"] _ s1] by simp
  have frame1: "sent s1 = sent s" "address_of s1 = address_of s"
    using keeps_result [OF receive_expected_frame [of "\<lambda>x a. x = sent s \<and> a = address_of s"] _ s1] by simp_all
  note k1 = keeps_result [OF receive_expected_keeps inv s1]
  note inv1 = kad_invD [OF k1]
  have k2: "kad_inv h l s2" by (rule keeps_result [OF add_node_keeps [OF n] k1 s2])
  have nn: "node_ok h n" "pubkey n \<noteq> pubkey (this_node (routing s1))"
    using n inv1(2) by (simp_all add: peer_of_def)
  obtain t where t: "rt_add_node (clock env) n (routing s1) = (Inr c, t)" "s2 = s1\<lparr>routing := t\<rparr>"
    using s2 by (auto simp: on_routing_Inr)
  have "routing s3 = routing s2"
    using s3 keeps_result [OF ping_routing [of "\<lambda>x. x = routing s2"], of s2]
    by (cases c) (auto simp: ret_def)
  moreover have "routing s4 = routing s3"
    using keeps_result [OF ping_replacements_routing [of "\<lambda>x. x = routing s3"] _ s4] by simp
  moreover have "routing s5 = routing s4"
    using keeps_result [OF refresh_idle_buckets_routing [of "\<lambda>x. x = routing s4"] _ s5] by simp
  ultimately have rt': "routing s' = t" using t(2) s'(1) by simp
  show ?thesis
  proof (cases c)
    case None
    with rt.add_done [OF inv1(3) nn] rt_add_node_newest [of "clock env" n "routing s1" t] t(1) rt' nodes1
    show ?thesis by (auto simp: adds_node_def newest_def)
  next
    case (Some m)
    have post: "add_node_post n (routing s1) (Inr (Some m)) t"
      using rt_add_node_spec [OF inv1(3) nn t(1)] Some by simp
    then obtain b where b: "b \<in> set (buckets t)" "in_range b n" "is_full b" "kb_head b = Inr m"
      by (auto simp: add_node_post_def)
    have m: "peer_of h l m"
      using rt.add_rejected [OF inv1(3) nn, of "clock env" m t] rt.invar_nodes [OF inv1(3)] inv1(2) t(1) Some
      by (auto simp: peer_of_def)
    then have len: "length (pubkey m) = 64" by (simp add: peer_of_def node_ok_def)
    have ping: "ping env m (Some n) s2 = (Inr (), s3)" using s3 Some by simp
    obtain e where e: "on_wire env (address_of s) (sent s) (Ping m) = Inr e"
      "s3 = s2\<lparr>sent := sent s @ [Ping m], expected_pongs := AList.update (e @ pubkey m)
        (clock env + k_request_timeout, m, Some n) (expected_pongs s2)\<rparr>"
      using ping_Inr [OF ping] t(2) frame1 by auto
    have k3: "kad_inv h l s3"
      using keeps_result [OF ping_keeps k2 ping] m n by (simp add: peer_of_def)
    have entry: "(k, v) \<in> set (AList.update k v d)" for k v and d :: "(bytes \<times> rat \<times> node \<times> node option) list"
      by (induction d) auto
    have "tested h l (sent s @ [Ping m]) e m (clock env + k_request_timeout, m, Some n) s3"
      using k3 e(2) entry by (simp add: tested_def)
    from keeps_result [OF add_and_refresh_tested(2) [OF len] keeps_result [OF add_and_refresh_tested(1) [OF len] this s4] s5]
    have "tested h l (sent s @ [Ping m]) e m (clock env + k_request_timeout, m, Some n) s5" .
    then obtain later where "sent s5 = sent s @ Ping m # later"
      "(\<exists>k. Ping k \<in> set later \<and> pubkey k = pubkey m) \<or>
         (e @ pubkey m, clock env + k_request_timeout, m, Some n) \<in> set (expected_pongs s5)"
      by (auto simp: tested_def)
    then have "tests_head env n s s'"
      unfolding tests_head_def rt' s'(2,3) using b e(1)
      by (intro bexI [of _ b] exI [of _ m] exI [of _ e] exI [of _ later]) auto
    with post nodes1 rt' show ?thesis by (auto simp: adds_node_def add_node_post_def)
  qed
qed

section \<open>Expired pings\<close>

abbreviation expired :: "'a env \<Rightarrow> bytes \<times> rat \<times> node \<times> node option \<Rightarrow> bool" where
  "expired env e \<equiv> clock env > fst (snd e)"

definition evictable :: "node \<Rightarrow> bytes \<times> rat \<times> node \<times> node option \<Rightarrow> bool" where
  "evictable n = (\<lambda>(pid, t, m, q). q = None \<and> pubkey m \<noteq> pubkey n)"

definition evicted :: "bytes \<times> rat \<times> node \<times> node option \<Rightarrow> 'a kad \<Rightarrow> bool" where
  "evicted = (\<lambda>(pid, t, m, q) s.
     pid \<notin> fst ` set (expected_pongs s) \<and> pubkey m \<notin> pubkey ` set (rt_nodes (routing s)))"

text \<open>One round of the loop.\<close>

lemma evict_one:
  assumes inv: "kad_inv h l s" and m: "peer_of h l m"
    and rm: "on_routing (rt_remove_node m)
      (s\<lparr>deleted_pingids := insert pid (deleted_pingids s),
         expected_pongs := AList.delete pid (expected_pongs s)\<rparr>) = (Inr (), s')"
  shows "kad_inv h l s'" "evicted (pid, t, m, q) s'"
    "set (expected_pongs s') \<subseteq> set (expected_pongs s)"
    "set (rt_nodes (routing s')) \<subseteq> set (rt_nodes (routing s))"
proof -
  let ?s = "s\<lparr>deleted_pingids := insert pid (deleted_pingids s),
         expected_pongs := AList.delete pid (expected_pongs s)\<rparr>"
  have inv0: "kad_inv h l ?s" using keepsD [OF drop_pong_keeps inv, of pid] by (simp add: modify_def)
  show "kad_inv h l s'" using keeps_result [OF remove_node_keeps [OF m] inv0 rm] .
  obtain t' where t': "rt_remove_node m (routing s) = (Inr (), t')" "s' = ?s\<lparr>routing := t'\<rparr>"
    using rm by (auto simp: on_routing_Inr)
  have ok: "rt_wf h (routing s)" "node_ok h m" using kad_invD(3) [OF inv] m by (simp_all add: peer_of_def)
  show "set (rt_nodes (routing s')) \<subseteq> set (rt_nodes (routing s))"
    using rt.remove_subset [OF ok t'(1)] t'(2) by simp
  show "evicted (pid, t, m, q) s'"
    using rt.removed_absent [OF ok t'(1)] t'(2) by (auto simp: evicted_def in_keys_delete)
  show "set (expected_pongs s') \<subseteq> set (expected_pongs s)"
    using t'(2) set_delete_subset [of pid "expected_pongs s"] by simp
qed

lemma evicted_mono:
  "evicted e s \<Longrightarrow> set (expected_pongs s') \<subseteq> set (expected_pongs s) \<Longrightarrow>
   set (rt_nodes (routing s')) \<subseteq> set (rt_nodes (routing s)) \<Longrightarrow> evicted e s'"
  by (auto simp: evicted_def split: prod.splits)

text \<open>When no expired ping has a replacement or tested the node itself, the loop evicts them all.\<close>

lemma expire_evicts:
  assumes "kad_inv h l s" "\<forall>e \<in> set es. pong_entry_ok h l e"
    "\<forall>e \<in> set es. expired env e \<longrightarrow> evictable n e" "expire env n es s = (Inr x, s')"
  shows "x = Continue \<and> kad_inv h l s' \<and> (\<forall>e \<in> set es. expired env e \<longrightarrow> evicted e s') \<and>
    set (expected_pongs s') \<subseteq> set (expected_pongs s) \<and>
    set (rt_nodes (routing s')) \<subseteq> set (rt_nodes (routing s))"
  using assms
proof (induction es arbitrary: s)
  case Nil
  then show ?case by (simp add: ret_def)
next
  case (Cons e es)
  obtain pid t m q where e: "e = (pid, t, m, q)" by (metis prod.exhaust)
  show ?case
  proof (cases "clock env > t")
    case False
    with Cons show ?thesis by (simp add: e)
  next
    case True
    with Cons.prems(3) have q: "q = None" "\<not> node_eq m n" by (auto simp: e evictable_def node_eq_def)
    have m: "peer_of h l m" using Cons.prems(2) by (simp add: e pong_entry_ok_def)
    obtain s1 where s1: "on_routing (rt_remove_node m)
      (s\<lparr>deleted_pingids := insert pid (deleted_pingids s),
         expected_pongs := AList.delete pid (expected_pongs s)\<rparr>) = (Inr (), s1)"
      "expire env n es s1 = (Inr x, s')"
      using Cons.prems(4) True q by (auto simp: e run_simps)
    note one = evict_one(1,3,4) [OF Cons.prems(1) m s1(1)]
      evict_one(2) [OF Cons.prems(1) m s1(1), of t q]
    have "x = Continue \<and> kad_inv h l s' \<and> (\<forall>e \<in> set es. expired env e \<longrightarrow> evicted e s') \<and>
      set (expected_pongs s') \<subseteq> set (expected_pongs s1) \<and>
      set (rt_nodes (routing s')) \<subseteq> set (rt_nodes (routing s1))"
      by (rule Cons.IH [OF one(1) _ _ s1(2)]) (use Cons.prems in auto)
    with one evicted_mono [OF one(4)] show ?thesis by (auto simp: e)
  qed
qed

text \<open>No statement after the loop registers a pong that is already late.\<close>

abbreviation timely :: "'a env \<Rightarrow> 'a kad \<Rightarrow> bool" where
  "timely env s \<equiv> \<forall>e \<in> set (expected_pongs s). \<not> expired env e"

lemma ping_timely: "keeps (timely env) (ping env n r)"
  by (rule keeps_ping) (auto simp: k_request_timeout_def dest!: set_update_subset [THEN subsetD])

lemma send_expected: "keeps (\<lambda>s. P (expected_pongs s)) (send_message env m)"
  by (rule keeps_send) simp

lemma find_node_expected: "keeps (\<lambda>s. P (expected_pongs s)) (find_node env i via)"
  unfolding find_node_def query_neighbours_def
  by (cases via) (auto intro!: keeps_seq keeps_modify keeps_gets keeps_for_each send_expected)

lemma on_routing_expected: "keeps (\<lambda>s. P (expected_pongs s)) (on_routing m)"
  by (auto simp: keeps_def on_routing_def split: prod.split)

lemma receive_expected_timely: "keeps (timely env) (receive_expected pingid)"
proof -
  have "keeps (timely env) (modify (\<lambda>s. s\<lparr>expected_pongs := AList.delete pid (expected_pongs s)\<rparr>))" for pid
    by (rule keeps_modify) (use set_delete_subset in fastforce)
  then show ?thesis unfolding receive_expected_def
    by (auto split: option.split intro!: keeps_seq keeps_gets keeps_ret keeps_option on_routing_expected)
qed

lemma add_and_refresh_timely: "keeps (timely env) (add_and_refresh env n pingid)"
  unfolding add_and_refresh_def ping_replacements_def refresh_idle_buckets_def
  by (intro keeps_seq receive_expected_timely on_routing_expected keeps_option keeps_ret ping_timely
      keeps_gets keeps_for_each find_node_expected keeps_modify) simp

section \<open>A registered pong stays registered\<close>

text \<open>\<open>update\<close> without a ping id only deletes entries that are late.\<close>

definition awaiting :: "'a env \<Rightarrow> bytes \<Rightarrow> 'a kad \<Rightarrow> bool" where
  "awaiting env pid s \<longleftrightarrow>
     (\<exists>e \<in> set (expected_pongs s). fst e = pid \<and> \<not> expired env e)"

lemma awaiting_update:
  "awaiting env pid s \<Longrightarrow> clock env \<le> t \<Longrightarrow>
   awaiting env pid (s\<lparr>expected_pongs := AList.update p (t, v) (expected_pongs s)\<rparr>)"
proof -
  assume w: "awaiting env pid s" and t: "clock env \<le> t"
  then obtain v' where v': "(pid, v') \<in> set (expected_pongs s)" "\<not> clock env > fst v'"
    by (force simp: awaiting_def)
  have "(p, t, v) \<in> set (AList.update p (t, v) d) \<and>
      (p \<noteq> pid \<longrightarrow> (pid, v') \<in> set d \<longrightarrow> (pid, v') \<in> set (AList.update p (t, v) d))" for d
    by (induction d) auto
  with v' t show ?thesis unfolding awaiting_def by (cases "p = pid") force+
qed

lemma awaiting_same: "expected_pongs s' = expected_pongs s \<Longrightarrow> awaiting env pid s' = awaiting env pid s"
  by (simp add: awaiting_def)

lemma ping_awaiting: "keeps (awaiting env pid) (ping env n r)"
  by (rule keeps_ping) (simp_all add: awaiting_same [of "s\<lparr>sent := _\<rparr>" s for s] awaiting_update k_request_timeout_def)

lemma expected_awaiting:
  assumes "\<And>P. keeps (\<lambda>s. P (expected_pongs s)) m"
  shows "keeps (awaiting env pid) m"
  using assms [of "\<lambda>es. \<exists>e \<in> set es. fst e = pid \<and> \<not> expired env e"]
  unfolding awaiting_def .

lemma add_and_refresh_awaiting: "keeps (awaiting env pid) (add_and_refresh env n None)"
  unfolding add_and_refresh_def ping_replacements_def refresh_idle_buckets_def receive_expected_def
    option.case
  by (intro keeps_seq expected_awaiting on_routing_expected keeps_option keeps_ret ping_awaiting
      keeps_gets keeps_for_each find_node_expected keeps_modify) simp_all

lemma delete_awaiting:
  "awaiting env pid s \<Longrightarrow> p \<noteq> pid \<Longrightarrow>
   awaiting env pid (s\<lparr>deleted_pingids := D, expected_pongs := AList.delete p (expected_pongs s)\<rparr>)"
  unfolding awaiting_def AList.delete_eq by force

lemmas on_routing_awaiting = expected_awaiting [OF on_routing_expected]

lemma expire_awaiting:
  assumes "\<forall>e \<in> set es. expired env e \<longrightarrow> fst e \<noteq> pid"
  shows "keeps (awaiting env pid) (expire env n es)"
  using assms
proof (induction es)
  case (Cons e es)
  obtain p t m q where e: "e = (p, t, m, q)" by (metis prod.exhaust)
  have "keeps (awaiting env pid) (modify (\<lambda>s. s\<lparr>deleted_pingids := insert p (deleted_pingids s),
     expected_pongs := AList.delete p (expected_pongs s)\<rparr>))" if "clock env > t"
    using Cons.prems that by (intro keeps_modify delete_awaiting) (auto simp: e)
  with Cons show ?case unfolding e expire.simps
    by (intro keeps_if keeps_seq on_routing_awaiting keeps_option keeps_ret) simp_all
qed (simp add: keeps_ret)

lemma late_other_key:
  assumes "kad_inv h l s" "awaiting env pid s" "e \<in> set (expected_pongs s)" "expired env e"
  shows "fst e \<noteq> pid"
  using assms kad_invD(4) [OF assms(1)] by (force simp: awaiting_def distinct_map inj_on_def)

lemma update_awaiting:
  assumes "node_ok h n" "kad_inv h l s" "awaiting env pid s"
  shows "awaiting env pid (snd (update env n None s))"
  using assms
proof (induction env n "None :: bytes option" s rule: update.induct)
  case (1 env n s)
  obtain x s' where x: "expire env n (expected_pongs s) s = (x, s')" by force
  have es: "\<forall>e \<in> set (expected_pongs s). pong_entry_ok h l e" using kad_invD(5) [OF "1.prems"(2)] by blast
  have inv': "kad_inv h l s'" using keeps_result [OF expire_keeps [OF es] "1.prems"(2) x] .
  have w': "awaiting env pid s'"
    by (rule keeps_result [OF expire_awaiting "1.prems"(3) x])
      (use late_other_key [OF "1.prems"(2,3)] in blast)
  show ?case
  proof (cases "node_eq n (local_node s)")
    case True
    with "1.prems" show ?thesis by (simp add: update.simps)
  next
    case False
    show ?thesis
    proof (cases "\<exists>r. x = Inr (Replace r)")
      case True
      then obtain r where r: "x = Inr (Replace r)" by blast
      have "node_ok h r" using expire_Replace_peer [OF x [unfolded r] es] by (simp add: peer_of_def)
      with "1.hyps" [of x s' "Replace r" r] False x r inv' w' show ?thesis
        by (simp add: update.simps [of env n None s] surprising_pong_def)
    next
      case not_replaced: False
      with False x w' keepsD [OF add_and_refresh_awaiting w'] show ?thesis
        by (auto simp: update.simps [of env n None s] surprising_pong_def split: sum.split expiry.split)
    qed
  qed
qed

section \<open>Answers to neighbours\<close>

lemma filter_unknown_eq:
  assumes "rt_wf h rt" "\<forall>n \<in> set ns. node_ok h n" "filter_unknown rt ns = Inr ns'"
  shows "ns' = filter (\<lambda>n. pubkey n \<notin> pubkey ` set (rt_nodes rt)) ns"
  using assms(2,3)
proof (induction ns arbitrary: ns')
  case (Cons n ns)
  then obtain c rest where c: "rt_contains n rt = Inr c" "filter_unknown rt ns = Inr rest"
    "ns' = (if c then rest else n # rest)"
    by (auto simp: bind_res_eq_Inr)
  with Cons rt_contains_iff [OF assms(1), of n c] show ?case by simp
qed simp

text \<open>
  The requests that a live find request is forwarded as: to those of the three new nodes nearest to
  its target that are closer to it than every contact.
\<close>

definition forwards :: "'a env \<Rightarrow> rtable \<Rightarrow> node list \<Rightarrow> int \<times> rat \<Rightarrow> wire_msg list" where
  "forwards env rt ns = (\<lambda>(i, t). if clock env < t then
     map (\<lambda>c. FindNode c i) (filter (\<lambda>c. \<forall>m \<in> set (rt_nodes rt). id_distance i c < id_distance i m)
       (take 3 (sort_key (id_distance i) ns))) else [])"

lemma closer_than_known:
  assumes "rt_wf h rt"
  shows "(neighbours k_bucket_size i rt = [] \<or> id_distance i c < id_distance i (hd (neighbours k_bucket_size i rt))) \<longleftrightarrow>
    (\<forall>m \<in> set (rt_nodes rt). id_distance i c < id_distance i m)"
proof (cases "rt_nodes rt = []")
  case True
  with rt.closest_length [OF assms, of k_bucket_size i] show ?thesis by simp
next
  case False
  then obtain m where m: "m \<in> set (rt_nodes rt)" by (cases "rt_nodes rt") auto
  have "0 < k_bucket_size" by (simp add: k_bucket_size_def)
  then obtain k ks where k: "neighbours k_bucket_size i rt = k # ks" "k \<in> set (rt_nodes rt)"
    using rt.closest_hd [OF assms m] by metis
  moreover have "id_distance i k \<le> id_distance i x" if "x \<in> set (rt_nodes rt)" for x
    using rt.closest_hd [OF assms that \<open>0 < k_bucket_size\<close>, of i] k(1) by (metis list.inject)
  ultimately show ?thesis by (auto intro: less_le_trans)
qed

lemma forward_find_Inr:
  assumes "forward_find env ns (i, t) s = (Inr (), s')" "rt_wf h (routing s)"
  shows "s' = s\<lparr>sent := sent s @ forwards env (routing s) ns (i, t)\<rparr>"
proof (cases "clock env < t")
  case False
  with assms show ?thesis by (simp add: forward_find_def ret_def forwards_def)
next
  case True
  let ?known = "neighbours k_bucket_size i (routing s)"
  have "for_each (take 3 (sort_key (id_distance i) ns)) (\<lambda>c.
      if ?known = [] \<or> id_distance i c < id_distance i (hd ?known) then send_message env (FindNode c i) else ret ()) s = (Inr (), s')"
    using assms(1) True
    by (auto simp: forward_find_def Let_def run_simps py_assert_def lift_res_def k_find_concurrency_def)
  from for_each_send_if [OF this] True show ?thesis
    by (simp add: forwards_def closer_than_known [OF assms(2)])
qed

lemma forward_finds_Inr:
  assumes "for_each rs (forward_find env ns) s = (Inr (), s')" "rt_wf h (routing s)"
  shows "s' = s\<lparr>sent := sent s @ concat (map (forwards env (routing s) ns) rs)\<rparr>"
  using assms
proof (induction rs arbitrary: s)
  case Nil
  then show ?case by (simp add: ret_def)
next
  case (Cons r rs)
  obtain i t where r: "r = (i, t)" by force
  from Cons.prems(1) obtain s1 where s1: "forward_find env ns (i, t) s = (Inr (), s1)"
    "for_each rs (forward_find env ns) s1 = (Inr (), s')" by (auto simp: r run_simps)
  note f = forward_find_Inr [OF s1(1) Cons.prems(2)]
  have "rt_wf h (routing s1)" using f Cons.prems(2) by simp
  from Cons.IH [OF s1(2) this] f show ?case by (simp add: r)
qed

lemma for_each_if_all:
  "(\<And>x. x \<in> set xs \<Longrightarrow> P x) \<Longrightarrow> for_each xs (\<lambda>x. if P x then f x else g x) = for_each xs f"
  by (induction xs) auto

section \<open>What the wire has taken\<close>

text \<open>
  A handler sends with the addresses it ends with: \<open>recv_pong\<close> may change one before it sends, nothing
  else does, and only messages that the wire has taken are recorded.
\<close>

definition wired :: "'a env \<Rightarrow> (nat \<Rightarrow> 'a option) \<Rightarrow> wire_msg list \<Rightarrow> 'a kad \<Rightarrow> bool" where
  "wired env addrs base s \<longleftrightarrow> address_of s = addrs \<and>
     (\<exists>ms. sent s = base @ ms \<and> (\<forall>m \<in> set ms. \<exists>before e. on_wire env addrs before m = Inr e))"

named_theorems wired_rules "statements that send with the addresses they find"

lemma modify_wired [wired_rules]:
  "(\<And>s. address_of (f s) = address_of s) \<Longrightarrow> (\<And>s. sent (f s) = sent s) \<Longrightarrow> keeps (wired env addrs base) (modify f)"
  by (rule keeps_modify) (simp add: wired_def)

lemma on_routing_wired [wired_rules]: "keeps (wired env addrs base) (on_routing m)"
  by (simp add: keeps_def on_routing_def wired_def split: prod.split)

lemma post_wired [wired_rules]: "keeps (wired env addrs base) (post_message env m)"
  unfolding keeps_def
proof (intro allI impI)
  fix s :: "'a kad" assume t: "wired env addrs base s"
  show "wired env addrs base (snd (post_message env m s))"
  proof (cases "on_wire env addrs (sent s) m")
    case (Inl e)
    with t show ?thesis by (simp add: post_message_def prog_defs wired_def)
  next
    case (Inr e)
    then have "post_message env m s = (Inr e, s\<lparr>sent := sent s @ [m]\<rparr>)" using t by (simp add: post_message_Inr wired_def)
    moreover obtain ms where ms: "address_of s = addrs" "sent s = base @ ms"
      "\<forall>m \<in> set ms. \<exists>before e. on_wire env addrs before m = Inr e"
      using t unfolding wired_def by blast
    moreover have "\<forall>k \<in> set (ms @ [m]). \<exists>before e. on_wire env addrs before k = Inr e"
      using Inr ms(3) by (simp add: ball_Un) blast
    ultimately show ?thesis unfolding wired_def by (intro conjI exI [of _ "ms @ [m]"]) simp_all
  qed
qed

lemma send_wired [wired_rules]: "keeps (wired env addrs base) (send_message env m)"
  unfolding send_message_def by (intro keeps_seq keeps_ret wired_rules)

lemma ping_wired [wired_rules]: "keeps (wired env addrs base) (ping env n r)"
  unfolding ping_def send_ping_def
  by (intro keeps_seq keeps_gets keeps_assert keeps_lift wired_rules) simp_all

lemma find_node_wired [wired_rules]: "keeps (wired env addrs base) (find_node env i via)"
  unfolding find_node_def query_neighbours_def
  by (cases via) (auto intro!: keeps_seq keeps_gets keeps_for_each wired_rules)

lemma bootstrap_wired [wired_rules]: "keeps (wired env addrs base) (bootstrap env ns)"
  unfolding bootstrap_def by (intro keeps_for_each keeps_seq keeps_gets keeps_if keeps_ret wired_rules)

lemma expire_wired: "keeps (wired env addrs base) (expire env n es)"
  by (induction env n es rule: expire.induct)
    (auto intro!: keeps_seq keeps_if keeps_option keeps_ret wired_rules)

lemma add_and_refresh_wired: "keeps (wired env addrs base) (add_and_refresh env n pingid)"
  unfolding add_and_refresh_def receive_expected_def ping_replacements_def refresh_idle_buckets_def
  by (auto intro!: keeps_seq keeps_gets keeps_for_each keeps_option keeps_ret wired_rules split: option.split)

lemma update_wired [wired_rules]: "keeps (wired env addrs base) (update env n pingid)"
  unfolding keeps_def
proof (intro allI impI)
  fix s
  show "wired env addrs base s \<Longrightarrow> wired env addrs base (snd (update env n pingid s))"
  proof (induction env n pingid s rule: update.induct)
    case (1 env n pingid s)
    obtain x s' where x: "expire env n (expected_pongs s) s = (x, s')" by force
    have s': "wired env addrs base s'" using keeps_result [OF expire_wired "1.prems" x] .
    then show ?case
      using "1.IH" [OF _ _ x [symmetric]] "1.prems" keepsD [OF add_and_refresh_wired s']
      by (subst update.simps) (auto simp: x split: sum.split expiry.split)
  qed
qed

lemma forward_find_wired [wired_rules]: "keeps (wired env addrs base) (forward_find env ns r)"
  unfolding forward_find_def
  by (cases r) (auto simp: Let_def intro!: keeps_if keeps_seq keeps_gets keeps_assert keeps_for_each keeps_ret wired_rules)

lemma recv_neighbours_wired [wired_rules]: "keeps (wired env addrs base) (recv_neighbours env n ns)"
  unfolding recv_neighbours_def Let_def
  by (intro keeps_gets_seq keeps_read_seq keeps_seq keeps_gets keeps_for_each keeps_if keeps_ret wired_rules)

lemma recv_pong_wired: "\<exists>addrs. wired env addrs (sent s) (snd (recv_pong env n e s))"
proof -
  let ?s = "learn_address n s"
  have "wired env (address_of s) (sent s) s" "sent ?s = sent s"
    by (auto simp: wired_def learn_address_def split: option.split list.split)
  moreover from this(2) have "wired env (address_of ?s) (sent s) ?s" by (simp add: wired_def)
  then have "wired env (address_of ?s) (sent s) (snd (update env n p ?s))" for p
    by (rule keepsD [OF update_wired])
  ultimately show ?thesis unfolding recv_pong_def py_assert_def
    by (fastforce simp: step_simps seq_lift_run split: sum.split)
qed

lemma kad_step_taken_here:
  assumes "\<nexists>n e. ev = RecvPong n e"
  shows "keeps (wired env addrs base) (kad_step env ev)"
proof -
  have "keeps (wired env addrs base) (recv_ping env n e)" "keeps (wired env addrs base) (recv_find_node env n i)" for n e i
    unfolding recv_ping_def recv_find_node_def
    by (intro keeps_seq keeps_gets keeps_if keeps_ret wired_rules)+
  with assms show ?thesis by (cases ev) (auto intro: wired_rules)
qed

lemma kad_step_wired: "\<exists>addrs. wired env addrs (sent s) (snd (kad_step env ev s))"
proof (cases "\<exists>n e. ev = RecvPong n e")
  case True
  with recv_pong_wired show ?thesis by force
next
  case False
  have "wired env (address_of s) (sent s) s" by (simp add: wired_def)
  from keepsD [OF kad_step_taken_here [OF False] this] show ?thesis by (rule exI [of _ "address_of s"])
qed

lemma kad_step_addresses: "\<nexists>n e. ev = RecvPong n e \<Longrightarrow> address_of (snd (kad_step env ev s)) = address_of s"
  using keepsD [OF kad_step_taken_here, of ev env "address_of s" "sent s" s] by (simp add: wired_def)

end
