(* ===== verification/Kademlia_Properties.thy ===== *)
theory Kademlia_Properties
  imports Kademlia_Behaviour
begin

text \<open>
  The correctness properties of node discovery, from the buckets up to the protocol, each with
  a concrete instance.
\<close>

section \<open>Concrete contacts\<close>

text \<open>
  For the instances: contacts whose 64-byte key encodes a small number, which is also the id
  (the id function is the big-endian value).
\<close>

definition sample_hash :: "bytes \<Rightarrow> int" where
  "sample_hash pk = int (be_val pk)"

definition sample_node :: "nat \<Rightarrow> node" where
  "sample_node i = \<lparr>oref = i, pubkey = replicate 62 0 @ be_bytes 2 i, node_id = int i\<rparr>"

definition sample_env :: "nat env" where
  "sample_env = \<lparr>clock = 2, on_wire = (\<lambda>_ _ _. Inr []), randint = (\<lambda>_ a _. a)\<rparr>"

lemma sample_node_ok: "i < 65536 \<Longrightarrow> node_ok sample_hash (sample_node i)"
  by (simp add: node_ok_def sample_node_def sample_hash_def be_val_zeros be_val_be_bytes id_bounded_def)

lemma sample_pubkey_eq: "i < 65536 \<Longrightarrow> j < 65536 \<Longrightarrow> pubkey (sample_node i) = pubkey (sample_node j) \<longleftrightarrow> i = j"
  by (auto simp: sample_node_def dest!: arg_cong [of _ _ be_val] simp: be_val_be_bytes)

lemma sample_fields [simp]: "node_id (sample_node i) = int i" "oref (sample_node i) = i"
  by (simp_all add: sample_node_def)

definition sample_bucket :: "nat \<Rightarrow> nat list \<Rightarrow> kbucket" where
  "sample_bucket k is = \<lparr>kb_start = 0, kb_end = 2 ^ k - 1, kb_nodes = map sample_node is,
     kb_replacement_cache = [], kb_last_updated = 2\<rparr>"

definition sample_rt :: "nat list \<Rightarrow> rtable" where
  "sample_rt is = \<lparr>this_node = sample_node 0, buckets = [sample_bucket 256 is]\<rparr>"

definition sample_kad ::
  "nat list \<Rightarrow> (bytes \<times> rat \<times> node \<times> node option) list \<Rightarrow> nat kad" where
  "sample_kad is es = (mk_kad 2 (sample_node 0) (\<lambda>_. None))\<lparr>routing := sample_rt is, expected_pongs := es\<rparr>"

lemma sample_kb_wf:
  assumes "distinct is" "length is \<le> 16" "\<forall>i \<in> set is. i < 2 ^ k \<and> i < 65536"
  shows "kb_wf (sample_bucket k is)"
proof -
  have "dyadic 0 (2 ^ k - 1)"
    unfolding dyadic_def dyadic_at_def by (intro exI [of _ k]) simp
  moreover have "distinct (map (pubkey \<circ> sample_node) is)"
    using assms by (auto simp: distinct_map inj_on_def sample_pubkey_eq)
  moreover have "int i \<le> 2 ^ k - 1" if "i \<in> set is" for i
  proof -
    have "int i < int (2 ^ k)" using assms(3) that by (simp only: of_nat_less_iff)
    then show ?thesis by simp
  qed
  ultimately show ?thesis using assms(2)
    by (auto simp: kb_wf_def kb_len_def k_bucket_size_def in_range_def sample_bucket_def)
qed

lemma sample_rt_wf:
  assumes "distinct is" "length is \<le> 16" "\<forall>i \<in> set is. 0 < i \<and> i < 65536"
  shows "rt_wf sample_hash (sample_rt is)"
proof -
  have "kb_wf (sample_bucket 256 is)" using assms by (intro sample_kb_wf) auto
  moreover have "pubkey (sample_node i) \<noteq> pubkey (sample_node 0)" if "i \<in> set is" for i
    using assms(3) that by (auto simp: sample_pubkey_eq)
  ultimately show ?thesis using assms(3)
    by (auto simp: rt_wf_def kb.table_ok_def sample_rt_def rt_nodes_def rt_caches_def sample_node_ok
        sample_bucket_def)
qed

lemma sample_kad_inv:
  assumes "distinct is" "length is \<le> 16" "\<forall>i \<in> set is. 0 < i \<and> i < 65536"
    and "distinct (map fst es)" "\<forall>e \<in> set es. pong_entry_ok sample_hash (sample_node 0) e"
  shows "kad_inv sample_hash (sample_node 0) (sample_kad is es)"
  using sample_rt_wf [OF assms(1-3)] assms(4,5)
  by (simp add: kad_inv_def sample_kad_def mk_kad_def) (simp add: sample_rt_def)

lemma sample_entry_ok:
  "0 < i \<Longrightarrow> i < 65536 \<Longrightarrow> pong_entry_ok sample_hash (sample_node 0) (e @ pubkey (sample_node i), t, sample_node i, None)"
  "0 < i \<Longrightarrow> i < 65536 \<Longrightarrow> 0 < j \<Longrightarrow> j < 65536 \<Longrightarrow>
   pong_entry_ok sample_hash (sample_node 0) (e @ pubkey (sample_node i), t, sample_node i, Some (sample_node j))"
  by (auto simp: pong_entry_ok_def peer_of_def sample_node_ok sample_pubkey_eq)

section \<open>Buckets\<close>

text \<open>\<open>KBucket.add_node\<close> is a least-recently-seen list of at most 16: a known node moves to
  the tail, a new one goes to the tail while there is room, and otherwise nothing changes and
  the head, the least recently seen, is the eviction candidate. The bucket stays well formed.\<close>

theorem bucket_add_lru:
  assumes "kb_wf b" "in_range b n" "kb_add_node now n b = (b', c)"
  shows "kb_wf b' \<and> kb_last_updated b' = now \<and>
    (if pubkey n \<in> pubkey ` set (kb_nodes b) \<or> length (kb_nodes b) < 16
     then c = None \<and> kb_nodes b' = others n (kb_nodes b) @ [n]
     else kb_nodes b' = kb_nodes b \<and> c = Some (hd (kb_nodes b)))"
proof -
  have "kb_wf b'" by (rule kb_add_node_wf [OF assms])
  with kb_wf_parts(2) [OF assms(1)] show ?thesis
    by (cases rule: kb_add_node_cases [where n = n and now = now])
      (use assms(3) in \<open>auto simp: node_mem_iff filter_key_absent\<close>)
qed

lemma bucket_add_lru_witness:
  "kb_nodes (fst (kb_add_node 3 (sample_node 1) (sample_bucket 4 [1, 2]))) = [sample_node 2, sample_node 1]"
proof -
  obtain b' c where b': "kb_add_node 3 (sample_node 1) (sample_bucket 4 [1, 2]) = (b', c)" by force
  show ?thesis unfolding b' fst_conv using bucket_add_lru [OF sample_kb_wf _ b']
    by (simp add: in_range_def sample_bucket_def sample_pubkey_eq)
qed

text \<open>\<open>KBucket.split\<close> cuts the range at its midpoint and deals out contacts and cached
  replacements by id, losing none and keeping their order; both halves are well formed.\<close>

theorem bucket_split_partitions:
  assumes "kb_wf b" "kb_start b < kb_end b" "kb_split now b = (l, u)"
  shows "kb_wf l \<and> kb_wf u \<and>
    kb_start l = kb_start b \<and> kb_end l = midpoint b \<and> kb_start u = midpoint b + 1 \<and> kb_end u = kb_end b \<and>
    kb_nodes l = filter (\<lambda>n. node_id n \<le> midpoint b) (kb_nodes b) \<and>
    kb_nodes u = filter (\<lambda>n. midpoint b < node_id n) (kb_nodes b) \<and>
    kb_replacement_cache l = filter (\<lambda>n. node_id n \<le> midpoint b) (kb_replacement_cache b) \<and>
    kb_replacement_cache u = filter (\<lambda>n. midpoint b < node_id n) (kb_replacement_cache b)"
  using kb_split_wf [OF assms] assms(3) kb_wf_parts(2,3) [OF assms(1)]
  by (auto simp: kb_split_eq not_le)

lemma bucket_split_partitions_witness:
  "map kb_nodes [fst (kb_split 3 (sample_bucket 2 [1, 2])), snd (kb_split 3 (sample_bucket 2 [1, 2]))] =
   [[sample_node 1], [sample_node 2]]"
proof -
  obtain l u where lu: "kb_split 3 (sample_bucket 2 [1, 2]) = (l, u)" by force
  show ?thesis unfolding lu fst_conv snd_conv using bucket_split_partitions [OF sample_kb_wf _ lu]
    by (simp add: sample_bucket_def midpoint_def)
qed

text \<open>\<open>KBucket.depth\<close> is the number of leading bits that the ids of a bucket with at least two
  nodes share: it returns at most 254, all ids agree on that many bits and not on one more. It
  raises exactly when the ids agree on 255 bits, and so never for three distinct ids or more.\<close>

theorem bucket_depth_shared_bits:
  assumes "2 \<le> length (kb_nodes b)" "\<forall>n \<in> set (kb_nodes b). id_bounded n"
  shows "case depth b of
      Inr d \<Rightarrow> 0 \<le> d \<and> d \<le> 254 \<and> shared_bits (kb_nodes b) (nat d) \<and> \<not> shared_bits (kb_nodes b) (nat d + 1)
    | Inl e \<Rightarrow> e = PlainException \<and> shared_bits (kb_nodes b) 255 \<and>
        card (node_id ` set (kb_nodes b)) \<le> 2"
  using depth_Inr [OF assms] depth_Inl [OF assms(2)] shared_255_few by (auto split: sum.split)

lemma bucket_depth_shared_bits_witness:
  "\<exists>d. depth (sample_bucket 256 [1, 2, 3]) = Inr d \<and>
     shared_bits [sample_node 1, sample_node 2, sample_node 3] (nat d) \<and>
     \<not> shared_bits [sample_node 1, sample_node 2, sample_node 3] (nat d + 1)"
  using bucket_depth_shared_bits [of "sample_bucket 256 [1, 2, 3]"]
  by (auto simp: sample_bucket_def id_bounded_def split: sum.splits)

section \<open>The routing table\<close>

text \<open>C18. \<open>RoutingTable.add_node\<close> keeps the table well formed, whatever it splits: buckets tile the
  id space, hold at most 16 contacts each in their range, no contact twice and never the local
  node. When it returns \<open>None\<close> the node is a contact and no other contact is lost or gained;
  when it returns a node, the contacts are unchanged, the node is not one of them, and the
  result is the least recently seen contact of a full bucket for the node's id, which does not
  cover the local node and has a depth that forbids a split; an exception changes no contact.\<close>

theorem table_add_node:
  assumes "rt_wf h rt" "node_ok h n" "pubkey n \<noteq> pubkey (this_node rt)"
  shows "case rt_add_node now n rt of (r, rt') \<Rightarrow>
    rt_wf h rt' \<and> this_node rt' = this_node rt \<and> mset (rt_caches rt') = mset (rt_caches rt) \<and>
    (case r of
       Inr None \<Rightarrow> mset (rt_nodes rt') = mset (others n (rt_nodes rt)) + {#n#}
     | Inr (Some c) \<Rightarrow> mset (rt_nodes rt') = mset (rt_nodes rt) \<and>
         pubkey n \<notin> pubkey ` set (rt_nodes rt) \<and>
         (\<exists>b \<in> set (buckets rt'). in_range b n \<and> \<not> in_range b (this_node rt) \<and> is_full b \<and>
            kb_head b = Inr c \<and> (\<exists>d. depth b = Inr d \<and> (d mod 8 = 0 \<or> d = 256)))
     | Inl _ \<Rightarrow> mset (rt_nodes rt') = mset (rt_nodes rt))"
proof -
  obtain r rt' where r: "rt_add_node now n rt = (r, rt')" by force
  show ?thesis using rt_add_node_spec [OF assms r]
    unfolding r add_node_post_def k_b_def k_id_size_def of_nat_numeral by simp
qed

lemma table_add_node_witness:
  "mset (rt_nodes (snd (rt_add_node 3 (sample_node 2) (sample_rt [1])))) = {#sample_node 1, sample_node 2#}"
proof -
  have "fst (rt_add_node 3 (sample_node 2) (sample_rt [1])) = Inr None" by code_simp
  with table_add_node [OF sample_rt_wf [of "[1]"] sample_node_ok [of 2], of 3] show ?thesis
    by (auto simp: split_beta sample_rt_def rt_nodes_def sample_bucket_def sample_pubkey_eq)
qed

text \<open>\<open>bucket_by_node\<close> finds the bucket whose range holds the id, except when the id is the last
  one of a bucket: then it raises, although the ranges are inclusive.\<close>

theorem bucket_lookup_misses_range_end:
  assumes "rt_wf h rt" "id_bounded n"
  shows "if \<exists>b \<in> set (buckets rt). kb_end b = node_id n
    then \<exists>e. bucket_by_node n rt = Inl e
    else \<exists>i. bucket_by_node n rt = Inr i \<and> i < length (buckets rt) \<and> in_range (buckets rt ! i) n"
proof (cases "bucket_by_node n rt")
  case (Inl e)
  with bucket_by_node_defined [OF assms] show ?thesis by auto
next
  case (Inr i)
  with bucket_by_node_defined [OF assms] bucket_by_node_Inr [OF Inr] show ?thesis by auto
qed

lemma bucket_lookup_misses_range_end_witness:
  "\<exists>e. bucket_by_node \<lparr>oref = 9, pubkey = [], node_id = 2 ^ 256 - 1\<rparr> (sample_rt [1]) = Inl e"
  using bucket_lookup_misses_range_end [OF sample_rt_wf [of "[1]"],
      of "\<lparr>oref = 9, pubkey = [], node_id = 2 ^ 256 - 1\<rparr>"]
  by (simp add: sample_rt_def sample_bucket_def id_bounded_def)

text \<open>C19. \<open>RoutingTable.neighbours\<close> visits buckets by the distance of their midpoints and stops
  collecting at \<open>2k\<close> in the inner loop only, and still returns exactly the first \<open>k\<close> of all the
  contacts sorted by their distance to the target.\<close>

theorem neighbours_are_closest:
  assumes "rt_wf h rt"
  shows "neighbours k i rt = take k (sort_key (id_distance i) (rt_nodes rt)) \<and>
    distinct (map pubkey (neighbours k i rt)) \<and>
    (\<forall>m \<in> set (neighbours k i rt). \<forall>n \<in> set (rt_nodes rt) - set (neighbours k i rt).
       id_distance i m \<le> id_distance i n)"
  using neighbours_eq [OF assms] rt.closest_distinct [OF assms] rt.closest_nearest [OF assms] by blast

lemma neighbours_are_closest_witness:
  "neighbours 2 2 (sample_rt [1, 2, 3]) = [sample_node 2, sample_node 3]"
  using neighbours_are_closest [OF sample_rt_wf [of "[1, 2, 3]"], of 2 2]
  by (simp add: sample_rt_def sample_bucket_def rt_nodes_def id_distance_def)

text \<open>\<open>RoutingTable.remove_node\<close> removes that contact and no other, and keeps the table well
  formed; when it raises, nothing has changed.\<close>

theorem table_remove_node:
  assumes "rt_wf h rt" "node_ok h n"
  shows "case rt_remove_node n rt of (r, rt') \<Rightarrow>
    rt_wf h rt' \<and> this_node rt' = this_node rt \<and> rt_caches rt' = rt_caches rt \<and>
    (case r of Inr _ \<Rightarrow> mset (rt_nodes rt') = mset (others n (rt_nodes rt)) | Inl _ \<Rightarrow> rt' = rt)"
proof -
  obtain r rt' where r: "rt_remove_node n rt = (r, rt')" by force
  show ?thesis using rt_remove_node_spec [OF assms r] unfolding r by (simp split: sum.split)
qed

lemma table_remove_node_witness:
  "mset (rt_nodes (snd (rt_remove_node (sample_node 2) (sample_rt [1, 2])))) = {#sample_node 1#}"
proof -
  have "fst (rt_remove_node (sample_node 2) (sample_rt [1, 2])) = Inr ()" by code_simp
  with table_remove_node [OF sample_rt_wf [of "[1, 2]"] sample_node_ok [of 2]] show ?thesis
    by (auto simp: split_beta sample_rt_def rt_nodes_def sample_bucket_def sample_pubkey_eq)
qed

section \<open>The protocol\<close>

text \<open>C6. In every reachable state of the protocol, whatever messages arrive and at whatever time,
  and whichever handlers raised: the contacts are distinct, valid and not the local node, the
  buckets tile the id space with at most 16 contacts each in their range, the local node has
  never been pinged, and every expected pong is filed under an id that ends with the public key
  of a valid remote node.\<close>

theorem discovery_invariant:
  assumes "kad_reach h l s"
  shows "distinct (map pubkey (rt_nodes (routing s))) \<and>
    (\<forall>n \<in> set (rt_nodes (routing s)). node_ok h n \<and> pubkey n \<noteq> pubkey l) \<and>
    tiling 0 (map (\<lambda>b. (kb_start b, kb_end b)) (buckets (routing s))) (2 ^ 256) \<and>
    (\<forall>b \<in> set (buckets (routing s)). length (kb_nodes b) \<le> 16 \<and>
       (\<forall>n \<in> set (kb_nodes b). kb_start b \<le> node_id n \<and> node_id n \<le> kb_end b)) \<and>
    (\<forall>n. Ping n \<in> set (sent s) \<longrightarrow> pubkey n \<noteq> pubkey l) \<and>
    (\<forall>(pid, t, n, r) \<in> set (expected_pongs s).
       node_ok h n \<and> pubkey n \<noteq> pubkey l \<and> (\<exists>e. pid = e @ pubkey n))"
proof -
  note inv = kad_reach_inv [OF assms]
  note p = kad_invD [OF inv]
  have b: "kb_wf b" if "b \<in> set (buckets (routing s))" for b
    using rt_wf_table [OF p(3)] that by (simp add: kb.table_ok_def)
  have "length (kb_nodes b) \<le> 16 \<and> (\<forall>n \<in> set (kb_nodes b). kb_start b \<le> node_id n \<and> node_id n \<le> kb_end b)"
    if "b \<in> set (buckets (routing s))" for b
    using kb_wf_parts(3,4) [OF b [OF that]] by (simp add: in_range_def)
  moreover have "node_ok h n \<and> pubkey n \<noteq> pubkey l" if "n \<in> set (rt_nodes (routing s))" for n
    using rt.invar_nodes [OF p(3), of n] that p(2) by auto
  moreover have "tiling 0 (map (\<lambda>b. (kb_start b, kb_end b)) (buckets (routing s))) (2 ^ 256)"
    using rt_wf_table [OF p(3)] by (simp add: kb.table_ok_def)
  ultimately show ?thesis using inv rt_nodes_distinct [OF p(3)]
    by (auto simp: kad_inv_def pong_entry_ok_def peer_of_def)
qed

lemma discovery_invariant_witness:
  "kad_reach sample_hash (sample_node 0)
     (snd (kad_step sample_env (RecvPing (sample_node 1) []) (mk_kad 2 (sample_node 0) (\<lambda>_. None)))) \<and>
   distinct (map pubkey (rt_nodes (routing
     (snd (kad_step sample_env (RecvPing (sample_node 1) []) (mk_kad 2 (sample_node 0) (\<lambda>_. None)))))))"
proof -
  let ?s = "mk_kad 2 (sample_node 0) (\<lambda>_. None)"
  have "kad_reach sample_hash (sample_node 0) ?s" by (intro kad_reach.start sample_node_ok) simp
  then have "kad_reach sample_hash (sample_node 0) (snd (kad_step sample_env (RecvPing (sample_node 1) []) ?s))"
    by (rule kad_reach.event [OF _ _ prod.collapse [symmetric]]) (simp add: event_ok_def sample_node_ok)
  with discovery_invariant [OF this] show ?thesis by blast
qed



text \<open>C17. Late pongs: an \<open>update\<close> that is not for an unexpected pong (those return early) and ends
  normally, when none of the late pings has a replacement or went to the sender, has evicted every contact
  whose pong is late, and leaves only pongs that are not late.\<close>

theorem update_evicts_late:
  assumes "kad_inv h l s" "node_ok h n" "pubkey n \<noteq> pubkey l"
    and "case pingid of None \<Rightarrow> True | Some pid \<Rightarrow> pid \<in> fst ` set (expected_pongs s)"
    and "\<forall>(pid, t, m, q) \<in> set (expected_pongs s). clock env > t \<longrightarrow> q = None \<and> pubkey m \<noteq> pubkey n"
    and "update env n pingid s = (Inr (), s')"
  shows "(\<forall>(pid, t, m, q) \<in> set (expected_pongs s'). clock env \<le> t) \<and>
    (\<forall>(pid, t, m, q) \<in> set (expected_pongs s). clock env > t \<longrightarrow>
       pubkey m \<notin> pubkey ` set (rt_nodes (routing s')))"
proof -
  have known: "\<not> surprising_pong pingid s"
    using assms(4) by (auto simp: surprising_pong_def map_of_eq_None_iff split: option.splits)
  have ne: "\<not> node_eq n (local_node s)" using assms(3) kad_invD(1) [OF assms(1)] by (simp add: node_eq_def)
  have es: "\<forall>e \<in> set (expected_pongs s). pong_entry_ok h l e" using kad_invD(5) [OF assms(1)] by blast
  obtain x s1 where x: "expire env n (expected_pongs s) s = (x, s1)" by force
  then obtain y where y: "x = Inr y"
    using assms(6) known ne by (cases x) (auto simp: update.simps [of env n pingid s])
  have ev: "y = Continue \<and> kad_inv h l s1 \<and>
    (\<forall>e \<in> set (expected_pongs s). expired env e \<longrightarrow> evicted e s1) \<and>
    set (expected_pongs s1) \<subseteq> set (expected_pongs s) \<and>
    set (rt_nodes (routing s1)) \<subseteq> set (rt_nodes (routing s))"
    by (rule expire_evicts [OF assms(1) es _ x [unfolded y]]) (use assms(5) in \<open>auto simp: evictable_def\<close>)
  then have run: "add_and_refresh env n pingid s1 = (Inr (), s')"
    using assms(6) known ne x y by (simp add: update.simps [of env n pingid s])
  have "timely env s1" using ev by (force simp: evicted_def)
  then have "timely env s'" using keeps_result [OF add_and_refresh_timely _ run] by simp
  moreover have "adds_node env n s1 s'"
    using add_and_refresh_adds [OF _ _ run, of h l] ev assms(2,3) by (simp add: peer_of_def)
  then have "set (rt_nodes (routing s')) \<subseteq> insert n (set (rt_nodes (routing s1)))"
    unfolding adds_node_def by (auto dest!: arg_cong [of _ _ set_mset])
  ultimately show ?thesis using ev assms(5) by (fastforce simp: evicted_def)
qed

lemma update_evicts_late_witness:
  "pubkey (sample_node 1) \<notin> pubkey ` set (rt_nodes (routing (snd (update sample_env (sample_node 2) None
     (sample_kad [1] [([7] @ pubkey (sample_node 1), 1, sample_node 1, None)])))))"
proof -
  let ?s = "sample_kad [1] [([7] @ pubkey (sample_node 1), 1, sample_node 1, None)]"
  obtain r s' where run: "update sample_env (sample_node 2) None ?s = (r, s')" by force
  have "fst (update sample_env (sample_node 2) None ?s) = Inr ()" by code_simp
  then have r: "r = Inr ()" unfolding run fst_conv .
  have "kad_inv sample_hash (sample_node 0) ?s"
    by (rule sample_kad_inv) (use sample_entry_ok(1) [of 1 "[7]" 1] in simp_all)
  from update_evicts_late [OF this sample_node_ok [of 2] _ _ _ run [unfolded r]] show ?thesis
    unfolding run snd_conv by (simp add: sample_pubkey_eq sample_kad_def sample_env_def)
qed

text \<open>C14. A pong can be lost. When a late ping with a registered replacement comes first, \<open>update\<close>
  goes on with the replacement and returns: the pong that just arrived in time stays registered,
  so that the live sender is evicted later, although the documentation says that live nodes
  are never removed.\<close>

theorem timely_pong_stays_registered:
  assumes "kad_inv h l s" "(pid, t, n, q) \<in> set (expected_pongs s)" "clock env \<le> t"
    and "expected_pongs s = (late, t0, m, Some r) # rest" "clock env > t0"
    and "rt_remove_node m (routing s) = (Inr (), rt)"
  shows "pid \<in> fst ` set (expected_pongs (snd (update env n (Some pid) s)))"
proof -
  let ?s1 = "s\<lparr>deleted_pingids := insert late (deleted_pingids s),
     expected_pongs := AList.delete late (expected_pongs s), routing := rt\<rparr>"
  note inv = assms(1)
  have es: "\<forall>e \<in> set (expected_pongs s). pong_entry_ok h l e" using kad_invD(5) [OF inv] by blast
  have n: "pubkey n \<noteq> pubkey (local_node s)"
    using entry_peer(1) [OF inv assms(2)] kad_invD(1) [OF inv] by (simp add: peer_of_def)
  have known: "map_of (expected_pongs s) pid \<noteq> None"
    using assms(2) by (auto simp: map_of_eq_None_iff image_iff intro: bexI [of _ "(pid, t, n, q)"])
  have x: "expire env n (expected_pongs s) s = (Inr (Replace r), ?s1)"
    unfolding assms(4) using assms(4,5,6) by (simp add: prog_defs on_routing_def)
  have r: "node_ok h r" using expire_Replace_peer [OF x es] by (simp add: peer_of_def)
  have "awaiting env pid s" using assms(2,3) by (force simp: awaiting_def)
  moreover have inv1: "kad_inv h l ?s1" using keeps_result [OF expire_keeps [OF es] inv x] .
  ultimately have "awaiting env pid ?s1"
    using keeps_result [OF expire_awaiting _ x, of pid] late_other_key [OF inv] by blast
  from update_awaiting [OF r inv1 this]
  have "pid \<in> fst ` set (expected_pongs (snd (update env r None ?s1)))" by (force simp: awaiting_def)
  moreover have "update env n (Some pid) s = update env r None ?s1"
    using n known x by (auto simp: update.simps [of env n "Some pid" s] node_eq_def surprising_pong_def)
  ultimately show ?thesis by simp
qed

lemma timely_pong_stays_registered_witness:
  "[8] @ pubkey (sample_node 2) \<in> fst ` set (expected_pongs (snd (update sample_env (sample_node 2)
     (Some ([8] @ pubkey (sample_node 2)))
     (sample_kad [1, 2] [([7] @ pubkey (sample_node 1), 1, sample_node 1, Some (sample_node 3)),
        ([8] @ pubkey (sample_node 2), 2, sample_node 2, None)]))))"
proof -
  let ?s = "sample_kad [1, 2] [([7] @ pubkey (sample_node 1), 1, sample_node 1, Some (sample_node 3)),
        ([8] @ pubkey (sample_node 2), 2, sample_node 2, None)]"
  obtain r rt where rm: "rt_remove_node (sample_node 1) (routing ?s) = (r, rt)" by force
  have "fst (rt_remove_node (sample_node 1) (routing ?s)) = Inr ()" by code_simp
  then have r: "r = Inr ()" unfolding rm fst_conv .
  have "kad_inv sample_hash (sample_node 0) ?s"
    by (rule sample_kad_inv)
      (use sample_entry_ok(2) [of 1 3 "[7]" 1] sample_entry_ok(1) [of 2 "[8]" 2] in simp_all)
  from timely_pong_stays_registered [OF this _ _ _ _ rm [unfolded r], of "[8] @ pubkey (sample_node 2)" 2
      "sample_node 2" None sample_env] show ?thesis
    by (simp add: sample_kad_def sample_env_def)
qed

text \<open>C11. \<open>recv_find_node\<close> answers with the contacts closest to the target, at most 16, nearest
  first: after the update for the sender, exactly one message goes out.\<close>

theorem find_node_answered_with_closest:
  assumes "kad_inv h l s" "node_ok h remote" "recv_find_node env remote i s = (Inr (), s')"
  shows "\<exists>s1 found. update env remote None s = (Inr (), s1) \<and>
    s' = s1\<lparr>sent := sent s1 @ [Neighbours remote found]\<rparr> \<and>
    found = take 16 (sort_key (id_distance i) (rt_nodes (routing s'))) \<and>
    (\<forall>n \<in> set found. node_ok h n \<and> pubkey n \<noteq> pubkey l)"
proof -
  obtain s1 where s1: "update env remote None s = (Inr (), s1)"
    "s' = s1\<lparr>sent := sent s1 @ [Neighbours remote (neighbours k_bucket_size i (routing s1))]\<rparr>"
    using assms(3) by (auto simp: recv_find_node_def run_simps send_message_Inr)
  note inv1 = kad_invD [OF keeps_result [OF update_keeps [OF assms(2)] assms(1) s1(1)]]
  have "neighbours k_bucket_size i (routing s1) =
      take 16 (sort_key (id_distance i) (rt_nodes (routing s')))"
    using neighbours_eq [OF inv1(3), of k_bucket_size i] s1(2) by (simp add: k_bucket_size_def)
  moreover have "\<forall>n \<in> set (neighbours k_bucket_size i (routing s1)). node_ok h n \<and> pubkey n \<noteq> pubkey l"
    using rt.closest_valid [OF inv1(3)] inv1(2) by blast
  ultimately show ?thesis using s1 by blast
qed

lemma find_node_answered_with_closest_witness:
  "\<exists>s1 found. update sample_env (sample_node 1) None (sample_kad [1] []) = (Inr (), s1) \<and>
     snd (recv_find_node sample_env (sample_node 1) 5 (sample_kad [1] [])) =
       s1\<lparr>sent := sent s1 @ [Neighbours (sample_node 1) found]\<rparr> \<and> length found \<le> 16"
proof -
  obtain r s' where run: "recv_find_node sample_env (sample_node 1) 5 (sample_kad [1] []) = (r, s')" by force
  have "fst (recv_find_node sample_env (sample_node 1) 5 (sample_kad [1] [])) = Inr ()" by code_simp
  then have r: "r = Inr ()" unfolding run fst_conv .
  with find_node_answered_with_closest [OF sample_kad_inv [of "[1]" "[]"] sample_node_ok [of 1]
      run [unfolded r]] show ?thesis unfolding run snd_conv by force
qed

text \<open>\<open>find_node\<close> registers the request with its timeout and asks the given node, or else the
  three contacts closest to the target, nearest first.\<close>

theorem lookup_asks_closest:
  assumes "kad_inv h l s" "find_node env i via s = (Inr (), s')"
  shows "s' = s\<lparr>
    find_requests := AList.update i (clock env + 9 / 10) (find_requests s),
    sent := sent s @ map (\<lambda>n. FindNode n i) (case via of
        Some v \<Rightarrow> [v] | None \<Rightarrow> take 3 (sort_key (id_distance i) (rt_nodes (routing s))))\<rparr>"
  using neighbours_eq [OF kad_invD(3) [OF assms(1)], of k_bucket_size i] assms(2)
  by (cases via) (auto simp: find_node_def run_simps send_message_Inr k_find_concurrency_def k_bucket_size_def
      k_request_timeout_def dest!: query_neighbours_Inr)

lemma lookup_asks_closest_witness:
  "sent (snd (find_node sample_env 2 None (sample_kad [1, 2, 3, 4] []))) =
   [FindNode (sample_node 2) 2, FindNode (sample_node 3) 2, FindNode (sample_node 1) 2]"
proof -
  obtain r s' where run: "find_node sample_env 2 None (sample_kad [1, 2, 3, 4] []) = (r, s')" by force
  have "fst (find_node sample_env 2 None (sample_kad [1, 2, 3, 4] [])) = Inr ()" by code_simp
  then have r: "r = Inr ()" unfolding run fst_conv .
  from lookup_asks_closest [OF sample_kad_inv [of "[1, 2, 3, 4]" "[]"] run [unfolded r]] show ?thesis
    unfolding run snd_conv
    by (simp add: id_distance_def sample_kad_def mk_kad_def sample_rt_def sample_bucket_def rt_nodes_def)
qed

text \<open>C36. \<open>recv_neighbours\<close>, when it ends normally: first every find request that has not timed out is
  forwarded, in the order of the dictionary, to those of the three unknown nodes nearest to its target that
  are closer to the target than every contact; requests that have timed out are not. Then all unknown nodes
  are pinged, in the order received. Unknown are the nodes that are neither the local node nor contacts. Nothing
  else is sent and the routing table does not change.\<close>

theorem neighbours_forwarded_and_pinged:
  assumes inv: "kad_inv h l s" and ns: "\<forall>n \<in> set ns. node_ok h n"
    and run: "recv_neighbours env remote ns s = (Inr (), s')"
  shows "\<exists>new. new = filter (\<lambda>n. pubkey n \<noteq> pubkey l \<and> pubkey n \<notin> pubkey ` set (rt_nodes (routing s))) ns \<and>
    sent s' = sent s @
      concat (map (\<lambda>(i, t). if clock env < t then
          map (\<lambda>c. FindNode c i) (filter (\<lambda>c. \<forall>m \<in> set (rt_nodes (routing s)). id_distance i c < id_distance i m)
            (take 3 (sort_key (id_distance i) new))) else [])
        (find_requests s)) @
      map Ping new \<and>
    routing s' = routing s"
proof -
  note p = kad_invD [OF inv]
  let ?others = "filter (\<lambda>n. \<not> node_eq n l) ns"
  obtain new s1 where new: "filter_unknown (routing s) ?others = Inr new"
    and finds: "for_each (find_requests s) (forward_find env new) s = (Inr (), s1)"
    and pings: "for_each new (\<lambda>n. if \<not> node_eq n l then ping env n None else ret ()) s1 = (Inr (), s')"
    using run p(1) by (auto simp: recv_neighbours_def Let_def run_simps)
  have new': "new = filter (\<lambda>n. pubkey n \<notin> pubkey ` set (rt_nodes (routing s))) ?others"
    by (rule filter_unknown_eq [OF p(3) _ new]) (use ns in auto)
  have "for_each new (\<lambda>n. ping env n None) s1 = (Inr (), s')"
    using pings by (subst (asm) for_each_if_all) (auto simp: new')
  from for_each_ping [OF this] forward_finds_Inr [OF finds p(3)]
  have "sent s' = sent s @ concat (map (forwards env (routing s) new) (find_requests s)) @ map Ping new"
    "routing s' = routing s" by auto
  moreover have "new = filter (\<lambda>n. pubkey n \<noteq> pubkey l \<and> pubkey n \<notin> pubkey ` set (rt_nodes (routing s))) ns"
    unfolding new' by (auto simp: node_eq_def intro!: filter_cong)
  ultimately show ?thesis unfolding forwards_def by blast
qed

lemma neighbours_forwarded_and_pinged_witness:
  "sent (snd (recv_neighbours sample_env (sample_node 1) [sample_node 0, sample_node 1, sample_node 2]
     ((sample_kad [1] [])\<lparr>find_requests := [(2, 3), (1, 3), (2, 1)]\<rparr>))) =
   [FindNode (sample_node 2) 2, Ping (sample_node 2)]"
proof -
  let ?ns = "[sample_node 0, sample_node 1, sample_node 2]"
  let ?s = "(sample_kad [1] [])\<lparr>find_requests := [(2, 3), (1, 3), (2, 1)]\<rparr>"
  obtain r s' where run: "recv_neighbours sample_env (sample_node 1) ?ns ?s = (r, s')" by force
  have "fst (recv_neighbours sample_env (sample_node 1) ?ns ?s) = Inr ()" by code_simp
  then have r: "r = Inr ()" unfolding run fst_conv .
  have inv: "kad_inv sample_hash (sample_node 0) ?s"
    using sample_kad_inv [of "[1]" "[]"] by (simp add: kad_inv_def)
  have "pubkey (sample_node 0) \<noteq> pubkey (sample_node 2)" "pubkey (sample_node 1) \<noteq> pubkey (sample_node 2)"
    "pubkey (sample_node 0) \<noteq> pubkey (sample_node 1)"
    by (simp_all add: sample_pubkey_eq)
  with neighbours_forwarded_and_pinged [OF inv _ run [unfolded r]]
  show ?thesis
    unfolding run snd_conv
    by (simp add: sample_node_ok)
      (auto simp: sample_kad_def mk_kad_def sample_rt_def sample_bucket_def rt_nodes_def sample_env_def id_distance_def)
qed

end
