(* ===== verification/Frame.thy ===== *)
theory Frame
  imports Prelude
begin

text \<open>
  \<open>Frame\<close> of \<open>devp2p/multiplexer.py\<close>: how a packet is cut into frames that fit a window, and the
  bytes of a frame. Identifiers, sizes and window sizes are natural numbers. The functions of
  the \<open>rlp\<close> package that the code calls are parameters, gathered in a record; the cipher a frame
  is encrypted with is a record of operations on a cipher state of its own.
\<close>

definition ceil16 :: "nat \<Rightarrow> nat" where
  "ceil16 x = (if x mod 16 = 0 then x else x + 16 - x mod 16)"

definition rzpad16 :: "bytes \<Rightarrow> bytes" where
  "rzpad16 data =
     (if length data mod 16 \<noteq> 0 then data @ replicate (16 - length data mod 16) 0 else data)"

section \<open>What is outside the repository\<close>

text \<open>
  \<open>enc_header\<close> and \<open>dec_header\<close> are \<open>rlp.encode\<close> and \<open>rlp.decode\<close> (not strict) with
  \<open>header_data_sedes\<close>, a list of at most three integers; a raised \<open>RLPException\<close> is \<open>None\<close>.
  \<open>enc_int\<close> is \<open>rlp.encode\<close> with \<open>big_endian_int\<close>, \<open>consume_item\<close> is \<open>rlp.codec.consume_item\<close> from
  position 0 (the item and the position after it) and \<open>deserialize_int\<close> is
  \<open>big_endian_int.deserialize\<close>.
\<close>

record 'i rlp_lib =
  enc_header :: "nat list \<Rightarrow> bytes"
  dec_header :: "bytes \<Rightarrow> nat list option"
  enc_int :: "nat \<Rightarrow> bytes"
  consume_item :: "bytes \<Rightarrow> ('i \<times> nat) res"
  deserialize_int :: "'i \<Rightarrow> nat res"

text \<open>The operations of a frame cipher (\<open>RLPxSession\<close> in the program).\<close>

record 'c cipher =
  c_encrypt :: "bytes \<Rightarrow> bytes \<Rightarrow> ('c, bytes) prog"
  c_decrypt_header :: "bytes \<Rightarrow> ('c, bytes) prog"
  c_decrypt_body :: "bytes \<Rightarrow> nat \<Rightarrow> ('c, bytes) prog"

section \<open>Frames\<close>

text \<open>\<open>header_size\<close>, \<open>mac_size\<close> and \<open>padding\<close>.\<close>

definition f_header_size :: nat where "f_header_size = 16"
definition f_mac_size :: nat where "f_mac_size = 16"
definition f_padding :: nat where "f_padding = 16"

record frame =
  f_protocol_id :: nat
  f_cmd_id :: nat
  f_payload :: bytes
  f_sequence_id :: "nat option"
  f_is_chunked_n :: bool
  f_is_chunked_0 :: bool
  f_total_payload_size :: "nat option"
  f_cipher_called :: bool

definition enc_cmd_id :: "'i rlp_lib \<Rightarrow> frame \<Rightarrow> bytes" where
  "enc_cmd_id L f = (if \<not> f_is_chunked_n f then enc_int L (f_cmd_id f) else [])"

definition body_size :: "'i rlp_lib \<Rightarrow> bool \<Rightarrow> frame \<Rightarrow> nat" where
  "body_size L padded f =
     (let l = length (enc_cmd_id L f) + length (f_payload f) in if padded then ceil16 l else l)"

definition frame_size :: "'i rlp_lib \<Rightarrow> frame \<Rightarrow> nat" where
  "frame_size L f = f_header_size + f_mac_size + body_size L True f + f_mac_size"

definition is_normal :: "frame \<Rightarrow> bool" where
  "is_normal f \<longleftrightarrow> \<not> f_is_chunked_n f \<and> \<not> f_is_chunked_0 f"

text \<open>
  \<open>Frame.__init__\<close>: the list \<open>frames\<close> that the constructor fills, the frame itself first. The
  slice \<open>payload[:window_size - fs]\<close> has a negative end: it drops so many bytes at the end. When
  a follow-up frame has no room for a single byte the constructor calls itself with the same
  arguments until Python gives up.
\<close>

function mk_frames ::
  "'i rlp_lib \<Rightarrow> nat \<Rightarrow> nat \<Rightarrow> bytes \<Rightarrow> nat option \<Rightarrow> nat \<Rightarrow> bool \<Rightarrow> frame list res" where
  "mk_frames L protocol_id cmd_id payload sequence_id window_size is_chunked_n =
     bind_res (assert_res (window_size mod f_padding = 0)) (\<lambda>_.
     bind_res (assert_res (cmd_id < 256)) (\<lambda>_.
     bind_res (assert_res (protocol_id < 2 ^ 16)) (\<lambda>_.
     bind_res (assert_res (case sequence_id of None \<Rightarrow> True | Some s \<Rightarrow> s < 2 ^ 16)) (\<lambda>_.
     let f = \<lparr>f_protocol_id = protocol_id, f_cmd_id = cmd_id, f_payload = payload,
               f_sequence_id = sequence_id, f_is_chunked_n = is_chunked_n, f_is_chunked_0 = False,
               f_total_payload_size = None, f_cipher_called = False\<rparr>;
         fs = frame_size L f
     in if fs > window_size then
          let f = (if \<not> is_chunked_n
                   then f\<lparr>f_is_chunked_0 := True, f_total_payload_size := Some (body_size L False f)\<rparr>
                   else f);
              f = f\<lparr>f_payload := py_take (int window_size - int fs) payload\<rparr>
          in bind_res (assert_res (frame_size L f \<le> window_size)) (\<lambda>_.
             let remain = drop (length (f_payload f)) payload in
             bind_res (assert_res (length remain + length (f_payload f) = length payload)) (\<lambda>_.
             bind_res (if is_chunked_n \<and> f_payload f = [] then Inl RecursionError
                       else mk_frames L protocol_id cmd_id remain sequence_id window_size True) (\<lambda>fs.
             Inr (f # fs))))
        else Inr [f]))))"
  by pat_completeness auto
termination
  by (relation "measure (\<lambda>(L, p, c, payload, s, w, n). 2 * length payload + (if n then 0 else 1))")
    (auto simp: Let_def py_take_def split: if_splits)

declare mk_frames.simps [simp del]

definition frame_header :: "'i rlp_lib \<Rightarrow> frame \<Rightarrow> bytes res" where
  "frame_header L f =
     bind_res (assert_res (f_protocol_id f < 2 ^ 16)) (\<lambda>_.
     bind_res (assert_res (case f_sequence_id f of None \<Rightarrow> True | Some s \<Rightarrow> s < 2 ^ 16)) (\<lambda>_.
     bind_res
       (if f_is_chunked_0 f then
          (case (f_sequence_id f, f_total_payload_size f) of
             (Some s, Some t) \<Rightarrow> Inr [f_protocol_id f, s, t]
           | (None, _) \<Rightarrow> Inl AssertionError
           | (Some s, None) \<Rightarrow> Inl (LibraryError ''ListSerializationError''))
        else Inr (f_protocol_id f # (case f_sequence_id f of None \<Rightarrow> [] | Some s \<Rightarrow> [s]))) (\<lambda>l.
     let header_data = enc_header L l in
     bind_res (assert_res (dec_header L header_data = Some l)) (\<lambda>_.
     bind_res (assert_res (body_size L False f < 256 ^ 3)) (\<lambda>_.
     let header = rzpad16 (be_bytes 3 (body_size L False f) @ header_data) in
     bind_res (assert_res (length header = f_header_size)) (\<lambda>_.
     Inr header))))))"

definition frame_body :: "'i rlp_lib \<Rightarrow> frame \<Rightarrow> bytes" where
  "frame_body L f =
     (let b = enc_cmd_id L f; n = length b + length (f_payload f)
      in b @ f_payload f @ replicate (ceil16 n - n) 0)"

text \<open>
  \<open>as_bytes\<close>: the bytes on the wire, and the frame marked as encrypted when it is. The cipher is
  the one the frame was built with.
\<close>

definition as_bytes ::
  "'i rlp_lib \<Rightarrow> 'c cipher option \<Rightarrow> frame \<Rightarrow> ('c, bytes \<times> frame) prog" where
  "as_bytes L C f =
     seq (py_assert (\<not> f_cipher_called f)) (\<lambda>_.
     case C of
       None \<Rightarrow>
         seq (lift_res (frame_header L f)) (\<lambda>header.
         seq (py_assert (length header = 16)) (\<lambda>_.
         seq (py_assert (length (frame_body L f) = body_size L True f)) (\<lambda>_.
         let r = header @ replicate f_mac_size 0 @ frame_body L f @ replicate f_mac_size 0 in
         seq (py_assert (length r = frame_size L f)) (\<lambda>_.
         ret (r, f)))))
     | Some c \<Rightarrow>
         seq (lift_res (frame_header L f)) (\<lambda>header.
         seq (c_encrypt c header (frame_body L f)) (\<lambda>e.
         seq (py_assert (length e = frame_size L f)) (\<lambda>_.
         ret (e, f\<lparr>f_cipher_called := True\<rparr>)))))"

section \<open>Sizes\<close>

lemma ceil16_eq: "ceil16 x = (x + 15) div 16 * 16"
proof -
  have x: "x = 16 * (x div 16) + x mod 16" by simp
  have r: "x mod 16 < 16" by simp
  show ?thesis
  proof (cases "x mod 16 = 0")
    case True
    with x have "(x + 15) div 16 = x div 16" by (intro div_nat_eqI, linarith, unfold mult_Suc_right, linarith)
    with True x show ?thesis by (simp add: ceil16_def)
  next
    case False
    with x r have "(x + 15) div 16 = Suc (x div 16)" by (intro div_nat_eqI; unfold mult_Suc_right; linarith)
    moreover have "x + 16 - x mod 16 = Suc (x div 16) * 16" unfolding mult_Suc using x r by linarith
    ultimately show ?thesis using False by (simp add: ceil16_def)
  qed
qed

lemma ceil16_mod [simp]: "ceil16 x mod 16 = 0"
  by (simp add: ceil16_eq)

lemma ceil16_bounds: "x \<le> ceil16 x" "ceil16 x < x + 16"
  unfolding ceil16_eq by simp_all

lemma ceil16_least:
  assumes "x \<le> w" "w mod 16 = 0"
  shows "ceil16 x \<le> w"
proof -
  have "(x + 15) div 16 \<le> (w + 15) div 16" using assms(1) by (intro div_le_mono) simp
  also have "\<dots> = w div 16"
    using assms(2) div_mult_mod_eq [of w 16] by (intro div_nat_eqI, linarith, unfold mult_Suc_right, linarith)
  finally have "(x + 15) div 16 * 16 \<le> w div 16 * 16" by simp
  also have "\<dots> = w" using assms(2) by (simp add: mod_eq_0_iff_dvd)
  finally show ?thesis by (simp only: ceil16_eq)
qed

lemma length_rzpad16: "length (rzpad16 d) = ceil16 (length d)"
  by (simp add: rzpad16_def ceil16_def)

lemma length_frame_body: "length (frame_body L f) = body_size L True f"
  using ceil16_bounds(1) [of "length (enc_cmd_id L f) + length (f_payload f)"]
  by (simp add: frame_body_def body_size_def Let_def)

lemma frame_size_eq:
  "frame_size L f = 48 + ceil16 (length (enc_cmd_id L f) + length (f_payload f))"
  by (simp add: frame_size_def body_size_def f_header_size_def f_mac_size_def)

section \<open>How a packet is cut\<close>

text \<open>The three kinds of frames.\<close>

definition normal_frame :: "nat \<Rightarrow> nat \<Rightarrow> nat option \<Rightarrow> bytes \<Rightarrow> frame" where
  "normal_frame p c s d = \<lparr>f_protocol_id = p, f_cmd_id = c, f_payload = d, f_sequence_id = s,
     f_is_chunked_n = False, f_is_chunked_0 = False, f_total_payload_size = None, f_cipher_called = False\<rparr>"

definition first_frame :: "nat \<Rightarrow> nat \<Rightarrow> nat option \<Rightarrow> nat \<Rightarrow> bytes \<Rightarrow> frame" where
  "first_frame p c s t d = \<lparr>f_protocol_id = p, f_cmd_id = c, f_payload = d, f_sequence_id = s,
     f_is_chunked_n = False, f_is_chunked_0 = True, f_total_payload_size = Some t, f_cipher_called = False\<rparr>"

definition later_frame :: "nat \<Rightarrow> nat \<Rightarrow> nat option \<Rightarrow> bytes \<Rightarrow> frame" where
  "later_frame p c s d = \<lparr>f_protocol_id = p, f_cmd_id = c, f_payload = d, f_sequence_id = s,
     f_is_chunked_n = True, f_is_chunked_0 = False, f_total_payload_size = None, f_cipher_called = False\<rparr>"

lemmas frame_kinds = normal_frame_def first_frame_def later_frame_def

lemma frame_kind_sizes:
  "frame_size L (normal_frame p c s d) = 48 + ceil16 (length (enc_int L c) + length d)"
  "frame_size L (first_frame p c s t d) = 48 + ceil16 (length (enc_int L c) + length d)"
  "frame_size L (later_frame p c s d) = 48 + ceil16 (length d)"
  by (simp_all add: frame_size_eq enc_cmd_id_def frame_kinds)

text \<open>Identifiers in range, and a window with room for a byte in every frame.\<close>

definition packet_ok :: "'i rlp_lib \<Rightarrow> nat \<Rightarrow> nat \<Rightarrow> nat option \<Rightarrow> nat \<Rightarrow> bool" where
  "packet_ok L p c s w \<longleftrightarrow> p < 2 ^ 16 \<and> c < 256 \<and> (case s of None \<Rightarrow> True | Some i \<Rightarrow> i < 2 ^ 16) \<and>
     length (enc_int L c) \<in> {1, 2} \<and> w mod 16 = 0 \<and> 64 \<le> w"

lemma cut_length:
  fixes e n w :: nat
  assumes "w mod 16 = 0" "64 \<le> w" "e \<le> 2" "48 + ceil16 (e + n) > w"
  defines "kept \<equiv> w - 48 + n - ceil16 (e + n)"
  shows "kept < n" "48 + ceil16 (e + kept) \<le> w" "e = 0 \<Longrightarrow> 0 < kept"
proof -
  note b = ceil16_bounds [of "e + n"]
  have "n \<noteq> 0"
  proof
    assume "n = 0"
    then have "ceil16 (e + n) \<le> 16" using assms(3) by (intro ceil16_least) simp_all
    with assms(2,4) show False by linarith
  qed
  then show "kept < n" unfolding kept_def using b assms(2,3,4) by linarith
  have "e + kept \<le> w - 48" unfolding kept_def using b(1) assms(2,3) by linarith
  moreover have "(w - 48) mod 16 = 0" using assms(1,2) by (simp add: mod_eq_0_iff_dvd dvd_diff_nat)
  ultimately have "ceil16 (e + kept) \<le> w - 48" by (intro ceil16_least)
  then show "48 + ceil16 (e + kept) \<le> w" using assms(2) by linarith
  show "e = 0 \<Longrightarrow> 0 < kept" unfolding kept_def using b(2) assms(2) by simp
qed

lemma py_take_cut:
  fixes w m :: nat
  assumes "64 \<le> w" "w < 48 + m"
  shows "py_take (int w - (48 + int m)) d = take (w - 48 + length d - m) d"
proof -
  have "nat (int (length d) + (int w - (48 + int m))) = w - 48 + length d - m" using assms by linarith
  with assms show ?thesis by (simp add: py_take_def)
qed

lemma mk_frames_later:
  assumes "packet_ok L p c s w"
  shows "\<exists>ks. mk_frames L p c d s w True = Inr (map (later_frame p c s) ks) \<and> concat ks = d \<and> ks \<noteq> [] \<and>
    (\<forall>k \<in> set ks. 48 + ceil16 (length k) \<le> w) \<and> (d \<noteq> [] \<longrightarrow> [] \<notin> set ks)"
proof (induction "length d" arbitrary: d rule: less_induct)
  case less
  note ok = assms [unfolded packet_ok_def]
  show ?case
  proof (cases "48 + ceil16 (length d) \<le> w")
    case True
    with ok have "mk_frames L p c d s w True = Inr [later_frame p c s d]"
      by (simp add: mk_frames.simps [of L p c d] frame_size_eq enc_cmd_id_def f_padding_def later_frame_def
          split: option.splits)
    with True show ?thesis by (intro exI [of _ "[d]"]) simp
  next
    case False
    define n where "n = w - 48 + length d - ceil16 (length d)"
    have n: "n < length d" "48 + ceil16 n \<le> w" "0 < n"
      using cut_length [of w 0 "length d"] ok False by (simp_all add: n_def)
    have t: "py_take (int w - (48 + int (ceil16 (length d)))) d = take n d"
      unfolding n_def using ok False by (intro py_take_cut) auto
    have "length (drop n d) < length d" using n by simp
    from less.hyps [OF this] obtain ks where ks:
      "mk_frames L p c (drop n d) s w True = Inr (map (later_frame p c s) ks)" "concat ks = drop n d"
      "ks \<noteq> []" "\<forall>k \<in> set ks. 48 + ceil16 (length k) \<le> w" "[] \<notin> set ks"
      using n(1) by auto
    have len: "min (length d) n = n" "length d - n + n = length d" "d \<noteq> []" using n by auto
    have "mk_frames L p c d s w True = Inr (later_frame p c s (take n d) # map (later_frame p c s) ks)"
      unfolding mk_frames.simps [of L p c d]
      using ok False n len ks(1)
      by (simp add: frame_size_eq enc_cmd_id_def f_padding_def t later_frame_def Let_def
          split: option.splits)
    with ks n len show ?thesis by (intro exI [of _ "take n d # ks"]) auto
  qed
qed

text \<open>
  A packet that fits the window is one normal frame; otherwise a first frame that carries the
  total size and at least one follow-up frame, none of them empty.
\<close>

lemma mk_frames_cut:
  assumes "packet_ok L p c s w"
  obtains (one) "mk_frames L p c d s w False = Inr [normal_frame p c s d]"
      "48 + ceil16 (length (enc_int L c) + length d) \<le> w"
  | (many) k0 ks where "mk_frames L p c d s w False =
        Inr (first_frame p c s (length (enc_int L c) + length d) k0 # map (later_frame p c s) ks)"
      "48 + ceil16 (length (enc_int L c) + length d) > w"
      "k0 @ concat ks = d" "ks \<noteq> []" "[] \<notin> set ks" "48 + ceil16 (length (enc_int L c) + length k0) \<le> w"
      "\<forall>k \<in> set ks. 48 + ceil16 (length k) \<le> w"
proof (cases "48 + ceil16 (length (enc_int L c) + length d) \<le> w")
  case True
  with assms have "mk_frames L p c d s w False = Inr [normal_frame p c s d]"
    by (simp add: packet_ok_def mk_frames.simps [of L p c d] frame_size_eq enc_cmd_id_def f_padding_def
        normal_frame_def split: option.splits)
  with True one show ?thesis by blast
next
  case False
  note ok = assms [unfolded packet_ok_def]
  let ?e = "length (enc_int L c)"
  define n where "n = w - 48 + length d - ceil16 (?e + length d)"
  have n: "n < length d" "48 + ceil16 (?e + n) \<le> w"
    using cut_length [of w ?e "length d"] ok False by (auto simp: n_def)
  have t: "py_take (int w - (48 + int (ceil16 (?e + length d)))) d = take n d"
    unfolding n_def using ok False by (intro py_take_cut) auto
  obtain ks where ks:
    "mk_frames L p c (drop n d) s w True = Inr (map (later_frame p c s) ks)" "concat ks = drop n d"
    "ks \<noteq> []" "\<forall>k \<in> set ks. 48 + ceil16 (length k) \<le> w" "[] \<notin> set ks"
    using mk_frames_later [OF assms, of "drop n d"] n(1) by auto
  have len: "min (length d) n = n" "length d - n + n = length d" using n by auto
  have "mk_frames L p c d s w False =
      Inr (first_frame p c s (?e + length d) (take n d) # map (later_frame p c s) ks)"
    unfolding mk_frames.simps [of L p c d]
    using ok False n len ks(1)
    by (simp add: frame_size_eq enc_cmd_id_def body_size_def f_padding_def t first_frame_def Let_def
        split: option.splits)
  with many [of "take n d" ks] ks n len False show ?thesis by simp
qed

end
