(* ===== verification/Multiplexer.thy ===== *)
theory Multiplexer
  imports Frame
begin

text \<open>
  \<open>Packet\<close> and the sending side of \<open>Multiplexer\<close> (\<open>devp2p/multiplexer.py\<close>): three queues per
  protocol, served round robin, each round up to the protocol window size. A gevent queue is a
  list, oldest element first; the queues of a protocol are a function of the queue's name.
\<close>

record packet =
  pk_protocol_id :: nat
  pk_cmd_id :: nat
  pk_payload :: bytes
  pk_prioritize :: bool

text \<open>\<open>__eq__\<close> ignores the priority.\<close>

definition packet_eq :: "packet \<Rightarrow> packet \<Rightarrow> bool" where
  "packet_eq a b \<longleftrightarrow> pk_protocol_id a = pk_protocol_id b \<and> pk_cmd_id a = pk_cmd_id b \<and>
     pk_payload a = pk_payload b"

datatype qname = Priority | Normal | Chunked

text \<open>
  A packet that is being put together has the attribute \<open>total_payload_size\<close>; the buffers of a
  protocol map sequence ids to such packets.
\<close>

type_synonym chunk_buffers = "(nat, packet \<times> int) dict"

record 'c mux =
  queues :: "(nat, qname \<Rightarrow> frame list) dict"
  sequence_ids :: "(nat, nat) dict"
  last_protocol :: "nat option"
  chunked_buffers :: "(nat, chunk_buffers) dict"
  decode_buffer :: bytes
  cached_header :: "bytes option"
  cipher_state :: 'c

definition max_window_size :: nat where "max_window_size = 8 * 1024"
definition max_priority_frame_size :: nat where "max_priority_frame_size = 1024"
definition max_payload_size :: nat where "max_payload_size = 10 * 1024 ^ 2"

definition mk_mux :: "'c \<Rightarrow> 'c mux" where
  "mk_mux c = \<lparr>queues = [], sequence_ids = [], last_protocol = None, chunked_buffers = [],
     decode_buffer = [], cached_header = None, cipher_state = c\<rparr>"

section \<open>Windows and protocols\<close>

definition active :: "(qname \<Rightarrow> frame list) \<Rightarrow> bool" where
  "active qs \<longleftrightarrow> length (qs Priority) + length (qs Normal) + length (qs Chunked) \<noteq> 0"

definition num_active_protocols :: "'c mux \<Rightarrow> nat" where
  "num_active_protocols m = length (filter (\<lambda>(p, qs). active qs) (queues m))"

definition is_active_protocol :: "nat \<Rightarrow> 'c mux \<Rightarrow> bool res" where
  "is_active_protocol p m =
     (case map_of (queues m) p of None \<Rightarrow> Inl KeyError | Some qs \<Rightarrow> Inr (active qs))"

text \<open>
  \<open>protocol_window_size\<close>: protocol 0 is false in \<open>if protocol_id and ...\<close>, as \<open>None\<close> is.
\<close>

definition protocol_window_size :: "nat option \<Rightarrow> 'c mux \<Rightarrow> nat res" where
  "protocol_window_size protocol_id m =
     bind_res
       (case protocol_id of
          None \<Rightarrow> Inr False
        | Some p \<Rightarrow> if p = 0 then Inr False
                    else bind_res (is_active_protocol p m) (\<lambda>a. Inr (\<not> a))) (\<lambda>inactive.
     let s = (if inactive then max_window_size div (1 + num_active_protocols m)
              else max_window_size div (max 1 (num_active_protocols m)))
     in Inr (s - s mod 16))"

definition add_protocol :: "nat \<Rightarrow> ('c mux, unit) prog" where
  "add_protocol p =
     seq (gets (\<lambda>m. map_of (queues m) p)) (\<lambda>known.
     seq (py_assert (known = None)) (\<lambda>_.
     modify (\<lambda>m. m\<lparr>queues := AList.update p (\<lambda>_. []) (queues m),
                    sequence_ids := AList.update p 0 (sequence_ids m),
                    chunked_buffers := AList.update p [] (chunked_buffers m),
                    last_protocol := Some p\<rparr>)))"

text \<open>\<open>protocols.index(p)\<close>.\<close>

fun index_of :: "nat \<Rightarrow> nat list \<Rightarrow> nat res" where
  "index_of p [] = Inl ValueError"
| "index_of p (q # qs) =
     (if p = q then Inr 0 else bind_res (index_of p qs) (\<lambda>i. Inr (Suc i)))"

definition next_protocol :: "('c mux, nat) prog" where
  "next_protocol =
     seq (gets (\<lambda>m. map fst (queues m))) (\<lambda>protocols.
     seq (gets last_protocol) (\<lambda>lastp.
     seq (lift_res
       (if protocols = [] then Inl IndexError
        else if lastp = Some (last protocols) then Inr (hd protocols)
        else case lastp of
               None \<Rightarrow> Inl ValueError
             | Some p \<Rightarrow> bind_res (index_of p protocols) (\<lambda>i.
                 if i + 1 < length protocols then Inr (protocols ! (i + 1)) else Inl IndexError))) (\<lambda>n.
     seq (modify (\<lambda>m. m\<lparr>last_protocol := Some n\<rparr>)) (\<lambda>_.
     ret n))))"

section \<open>Queueing\<close>

definition set_queues :: "nat \<Rightarrow> (qname \<Rightarrow> frame list) \<Rightarrow> 'c mux \<Rightarrow> 'c mux" where
  "set_queues p qs m = m\<lparr>queues := AList.update p qs (queues m)\<rparr>"

definition put_frames :: "qname \<Rightarrow> frame list \<Rightarrow> nat \<Rightarrow> ('c mux, unit) prog" where
  "put_frames q fs p =
     modify (\<lambda>m. case map_of (queues m) p of
       None \<Rightarrow> m | Some qs \<Rightarrow> set_queues p (qs(q := qs q @ fs)) m)"

definition add_packet :: "'i rlp_lib \<Rightarrow> packet \<Rightarrow> ('c mux, unit) prog" where
  "add_packet L pk =
     (let p = pk_protocol_id pk in
     seq (gets (\<lambda>m. map_of (sequence_ids m) p)) (\<lambda>osid.
     seq (lift_res (case osid of None \<Rightarrow> Inl KeyError | Some sid \<Rightarrow> Inr sid)) (\<lambda>sid.
     seq (modify (\<lambda>m. m\<lparr>sequence_ids := AList.update p ((sid + 1) mod 2 ^ 16) (sequence_ids m)\<rparr>)) (\<lambda>_.
     seq (gets (protocol_window_size (Some p))) (\<lambda>rw.
     seq (lift_res rw) (\<lambda>window_size.
     seq (lift_res (mk_frames L p (pk_cmd_id pk) (pk_payload pk) (Some sid) window_size False)) (\<lambda>frames.
     seq (gets (\<lambda>m. map_of (queues m) p)) (\<lambda>oqs.
     seq (lift_res (case oqs of None \<Rightarrow> Inl KeyError | Some _ \<Rightarrow> Inr ())) (\<lambda>_.
     if pk_prioritize pk then
       seq (py_assert (length frames = 1)) (\<lambda>_.
       seq (py_assert (frame_size L (hd frames) \<le> max_priority_frame_size)) (\<lambda>_.
       put_frames Priority [hd frames] p))
     else if length frames = 1 then put_frames Normal [hd frames] p
     else put_frames Chunked frames p)))))))))"

section \<open>Dequeueing\<close>

text \<open>
  One pass of the inner loop: the queues in order, at most two frames, each if it still fits.
  The accumulator holds the queues, the frames so far, their size and the number added.
\<close>

fun pop_round ::
  "'i rlp_lib \<Rightarrow> nat \<Rightarrow> qname list \<Rightarrow> (qname \<Rightarrow> frame list) \<times> frame list \<times> nat \<times> nat \<Rightarrow>
   (qname \<Rightarrow> frame list) \<times> frame list \<times> nat \<times> nat" where
  "pop_round L pws [] acc = acc"
| "pop_round L pws (q # qns) (qs, frames, sz, added) =
     (let acc =
        (case qs q of
           [] \<Rightarrow> (qs, frames, sz, added)
         | f # fs \<Rightarrow>
             if sz + frame_size L f \<le> pws
             then (qs(q := fs), frames @ [f], sz + frame_size L f, added + 1)
             else (qs, frames, sz, added))
      in if snd (snd (snd acc)) = 2 then acc else pop_round L pws qns acc)"

definition queued :: "(qname \<Rightarrow> frame list) \<Rightarrow> nat" where
  "queued qs = length (qs Priority) + length (qs Normal) + length (qs Chunked)"

lemma queued_pop: "qs q = f # fs \<Longrightarrow> queued qs = Suc (queued (qs(q := fs)))"
  by (cases q) (auto simp: queued_def)

lemma pop_round_queued:
  "pop_round L pws qns (qs, frames, sz, added) = (qs', frames', sz', added') \<Longrightarrow>
   queued qs' + added' = queued qs + added"
proof (induction qns arbitrary: qs frames sz added)
  case (Cons q qns)
  show ?case
  proof (cases "qs q")
    case Nil
    with Cons show ?thesis by (auto simp: Let_def split: if_splits)
  next
    case (Cons f fs)
    define qs1 where "qs1 = qs(q := fs)"
    from Cons Cons.IH [of qs1 "frames @ [f]" "sz + frame_size L f" "Suc added"]
      Cons.IH [of qs frames sz added] Cons.prems queued_pop [of qs q f fs] show ?thesis
      unfolding qs1_def [symmetric]
      by (auto simp: Let_def qs1_def [symmetric] split: if_splits)
  qed
qed auto

function pop_loop ::
  "'i rlp_lib \<Rightarrow> nat \<Rightarrow> (qname \<Rightarrow> frame list) \<Rightarrow> frame list \<Rightarrow> nat \<Rightarrow> (qname \<Rightarrow> frame list) \<times> frame list" where
  "pop_loop L pws qs frames sz =
     (if sz < pws then
        (case pop_round L pws [Priority, Normal, Chunked] (qs, frames, sz, 0) of
           (qs', frames', sz', added) \<Rightarrow>
             if added = 0 then (qs', frames') else pop_loop L pws qs' frames' sz')
      else (qs, frames))"
  by pat_completeness auto
termination
  by (relation "measure (\<lambda>(L, pws, qs, frames, sz). queued qs)")
    (auto simp del: pop_round.simps dest!: sym [of _ "pop_round _ _ _ _"] pop_round_queued)

declare pop_loop.simps [simp del]

definition pop_frames_for_protocol :: "'i rlp_lib \<Rightarrow> nat \<Rightarrow> ('c mux, frame list) prog" where
  "pop_frames_for_protocol L p =
     seq (gets (protocol_window_size None)) (\<lambda>rw.
     seq (lift_res rw) (\<lambda>pws.
     seq (gets (\<lambda>m. map_of (queues m) p)) (\<lambda>oqs.
     seq (lift_res (case oqs of None \<Rightarrow> Inl KeyError | Some qs \<Rightarrow> Inr qs)) (\<lambda>qs.
     case pop_loop L pws qs [] 0 of
       (qs', frames) \<Rightarrow> seq (modify (set_queues p qs')) (\<lambda>_. ret frames)))))"

fun first_nonempty :: "(nat \<Rightarrow> ('c mux, frame list) prog) \<Rightarrow> nat list \<Rightarrow> ('c mux, frame list) prog" where
  "first_nonempty pop [] = ret []"
| "first_nonempty pop (p # ps) =
     seq (pop p) (\<lambda>frames. if frames \<noteq> [] then ret frames else first_nonempty pop ps)"

definition pop_frames :: "'i rlp_lib \<Rightarrow> ('c mux, frame list) prog" where
  "pop_frames L =
     seq (gets (\<lambda>m. map fst (queues m))) (\<lambda>protocols.
     seq next_protocol (\<lambda>n.
     seq (lift_res (index_of n protocols)) (\<lambda>idx.
     seq (py_assert (length (drop idx protocols @ take idx protocols) = length protocols)) (\<lambda>_.
     first_nonempty (pop_frames_for_protocol L) (drop idx protocols @ take idx protocols)))))"

section \<open>What a round takes\<close>

text \<open>
  \<open>tr\<close> pairs each frame with the queue it was taken from: every queue has lost a prefix, in
  order, and the frames taken are those prefixes interleaved.
\<close>

definition from_queue :: "qname \<Rightarrow> (qname \<times> frame) list \<Rightarrow> frame list" where
  "from_queue q tr = map snd (filter (\<lambda>x. fst x = q) tr)"

lemma from_queue_simps [simp]:
  "from_queue q [] = []"
  "from_queue q (tr @ [(q', f)]) = from_queue q tr @ (if q' = q then [f] else [])"
  by (simp_all add: from_queue_def)

definition sizes :: "'i rlp_lib \<Rightarrow> frame list \<Rightarrow> nat" where
  "sizes L fs = sum_list (map (frame_size L) fs)"

definition taken ::
  "'i rlp_lib \<Rightarrow> nat \<Rightarrow> (qname \<Rightarrow> frame list) \<Rightarrow> (qname \<Rightarrow> frame list) \<Rightarrow> frame list \<Rightarrow> nat \<Rightarrow> bool" where
  "taken L pws qs0 qs frames sz \<longleftrightarrow> sz = sizes L frames \<and> sz \<le> pws \<and>
     (\<exists>tr. frames = map snd tr \<and> (\<forall>q. qs0 q = from_queue q tr @ qs q))"

lemma taken_pop:
  assumes "taken L pws qs0 qs frames sz" "qs q = f # fs" "sz + frame_size L f \<le> pws"
  shows "taken L pws qs0 (qs(q := fs)) (frames @ [f]) (sz + frame_size L f)"
proof -
  obtain tr where tr: "frames = map snd tr" "\<forall>q. qs0 q = from_queue q tr @ qs q"
    using assms(1) by (auto simp: taken_def)
  have "\<forall>q'. qs0 q' = from_queue q' (tr @ [(q, f)]) @ (qs(q := fs)) q'"
    using tr(2) assms(2) by auto
  then show ?thesis using assms tr(1)
    by (auto simp: taken_def sizes_def intro!: exI [of _ "tr @ [(q, f)]"])
qed

lemma pop_round_taken:
  "pop_round L pws qns (qs, frames, sz, added) = (qs', frames', sz', added') \<Longrightarrow>
   taken L pws qs0 qs frames sz \<Longrightarrow> taken L pws qs0 qs' frames' sz'"
proof (induction qns arbitrary: qs frames sz added)
  case (Cons q qns)
  show ?case
  proof (cases "\<exists>f fs. qs q = f # fs \<and> sz + frame_size L f \<le> pws")
    case True
    then obtain f fs where f: "qs q = f # fs" "sz + frame_size L f \<le> pws" by blast
    note t = taken_pop [OF Cons.prems(2) f]
    have "pop_round L pws qns (qs(q := fs), frames @ [f], sz + frame_size L f, Suc added) =
        (qs', frames', sz', added') \<Longrightarrow> taken L pws qs0 qs' frames' sz'"
      by (rule Cons.IH [OF _ t])
    with Cons.prems(1) f t show ?thesis by (auto simp: Let_def split: if_splits)
  next
    case False
    then show ?thesis using Cons by (auto simp: Let_def split: list.splits if_splits)
  qed
qed simp

text \<open>A round that takes nothing has seen every head and none fits.\<close>

lemma pop_round_grows:
  "pop_round L pws qns (qs, frames, sz, added) = (qs', frames', sz', added') \<Longrightarrow> added \<le> added'"
proof (induction qns arbitrary: qs frames sz added)
  case (Cons q qns)
  show ?case
  proof (cases "qs q")
    case Nil
    with Cons show ?thesis by (auto simp: Let_def split: if_splits)
  next
    case c: (Cons f fs)
    with Cons.prems Cons.IH [of qs frames sz added]
      Cons.IH [of "\<lambda>x. if x = q then fs else qs x" "frames @ [f]" "sz + frame_size L f" "Suc added"]
    show ?thesis by (auto simp: Let_def fun_upd_def split: if_splits)
  qed
qed simp

lemma pop_round_none:
  assumes "pop_round L pws qns (qs, frames, sz, 0) = (qs', frames', sz', 0)"
  shows "qs' = qs \<and> frames' = frames \<and> sz' = sz \<and>
    (\<forall>q \<in> set qns. \<forall>f fs. qs q = f # fs \<longrightarrow> pws < sz + frame_size L f)"
  using assms
proof (induction qns)
  case (Cons q qns)
  show ?case
  proof (cases "\<exists>f fs. qs q = f # fs \<and> sz + frame_size L f \<le> pws")
    case True
    then obtain f fs where "qs q = f # fs" "sz + frame_size L f \<le> pws" by blast
    then show ?thesis
      using Cons.prems pop_round_grows [of L pws qns "qs(q := fs)" "frames @ [f]" "sz + frame_size L f" 1]
      by (auto simp: Let_def split: if_splits)
  next
    case False
    then have "pop_round L pws qns (qs, frames, sz, 0) = (qs', frames', sz', 0)"
      using Cons.prems by (auto simp: Let_def split: list.splits if_splits)
    from Cons.IH [OF this] False show ?thesis by (auto simp: not_le)
  qed
qed simp

lemma pop_loop_taken:
  "pop_loop L pws qs frames sz = (qs', frames') \<Longrightarrow> taken L pws qs0 qs frames sz \<Longrightarrow>
   \<exists>sz'. taken L pws qs0 qs' frames' sz' \<and>
     (sz' < pws \<longrightarrow> (\<forall>q f fs. qs' q = f # fs \<longrightarrow> pws < sz' + frame_size L f))"
proof (induction L pws qs frames sz rule: pop_loop.induct)
  case (1 L pws qs frames sz)
  show ?case
  proof (cases "sz < pws")
    case False
    with 1 show ?thesis by (auto simp: pop_loop.simps [of L pws qs frames])
  next
    case True
    obtain qs1 frames1 sz1 added where r:
      "pop_round L pws [Priority, Normal, Chunked] (qs, frames, sz, 0) = (qs1, frames1, sz1, added)"
      by (metis prod.exhaust)
    note t1 = pop_round_taken [OF r "1.prems"(2)]
    show ?thesis
    proof (cases "added = 0")
      case True
      have all: "q \<in> set [Priority, Normal, Chunked]" for q by (cases q) auto
      have "qs' = qs1" "frames' = frames1"
        using "1.prems"(1) \<open>sz < pws\<close> r True by (auto simp: pop_loop.simps [of L pws qs frames] simp del: pop_round.simps)
      moreover from pop_round_none [OF r [unfolded True]]
      have "qs1 = qs" "sz1 = sz" "\<forall>q f fs. qs q = f # fs \<longrightarrow> pws < sz + frame_size L f"
        using all by blast+
      ultimately show ?thesis using t1 by blast
    next
      case False
      then have "pop_loop L pws qs1 frames1 sz1 = (qs', frames')"
        using "1.prems"(1) \<open>sz < pws\<close> r by (simp add: pop_loop.simps [of L pws qs frames] del: pop_round.simps)
      from "1.IH" [OF \<open>sz < pws\<close> r [symmetric] refl refl False this t1] show ?thesis .
    qed
  qed
qed

lemma pop_loop_spec:
  assumes "pop_loop L pws qs [] 0 = (qs', frames)"
  obtains tr where "frames = map snd tr" "\<forall>q. qs q = from_queue q tr @ qs' q" "sizes L frames \<le> pws"
    "sizes L frames < pws \<Longrightarrow> \<forall>q f fs. qs' q = f # fs \<longrightarrow> pws < sizes L frames + frame_size L f"
proof -
  have "taken L pws qs qs [] 0" by (auto simp: taken_def sizes_def)
  from pop_loop_taken [OF assms this] that show ?thesis by (auto simp: taken_def)
qed

lemma queued_log:
  assumes "\<forall>q. qs q = from_queue q tr @ qs' q"
  shows "queued qs = length tr + queued qs'"
proof -
  have "length (from_queue Priority tr) + length (from_queue Normal tr) + length (from_queue Chunked tr) = length tr"
  proof (induction tr)
    case (Cons x tr)
    then show ?case by (cases "fst x") (auto simp: from_queue_def)
  qed simp
  with assms show ?thesis by (simp add: queued_def)
qed

section \<open>Emptying the queues\<close>

definition total_queued :: "'c mux \<Rightarrow> nat" where
  "total_queued m = sum_list (map (queued \<circ> snd) (queues m))"

lemma total_queued_set:
  "map_of (queues m) p = Some qs \<Longrightarrow>
   total_queued (set_queues p qs' m) + queued qs = total_queued m + queued qs'"
proof -
  have "map_of d p = Some qs \<Longrightarrow> sum_list (map (queued \<circ> snd) (AList.update p qs' d)) + queued qs =
      sum_list (map (queued \<circ> snd) d) + queued qs'" for d
    by (induction d) (auto split: if_splits)
  then show "map_of (queues m) p = Some qs \<Longrightarrow> ?thesis" by (simp add: total_queued_def set_queues_def)
qed

lemma pop_frames_for_protocol_Inr:
  assumes "pop_frames_for_protocol L p m = (Inr frames, m')"
  obtains pws qs qs' where "protocol_window_size None m = Inr pws" "map_of (queues m) p = Some qs"
    "pop_loop L pws qs [] 0 = (qs', frames)" "m' = set_queues p qs' m"
proof -
  obtain pws qs where *: "protocol_window_size None m = Inr pws" "map_of (queues m) p = Some qs"
    using assms by (auto simp: pop_frames_for_protocol_def run_simps lift_res_def split: option.splits)
  obtain qs' fs where l: "pop_loop L pws qs [] 0 = (qs', fs)" by force
  have "frames = fs" "m' = set_queues p qs' m"
    using assms * l by (auto simp: pop_frames_for_protocol_def run_simps lift_res_def)
  with that * l show ?thesis by blast
qed

lemma pop_frames_for_protocol_queued:
  assumes "pop_frames_for_protocol L p m = (Inr frames, m')"
  shows "total_queued m = total_queued m' + length frames"
  using assms
proof (rule pop_frames_for_protocol_Inr)
  fix pws qs qs'
  assume *: "map_of (queues m) p = Some qs" "pop_loop L pws qs [] 0 = (qs', frames)" "m' = set_queues p qs' m"
  obtain tr where tr: "frames = map snd tr" "\<forall>q. qs q = from_queue q tr @ qs' q"
    by (rule pop_loop_spec [OF *(2)], rule that)
  from queued_log [OF tr(2)] total_queued_set [OF *(1), of qs'] show ?thesis
    unfolding *(3) tr(1) by simp
qed

lemma first_nonempty_queued:
  "first_nonempty (pop_frames_for_protocol L) ps m = (Inr frames, m') \<Longrightarrow>
   total_queued m = total_queued m' + length frames"
proof (induction ps arbitrary: m)
  case (Cons p ps)
  then obtain fs m1 where r: "pop_frames_for_protocol L p m = (Inr fs, m1)"
    "(if fs \<noteq> [] then ret fs else first_nonempty (pop_frames_for_protocol L) ps) m1 = (Inr frames, m')"
    by (auto simp: run_simps)
  with pop_frames_for_protocol_queued [OF r(1)] Cons.IH [of m1] show ?case
    by (auto simp: ret_eq_Inr split: if_splits)
qed (simp add: ret_def)

lemma next_protocol_queues: "next_protocol m = (r, m') \<Longrightarrow> queues m' = queues m"
  by (auto simp: next_protocol_def prog_defs split: sum.splits option.splits if_splits prod.splits)

lemma pop_frames_queued:
  assumes "pop_frames L m = (Inr frames, m')"
  shows "total_queued m = total_queued m' + length frames"
proof -
  obtain n m1 ps where m1: "next_protocol m = (Inr n, m1)"
    "first_nonempty (pop_frames_for_protocol L) ps m1 = (Inr frames, m')"
    using assms by (auto simp: pop_frames_def run_simps lift_res_def py_assert_def)
  with first_nonempty_queued [OF m1(2)] next_protocol_queues [OF m1(1)] show ?thesis
    by (simp add: total_queued_def)
qed

text \<open>\<open>while True: r = self.pop_frames() ...\<close>, with the frames so far as an accumulator.\<close>

function pop_all_from :: "'i rlp_lib \<Rightarrow> frame list \<Rightarrow> ('c mux, frame list) prog" where
  "pop_all_from L frames m =
     (case pop_frames L m of
        (Inl e, m') \<Rightarrow> (Inl e, m')
      | (Inr r, m') \<Rightarrow> if r = [] then (Inr frames, m') else pop_all_from L (frames @ r) m')"
  by pat_completeness auto
termination
  by (relation "measure (\<lambda>(L, frames, m). total_queued m)")
    (auto dest!: sym [of _ "pop_frames _ _"] pop_frames_queued)

declare pop_all_from.simps [simp del]

definition pop_all_frames :: "'i rlp_lib \<Rightarrow> ('c mux, frame list) prog" where
  "pop_all_frames L = pop_all_from L []"

definition on_cipher :: "('c, 'a) prog \<Rightarrow> ('c mux, 'a) prog" where
  "on_cipher f = (\<lambda>m. case f (cipher_state m) of (r, c) \<Rightarrow> (r, m\<lparr>cipher_state := c\<rparr>))"

fun join_bytes :: "'i rlp_lib \<Rightarrow> 'c cipher option \<Rightarrow> frame list \<Rightarrow> ('c, bytes) prog" where
  "join_bytes L C [] = ret []"
| "join_bytes L C (f # fs) =
     seq (as_bytes L C f) (\<lambda>(b, f'). seq (join_bytes L C fs) (\<lambda>bs. ret (b @ bs)))"

definition pop_all_frames_as_bytes :: "'i rlp_lib \<Rightarrow> 'c cipher option \<Rightarrow> ('c mux, bytes) prog" where
  "pop_all_frames_as_bytes L C = seq (pop_all_frames L) (\<lambda>frames. on_cipher (join_bytes L C frames))"

end
