(* ===== verification/Decoder.thy ===== *)
theory Decoder
  imports Multiplexer
begin

text \<open>
  The receiving side of \<open>Multiplexer\<close> (\<open>devp2p/multiplexer.py\<close>): the byte stream is cut back into
  frames, and the frames of a packet are put together again.
\<close>

text \<open>\<open>struct.unpack('>I', b'\0' + header[:3])[0]\<close>.\<close>

definition header_body_size :: "bytes \<Rightarrow> nat res" where
  "header_body_size header =
     (if length (take 3 header) = 3 then Inr (be_val (take 3 header)) else Inl StructError)"

definition decode_header :: "'c cipher option \<Rightarrow> bytes \<Rightarrow> ('c mux, bytes) prog" where
  "decode_header C buffer =
     seq (py_assert (32 \<le> length buffer)) (\<lambda>_.
     case C of
       Some c \<Rightarrow> on_cipher (c_decrypt_header c (take (f_header_size + f_mac_size) buffer))
     | None \<Rightarrow> ret (take f_header_size buffer))"

text \<open>The part of \<open>decode_body\<close> that extracts the body of the frame at the start of the buffer.\<close>

definition fetch_body :: "'c cipher option \<Rightarrow> bytes \<Rightarrow> nat \<Rightarrow> ('c mux, bytes) prog" where
  "fetch_body C buffer n =
     (case C of
        Some c \<Rightarrow>
          seq (on_cipher (c_decrypt_body c (drop (f_header_size + f_mac_size) buffer) n)) (\<lambda>body.
          seq (py_assert (length body = n)) (\<lambda>_.
          seq (py_assert ((f_header_size + f_mac_size + ceil16 (length body) + f_mac_size) mod f_padding = 0)) (\<lambda>_.
          ret body)))
      | None \<Rightarrow>
          let body_offset = f_header_size + f_mac_size;
              body = slice body_offset (body_offset + n) buffer in
          seq (py_assert (length body = n)) (\<lambda>_.
          seq (py_assert (ceil16 (body_offset + n + f_mac_size) mod f_padding = 0)) (\<lambda>_.
          ret body)))"

text \<open>The header data: protocol, sequence id and, for a chunked-0 frame, the total size.\<close>

definition parse_header :: "'i rlp_lib \<Rightarrow> bytes \<Rightarrow> (nat \<times> nat option \<times> nat option) res" where
  "parse_header L header =
     (case dec_header L (drop 3 header) of
        None \<Rightarrow> Inl DeserializationError
      | Some header_data \<Rightarrow>
          bind_res (if length header_data = 3
                    then bind_res (assert_res (header_data ! 2 < 2 ^ 32)) (\<lambda>_. Inr (Some (header_data ! 2)))
                    else Inr None) (\<lambda>tot.
          bind_res (if header_data = [] then Inl IndexError else Inr (hd header_data)) (\<lambda>protocol_id.
          bind_res (assert_res (protocol_id < 2 ^ 16)) (\<lambda>_.
          bind_res (if length header_data > 1
                    then bind_res (assert_res (header_data ! 1 < 2 ^ 16)) (\<lambda>_. Inr (Some (header_data ! 1)))
                    else Inr None) (\<lambda>sequence_id.
          Inr (protocol_id, sequence_id, tot))))))"

definition set_buffer :: "nat \<Rightarrow> (chunk_buffers \<Rightarrow> chunk_buffers) \<Rightarrow> ('c mux, unit) prog" where
  "set_buffer p f = modify (\<lambda>m. m\<lparr>chunked_buffers :=
     AList.map_entry p f (chunked_buffers m)\<rparr>)"

text \<open>The part of \<open>decode_body\<close> that builds the packet.\<close>

definition reassemble ::
  "'i rlp_lib \<Rightarrow> nat \<Rightarrow> nat option \<Rightarrow> nat option \<Rightarrow> bytes \<Rightarrow> ('c mux, packet option) prog" where
  "reassemble L protocol_id sequence_id tot body =
     seq (gets (\<lambda>m. map_of (chunked_buffers m) protocol_id)) (\<lambda>known.
     case known of
       None \<Rightarrow> throw MultiplexerError
     | Some chunkbuf \<Rightarrow>
         (case (case sequence_id of None \<Rightarrow> None | Some sid \<Rightarrow> map_option (\<lambda>v. (sid, v)) (map_of chunkbuf sid)) of
            Some (sid, pk, full) \<Rightarrow>
              if tot \<noteq> None then throw MultiplexerError
              else if int (length body) > full - int (length (pk_payload pk)) then throw MultiplexerError
              else
                let pk = pk\<lparr>pk_payload := pk_payload pk @ body\<rparr> in
                if full = int (length (pk_payload pk))
                then seq (set_buffer protocol_id (AList.delete sid)) (\<lambda>_. ret (Some pk))
                else seq (set_buffer protocol_id (AList.update sid (pk, full))) (\<lambda>_. ret None)
          | None \<Rightarrow>
              seq (lift_res (consume_item L body)) (\<lambda>(item, end).
              seq (lift_res (deserialize_int L item)) (\<lambda>cmd_id.
              let payload = drop end body;
                  pk = \<lparr>pk_protocol_id = protocol_id, pk_cmd_id = cmd_id, pk_payload = payload,
                         pk_prioritize = False\<rparr>
              in case tot of
                   None \<Rightarrow> ret (Some pk)
                 | Some t \<Rightarrow>
                     let full = int t - int end in
                     if full < int (length payload) then throw MultiplexerError
                     else if full = int (length payload) then ret (Some pk)
                     else (case sequence_id of
                             None \<Rightarrow> throw AssertionError
                           | Some sid \<Rightarrow>
                               seq (set_buffer protocol_id (AList.update sid (pk, full))) (\<lambda>_. ret None))))))"

text \<open>
  \<open>decode_body\<close>: \<open>TooShort\<close> is the pair \<open>None, buffer\<close> that the code returns for a buffer without a
  header. The code decodes a missing header from a copy that its own assertion rejects.
\<close>

datatype decoded = TooShort | Decoded "packet option"

definition decode_body :: "'i rlp_lib \<Rightarrow> 'c cipher option \<Rightarrow> bytes \<Rightarrow> bytes option \<Rightarrow> ('c mux, decoded) prog" where
  "decode_body L C buffer oheader =
     (if length buffer < f_header_size then ret TooShort
      else case oheader of
        None \<Rightarrow> throw AssertionError
      | Some header \<Rightarrow>
          if header = [] then throw AssertionError
          else
            seq (lift_res (header_body_size header)) (\<lambda>n.
            seq (fetch_body C buffer n) (\<lambda>body.
            let header = (case C of None \<Rightarrow> take f_header_size buffer | Some _ \<Rightarrow> header) in
            seq (lift_res (parse_header L header)) (\<lambda>(protocol_id, sequence_id, tot).
            seq (reassemble L protocol_id sequence_id tot body) (\<lambda>r. ret (Decoded r))))))"

text \<open>
  \<open>decode\<close> after the data has been added to the buffer. A header is kept while its frame is not
  complete. \<open>if packet:\<close> calls \<open>Packet.__len__\<close>: a packet without payload counts as none. The
  result \<open>TooShort\<close> cannot occur, the buffer has at least 48 bytes.
\<close>

definition truthy :: "decoded \<Rightarrow> packet list" where
  "truthy d = (case d of Decoded (Some pk) \<Rightarrow> if pk_payload pk = [] then [] else [pk] | _ \<Rightarrow> [])"

definition frame_header_of :: "'c cipher option \<Rightarrow> ('c mux, bytes option) prog" where
  "frame_header_of C m =
     (case cached_header m of
        Some (b # bs) \<Rightarrow> (Inr (Some (b # bs)), m)
      | _ \<Rightarrow>
          if length (decode_buffer m) < f_header_size + f_mac_size then (Inr None, m)
          else seq (decode_header C (decode_buffer m)) (\<lambda>h.
               seq (modify (\<lambda>m. m\<lparr>cached_header := Some h\<rparr>)) (\<lambda>_. ret (Some h))) m)"

function decode_frames :: "'i rlp_lib \<Rightarrow> 'c cipher option \<Rightarrow> ('c mux, packet list) prog" where
  "decode_frames L C m =
     (let buf = decode_buffer m in
      case frame_header_of C m of
        (Inl e, m1) \<Rightarrow> (Inl e, m1)
      | (Inr None, m1) \<Rightarrow> (Inr [], m1)
      | (Inr (Some header), m1) \<Rightarrow>
          (case header_body_size header of
             Inl e \<Rightarrow> (Inl e, m1)
           | Inr n \<Rightarrow>
               let required_len = f_header_size + f_mac_size + ceil16 n + f_mac_size in
               if required_len \<le> length buf then
                 (case decode_body L C buf (Some header) m1 of
                    (Inl e, m2) \<Rightarrow> (Inl e, m2)
                  | (Inr d, m2) \<Rightarrow>
                      (case decode_frames L C (m2\<lparr>cached_header := None, decode_buffer := drop required_len buf\<rparr>) of
                         (Inl e, m3) \<Rightarrow> (Inl e, m3)
                       | (Inr ps, m3) \<Rightarrow> (Inr (truthy d @ ps), m3)))
               else (Inr [], m1)))"
  by pat_completeness auto
termination
  by (relation "measure (\<lambda>(L, C, m). length (decode_buffer m))")
    (auto simp: f_header_size_def f_mac_size_def)

declare decode_frames.simps [simp del]

definition decode :: "'i rlp_lib \<Rightarrow> 'c cipher option \<Rightarrow> bytes \<Rightarrow> ('c mux, packet list) prog" where
  "decode L C data =
     seq (modify (\<lambda>m. m\<lparr>decode_buffer := decode_buffer m @ data\<rparr>)) (\<lambda>_. decode_frames L C)"

end
