(* ===== verification/Frame_Transport.thy ===== *)
theory Frame_Transport
  imports Decoder
begin

text \<open>
  The contract between the multiplexer (client) and what carries its frames (provider, the RLPx
  session, or no cipher at all), and what the multiplexer derives from it: the stream may be
  delivered in any segments.
\<close>

section \<open>Statements that do not look at the decode buffer\<close>

definition buffer_free :: "('c mux, 'a) prog \<Rightarrow> bool" where
  "buffer_free f \<longleftrightarrow>
     (\<forall>m z. f (m\<lparr>decode_buffer := z\<rparr>) = apsnd (\<lambda>m'. m'\<lparr>decode_buffer := z\<rparr>) (f m))"

named_theorems buffer_rules "statements that do not look at the decode buffer"

lemma buffer_free_ret [buffer_rules]: "buffer_free (ret x)"
  by (simp add: buffer_free_def ret_def)

lemma buffer_free_throw [buffer_rules]: "buffer_free (throw e)"
  by (simp add: buffer_free_def throw_def)

lemma buffer_free_lift [buffer_rules]: "buffer_free (lift_res r)"
  by (simp add: buffer_free_def lift_res_def)

lemma buffer_free_assert [buffer_rules]: "buffer_free (py_assert b)"
  by (simp add: py_assert_def buffer_free_lift)

lemma buffer_free_gets [buffer_rules]: "(\<And>m z. f (m\<lparr>decode_buffer := z\<rparr>) = f m) \<Longrightarrow> buffer_free (gets f)"
  by (simp add: buffer_free_def gets_def)

lemma buffer_free_modify [buffer_rules]:
  "(\<And>m z. f (m\<lparr>decode_buffer := z\<rparr>) = (f m)\<lparr>decode_buffer := z\<rparr>) \<Longrightarrow> buffer_free (modify f)"
  by (simp add: buffer_free_def modify_def)

lemma buffer_free_seq [buffer_rules]:
  "buffer_free f \<Longrightarrow> (\<And>x. buffer_free (g x)) \<Longrightarrow> buffer_free (seq f g)"
  by (auto simp: buffer_free_def seq_def split: prod.split sum.split)

lemma buffer_free_if [buffer_rules]: "buffer_free f \<Longrightarrow> buffer_free g \<Longrightarrow> buffer_free (if b then f else g)"
  by simp

lemma buffer_free_option [buffer_rules]:
  "buffer_free f \<Longrightarrow> (\<And>y. buffer_free (g y)) \<Longrightarrow> buffer_free (case x of None \<Rightarrow> f | Some y \<Rightarrow> g y)"
  by (simp split: option.split)

lemma buffer_free_pair [buffer_rules]:
  "(\<And>a b. buffer_free (g a b)) \<Longrightarrow> buffer_free (case x of (a, b) \<Rightarrow> g a b)"
  by (simp split: prod.split)

lemma buffer_free_on_cipher [buffer_rules]: "buffer_free (on_cipher f)"
  by (auto simp: buffer_free_def on_cipher_def split: prod.split)

lemma buffer_free_decode_header [buffer_rules]: "buffer_free (decode_header C buffer)"
  unfolding decode_header_def by (intro buffer_rules)

lemma buffer_free_fetch_body [buffer_rules]: "buffer_free (fetch_body C buffer n)"
  unfolding fetch_body_def Let_def by (intro buffer_rules)

lemma buffer_free_set_buffer [buffer_rules]: "buffer_free (set_buffer p f)"
  unfolding set_buffer_def by (intro buffer_rules) simp

lemma buffer_free_reassemble [buffer_rules]: "buffer_free (reassemble L p sid t body)"
  unfolding reassemble_def Let_def by (intro buffer_rules) simp

lemma buffer_free_decode_body [buffer_rules]: "buffer_free (decode_body L C buffer h)"
  unfolding decode_body_def Let_def by (intro buffer_rules)

lemma buffer_free_run:
  "buffer_free f \<Longrightarrow> f m = (r, m') \<Longrightarrow> f (m\<lparr>decode_buffer := z\<rparr>) = (r, m'\<lparr>decode_buffer := z\<rparr>)"
  by (simp add: buffer_free_def)

lemma buffer_free_same: "buffer_free f \<Longrightarrow> f m = (r, m') \<Longrightarrow> decode_buffer m' = decode_buffer m"
  using buffer_free_run [of f m r m' "decode_buffer m"] by (auto dest: arg_cong [of _ _ decode_buffer])

definition prepend :: "packet list \<Rightarrow> packet list res \<times> 'c mux \<Rightarrow> packet list res \<times> 'c mux" where
  "prepend ps x = (case x of (Inl e, m) \<Rightarrow> (Inl e, m) | (Inr qs, m) \<Rightarrow> (Inr (ps @ qs), m))"

lemma prepend_simps [simp]:
  "prepend ps (Inl e, m) = (Inl e, m)" "prepend ps (Inr qs, m) = (Inr (ps @ qs), m)" "prepend [] x = x"
  by (auto simp: prepend_def split: prod.split sum.split)

section \<open>The interface\<close>

locale frame_transport =
  fixes C :: "'c cipher option"
    and paired :: "'c \<Rightarrow> 'c \<Rightarrow> bool"
  assumes body_prefix: "C = Some c \<Longrightarrow> ceil16 n + 16 \<le> length x \<Longrightarrow>
           c_decrypt_body c (x @ y) n = c_decrypt_body c x n"
    and transported: "C = Some c \<Longrightarrow> paired tx rx \<Longrightarrow> length h = 16 \<Longrightarrow> ceil16 n = length b \<Longrightarrow> 0 < n \<Longrightarrow>
           \<exists>e tx' rx1 rx2. c_encrypt c h b tx = (Inr e, tx') \<and> length e = 48 + length b \<and>
             c_decrypt_header c (take 32 e) rx = (Inr h, rx1) \<and>
             c_decrypt_body c (drop 32 e) n rx1 = (Inr (take n b), rx2) \<and> paired tx' rx2"
begin

lemma decode_header_extend:
  "32 \<le> length x \<Longrightarrow> decode_header C (x @ y) = decode_header C x"
  by (simp add: decode_header_def f_header_size_def f_mac_size_def split: option.split)

lemma fetch_body_extend:
  assumes "48 + ceil16 n \<le> length x"
  shows "fetch_body C (x @ y) n = fetch_body C x n"
proof (cases C)
  case None
  then show ?thesis using assms ceil16_bounds(1) [of n]
    by (simp add: fetch_body_def f_header_size_def f_mac_size_def slice_def)
next
  case (Some c)
  have "c_decrypt_body c (drop 32 x @ y) n = c_decrypt_body c (drop 32 x) n"
    using assms by (intro body_prefix [OF Some]) simp
  with Some assms show ?thesis by (simp add: fetch_body_def f_header_size_def f_mac_size_def)
qed

lemma decode_body_extend:
  assumes "header_body_size h = Inr n" "48 + ceil16 n \<le> length x"
  shows "decode_body L C (x @ y) (Some h) = decode_body L C x (Some h)"
proof -
  have len: "f_header_size \<le> length x" using assms(2) by (simp add: f_header_size_def)
  then have eq: "take f_header_size (x @ y) = take f_header_size x" by simp
  show ?thesis unfolding decode_body_def Let_def eq
    using len assms(1) fetch_body_extend [OF assms(2), of y] by simp
qed

text \<open>More data after a header changes nothing about the header.\<close>

lemma frame_header_extend:
  assumes "frame_header_of C m = (Inr (Some h), m1)"
  shows "frame_header_of C (m\<lparr>decode_buffer := decode_buffer m @ y\<rparr>) =
      (Inr (Some h), m1\<lparr>decode_buffer := decode_buffer m @ y\<rparr>)"
    "decode_buffer m1 = decode_buffer m" "cached_header m1 = Some h"
proof -
  let ?m = "m\<lparr>decode_buffer := decode_buffer m @ y\<rparr>"
  have "frame_header_of C ?m = (Inr (Some h), m1\<lparr>decode_buffer := decode_buffer m @ y\<rparr>) \<and>
    decode_buffer m1 = decode_buffer m \<and> cached_header m1 = Some h"
  proof (cases "\<exists>b bs. cached_header m = Some (b # bs)")
    case True
    with assms show ?thesis by (auto simp: frame_header_of_def)
  next
    case False
    let ?p = "seq (decode_header C (decode_buffer m)) (\<lambda>h. seq (modify (\<lambda>m. m\<lparr>cached_header := Some h\<rparr>)) (\<lambda>_. ret (Some h)))"
    have free: "buffer_free ?p" by (intro buffer_rules) simp
    have eq: "frame_header_of C m = (if length (decode_buffer m) < 32 then (Inr None, m) else ?p m)"
      using False by (auto simp: frame_header_of_def f_header_size_def f_mac_size_def split: option.split list.split)
    with assms have len: "32 \<le> length (decode_buffer m)" and p: "?p m = (Inr (Some h), m1)"
      by (auto split: if_splits)
    have "frame_header_of C ?m = ?p ?m"
      using False len by (auto simp: frame_header_of_def f_header_size_def f_mac_size_def decode_header_extend
          split: option.split list.split)
    moreover have "cached_header m1 = Some h" using p by (auto simp: run_simps)
    ultimately show ?thesis using buffer_free_run [OF free p] buffer_free_same [OF free p] by simp
  qed
  then show "frame_header_of C ?m = (Inr (Some h), m1\<lparr>decode_buffer := decode_buffer m @ y\<rparr>)"
    "decode_buffer m1 = decode_buffer m" "cached_header m1 = Some h" by simp_all
qed

lemma frame_header_cached:
  "cached_header m = Some h \<Longrightarrow> h \<noteq> [] \<Longrightarrow> frame_header_of C m = (Inr (Some h), m)"
  by (cases h) (simp_all add: frame_header_of_def)

lemma header_body_size_nonempty: "header_body_size h = Inr n \<Longrightarrow> h \<noteq> []"
  by (auto simp: header_body_size_def)

lemma decode_frames_extend:
  "decode_frames L C m = (Inr ps, m1) \<Longrightarrow>
   decode_frames L C (m\<lparr>decode_buffer := decode_buffer m @ y\<rparr>) =
   prepend ps (decode_frames L C (m1\<lparr>decode_buffer := decode_buffer m1 @ y\<rparr>))"
proof (induction "length (decode_buffer m)" arbitrary: m ps rule: less_induct)
  case (less m)
  let ?buf = "decode_buffer m"
  let ?m = "m\<lparr>decode_buffer := ?buf @ y\<rparr>"
  obtain r m' where h: "frame_header_of C m = (r, m')" by force
  show ?case
  proof (cases r)
    case (Inl e)
    with h less.prems show ?thesis by (simp add: decode_frames.simps [of L C m])
  next
    case (Inr oh)
    show ?thesis
    proof (cases oh)
      case None
      with h Inr have "m' = m"
        by (auto simp: frame_header_of_def seq_def modify_def ret_def split: option.splits list.splits if_splits prod.splits sum.splits)
      with h Inr None less.prems have "ps = []" "m1 = m" by (auto simp: decode_frames.simps [of L C m])
      then show ?thesis by simp
    next
      case (Some h')
      note fh = frame_header_extend [OF h [unfolded Inr Some]]
      obtain n where n: "header_body_size h' = Inr n"
        using less.prems h Inr Some
        by (cases "header_body_size h'") (simp_all add: decode_frames.simps [of L C m])
      let ?req = "48 + ceil16 n"
      have req: "f_header_size + f_mac_size + ceil16 n + f_mac_size = ?req"
        by (simp add: f_header_size_def f_mac_size_def)
      show ?thesis
      proof (cases "?req \<le> length ?buf")
        case False
        then have "ps = []" "m1 = m'"
          using less.prems h Inr Some n by (auto simp: decode_frames.simps [of L C m] req)
        moreover have "decode_frames L C ?m = decode_frames L C (m'\<lparr>decode_buffer := ?buf @ y\<rparr>)"
          using fh(1) frame_header_cached [of "m'\<lparr>decode_buffer := ?buf @ y\<rparr>" h'] fh(3)
            header_body_size_nonempty [OF n]
          by (simp add: decode_frames.simps [of L C ?m] decode_frames.simps [of L C "m'\<lparr>decode_buffer := ?buf @ y\<rparr>"])
        ultimately show ?thesis using fh(2) by simp
      next
        case True
        have step: "decode_frames L C m = (case decode_body L C ?buf (Some h') m' of
            (Inl e, m2) \<Rightarrow> (Inl e, m2)
          | (Inr d, m2) \<Rightarrow> prepend (truthy d)
              (decode_frames L C (m2\<lparr>cached_header := None, decode_buffer := drop ?req ?buf\<rparr>)))"
          unfolding decode_frames.simps [of L C m] Let_def req prepend_def h Inr Some prod.case sum.case
            option.case n if_P [OF True] ..
        with less.prems obtain d m2 where d: "decode_body L C ?buf (Some h') m' = (Inr d, m2)"
          by (auto split: prod.splits sum.splits)
        let ?m2 = "m2\<lparr>cached_header := None, decode_buffer := drop ?req ?buf\<rparr>"
        obtain qs where qs: "decode_frames L C ?m2 = (Inr qs, m1)" "ps = truthy d @ qs"
          using less.prems unfolding step d by (auto simp: prepend_def split: prod.splits sum.splits)
        have IH: "decode_frames L C (?m2\<lparr>decode_buffer := decode_buffer ?m2 @ y\<rparr>) =
            prepend qs (decode_frames L C (m1\<lparr>decode_buffer := decode_buffer m1 @ y\<rparr>))"
          by (rule less.hyps [OF _ qs(1)]) (use True in simp)
        have "decode_body L C (?buf @ y) (Some h') (m'\<lparr>decode_buffer := ?buf @ y\<rparr>) =
            (Inr d, m2\<lparr>decode_buffer := ?buf @ y\<rparr>)"
          unfolding decode_body_extend [OF n True]
          by (rule buffer_free_run [OF buffer_free_decode_body d])
        then have "decode_frames L C ?m = prepend (truthy d)
            (decode_frames L C (?m2\<lparr>decode_buffer := decode_buffer ?m2 @ y\<rparr>))"
          using True unfolding decode_frames.simps [of L C ?m] Let_def prepend_def fh(1) prod.case sum.case
            option.case n req by simp
        then show ?thesis unfolding IH qs(2)
          by (simp add: prepend_def split: prod.split sum.split)
      qed
    qed
  qed
qed

text \<open>The segments of the stream do not matter.\<close>

lemma decode_append:
  assumes "decode L C x m = (Inr ps, m1)"
  shows "decode L C (x @ y) m = prepend ps (decode L C y m1)"
proof -
  have "decode_frames L C (m\<lparr>decode_buffer := decode_buffer m @ x\<rparr>) = (Inr ps, m1)"
    using assms by (simp add: decode_def seq_def modify_def)
  from decode_frames_extend [OF this, of y] show ?thesis
    by (simp add: decode_def seq_def modify_def)
qed

end

text \<open>Without a cipher there is nothing to promise: the code itself reads the plain frames.\<close>

interpretation plain: frame_transport None "\<lambda>_ _. True"
  by unfold_locales simp_all

end
