(* ===== verification/Wire_Roundtrip.thy ===== *)
theory Wire_Roundtrip
  imports Frame_Transport
begin

text \<open>
  What is framed, sealed and sent is what the receiver puts together: first one frame, then the
  frames of a packet, then any sequence of packets.
\<close>

text \<open>
  What the code relies on of the \<open>rlp\<close> package: header lists and commands decode to what was
  encoded, whatever padding or data follows, a header list takes at most 13 bytes and a command
  one or two.
\<close>

definition header_list_ok :: "nat list \<Rightarrow> bool" where
  "header_list_ok l \<longleftrightarrow> l \<noteq> [] \<and> length l \<le> 3 \<and> hd l < 2 ^ 16 \<and>
     (1 < length l \<longrightarrow> l ! 1 < 2 ^ 16) \<and> (2 < length l \<longrightarrow> l ! 2 < 2 ^ 32)"

definition rlp_ok :: "'i rlp_lib \<Rightarrow> bool" where
  "rlp_ok L \<longleftrightarrow>
     (\<forall>l n. header_list_ok l \<longrightarrow> dec_header L (enc_header L l @ replicate n 0) = Some l \<and>
        length (enc_header L l) \<le> 13) \<and>
     (\<forall>c rest. c < 256 \<longrightarrow> length (enc_int L c) \<in> {1, 2} \<and>
        (\<exists>item. consume_item L (enc_int L c @ rest) = Inr (item, length (enc_int L c)) \<and>
           deserialize_int L item = Inr c))"

section \<open>One frame\<close>

definition frame_ok :: "'i rlp_lib \<Rightarrow> frame \<Rightarrow> bool" where
  "frame_ok L f \<longleftrightarrow> f_protocol_id f < 2 ^ 16 \<and>
     (case f_sequence_id f of None \<Rightarrow> True | Some s \<Rightarrow> s < 2 ^ 16) \<and>
     (if f_is_chunked_0 f
      then f_sequence_id f \<noteq> None \<and> (case f_total_payload_size f of None \<Rightarrow> False | Some t \<Rightarrow> t < 2 ^ 32)
      else f_total_payload_size f = None) \<and>
     0 < body_size L False f \<and> body_size L False f < 256 ^ 3 \<and> \<not> f_cipher_called f"

text \<open>The unpadded body.\<close>

definition frame_data :: "'i rlp_lib \<Rightarrow> frame \<Rightarrow> bytes" where
  "frame_data L f = enc_cmd_id L f @ f_payload f"

lemma length_frame_data: "length (frame_data L f) = body_size L False f"
  by (simp add: frame_data_def body_size_def Let_def)

lemma frame_body_data: "frame_body L f = frame_data L f @ replicate (ceil16 (body_size L False f) - body_size L False f) 0"
  by (simp add: frame_body_def frame_data_def body_size_def Let_def)

lemma rzpad16_append: "\<exists>n. rzpad16 d = d @ replicate n 0"
  by (auto simp: rzpad16_def intro: exI [of _ 0])

lemma frame_header_parsed:
  assumes "rlp_ok L" "frame_ok L f"
  obtains h where "frame_header L f = Inr h" "length h = 16" "header_body_size h = Inr (body_size L False f)"
    "parse_header L h = Inr (f_protocol_id f, f_sequence_id f, f_total_payload_size f)"
proof -
  let ?n = "body_size L False f"
  define l where "l = f_protocol_id f # (case f_sequence_id f of None \<Rightarrow> [] | Some s \<Rightarrow>
    s # (case f_total_payload_size f of None \<Rightarrow> [] | Some t \<Rightarrow> [t]))"
  have l: "header_list_ok l" using assms(2)
    by (auto simp: header_list_ok_def l_def frame_ok_def split: option.splits if_splits)
  then have dec: "dec_header L (enc_header L l @ replicate k 0) = Some l" for k
    using assms(1) by (simp add: rlp_ok_def)
  have len: "length (enc_header L l) \<le> 13" using assms(1) l by (simp add: rlp_ok_def)
  define h where "h = rzpad16 (be_bytes 3 ?n @ enc_header L l)"
  obtain k where k: "h = be_bytes 3 ?n @ enc_header L l @ replicate k 0"
    using rzpad16_append [of "be_bytes 3 ?n @ enc_header L l"] by (auto simp: h_def)
  have "ceil16 (3 + length (enc_header L l)) = 16"
    using ceil16_bounds [of "3 + length (enc_header L l)"] len ceil16_least [of "3 + length (enc_header L l)" 16]
      ceil16_mod [of "3 + length (enc_header L l)"] by presburger
  then have h16: "length h = 16" by (simp add: h_def length_rzpad16)
  have "frame_header L f = Inr h"
    using assms(2) dec [of 0] h16 l_def
    by (auto simp: frame_header_def frame_ok_def Let_def h_def f_header_size_def split: option.splits if_splits)
  moreover have "header_body_size h = Inr ?n"
    using assms(2) by (simp add: header_body_size_def k be_val_be_bytes frame_ok_def)
  moreover have "parse_header L h = Inr (f_protocol_id f, f_sequence_id f, f_total_payload_size f)"
    using assms(2) dec [of k] by (auto simp: parse_header_def k l_def frame_ok_def split: option.splits if_splits)
  ultimately show ?thesis using that h16 by blast
qed

lemma frame_size_data: "frame_size L f = 48 + ceil16 (body_size L False f)"
  by (simp add: frame_size_def body_size_def Let_def f_header_size_def f_mac_size_def)

context frame_transport
begin

text \<open>What the receiver makes of the bytes of a frame: exactly the frame's data is reassembled.\<close>

definition received :: "'i rlp_lib \<Rightarrow> frame \<Rightarrow> 'c mux \<Rightarrow> bytes \<Rightarrow> packet list res \<times> 'c mux" where
  "received L f m rest =
     (case reassemble L (f_protocol_id f) (f_sequence_id f) (f_total_payload_size f) (frame_data L f) m of
        (Inl x, m2) \<Rightarrow> (Inl x, m2)
      | (Inr r, m2) \<Rightarrow> prepend (truthy (Decoded r))
          (decode_frames L C (m2\<lparr>cached_header := None, decode_buffer := rest\<rparr>)))"

lemma as_bytes_opened:
  assumes L: "rlp_ok L" and f: "frame_ok L f" and p: "paired tx rx"
  obtains e f' tx' h rx1 rx' where "as_bytes L C f tx = (Inr (e, f'), tx')" "length e = frame_size L f"
    "paired tx' rx'" "header_body_size h = Inr (body_size L False f)"
    "\<And>m. cipher_state m = rx \<Longrightarrow> decode_header C e m = (Inr h, m\<lparr>cipher_state := rx1\<rparr>)"
    "\<And>m. cipher_state m = rx1 \<Longrightarrow> decode_body L C e (Some h) m =
       (case reassemble L (f_protocol_id f) (f_sequence_id f) (f_total_payload_size f) (frame_data L f)
          (m\<lparr>cipher_state := rx'\<rparr>) of (Inl x, m2) \<Rightarrow> (Inl x, m2) | (Inr r, m2) \<Rightarrow> (Inr (Decoded r), m2))"
proof -
  obtain h where h: "frame_header L f = Inr h" "length h = 16" "header_body_size h = Inr (body_size L False f)"
    "parse_header L h = Inr (f_protocol_id f, f_sequence_id f, f_total_payload_size f)"
    by (rule frame_header_parsed [OF L f])
  note hne = header_body_size_nonempty [OF h(3)]
  let ?n = "body_size L False f"
  have n: "0 < ?n" "\<not> f_cipher_called f" using f by (simp_all add: frame_ok_def)
  note le = ceil16_bounds(1) [of ?n]
  have blen: "length (frame_body L f) = ceil16 ?n"
    using le by (simp add: frame_body_data length_frame_data)
  have btake: "take ?n (frame_body L f) = frame_data L f"
    by (simp add: frame_body_data length_frame_data)
  show ?thesis
  proof (cases C)
    case None
    let ?e = "h @ replicate 16 0 @ frame_body L f @ replicate 16 0"
    have "as_bytes L C f tx = (Inr (?e, f), tx)" "length ?e = frame_size L f"
      using h n blen length_frame_body [of L f]
      by (simp_all add: as_bytes_def None f_mac_size_def frame_size_data Let_def ret_def)
    moreover have "decode_header C ?e m = (Inr h, m\<lparr>cipher_state := rx\<rparr>)" if "cipher_state m = rx" for m :: "'c mux"
      using h(2) that by (auto simp: decode_header_def None f_header_size_def ret_def)
    moreover have "slice 32 (32 + ?n) ?e = frame_data L f"
      using h(2) btake blen le by (simp add: slice_def)
    then have "decode_body L C ?e (Some h) m =
       (case reassemble L (f_protocol_id f) (f_sequence_id f) (f_total_payload_size f) (frame_data L f)
          (m\<lparr>cipher_state := rx\<rparr>) of (Inl x, m2) \<Rightarrow> (Inl x, m2) | (Inr r, m2) \<Rightarrow> (Inr (Decoded r), m2))"
      if "cipher_state m = rx" for m :: "'c mux"
    proof -
      have "m\<lparr>cipher_state := rx\<rparr> = m" using that by simp
      moreover have "min ?n (16 + length (frame_body L f)) = ?n" using blen le by simp
      ultimately show ?thesis using \<open>slice 32 (32 + ?n) ?e = frame_data L f\<close> h hne
        by (simp add: decode_body_def None fetch_body_def f_header_size_def f_mac_size_def f_padding_def
          Let_def length_frame_data) (simp add: seq_def ret_def split: prod.split sum.split)
    qed
    ultimately show ?thesis using that p h(3) by blast
  next
    case (Some c)
    obtain e tx' rx1 rx' where e: "c_encrypt c h (frame_body L f) tx = (Inr e, tx')" "length e = 48 + ceil16 ?n"
      "c_decrypt_header c (take 32 e) rx = (Inr h, rx1)"
      "c_decrypt_body c (drop 32 e) ?n rx1 = (Inr (frame_data L f), rx')" "paired tx' rx'"
      using transported [OF Some p h(2) blen [symmetric] n(1)] btake blen by auto
    have "as_bytes L C f tx = (Inr (e, f\<lparr>f_cipher_called := True\<rparr>), tx')"
      using h n e by (simp add: as_bytes_def Some frame_size_data) (simp add: seq_def py_assert_def lift_res_def ret_def)
    moreover have "length e = frame_size L f" using e by (simp add: frame_size_data)
    moreover have "decode_header C e m = (Inr h, m\<lparr>cipher_state := rx1\<rparr>)" if "cipher_state m = rx" for m :: "'c mux"
      using e that by (auto simp: decode_header_def Some f_header_size_def f_mac_size_def on_cipher_def)
    moreover have "decode_body L C e (Some h) m =
       (case reassemble L (f_protocol_id f) (f_sequence_id f) (f_total_payload_size f) (frame_data L f)
          (m\<lparr>cipher_state := rx'\<rparr>) of (Inl x, m2) \<Rightarrow> (Inl x, m2) | (Inr r, m2) \<Rightarrow> (Inr (Decoded r), m2))"
      if "cipher_state m = rx1" for m :: "'c mux"
    proof -
      have "on_cipher (c_decrypt_body c (drop 32 e) ?n) m = (Inr (frame_data L f), m\<lparr>cipher_state := rx'\<rparr>)"
        using e(4) that by (simp add: on_cipher_def)
      then have "fetch_body C e ?n m = (Inr (frame_data L f), m\<lparr>cipher_state := rx'\<rparr>)"
        by (simp add: fetch_body_def Some f_header_size_def f_mac_size_def f_padding_def length_frame_data
            seq_def py_assert_def lift_res_def ret_def mod_add_left_eq [symmetric, of "_ + _"] mod_add_eq [symmetric])
      then show ?thesis using h hne e(2)
        by (simp add: decode_body_def Some f_header_size_def Let_def) (simp add: seq_def lift_res_def ret_def)
    qed
    ultimately show ?thesis using that e(5) h(3) by blast
  qed
qed

lemma decode_header_prefix: "length e = 48 + k \<Longrightarrow> decode_header C (e @ rest) = decode_header C e"
  by (rule decode_header_extend) simp

text \<open>A frame at the start of the buffer is taken off it.\<close>

lemma decode_one_frame:
  assumes L: "rlp_ok L" and f: "frame_ok L f" and p: "paired tx rx"
  obtains e f' tx' h rx' where "as_bytes L C f tx = (Inr (e, f'), tx')" "paired tx' rx'"
    "\<And>m rest. cipher_state m = rx \<Longrightarrow> cached_header m = None \<Longrightarrow>
       decode_frames L C (m\<lparr>decode_buffer := e @ rest\<rparr>) =
       received L f (m\<lparr>decode_buffer := e @ rest, cached_header := Some h, cipher_state := rx'\<rparr>) rest"
proof -
  obtain e f' tx' h rx1 rx' where e: "as_bytes L C f tx = (Inr (e, f'), tx')" "length e = frame_size L f"
    "paired tx' rx'" "header_body_size h = Inr (body_size L False f)"
    "\<And>m. cipher_state m = rx \<Longrightarrow> decode_header C e m = (Inr h, m\<lparr>cipher_state := rx1\<rparr>)"
    "\<And>m. cipher_state m = rx1 \<Longrightarrow> decode_body L C e (Some h) m =
       (case reassemble L (f_protocol_id f) (f_sequence_id f) (f_total_payload_size f) (frame_data L f)
          (m\<lparr>cipher_state := rx'\<rparr>) of (Inl x, m2) \<Rightarrow> (Inl x, m2) | (Inr r, m2) \<Rightarrow> (Inr (Decoded r), m2))"
    by (rule as_bytes_opened [OF L f p]) blast
  have len: "length e = 48 + ceil16 (body_size L False f)" using e(2) by (simp add: frame_size_data)
  have "decode_frames L C (m\<lparr>decode_buffer := e @ rest\<rparr>) =
       received L f (m\<lparr>decode_buffer := e @ rest, cached_header := Some h, cipher_state := rx'\<rparr>) rest"
    if m: "cipher_state m = rx" "cached_header m = None" for m :: "'c mux" and rest
  proof -
    let ?m = "m\<lparr>decode_buffer := e @ rest\<rparr>"
    let ?m1 = "?m\<lparr>cipher_state := rx1, cached_header := Some h\<rparr>"
    let ?m2 = "?m\<lparr>cached_header := Some h, cipher_state := rx'\<rparr>"
    have "decode_header C (e @ rest) ?m = (Inr h, ?m\<lparr>cipher_state := rx1\<rparr>)"
      using e(5) [of ?m] m(1) decode_header_prefix [OF len] by simp
    then have fh: "frame_header_of C ?m = (Inr (Some h), ?m1)"
      using m(2) len by (simp add: frame_header_of_def f_header_size_def f_mac_size_def)
        (simp add: seq_def modify_def ret_def)
    have "decode_body L C (e @ rest) (Some h) ?m1 =
       (case reassemble L (f_protocol_id f) (f_sequence_id f) (f_total_payload_size f) (frame_data L f)
          ?m2 of (Inl x, m2) \<Rightarrow> (Inl x, m2) | (Inr r, m2) \<Rightarrow> (Inr (Decoded r), m2))"
      using e(6) [of ?m1] len by (simp add: decode_body_extend [OF e(4)])
    then show ?thesis
      using len unfolding decode_frames.simps [of L C ?m] Let_def fh prod.case sum.case option.case e(4)
      by (simp add: f_header_size_def f_mac_size_def received_def prepend_def split: prod.split sum.split)
  qed
  with that e(1,3) show ?thesis by blast
qed

end

section \<open>Putting a packet together\<close>

definition whole_packet :: "nat \<Rightarrow> nat \<Rightarrow> bytes \<Rightarrow> packet" where
  "whole_packet p c d = \<lparr>pk_protocol_id = p, pk_cmd_id = c, pk_payload = d, pk_prioritize = False\<rparr>"

lemma rlp_ok_int:
  assumes "rlp_ok L" "c < 256"
  obtains item where "consume_item L (enc_int L c @ rest) = Inr (item, length (enc_int L c))"
    "deserialize_int L item = Inr c"
  using assms unfolding rlp_ok_def by blast

lemma reassemble_normal:
  assumes "rlp_ok L" "c < 256" "map_of (chunked_buffers m) p = Some buf"
    "case s of None \<Rightarrow> True | Some sid \<Rightarrow> map_of buf sid = None"
  shows "reassemble L p s None (enc_int L c @ d) m = (Inr (Some (whole_packet p c d)), m)"
proof -
  obtain item where "consume_item L (enc_int L c @ d) = Inr (item, length (enc_int L c))" "deserialize_int L item = Inr c"
    by (rule rlp_ok_int [OF assms(1,2)])
  with assms(3,4) show ?thesis
    by (auto simp: reassemble_def seq_def gets_def lift_res_def ret_def whole_packet_def Let_def split: option.splits)
qed

lemma reassemble_first:
  assumes "rlp_ok L" "c < 256" "map_of (chunked_buffers m) p = Some buf" "map_of buf sid = None"
    "t = length (enc_int L c) + n" "length d < n"
  shows "reassemble L p (Some sid) (Some t) (enc_int L c @ d) m =
    (Inr None, m\<lparr>chunked_buffers := AList.map_entry p (AList.update sid (whole_packet p c d, int n)) (chunked_buffers m)\<rparr>)"
proof -
  obtain item where "consume_item L (enc_int L c @ d) = Inr (item, length (enc_int L c))" "deserialize_int L item = Inr c"
    by (rule rlp_ok_int [OF assms(1,2)])
  with assms(3-) show ?thesis
    by (auto simp: reassemble_def seq_def gets_def lift_res_def ret_def whole_packet_def Let_def set_buffer_def
        modify_def split: option.splits)
qed

lemma reassemble_later:
  assumes "map_of (chunked_buffers m) p = Some buf" "map_of buf sid = Some (pk, int n)"
    "length (pk_payload pk) + length d \<le> n"
  shows "reassemble L p (Some sid) None d m =
    (let pk' = pk\<lparr>pk_payload := pk_payload pk @ d\<rparr> in
     if length (pk_payload pk) + length d = n
     then (Inr (Some pk'), m\<lparr>chunked_buffers := AList.map_entry p (AList.delete sid) (chunked_buffers m)\<rparr>)
     else (Inr None, m\<lparr>chunked_buffers := AList.map_entry p (AList.update sid (pk', int n)) (chunked_buffers m)\<rparr>))"
  using assms by (auto simp: reassemble_def seq_def gets_def ret_def Let_def set_buffer_def modify_def throw_def)

lemma later_frame_fields:
  "f_protocol_id (later_frame p c s k) = p" "f_sequence_id (later_frame p c s k) = s"
  "f_total_payload_size (later_frame p c s k) = None" "frame_data L (later_frame p c s k) = k"
  "body_size L False (later_frame p c s k) = length k"
  by (simp_all add: later_frame_def frame_data_def enc_cmd_id_def body_size_def)

lemma first_frame_fields:
  "f_protocol_id (first_frame p c s t k) = p" "f_sequence_id (first_frame p c s t k) = s"
  "f_total_payload_size (first_frame p c s t k) = Some t"
  "frame_data L (first_frame p c s t k) = enc_int L c @ k"
  "body_size L False (first_frame p c s t k) = length (enc_int L c) + length k"
  by (simp_all add: first_frame_def frame_data_def enc_cmd_id_def body_size_def)

lemma normal_frame_fields:
  "f_protocol_id (normal_frame p c s k) = p" "f_sequence_id (normal_frame p c s k) = s"
  "f_total_payload_size (normal_frame p c s k) = None"
  "frame_data L (normal_frame p c s k) = enc_int L c @ k"
  "body_size L False (normal_frame p c s k) = length (enc_int L c) + length k"
  by (simp_all add: normal_frame_def frame_data_def enc_cmd_id_def body_size_def)

lemmas frame_fields = later_frame_fields first_frame_fields normal_frame_fields

lemma map_of_map_entry_same: "map_of d p = Some v \<Longrightarrow> map_of (AList.map_entry p f d) p = Some (f v)"
  by (induction d) auto

lemma map_entry_twice: "AList.map_entry p g (AList.map_entry p f d) = AList.map_entry p (\<lambda>v. g (f v)) d"
  by (induction d) auto

lemma delete_after_update: "AList.delete k (AList.update k v d) = AList.delete k d"
  by (induction d) (auto simp: AList.delete_eq)

lemma map_entry_cong: "map_of d p = Some v \<Longrightarrow> f v = g v \<Longrightarrow> AList.map_entry p f d = AList.map_entry p g d"
  by (induction d) auto

lemma map_entry_id: "map_of d p = Some v \<Longrightarrow> f v = v \<Longrightarrow> AList.map_entry p f d = d"
  by (induction d) auto

definition delivered :: "nat \<Rightarrow> nat \<Rightarrow> bytes \<Rightarrow> packet list" where
  "delivered p c d = (if d = [] then [] else [whole_packet p c d])"

context frame_transport
begin

lemma later_frames_received:
  assumes L: "rlp_ok L" and ids: "p < 2 ^ 16" "sid < 2 ^ 16"
    and ks: "ks \<noteq> []" "\<forall>k \<in> set ks. k \<noteq> [] \<and> length k < 256 ^ 3" and pr: "paired tx rx"
  shows "\<exists>bs tx' rx'. join_bytes L C (map (later_frame p c (Some sid)) ks) tx = (Inr bs, tx') \<and>
    paired tx' rx' \<and>
    (\<forall>m rest buf pk n. cipher_state m = rx \<longrightarrow> cached_header m = None \<longrightarrow>
       map_of (chunked_buffers m) p = Some buf \<longrightarrow> map_of buf sid = Some (pk, int n) \<longrightarrow>
       length (pk_payload pk) + length (concat ks) = n \<longrightarrow>
       decode_frames L C (m\<lparr>decode_buffer := bs @ rest\<rparr>) =
       prepend [pk\<lparr>pk_payload := pk_payload pk @ concat ks\<rparr>]
         (decode_frames L C (m\<lparr>decode_buffer := rest, cipher_state := rx',
            chunked_buffers := AList.map_entry p (AList.delete sid) (chunked_buffers m)\<rparr>)))"
  using ks pr
proof (induction ks arbitrary: tx rx)
  case Nil
  then show ?case by simp
next
  case (Cons k ks)
  let ?f = "later_frame p c (Some sid) k"
  have fok: "frame_ok L ?f" using Cons.prems ids
    by (simp add: frame_ok_def frame_fields) (simp add: later_frame_def)
  obtain e f' tx1 h rx1 where e: "as_bytes L C ?f tx = (Inr (e, f'), tx1)" "paired tx1 rx1"
    "\<And>m rest. cipher_state m = rx \<Longrightarrow> cached_header m = None \<Longrightarrow>
       decode_frames L C (m\<lparr>decode_buffer := e @ rest\<rparr>) =
       received L ?f (m\<lparr>decode_buffer := e @ rest, cached_header := Some h, cipher_state := rx1\<rparr>) rest"
    by (rule decode_one_frame [OF L fok Cons.prems(3)]) blast
  show ?case
  proof (cases "ks = []")
    case True
    have "join_bytes L C (map (later_frame p c (Some sid)) (k # ks)) tx = (Inr e, tx1)"
      using e(1) True by (simp add: seq_def ret_def)
    moreover have "decode_frames L C (m\<lparr>decode_buffer := e @ rest\<rparr>) =
       prepend [pk\<lparr>pk_payload := pk_payload pk @ concat (k # ks)\<rparr>]
         (decode_frames L C (m\<lparr>decode_buffer := rest, cipher_state := rx1,
            chunked_buffers := AList.map_entry p (AList.delete sid) (chunked_buffers m)\<rparr>))"
      if m: "cipher_state m = rx" "cached_header m = None" "map_of (chunked_buffers m) p = Some buf"
        "map_of buf sid = Some (pk, int n)" "length (pk_payload pk) + length (concat (k # ks)) = n"
      for m :: "'c mux" and rest buf pk n
      using e(3) [OF m(1,2), of rest] m(2-5) True Cons.prems(2)
        reassemble_later [where d = k and L = L and m = "m\<lparr>decode_buffer := e @ rest, cached_header := Some h, cipher_state := rx1\<rparr>", OF _ m(4)]
      by (cases m) (simp add: received_def frame_fields truthy_def)
    ultimately show ?thesis using e(2) by blast
  next
    case False
    have "\<forall>k \<in> set ks. k \<noteq> [] \<and> length k < 256 ^ 3" using Cons.prems(2) by simp
    from Cons.IH [OF False this e(2)] obtain bs tx' rx' where
      bs: "join_bytes L C (map (later_frame p c (Some sid)) ks) tx1 = (Inr bs, tx')" "paired tx' rx'"
      and IH: "\<forall>m rest buf pk n. cipher_state m = rx1 \<longrightarrow> cached_header m = None \<longrightarrow>
       map_of (chunked_buffers m) p = Some buf \<longrightarrow> map_of buf sid = Some (pk, int n) \<longrightarrow>
       length (pk_payload pk) + length (concat ks) = n \<longrightarrow>
       decode_frames L C (m\<lparr>decode_buffer := bs @ rest\<rparr>) =
       prepend [pk\<lparr>pk_payload := pk_payload pk @ concat ks\<rparr>]
         (decode_frames L C (m\<lparr>decode_buffer := rest, cipher_state := rx',
            chunked_buffers := AList.map_entry p (AList.delete sid) (chunked_buffers m)\<rparr>))"
      by blast
    have "join_bytes L C (map (later_frame p c (Some sid)) (k # ks)) tx = (Inr (e @ bs), tx')"
      using e(1) bs(1) by (simp add: seq_def ret_def)
    moreover have "decode_frames L C (m\<lparr>decode_buffer := (e @ bs) @ rest\<rparr>) =
       prepend [pk\<lparr>pk_payload := pk_payload pk @ concat (k # ks)\<rparr>]
         (decode_frames L C (m\<lparr>decode_buffer := rest, cipher_state := rx',
            chunked_buffers := AList.map_entry p (AList.delete sid) (chunked_buffers m)\<rparr>))"
      if m: "cipher_state m = rx" "cached_header m = None" "map_of (chunked_buffers m) p = Some buf"
        "map_of buf sid = Some (pk, int n)" "length (pk_payload pk) + length (concat (k # ks)) = n"
      for m :: "'c mux" and rest buf pk n
    proof -
      let ?pk = "pk\<lparr>pk_payload := pk_payload pk @ k\<rparr>"
      let ?m = "m\<lparr>cipher_state := rx1, chunked_buffers :=
        AList.map_entry p (AList.update sid (?pk, int n)) (chunked_buffers m)\<rparr>"
      have "0 < length (concat ks)" using False Cons.prems(2) by (cases ks) auto
      then have short: "length (pk_payload pk) + length k \<noteq> n" "length (pk_payload pk) + length k \<le> n"
        using m(5) unfolding concat.simps length_append by linarith+
      have "reassemble L p (Some sid) None k (m\<lparr>decode_buffer := e @ bs @ rest, cached_header := Some h, cipher_state := rx1\<rparr>) =
        (Inr None, ?m\<lparr>decode_buffer := e @ bs @ rest, cached_header := Some h\<rparr>)"
        using m(3,4) short by (cases m) (simp add: reassemble_later [where buf = buf and n = n])
      then have "decode_frames L C (m\<lparr>decode_buffer := e @ bs @ rest\<rparr>) =
          decode_frames L C (?m\<lparr>decode_buffer := bs @ rest\<rparr>)"
        using e(3) [OF m(1,2), of "bs @ rest"] m(2) by (cases m) (simp add: received_def frame_fields truthy_def)
      also have "\<dots> = prepend [?pk\<lparr>pk_payload := pk_payload ?pk @ concat ks\<rparr>]
         (decode_frames L C (?m\<lparr>decode_buffer := rest, cipher_state := rx',
            chunked_buffers := AList.map_entry p (AList.delete sid) (chunked_buffers ?m)\<rparr>))"
        by (rule IH [rule_format, of ?m "AList.update sid (?pk, int n) buf" ?pk n rest])
          (use m in \<open>simp_all add: map_of_map_entry_same update_conv\<close>)
      finally show ?thesis by (cases m) (simp add: map_entry_twice delete_after_update)
    qed
    ultimately show ?thesis using bs(2) by blast
  qed
qed

text \<open>The frames of a packet, whole or cut, arrive as that packet and leave no trace.\<close>

lemma packet_received:
  assumes L: "rlp_ok L" and ok: "packet_ok L p c (Some sid) w" and w: "w \<le> 2 ^ 23"
    and d: "length d < 2 ^ 31" and pr: "paired tx rx"
  shows "\<exists>fs bs tx' rx'. mk_frames L p c d (Some sid) w False = Inr fs \<and>
    join_bytes L C fs tx = (Inr bs, tx') \<and> paired tx' rx' \<and>
    (\<forall>m rest buf. cipher_state m = rx \<longrightarrow> cached_header m = None \<longrightarrow>
       map_of (chunked_buffers m) p = Some buf \<longrightarrow> map_of buf sid = None \<longrightarrow>
       decode_frames L C (m\<lparr>decode_buffer := bs @ rest\<rparr>) =
       prepend (delivered p c d) (decode_frames L C (m\<lparr>decode_buffer := rest, cipher_state := rx'\<rparr>)))"
proof -
  have ids: "p < 2 ^ 16" "sid < 2 ^ 16" "c < 256" and el: "length (enc_int L c) \<in> {1, 2}"
    using ok by (simp_all add: packet_ok_def)
  have small: "x < 256 ^ 3" if "48 + ceil16 x \<le> w" for x
    using that w ceil16_bounds(1) [of x] by simp
  from ok show ?thesis
  proof (cases rule: mk_frames_cut [where d = d])
    case one
    let ?f = "normal_frame p c (Some sid) d"
    have fok: "frame_ok L ?f" using ids el small [OF one(2)]
      by (simp add: frame_ok_def frame_fields) (auto simp: normal_frame_def)
    obtain e f' tx' h rx' where
      e: "as_bytes L C ?f tx = (Inr (e, f'), tx')" "paired tx' rx'"
      "\<And>m rest. cipher_state m = rx \<Longrightarrow> cached_header m = None \<Longrightarrow>
       decode_frames L C (m\<lparr>decode_buffer := e @ rest\<rparr>) =
       received L ?f (m\<lparr>decode_buffer := e @ rest, cached_header := Some h, cipher_state := rx'\<rparr>) rest"
      by (rule decode_one_frame [OF L fok pr]) blast
    have "join_bytes L C [?f] tx = (Inr e, tx')" using e(1) by (simp add: seq_def ret_def)
    moreover have "decode_frames L C (m\<lparr>decode_buffer := e @ rest\<rparr>) =
       prepend (delivered p c d) (decode_frames L C (m\<lparr>decode_buffer := rest, cipher_state := rx'\<rparr>))"
      if "cipher_state m = rx" "cached_header m = None" "map_of (chunked_buffers m) p = Some buf" "map_of buf sid = None"
      for m :: "'c mux" and rest buf
      using e(3) [OF that(1,2), of rest] that(2-4)
      by (cases m) (simp add: received_def frame_fields reassemble_normal [OF L ids(3)] truthy_def delivered_def
          whole_packet_def)
    ultimately show ?thesis using one(1) e(2) by blast
  next
    case (many k0 ks)
    let ?t = "length (enc_int L c) + length d"
    let ?f = "first_frame p c (Some sid) ?t k0"
    have k0: "length k0 < length d" "d \<noteq> []"
    proof -
      obtain k ks' where "ks = k # ks'" using many(4) by (cases ks) auto
      then have "d = k0 @ k @ concat ks'" "0 < length k" using many(3,5) by auto
      then show "length k0 < length d" "d \<noteq> []" by auto
    qed
    have fok: "frame_ok L ?f" using ids el small [OF many(6)] d
      by (simp add: frame_ok_def frame_fields) (auto simp: first_frame_def)
    obtain e f' tx1 h rx1 where
      e: "as_bytes L C ?f tx = (Inr (e, f'), tx1)" "paired tx1 rx1"
      "\<And>m rest. cipher_state m = rx \<Longrightarrow> cached_header m = None \<Longrightarrow>
       decode_frames L C (m\<lparr>decode_buffer := e @ rest\<rparr>) =
       received L ?f (m\<lparr>decode_buffer := e @ rest, cached_header := Some h, cipher_state := rx1\<rparr>) rest"
      by (rule decode_one_frame [OF L fok pr]) blast
    have "\<forall>k \<in> set ks. k \<noteq> [] \<and> length k < 256 ^ 3" using many(5,7) small by auto
    from later_frames_received [OF L ids(1,2) many(4) this e(2), of c] obtain bs tx' rx' where
      bs: "join_bytes L C (map (later_frame p c (Some sid)) ks) tx1 = (Inr bs, tx')" "paired tx' rx'"
      and later: "\<forall>m rest buf pk n. cipher_state m = rx1 \<longrightarrow> cached_header m = None \<longrightarrow>
       map_of (chunked_buffers m) p = Some buf \<longrightarrow> map_of buf sid = Some (pk, int n) \<longrightarrow>
       length (pk_payload pk) + length (concat ks) = n \<longrightarrow>
       decode_frames L C (m\<lparr>decode_buffer := bs @ rest\<rparr>) =
       prepend [pk\<lparr>pk_payload := pk_payload pk @ concat ks\<rparr>]
         (decode_frames L C (m\<lparr>decode_buffer := rest, cipher_state := rx',
            chunked_buffers := AList.map_entry p (AList.delete sid) (chunked_buffers m)\<rparr>))" by blast
    have "join_bytes L C (?f # map (later_frame p c (Some sid)) ks) tx = (Inr (e @ bs), tx')"
      using e(1) bs(1) by (simp add: seq_def ret_def)
    moreover have "decode_frames L C (m\<lparr>decode_buffer := (e @ bs) @ rest\<rparr>) =
       prepend (delivered p c d) (decode_frames L C (m\<lparr>decode_buffer := rest, cipher_state := rx'\<rparr>))"
      if m: "cipher_state m = rx" "cached_header m = None" "map_of (chunked_buffers m) p = Some buf" "map_of buf sid = None"
      for m :: "'c mux" and rest buf
    proof -
      let ?pk = "whole_packet p c k0"
      let ?m = "m\<lparr>cipher_state := rx1, chunked_buffers :=
        AList.map_entry p (AList.update sid (?pk, int (length d))) (chunked_buffers m)\<rparr>"
      have "decode_frames L C (m\<lparr>decode_buffer := e @ bs @ rest\<rparr>) = decode_frames L C (?m\<lparr>decode_buffer := bs @ rest\<rparr>)"
        using e(3) [OF m(1,2), of "bs @ rest"] m(2-4) k0
        by (cases m) (simp add: received_def frame_fields reassemble_first [OF L ids(3), where n = "length d"] truthy_def)
      also have "\<dots> = prepend [?pk\<lparr>pk_payload := pk_payload ?pk @ concat ks\<rparr>]
         (decode_frames L C (?m\<lparr>decode_buffer := rest, cipher_state := rx',
            chunked_buffers := AList.map_entry p (AList.delete sid) (chunked_buffers ?m)\<rparr>))"
        using later [rule_format, of ?m "AList.update sid (?pk, int (length d)) buf" ?pk "length d" rest]
          m(2,3) arg_cong [OF many(3), of length]
        by (simp add: map_of_map_entry_same update_conv whole_packet_def)
      also have "AList.map_entry p (AList.delete sid) (chunked_buffers ?m) = chunked_buffers m"
        using m(3,4) by (simp add: map_entry_twice delete_after_update map_entry_id map_of_eq_None_iff
            AList.delete_notin_dom)
      finally show ?thesis using many(3) k0(2) by (cases m) (simp add: delivered_def whole_packet_def)
    qed
    ultimately show ?thesis using many(1) bs(2) by blast
  qed
qed

text \<open>Packets sent one after the other: protocol, command, payload, sequence id and window of each.\<close>

lemma join_bytes_append:
  "join_bytes L C fs tx = (Inr bs, tx1) \<Longrightarrow> join_bytes L C gs tx1 = (Inr cs, tx') \<Longrightarrow>
   join_bytes L C (fs @ gs) tx = (Inr (bs @ cs), tx')"
proof (induction fs arbitrary: tx bs)
  case (Cons f fs)
  obtain b f' t bs' where "as_bytes L C f tx = (Inr (b, f'), t)" "join_bytes L C fs t = (Inr bs', tx1)" "bs = b @ bs'"
    using Cons.prems(1) by (auto simp: run_simps split: prod.splits)
  with Cons.IH [of t bs'] Cons.prems(2) show ?case by (simp add: seq_def ret_def)
qed (simp add: ret_def)

end

type_synonym sending = "nat \<times> nat \<times> bytes \<times> nat \<times> nat"

fun cut_all :: "'i rlp_lib \<Rightarrow> sending list \<Rightarrow> frame list res" where
  "cut_all L [] = Inr []"
| "cut_all L ((p, c, d, sid, w) # ps) =
     bind_res (mk_frames L p c d (Some sid) w False) (\<lambda>fs. bind_res (cut_all L ps) (\<lambda>gs. Inr (fs @ gs)))"

definition sendable :: "'i rlp_lib \<Rightarrow> sending \<Rightarrow> bool" where
  "sendable L = (\<lambda>(p, c, d, sid, w). packet_ok L p c (Some sid) w \<and> w \<le> 2 ^ 23 \<and> length d < 2 ^ 31)"

definition expects :: "'c mux \<Rightarrow> sending \<Rightarrow> bool" where
  "expects m = (\<lambda>(p, c, d, sid, w). case map_of (chunked_buffers m) p of
     None \<Rightarrow> False | Some buf \<Rightarrow> map_of buf sid = None)"

definition deliveries :: "sending list \<Rightarrow> packet list" where
  "deliveries ps = concat (map (\<lambda>(p, c, d, sid, w). if d = [] then [] else [whole_packet p c d]) ps)"

context frame_transport
begin

lemma prepend_prepend: "prepend ps (prepend qs x) = prepend (ps @ qs) x"
  by (auto simp: prepend_def split: prod.split sum.split)

lemma packets_received:
  assumes L: "rlp_ok L" and ps: "\<forall>x \<in> set ps. sendable L x" and pr: "paired tx rx"
  shows "\<exists>fs bs tx' rx'. cut_all L ps = Inr fs \<and> join_bytes L C fs tx = (Inr bs, tx') \<and> paired tx' rx' \<and>
    (\<forall>m rest. cipher_state m = rx \<longrightarrow> cached_header m = None \<longrightarrow> (\<forall>x \<in> set ps. expects m x) \<longrightarrow>
       decode_frames L C (m\<lparr>decode_buffer := bs @ rest\<rparr>) =
       prepend (deliveries ps) (decode_frames L C (m\<lparr>decode_buffer := rest, cipher_state := rx'\<rparr>)))"
  using ps pr
proof (induction ps arbitrary: tx rx)
  case Nil
  have same: "m\<lparr>decode_buffer := rest, cipher_state := rx\<rparr> = m\<lparr>decode_buffer := rest\<rparr>" if "cipher_state m = rx"
    for m :: "'c mux" and rest using that by (cases m) simp
  have "cut_all L [] = Inr []" "join_bytes L C [] tx = (Inr [], tx)" by (simp_all add: ret_def)
  with Nil show ?case
    by - (rule exI [of _ "[]"], rule exI [of _ "[]"], rule exI [of _ tx], rule exI [of _ rx], simp add: deliveries_def ret_def same)
next
  case (Cons x ps)
  obtain p c d sid w where x: "x = (p, c, d, sid, w)" by (metis prod.exhaust)
  have "packet_ok L p c (Some sid) w" "w \<le> 2 ^ 23" "length d < 2 ^ 31"
    using Cons.prems(1) by (simp_all add: x sendable_def)
  from packet_received [OF L this Cons.prems(2)] obtain fs bs tx1 rx1 where
    1: "mk_frames L p c d (Some sid) w False = Inr fs" "join_bytes L C fs tx = (Inr bs, tx1)" "paired tx1 rx1"
    and dec1: "\<forall>m rest buf. cipher_state m = rx \<longrightarrow> cached_header m = None \<longrightarrow>
       map_of (chunked_buffers m) p = Some buf \<longrightarrow> map_of buf sid = None \<longrightarrow>
       decode_frames L C (m\<lparr>decode_buffer := bs @ rest\<rparr>) =
       prepend (delivered p c d) (decode_frames L C (m\<lparr>decode_buffer := rest, cipher_state := rx1\<rparr>))"
    by blast
  have "\<forall>x \<in> set ps. sendable L x" using Cons.prems(1) by simp
  from Cons.IH [OF this 1(3)] obtain gs cs tx' rx' where
    2: "cut_all L ps = Inr gs" "join_bytes L C gs tx1 = (Inr cs, tx')" "paired tx' rx'"
    and dec2: "\<forall>m rest. cipher_state m = rx1 \<longrightarrow> cached_header m = None \<longrightarrow> (\<forall>x \<in> set ps. expects m x) \<longrightarrow>
       decode_frames L C (m\<lparr>decode_buffer := cs @ rest\<rparr>) =
       prepend (deliveries ps) (decode_frames L C (m\<lparr>decode_buffer := rest, cipher_state := rx'\<rparr>))"
    by blast
  have "decode_frames L C (m\<lparr>decode_buffer := (bs @ cs) @ rest\<rparr>) =
       prepend (deliveries (x # ps)) (decode_frames L C (m\<lparr>decode_buffer := rest, cipher_state := rx'\<rparr>))"
    if m: "cipher_state m = rx" "cached_header m = None" "\<forall>x \<in> set (x # ps). expects m x" for m :: "'c mux" and rest
  proof -
    obtain buf where buf: "map_of (chunked_buffers m) p = Some buf" "map_of buf sid = None"
      using m(3) by (auto simp: x expects_def split: option.splits)
    have "\<forall>x \<in> set ps. expects (m\<lparr>cipher_state := rx1\<rparr>) x" using m(3) by (simp add: expects_def)
    with dec2 [rule_format, of "m\<lparr>cipher_state := rx1\<rparr>" rest] m(2)
    have "decode_frames L C (m\<lparr>decode_buffer := cs @ rest, cipher_state := rx1\<rparr>) =
       prepend (deliveries ps) (decode_frames L C (m\<lparr>decode_buffer := rest, cipher_state := rx'\<rparr>))"
      by (cases m) simp
    with dec1 [rule_format, OF m(1,2) buf, of "cs @ rest"] show ?thesis
      by (simp add: prepend_prepend deliveries_def delivered_def x)
  qed
  with 1 2 join_bytes_append [OF 1(2) 2(2)] show ?case by (simp add: x) blast
qed

text \<open>An idle receiver decodes the bytes of a sequence of packets to those packets.\<close>

lemma wire_roundtrip:
  assumes "rlp_ok L" "\<forall>x \<in> set ps. sendable L x" "paired tx (cipher_state m)"
    and "cached_header m = None" "decode_buffer m = []" "\<forall>x \<in> set ps. expects m x"
  shows "\<exists>fs bs tx' rx'. cut_all L ps = Inr fs \<and> join_bytes L C fs tx = (Inr bs, tx') \<and>
    decode L C bs m = (Inr (deliveries ps), m\<lparr>cipher_state := rx'\<rparr>) \<and> paired tx' rx'"
proof -
  obtain fs bs tx' rx' where *: "cut_all L ps = Inr fs" "join_bytes L C fs tx = (Inr bs, tx')" "paired tx' rx'"
    and dec: "\<forall>m' rest. cipher_state m' = cipher_state m \<longrightarrow> cached_header m' = None \<longrightarrow> (\<forall>x \<in> set ps. expects m' x) \<longrightarrow>
       decode_frames L C (m'\<lparr>decode_buffer := bs @ rest\<rparr>) =
       prepend (deliveries ps) (decode_frames L C (m'\<lparr>decode_buffer := rest, cipher_state := rx'\<rparr>))"
    using packets_received [OF assms(1-3)] by blast
  let ?m = "m\<lparr>decode_buffer := [], cipher_state := rx'\<rparr>"
  have m: "?m = m\<lparr>cipher_state := rx'\<rparr>" using assms(5) by (cases m) simp
  have "decode_frames L C ?m = (Inr [], ?m)"
    using assms(4) by (simp add: decode_frames.simps [of L C ?m] frame_header_of_def f_header_size_def)
  then have "decode L C bs m = (Inr (deliveries ps), m\<lparr>cipher_state := rx'\<rparr>)"
    using dec [rule_format, of m "[]"] assms(4-6) unfolding m by (simp add: decode_def seq_def modify_def)
  with * show ?thesis by blast
qed

end

end
