(* ===== verification/Mux_Queues.thy ===== *)
theory Mux_Queues
  imports Multiplexer
begin

text \<open>
  The queues of the multiplexer over whole runs: the invariant that its dictionaries agree, the
  round robin, what \<open>pop_frames\<close> takes and leaves, and when the queues can be emptied.
\<close>

definition mux_wf :: "'c mux \<Rightarrow> bool" where
  "mux_wf m \<longleftrightarrow> distinct (map fst (queues m)) \<and> map fst (sequence_ids m) = map fst (queues m) \<and>
     map fst (chunked_buffers m) = map fst (queues m) \<and>
     (queues m \<noteq> [] \<longrightarrow> (\<exists>p \<in> fst ` set (queues m). last_protocol m = Some p))"

lemma mk_mux_wf: "mux_wf (mk_mux c)"
  by (simp add: mux_wf_def mk_mux_def)

lemma update_keys_present: "k \<in> fst ` set d \<Longrightarrow> map fst (AList.update k v d) = map fst d"
  by (induction d) auto

lemma update_keys_absent: "k \<notin> fst ` set d \<Longrightarrow> map fst (AList.update k v d) = map fst d @ [k]"
  by (induction d) auto

lemma map_of_Some_key: "map_of d k = Some v \<Longrightarrow> k \<in> fst ` set d"
  by (force dest: map_of_SomeD)

lemma key_map_of: "k \<in> fst ` set d \<Longrightarrow> \<exists>v. map_of d k = Some v"
  by (cases "map_of d k") (auto simp: map_of_eq_None_iff)

lemma mux_wf_set_queues:
  "mux_wf m \<Longrightarrow> map_of (queues m) p = Some qs \<Longrightarrow> mux_wf (set_queues p qs' m)"
  by (auto simp: mux_wf_def set_queues_def update_keys_present map_of_Some_key dom_update)

lemma add_protocol_wf: "keeps mux_wf (add_protocol p)"
proof -
  have "mux_wf (m\<lparr>queues := AList.update p (\<lambda>_. []) (queues m), sequence_ids := AList.update p 0 (sequence_ids m),
      chunked_buffers := AList.update p [] (chunked_buffers m), last_protocol := Some p\<rparr>)"
    if "mux_wf m" "map_of (queues m) p = None" for m :: "'c mux"
  proof -
    have "p \<notin> fst ` set (queues m)" using that(2) by (simp add: map_of_eq_None_iff)
    moreover from this have "p \<notin> fst ` set (sequence_ids m)" "p \<notin> fst ` set (chunked_buffers m)"
      using that(1) by (metis mux_wf_def list.set_map)+
    ultimately show ?thesis using that(1)
      by (auto simp: mux_wf_def update_keys_absent dom_update)
  qed
  then show ?thesis unfolding keeps_def
    by (auto simp: add_protocol_def prog_defs assert_res_def)
qed

section \<open>Round robin\<close>

lemma index_of_nth: "p \<in> set ps \<Longrightarrow> \<exists>i. index_of p ps = Inr i \<and> i < length ps \<and> ps ! i = p"
  by (induction ps) auto

lemma index_of_distinct: "distinct ps \<Longrightarrow> i < length ps \<Longrightarrow> index_of (ps ! i) ps = Inr i"
proof (induction ps arbitrary: i)
  case (Cons q ps)
  then show ?case by (cases i) auto
qed simp

lemma next_protocol_cycles:
  assumes wf: "mux_wf m" and i: "i < length (queues m)" "last_protocol m = Some (map fst (queues m) ! i)"
  shows "next_protocol m = (let n = map fst (queues m) ! ((i + 1) mod length (queues m)) in
    (Inr n, m\<lparr>last_protocol := Some n\<rparr>))"
proof -
  let ?ps = "map fst (queues m)"
  have d: "distinct ?ps" "length ?ps = length (queues m)" and ne: "?ps \<noteq> []"
    using wf i by (auto simp: mux_wf_def)
  have last: "last ?ps = ?ps ! (length ?ps - 1)" using ne by (rule last_conv_nth)
  show ?thesis
  proof (cases "i = length ?ps - 1")
    case True
    with i ne have "(i + 1) mod length (queues m) = 0" by simp
    with True last i ne show ?thesis
      by (simp add: next_protocol_def prog_defs hd_conv_nth Let_def)
  next
    case False
    then have lt: "i + 1 < length ?ps" using i by simp
    have "?ps ! i \<noteq> last ?ps" unfolding last using d lt by (subst nth_eq_iff_index_eq) auto
    with lt i d ne index_of_distinct [OF d(1), of i] show ?thesis
      by (simp add: next_protocol_def prog_defs Let_def)
  qed
qed

lemma next_protocol_Inr:
  assumes "mux_wf m" "queues m \<noteq> []"
  obtains n where "n \<in> set (map fst (queues m))" "next_protocol m = (Inr n, m\<lparr>last_protocol := Some n\<rparr>)"
proof -
  obtain p where p: "p \<in> set (map fst (queues m))" "last_protocol m = Some p"
    using assms by (auto simp: mux_wf_def)
  then obtain i where i: "i < length (queues m)" "map fst (queues m) ! i = p"
    by (metis in_set_conv_nth length_map)
  let ?n = "map fst (queues m) ! ((i + 1) mod length (queues m))"
  have "?n \<in> set (map fst (queues m))" using assms(2) by (intro nth_mem) simp
  moreover have "next_protocol m = (Inr ?n, m\<lparr>last_protocol := Some ?n\<rparr>)"
    using next_protocol_cycles [OF assms(1) i(1)] p(2) i(2) by (simp add: Let_def)
  ultimately show ?thesis using that by blast
qed

section \<open>All the frames in the queues\<close>

definition all_queued :: "'c mux \<Rightarrow> frame multiset" where
  "all_queued m = (\<Sum>x\<leftarrow>queues m. mset (snd x Priority) + mset (snd x Normal) + mset (snd x Chunked))"

lemma all_queued_set:
  "map_of (queues m) p = Some qs \<Longrightarrow>
   all_queued (set_queues p qs' m) + (mset (qs Priority) + mset (qs Normal) + mset (qs Chunked)) =
   all_queued m + (mset (qs' Priority) + mset (qs' Normal) + mset (qs' Chunked))"
proof -
  let ?s = "\<lambda>x :: nat \<times> (qname \<Rightarrow> frame list). mset (snd x Priority) + mset (snd x Normal) + mset (snd x Chunked)"
  have "map_of d p = Some qs \<Longrightarrow>
      sum_list (map ?s (AList.update p qs' d)) + ?s (p, qs) = sum_list (map ?s d) + ?s (p, qs')" for d
    by (induction d) (auto simp: ac_simps)
  then show "map_of (queues m) p = Some qs \<Longrightarrow> ?thesis" by (simp add: all_queued_def set_queues_def)
qed

lemma from_queue_mset:
  "mset (from_queue Priority tr) + mset (from_queue Normal tr) + mset (from_queue Chunked tr) = mset (map snd tr)"
proof (induction tr)
  case (Cons x tr)
  then show ?case by (cases "fst x") (auto simp: from_queue_def)
qed (simp add: from_queue_def)

lemma pop_for_protocol_all:
  assumes "pop_frames_for_protocol L p m = (Inr frames, m')"
  shows "all_queued m = all_queued m' + mset frames"
  using assms
proof (rule pop_frames_for_protocol_Inr)
  fix pws qs qs'
  assume *: "map_of (queues m) p = Some qs" "pop_loop L pws qs [] 0 = (qs', frames)" "m' = set_queues p qs' m"
  obtain tr where tr: "frames = map snd tr" "\<forall>q. qs q = from_queue q tr @ qs' q"
    by (rule pop_loop_spec [OF *(2)], rule that)
  have "mset (qs Priority) + mset (qs Normal) + mset (qs Chunked) =
      mset frames + (mset (qs' Priority) + mset (qs' Normal) + mset (qs' Chunked))"
    unfolding tr(1) from_queue_mset [symmetric] tr(2) [rule_format] by simp
  with all_queued_set [OF *(1), of qs'] show ?thesis unfolding *(3) by simp
qed

lemma first_nonempty_all:
  "first_nonempty (pop_frames_for_protocol L) ps m = (Inr frames, m') \<Longrightarrow>
   all_queued m = all_queued m' + mset frames"
proof (induction ps arbitrary: m)
  case (Cons p ps)
  then obtain fs m1 where r: "pop_frames_for_protocol L p m = (Inr fs, m1)"
    "(if fs \<noteq> [] then ret fs else first_nonempty (pop_frames_for_protocol L) ps) m1 = (Inr frames, m')"
    by (auto simp: run_simps)
  with pop_for_protocol_all [OF r(1)] Cons.IH [of m1] show ?case
    by (auto simp: ret_eq_Inr split: if_splits)
qed (simp add: ret_def)

lemma pop_frames_all:
  assumes "pop_frames L m = (Inr frames, m')"
  shows "all_queued m = all_queued m' + mset frames"
proof -
  obtain n m1 ps where m1: "next_protocol m = (Inr n, m1)"
    "first_nonempty (pop_frames_for_protocol L) ps m1 = (Inr frames, m')"
    using assms by (auto simp: pop_frames_def run_simps lift_res_def py_assert_def)
  with first_nonempty_all [OF m1(2)] next_protocol_queues [OF m1(1)] show ?thesis
    by (simp add: all_queued_def)
qed

lemma pop_all_from_all:
  "pop_all_from L acc m = (Inr frames, m') \<Longrightarrow> all_queued m + mset acc = all_queued m' + mset frames"
proof (induction L acc m rule: pop_all_from.induct)
  case (1 L acc m)
  obtain r m1 where r: "pop_frames L m = (r, m1)" by force
  show ?case
  proof (cases r)
    case (Inl e)
    with 1 r show ?thesis by (simp add: pop_all_from.simps [of L acc m])
  next
    case (Inr fs)
    note all = pop_frames_all [OF r [unfolded Inr]]
    show ?thesis
    proof (cases "fs = []")
      case True
      with 1 r Inr all show ?thesis by (simp add: pop_all_from.simps [of L acc m])
    next
      case False
      then have "pop_all_from L (acc @ fs) m1 = (Inr frames, m')"
        using "1.prems" r Inr by (simp add: pop_all_from.simps [of L acc m])
      from "1.IH" [OF r [symmetric] Inr False this] all show ?thesis by (simp add: ac_simps)
    qed
  qed
qed

section \<open>Progress\<close>

text \<open>The window of the round, for any set of active protocols.\<close>

definition pop_window :: "'c mux \<Rightarrow> nat" where
  "pop_window m = (let s = max_window_size div max 1 (num_active_protocols m) in s - s mod 16)"

lemma protocol_window_None: "protocol_window_size None m = Inr (pop_window m)"
  by (simp add: protocol_window_size_def pop_window_def Let_def)

lemma pop_for_protocol_total:
  assumes "map_of (queues m) p = Some qs"
  shows "\<exists>frames qs'. pop_loop L (pop_window m) qs [] 0 = (qs', frames) \<and>
    pop_frames_for_protocol L p m = (Inr frames, set_queues p qs' m)"
proof -
  obtain qs' frames where "pop_loop L (pop_window m) qs [] 0 = (qs', frames)" by force
  with assms show ?thesis
    by (simp add: pop_frames_for_protocol_def protocol_window_None seq_def gets_def lift_res_def modify_def ret_def)
qed

text \<open>A protocol yields nothing exactly when no head of its queues fits the window.\<close>

definition heads_blocked :: "'i rlp_lib \<Rightarrow> nat \<Rightarrow> (qname \<Rightarrow> frame list) \<Rightarrow> bool" where
  "heads_blocked L pws qs \<longleftrightarrow> (\<forall>q f fs. qs q = f # fs \<longrightarrow> pws < frame_size L f)"

lemma pop_loop_blocked:
  assumes "heads_blocked L pws qs"
  shows "pop_loop L pws qs [] 0 = (qs, [])"
proof (cases "0 < pws")
  case True
  have skip: "pop_round L pws qns (qs, [], 0, 0) = (qs, [], 0, 0)" for qns
  proof (induction qns)
    case (Cons q qns)
    have "\<not> frame_size L f \<le> pws" if "qs q = f # fs" for f fs
      using assms that by (auto simp: heads_blocked_def not_le)
    with Cons show ?case by (cases "qs q") (simp_all add: Let_def)
  qed simp
  with True show ?thesis by (simp add: pop_loop.simps [of L pws qs] del: pop_round.simps)
qed (simp add: pop_loop.simps)

lemma pop_loop_nothing:
  assumes "pop_loop L pws qs [] 0 = (qs', [])"
  shows "qs' = qs" "0 < pws \<Longrightarrow> heads_blocked L pws qs"
proof -
  obtain tr where tr: "[] = map snd tr" "\<forall>q. qs q = from_queue q tr @ qs' q"
    "sizes L [] < pws \<Longrightarrow> \<forall>q f fs. qs' q = f # fs \<longrightarrow> pws < sizes L [] + frame_size L f"
    by (rule pop_loop_spec [OF assms], rule that)
  from tr(1,2) show "qs' = qs" by (auto simp: from_queue_def)
  with tr(3) show "0 < pws \<Longrightarrow> heads_blocked L pws qs" by (simp add: sizes_def heads_blocked_def)
qed

lemma set_queues_same: "map_of (queues m) p = Some qs \<Longrightarrow> set_queues p qs m = m"
proof -
  have "map_of d p = Some qs \<Longrightarrow> AList.update p qs d = d" for d
    by (induction d) auto
  then show "map_of (queues m) p = Some qs \<Longrightarrow> ?thesis" by (simp add: set_queues_def)
qed

lemma pop_for_protocol_nothing:
  assumes "pop_frames_for_protocol L p m = (Inr [], m')" "0 < pop_window m"
  shows "m' = m" "map_of (queues m) p = Some qs \<Longrightarrow> heads_blocked L (pop_window m) qs"
proof -
  obtain qs0 qs' where *: "map_of (queues m) p = Some qs0"
    "pop_loop L (pop_window m) qs0 [] 0 = (qs', [])" "m' = set_queues p qs' m"
    using assms(1) by (elim pop_frames_for_protocol_Inr) (simp add: protocol_window_None)
  from pop_loop_nothing [OF *(2)] * assms(2) set_queues_same [OF *(1)]
  show "m' = m" "map_of (queues m) p = Some qs \<Longrightarrow> heads_blocked L (pop_window m) qs" by auto
qed

lemma first_nonempty_nothing:
  "first_nonempty (pop_frames_for_protocol L) ps m = (Inr [], m') \<Longrightarrow> 0 < pop_window m \<Longrightarrow>
   m' = m \<and> (\<forall>p \<in> set ps. \<forall>qs. map_of (queues m) p = Some qs \<longrightarrow> heads_blocked L (pop_window m) qs)"
proof (induction ps)
  case (Cons p ps)
  then obtain fs m1 where r: "pop_frames_for_protocol L p m = (Inr fs, m1)"
    "(if fs \<noteq> [] then ret fs else first_nonempty (pop_frames_for_protocol L) ps) m1 = (Inr [], m')"
    by (auto simp: run_simps)
  then have "fs = []" by (auto simp: ret_def split: if_splits)
  with r pop_for_protocol_nothing [OF r(1) [unfolded \<open>fs = []\<close>] Cons.prems(2)] Cons.IH Cons.prems(2)
  show ?case by auto
qed (simp add: ret_def)

text \<open>On a well-formed multiplexer with a protocol, \<open>pop_frames\<close> does not raise.\<close>

lemma first_nonempty_total:
  "\<forall>p \<in> set ps. p \<in> fst ` set (queues m) \<Longrightarrow>
   \<exists>frames m'. first_nonempty (pop_frames_for_protocol L) ps m = (Inr frames, m') \<and>
     (mux_wf m \<longrightarrow> mux_wf m') \<and> last_protocol m' = last_protocol m \<and> map fst (queues m') = map fst (queues m)"
proof (induction ps arbitrary: m)
  case (Cons p ps)
  then obtain qs where qs: "map_of (queues m) p = Some qs"
    by (metis list.set_intros(1) map_of_eq_None_iff not_None_eq)
  obtain fs qs' where r: "pop_frames_for_protocol L p m = (Inr fs, set_queues p qs' m)"
    using pop_for_protocol_total [OF qs] by blast
  have keys: "map fst (queues (set_queues p qs' m)) = map fst (queues m)"
    using map_of_Some_key [OF qs] by (simp add: set_queues_def update_keys_present)
  then have ks: "fst ` set (queues (set_queues p qs' m)) = fst ` set (queues m)" by (metis list.set_map)
  obtain fs2 m2 where "first_nonempty (pop_frames_for_protocol L) ps (set_queues p qs' m) = (Inr fs2, m2)"
    "mux_wf (set_queues p qs' m) \<longrightarrow> mux_wf m2" "last_protocol m2 = last_protocol (set_queues p qs' m)"
    "map fst (queues m2) = map fst (queues (set_queues p qs' m))"
    using Cons.IH [of "set_queues p qs' m"] Cons.prems ks by auto
  moreover have "last_protocol (set_queues p qs' m) = last_protocol m" by (simp add: set_queues_def)
  ultimately show ?case using r keys mux_wf_set_queues [OF _ qs, of qs']
    by (auto simp: seq_def ret_def)
qed (simp add: ret_def)

lemma pop_frames_unfold:
  assumes "mux_wf m" "queues m \<noteq> []"
  obtains n ps where "set ps = fst ` set (queues m)"
    "pop_frames L m = first_nonempty (pop_frames_for_protocol L) ps (m\<lparr>last_protocol := Some n\<rparr>)"
    "n \<in> fst ` set (queues m)"
proof -
  obtain n where n: "n \<in> set (map fst (queues m))" "next_protocol m = (Inr n, m\<lparr>last_protocol := Some n\<rparr>)"
    by (rule next_protocol_Inr [OF assms])
  obtain i where i: "index_of n (map fst (queues m)) = Inr i" "i < length (queues m)"
    using index_of_nth [OF n(1)] by auto
  let ?ps = "drop i (map fst (queues m)) @ take i (map fst (queues m))"
  have "set ?ps = fst ` set (queues m)"
    by (metis Un_commute append_take_drop_id list.set_map set_append)
  moreover have "length ?ps = length (map fst (queues m))" using i(2) by simp
  then have "pop_frames L m = first_nonempty (pop_frames_for_protocol L) ?ps (m\<lparr>last_protocol := Some n\<rparr>)"
    using n i by (simp add: pop_frames_def) (simp add: seq_def gets_def lift_res_def py_assert_def assert_res_def)
  ultimately show ?thesis using n(1) by (intro that) auto
qed

lemma pop_frames_total:
  assumes "mux_wf m" "queues m \<noteq> []"
  shows "\<exists>frames m'. pop_frames L m = (Inr frames, m') \<and> mux_wf m' \<and> map fst (queues m') = map fst (queues m)"
proof -
  obtain n ps where *: "set ps = fst ` set (queues m)"
    "pop_frames L m = first_nonempty (pop_frames_for_protocol L) ps (m\<lparr>last_protocol := Some n\<rparr>)"
    "n \<in> fst ` set (queues m)"
    by (rule pop_frames_unfold [OF assms])
  have "mux_wf (m\<lparr>last_protocol := Some n\<rparr>)" using assms(1) *(3) by (auto simp: mux_wf_def)
  with first_nonempty_total [of ps "m\<lparr>last_protocol := Some n\<rparr>" L] *(1,2) show ?thesis by auto
qed

lemma pop_all_from_total:
  assumes "mux_wf m" "queues m \<noteq> []"
  shows "\<exists>frames m'. pop_all_from L acc m = (Inr frames, m') \<and> mux_wf m' \<and>
    map fst (queues m') = map fst (queues m) \<and> (\<exists>m0. pop_frames L m0 = (Inr [], m') \<and> mux_wf m0 \<and>
      map fst (queues m0) = map fst (queues m))"
  using assms
proof (induction L acc m rule: pop_all_from.induct)
  case (1 L acc m)
  obtain fs m1 where r: "pop_frames L m = (Inr fs, m1)" "mux_wf m1" "map fst (queues m1) = map fst (queues m)"
    using pop_frames_total [OF "1.prems"] by blast
  show ?case
  proof (cases "fs = []")
    case True
    with r "1.prems" show ?thesis by (auto simp: pop_all_from.simps [of L acc m])
  next
    case False
    have "queues m1 \<noteq> []" using r(3) "1.prems"(2) by auto
    from "1.IH" [OF r(1) [symmetric] refl False r(2) this] False r show ?thesis
      by (simp add: pop_all_from.simps [of L acc m])
  qed
qed

section \<open>Drained or stuck\<close>

text \<open>When \<open>pop_frames\<close> finds nothing, every head is larger than the window of that moment.\<close>

lemma pop_frames_nothing:
  assumes wf: "mux_wf m" "queues m \<noteq> []" and r: "pop_frames L m = (Inr [], m')" and pos: "0 < pop_window m"
  shows "queues m' = queues m" "x \<in> set (queues m) \<Longrightarrow> heads_blocked L (pop_window m) (snd x)"
proof -
  obtain n ps where *: "set ps = fst ` set (queues m)"
    "pop_frames L m = first_nonempty (pop_frames_for_protocol L) ps (m\<lparr>last_protocol := Some n\<rparr>)"
    "n \<in> fst ` set (queues m)"
    by (rule pop_frames_unfold [OF wf])
  let ?m = "m\<lparr>last_protocol := Some n\<rparr>"
  have w: "pop_window ?m = pop_window m" by (simp add: pop_window_def num_active_protocols_def)
  have "m' = ?m \<and> (\<forall>p \<in> set ps. \<forall>qs. map_of (queues ?m) p = Some qs \<longrightarrow> heads_blocked L (pop_window ?m) qs)"
    using first_nonempty_nothing [of L ps ?m m'] r *(2) pos w by simp
  then show "queues m' = queues m" "x \<in> set (queues m) \<Longrightarrow> heads_blocked L (pop_window m) (snd x)"
    using *(1) w wf(1) by (auto simp: mux_wf_def)
qed

lemma pop_frames_stuck:
  assumes wf: "mux_wf m" "queues m \<noteq> []" and blocked: "\<forall>x \<in> set (queues m). heads_blocked L (pop_window m) (snd x)"
  obtains m' where "pop_frames L m = (Inr [], m')" "queues m' = queues m"
proof -
  obtain n ps where *: "set ps = fst ` set (queues m)"
    "pop_frames L m = first_nonempty (pop_frames_for_protocol L) ps (m\<lparr>last_protocol := Some n\<rparr>)"
    "n \<in> fst ` set (queues m)"
    by (rule pop_frames_unfold [OF wf])
  let ?m = "m\<lparr>last_protocol := Some n\<rparr>"
  have w: "pop_window ?m = pop_window m" by (simp add: pop_window_def num_active_protocols_def)
  have "pop_frames_for_protocol L p ?m = (Inr [], ?m)" if p: "p \<in> fst ` set (queues m)" for p
  proof -
    obtain qs where qs: "map_of (queues m) p = Some qs"
      using key_map_of [OF p] by blast
    have "heads_blocked L (pop_window m) qs" using bspec [OF blocked map_of_SomeD [OF qs]] by simp
    then have l: "pop_loop L (pop_window ?m) qs [] 0 = (qs, [])" using pop_loop_blocked w by simp
    have qs': "map_of (queues ?m) p = Some qs" using qs by simp
    from pop_for_protocol_total [OF this, of L] l set_queues_same [OF qs'] show ?thesis by simp
  qed
  moreover have "\<forall>p \<in> set ps'. pop_frames_for_protocol L p ?m = (Inr [], ?m) \<Longrightarrow>
      first_nonempty (pop_frames_for_protocol L) ps' ?m = (Inr [], ?m)" for ps'
    by (induction ps') (simp_all add: seq_def ret_def)
  ultimately have "pop_frames L m = (Inr [], ?m)" using *(1,2) by simp
  then show ?thesis by (rule that) simp
qed

text \<open>Frames that fit the window of all protocols at once are all taken.\<close>

lemma pop_window_least:
  assumes "queues m \<noteq> []"
  shows "(let s = max_window_size div length (queues m) in s - s mod 16) \<le> pop_window m"
proof -
  have *: "max 1 (num_active_protocols m) \<le> length (queues m)"
    using assms by (simp add: num_active_protocols_def Suc_leI)
  have "max_window_size div length (queues m) \<le> max_window_size div max 1 (num_active_protocols m)"
    using * by (intro div_le_mono2) auto
  then have "max_window_size div length (queues m) div 16 * 16 \<le>
      max_window_size div max 1 (num_active_protocols m) div 16 * 16"
    by (intro mult_le_mono1 div_le_mono)
  then show ?thesis by (simp add: pop_window_def Let_def minus_mod_eq_div_mult)
qed

lemma frame_size_pos: "48 \<le> frame_size L f"
  by (simp add: frame_size_eq)

lemma queued_subset:
  assumes "map_of (queues m) p = Some qs"
  shows "set_mset (all_queued m) \<supseteq> set (qs q)"
proof -
  have "map_of d p = Some qs \<Longrightarrow> set (qs q) \<subseteq>
    set_mset (\<Sum>x\<leftarrow>d. mset (snd x Priority) + mset (snd x Normal) + mset (snd x Chunked))" for d
    by (induction d; cases q) (auto split: if_splits)
  with assms show ?thesis by (simp add: all_queued_def)
qed

lemma all_queued_empty:
  assumes "\<And>x q. x \<in> set (queues m) \<Longrightarrow> snd x q = []"
  shows "all_queued m = {#}"
proof -
  have "(\<And>x q. x \<in> set d \<Longrightarrow> snd x q = []) \<Longrightarrow>
    (\<Sum>x\<leftarrow>d. mset (snd x Priority) + mset (snd x Normal) + mset (snd x Chunked)) = {#}"
    for d :: "(nat \<times> (qname \<Rightarrow> frame list)) list" by (induction d) auto
  with assms show ?thesis by (simp add: all_queued_def)
qed

lemma drained:
  assumes wf: "mux_wf m" "queues m \<noteq> []"
    and fit: "\<forall>f \<in># all_queued m. frame_size L f \<le> (let s = max_window_size div length (queues m) in s - s mod 16)"
  obtains frames m' where "pop_all_from L [] m = (Inr frames, m')" "mset frames = all_queued m" "all_queued m' = {#}"
proof -
  obtain frames m' m0 where r: "pop_all_from L [] m = (Inr frames, m')" "mux_wf m'"
    "pop_frames L m0 = (Inr [], m')" "mux_wf m0" "map fst (queues m0) = map fst (queues m)"
    using pop_all_from_total [OF wf] by blast
  have all: "all_queued m = all_queued m' + mset frames" using pop_all_from_all [OF r(1)] by simp
  have all0: "all_queued m0 = all_queued m'" using pop_frames_all [OF r(3)] by simp
  have ne: "queues m0 \<noteq> []" and len: "length (queues m0) = length (queues m)"
    using r(5) wf(2) by (auto dest: arg_cong [of _ _ length])
  have "snd x q = []" if x: "x \<in> set (queues m0)" for x q
  proof (rule ccontr)
    assume "snd x q \<noteq> []"
    then obtain f fs where f: "snd x q = f # fs" by (cases "snd x q") auto
    have "map_of (queues m0) (fst x) = Some (snd x)"
      using r(4) x by (simp add: mux_wf_def)
    from queued_subset [OF this, of q] f have "f \<in># all_queued m" using all all0 by auto
    then have le: "frame_size L f \<le> pop_window m0"
      using fit pop_window_least [OF ne] len by fastforce
    then have "0 < pop_window m0" using frame_size_pos [of L f] by linarith
    from pop_frames_nothing(2) [OF r(4) ne r(3) this x] f le show False
      unfolding heads_blocked_def by (metis not_le)
  qed
  then have "all_queued m' = {#}" using all_queued_empty [of m0] all0 by metis
  with that r(1) all show ?thesis by simp
qed

end
