(* ===== verification/Mux_Packets.thy ===== *)
theory Mux_Packets
  imports Mux_Queues
begin

text \<open>
  What \<open>add_packet\<close> does to a multiplexer, and what comes out again when it was idle before: the one
  frame of the packet.
\<close>

section \<open>Queueing a packet\<close>

definition next_sequence_id :: "nat \<Rightarrow> nat \<Rightarrow> 'c mux \<Rightarrow> 'c mux" where
  "next_sequence_id p sid m = m\<lparr>sequence_ids := AList.update p ((sid + 1) mod 2 ^ 16) (sequence_ids m)\<rparr>"

lemma next_sequence_id_fields [simp]:
  "queues (next_sequence_id p sid m) = queues m"
  "cipher_state (next_sequence_id p sid m) = cipher_state m" "chunked_buffers (next_sequence_id p sid m) = chunked_buffers m"
  "decode_buffer (next_sequence_id p sid m) = decode_buffer m" "cached_header (next_sequence_id p sid m) = cached_header m"
  by (simp_all add: next_sequence_id_def)

lemma next_sequence_id_window [simp]:
  "protocol_window_size x (next_sequence_id p sid m) = protocol_window_size x m"
  unfolding protocol_window_size_def is_active_protocol_def num_active_protocols_def next_sequence_id_fields ..

lemma next_sequence_id_wf:
  "mux_wf m \<Longrightarrow> map_of (sequence_ids m) p = Some sid \<Longrightarrow> mux_wf (next_sequence_id p sid m)"
  by (simp add: mux_wf_def next_sequence_id_def update_keys_present map_of_Some_key)

definition queue_for :: "packet \<Rightarrow> frame list \<Rightarrow> qname" where
  "queue_for pk fs = (if pk_prioritize pk then Priority else if length fs = 1 then Normal else Chunked)"

lemma mk_frames_nonempty: "mk_frames L p c d s w n = Inr fs \<Longrightarrow> fs \<noteq> []"
  by (auto simp: mk_frames.simps [of L p c d] bind_res_eq_Inr Let_def split: if_splits)

lemma add_packet_run:
  assumes "map_of (sequence_ids m) (pk_protocol_id pk) = Some sid" "map_of (queues m) (pk_protocol_id pk) = Some qs"
    and "protocol_window_size (Some (pk_protocol_id pk)) m = Inr w"
    and "mk_frames L (pk_protocol_id pk) (pk_cmd_id pk) (pk_payload pk) (Some sid) w False = Inr fs"
  shows "add_packet L pk m =
    (if pk_prioritize pk \<and> \<not> (length fs = 1 \<and> frame_size L (hd fs) \<le> 1024)
     then (Inl AssertionError, next_sequence_id (pk_protocol_id pk) sid m)
     else (Inr (), set_queues (pk_protocol_id pk)
       (qs(queue_for pk fs := qs (queue_for pk fs) @ fs)) (next_sequence_id (pk_protocol_id pk) sid m)))"
proof -
  let ?p = "pk_protocol_id pk"
  have n: "m\<lparr>sequence_ids := AList.update ?p (Suc sid mod 65536) (sequence_ids m)\<rparr> = next_sequence_id ?p sid m"
    by (simp add: next_sequence_id_def)
  have hd: "[hd fs] = fs" if "length fs = 1" using that by (cases fs) auto
  show ?thesis
    using assms hd
    by (auto simp: add_packet_def Let_def step_simps n put_frames_def seq_def py_assert_def lift_res_def
        max_priority_frame_size_def queue_for_def)
qed

text \<open>A packet that cannot be framed is not queued.\<close>

lemma add_packet_error:
  assumes "map_of (sequence_ids m) (pk_protocol_id pk) = Some sid" "map_of (queues m) (pk_protocol_id pk) = Some qs"
    and "protocol_window_size (Some (pk_protocol_id pk)) m = Inr w"
    and "mk_frames L (pk_protocol_id pk) (pk_cmd_id pk) (pk_payload pk) (Some sid) w False = Inl e"
  shows "add_packet L pk m = (Inl e, next_sequence_id (pk_protocol_id pk) sid m)"
proof -
  let ?p = "pk_protocol_id pk"
  have n: "m\<lparr>sequence_ids := AList.update ?p (Suc sid mod 65536) (sequence_ids m)\<rparr> = next_sequence_id ?p sid m"
    by (simp add: next_sequence_id_def)
  show ?thesis
    using assms by (simp add: add_packet_def Let_def step_simps n seq_def lift_res_def)
qed

section \<open>An idle multiplexer\<close>

text \<open>What popping frames leaves alone: all but the queues and the round robin.\<close>

definition receiver_part :: "'c mux \<Rightarrow> (nat, chunk_buffers) dict \<times> bytes \<times> bytes option \<times> 'c" where
  "receiver_part m = (chunked_buffers m, decode_buffer m, cached_header m, cipher_state m)"

definition unqueued :: "'c mux \<Rightarrow> (nat, nat) dict \<times> (nat, chunk_buffers) dict \<times> bytes \<times> bytes option \<times> 'c" where
  "unqueued m = (sequence_ids m, receiver_part m)"

lemma pop_frames_for_protocol_unqueued: "keeps (\<lambda>m. unqueued m = x) (pop_frames_for_protocol L p)"
  unfolding pop_frames_for_protocol_def
  by (intro keeps_rules) (auto simp: unqueued_def receiver_part_def set_queues_def split: prod.split intro!: keeps_rules)

lemma first_nonempty_unqueued: "keeps (\<lambda>m. unqueued m = x) (first_nonempty (pop_frames_for_protocol L) ps)"
  by (induction ps) (auto intro!: keeps_rules pop_frames_for_protocol_unqueued)

lemma pop_frames_unqueued: "keeps (\<lambda>m. unqueued m = x) (pop_frames L)"
  unfolding pop_frames_def next_protocol_def
  by (intro keeps_rules first_nonempty_unqueued) (simp add: unqueued_def receiver_part_def)

lemma pop_all_from_unqueued: "unqueued (snd (pop_all_from L acc m)) = unqueued m"
proof (induction L acc m rule: pop_all_from.induct)
  case (1 L acc m)
  obtain r m1 where r: "pop_frames L m = (r, m1)" by force
  have m1: "unqueued m1 = unqueued m" by (rule keeps_result [OF pop_frames_unqueued refl r])
  show ?case
    using "1.IH" r m1 by (cases r) (auto simp: pop_all_from.simps [of L acc m])
qed

lemma pop_all_from_receiver: "receiver_part (snd (pop_all_from L acc m)) = receiver_part m"
  using pop_all_from_unqueued [of L acc m] by (simp add: unqueued_def)

lemma sum_list_empty_mset: "(\<Sum>x\<leftarrow>xs. f x) = {#} \<Longrightarrow> x \<in> set xs \<Longrightarrow> f x = {#}"
  by (induction xs) auto

lemma no_active_protocol:
  assumes "all_queued m = {#}"
  shows "num_active_protocols m = 0" "map_of (queues m) p = Some qs \<Longrightarrow> qs q = []"
    "map_of (queues m) p = Some qs \<Longrightarrow> protocol_window_size (Some p) m = Inr 8192"
proof -
  have e: "snd x q = []" if "x \<in> set (queues m)" for x q
  proof -
    have "mset (snd x Priority) + mset (snd x Normal) + mset (snd x Chunked) = {#}"
      using assms that unfolding all_queued_def by (rule sum_list_empty_mset)
    then show ?thesis by (cases q) simp_all
  qed
  then show *: "num_active_protocols m = 0"
    by (auto simp: num_active_protocols_def active_def filter_empty_conv)
  show e': "map_of (queues m) p = Some qs \<Longrightarrow> qs q = []" for q
    using e [of "(p, qs)" q] by (auto dest: map_of_SomeD)
  show "map_of (queues m) p = Some qs \<Longrightarrow> protocol_window_size (Some p) m = Inr 8192"
    using e' * by (simp add: protocol_window_size_def is_active_protocol_def active_def max_window_size_def)
qed

text \<open>A small packet that is added to an idle multiplexer comes out as one normal frame.\<close>

lemma idle_add_pop:
  assumes wf: "mux_wf m" "all_queued m = {#}" and sid: "map_of (sequence_ids m) (pk_protocol_id pk) = Some sid"
    and ok: "packet_ok L (pk_protocol_id pk) (pk_cmd_id pk) (Some sid) 8192" "\<not> pk_prioritize pk"
    and fit: "48 + ceil16 (length (enc_int L (pk_cmd_id pk)) + length (pk_payload pk)) \<le>
      8192 div length (queues m) - 8192 div length (queues m) mod 16"
  defines "f \<equiv> normal_frame (pk_protocol_id pk) (pk_cmd_id pk) (Some sid) (pk_payload pk)"
  obtains m1 m2 where "add_packet L pk m = (Inr (), m1)" "pop_all_frames L m1 = (Inr [f], m2)"
    "receiver_part m2 = receiver_part m" "mk_frames L (pk_protocol_id pk) (pk_cmd_id pk) (pk_payload pk) (Some sid) 8192 False = Inr [f]"
proof -
  let ?p = "pk_protocol_id pk"
  obtain qs where qs: "map_of (queues m) ?p = Some qs"
    using wf(1) sid key_map_of [of ?p "queues m"] map_of_Some_key [OF sid]
    by (metis mux_wf_def set_map)
  have "8192 div length (queues m) \<le> 8192" by (rule div_le_dividend)
  then have small: "48 + ceil16 (length (enc_int L (pk_cmd_id pk)) + length (pk_payload pk)) \<le> 8192"
    using fit by linarith
  have cut: "mk_frames L ?p (pk_cmd_id pk) (pk_payload pk) (Some sid) 8192 False = Inr [f]"
    using ok(1) by (rule mk_frames_cut [where d = "pk_payload pk"]) (use small in \<open>simp_all add: f_def\<close>)
  define m1 where "m1 = set_queues ?p (qs(Normal := [f])) (next_sequence_id ?p sid m)"
  have add: "add_packet L pk m = (Inr (), m1)"
    using add_packet_run [OF sid qs no_active_protocol(3) [OF wf(2) qs] cut] ok(2) no_active_protocol(2) [OF wf(2) qs]
    by (simp add: m1_def queue_for_def)
  have "mux_wf m1" unfolding m1_def
    by (rule mux_wf_set_queues [OF next_sequence_id_wf [OF wf(1) sid], of _ qs]) (simp add: qs)
  have all: "all_queued m1 = {#f#}"
    using all_queued_set [of "next_sequence_id ?p sid m" ?p qs "qs(Normal := [f])"] qs no_active_protocol(2) [OF wf(2) qs] wf(2)
    by (simp add: m1_def all_queued_def)
  have len: "length (queues m1) = length (queues m)" "queues m1 \<noteq> []"
  proof -
    have "map fst (queues m1) = map fst (queues m)"
      using qs by (simp add: m1_def set_queues_def update_keys_present map_of_Some_key)
    then show "length (queues m1) = length (queues m)" by (metis length_map)
    then show "queues m1 \<noteq> []" using qs by auto
  qed
  have "\<forall>g \<in># all_queued m1. frame_size L g \<le> (let s = max_window_size div length (queues m1) in s - s mod 16)"
    using fit unfolding all len by (simp add: f_def frame_kind_sizes max_window_size_def Let_def)
  from drained [OF \<open>mux_wf m1\<close> len(2) this] obtain frames m2 where
    pop: "pop_all_from L [] m1 = (Inr frames, m2)" "mset frames = {#f#}"
    unfolding all by metis
  then have "pop_all_frames L m1 = (Inr [f], m2)" by (simp add: pop_all_frames_def)
  moreover have "receiver_part m2 = receiver_part m"
    using pop_all_from_receiver [of L "[]" m1] pop(1) by (simp add: receiver_part_def m1_def set_queues_def)
  ultimately show ?thesis using that add cut by blast
qed

end
