(* ===== verification/Decoder_Errors.thy ===== *)
theory Decoder_Errors
  imports Frame_Transport
begin

text \<open>
  What an error does to the receiver: the frame it was raised for stays at the start of the
  buffer with its header cached, so that every later call raises the same error.
\<close>

lemma reassemble_error: "reassemble L p sid t body m = (Inl e, m') \<Longrightarrow> m' = m"
  by (auto simp: reassemble_def prog_defs set_buffer_def Let_def
      split: option.splits if_splits prod.splits sum.splits)

lemma plain_fetch_state: "fetch_body None buf n m = (r, m') \<Longrightarrow> m' = m"
  by (auto simp: fetch_body_def prog_defs Let_def split: sum.splits)

definition error_clean :: "('s, 'a) prog \<Rightarrow> bool" where
  "error_clean f \<longleftrightarrow> (\<forall>m e m'. f m = (Inl e, m') \<longrightarrow> m' = m)"

lemma error_clean_seq:
  "(\<And>m r m'. f m = (r, m') \<Longrightarrow> m' = m) \<Longrightarrow> (\<And>x. error_clean (g x)) \<Longrightarrow> error_clean (seq f g)"
  unfolding error_clean_def seq_def by (fastforce split: prod.splits sum.splits)

lemma plain_decode_body_error: "error_clean (decode_body L None buf h)"
proof -
  have "error_clean (seq (reassemble L p sid tot body) (\<lambda>r. ret (Decoded r)))" for p sid tot body
    using reassemble_error [of L p sid tot body]
    by (auto simp: error_clean_def seq_def ret_def split: prod.splits sum.splits)
  then have "error_clean (seq (lift_res n) (\<lambda>n. seq (fetch_body None buf n) (\<lambda>body.
      seq (lift_res (parse_header L (take f_header_size buf))) (\<lambda>(p, sid, tot).
      seq (reassemble L p sid tot body) (\<lambda>r. ret (Decoded r))))))" for n
    by (intro error_clean_seq) (auto simp: lift_res_def dest: plain_fetch_state split: prod.split)
  then show ?thesis
    by (auto simp: decode_body_def Let_def error_clean_def throw_def ret_def split: option.splits)
qed

text \<open>The state in which \<open>decode\<close> raises.\<close>

lemma plain_header_never_raises: "frame_header_of None m \<noteq> (Inl e, m')"
  by (auto simp: frame_header_of_def decode_header_def prog_defs assert_res_def f_header_size_def f_mac_size_def
      split: option.splits list.splits)

lemma decode_frames_error:
  "decode_frames L None m = (Inl e, m1) \<Longrightarrow>
   \<exists>h. cached_header m1 = Some h \<and> frame_header_of None m1 = (Inr (Some h), m1) \<and>
     (header_body_size h = Inl e \<or>
      (\<exists>n. header_body_size h = Inr n \<and> 48 + ceil16 n \<le> length (decode_buffer m1) \<and>
         decode_body L None (decode_buffer m1) (Some h) m1 = (Inl e, m1)))"
proof (induction "length (decode_buffer m)" arbitrary: m rule: less_induct)
  case (less m)
  let ?buf = "decode_buffer m"
  obtain r m' where h: "frame_header_of None m = (r, m')" by force
  obtain oh where r: "r = Inr oh" using plain_header_never_raises h by (cases r) blast+
  obtain h' where oh: "oh = Some h'"
    using less.prems h r by (cases oh) (simp_all add: decode_frames.simps [of L None m])
  note fh = plain.frame_header_extend(2,3) [OF h [unfolded r oh]]
  have again: "frame_header_of None m' = (Inr (Some h'), m')"
  proof (cases h')
    case (Cons b bs)
    with fh(2) show ?thesis by (simp add: frame_header_of_def)
  next
    case Nil
    then show ?thesis using h r oh
      by (auto simp: frame_header_of_def decode_header_def prog_defs f_header_size_def f_mac_size_def assert_res_def
          split: option.splits list.splits if_splits)
  qed
  show ?case
  proof (cases "header_body_size h'")
    case (Inl e')
    then have "m1 = m'" "e' = e" using less.prems h r oh by (simp_all add: decode_frames.simps [of L None m])
    with Inl again fh(2) show ?thesis by auto
  next
    case (Inr n)
    have req: "f_header_size + f_mac_size + ceil16 n + f_mac_size = 48 + ceil16 n"
      by (simp add: f_header_size_def f_mac_size_def)
    have step: "decode_frames L None m = (if 48 + ceil16 n \<le> length ?buf then
          (case decode_body L None ?buf (Some h') m' of
            (Inl e, m2) \<Rightarrow> (Inl e, m2)
          | (Inr d, m2) \<Rightarrow> prepend (truthy d)
              (decode_frames L None (m2\<lparr>cached_header := None, decode_buffer := drop (48 + ceil16 n) ?buf\<rparr>)))
        else (Inr [], m'))"
      unfolding decode_frames.simps [of L None m] Let_def prepend_def h r oh prod.case sum.case
            option.case Inr req ..
    show ?thesis
    proof (cases "48 + ceil16 n \<le> length ?buf")
      case False
      with less.prems show ?thesis unfolding step by simp
    next
      case True
      obtain d m2 where d: "decode_body L None ?buf (Some h') m' = (d, m2)" by force
      show ?thesis
      proof (cases d)
        case (Inl e')
        then have "m1 = m2" "e' = e" using less.prems True d unfolding step by simp_all
        moreover have "m2 = m'" using plain_decode_body_error [unfolded error_clean_def] d Inl by blast
        ultimately show ?thesis using Inr True d Inl fh again by auto
      next
        case d': (Inr dd)
        have "decode_frames L None (m2\<lparr>cached_header := None, decode_buffer := drop (48 + ceil16 n) ?buf\<rparr>) = (Inl e, m1)"
          using less.prems True d d' unfolding step
          by (auto simp: prepend_def split: prod.splits sum.splits)
        from less.hyps [OF _ this] True show ?thesis by simp
      qed
    qed
  qed
qed

lemma decode_error_persists:
  assumes "decode L None x m = (Inl e, m1)"
  shows "decode L None y m1 = (Inl e, m1\<lparr>decode_buffer := decode_buffer m1 @ y\<rparr>)"
proof -
  have "decode_frames L None (m\<lparr>decode_buffer := decode_buffer m @ x\<rparr>) = (Inl e, m1)"
    using assms by (simp add: decode_def seq_def modify_def)
  from decode_frames_error [OF this] obtain h where
    h: "cached_header m1 = Some h" "frame_header_of None m1 = (Inr (Some h), m1)"
    and bad: "header_body_size h = Inl e \<or>
      (\<exists>n. header_body_size h = Inr n \<and> 48 + ceil16 n \<le> length (decode_buffer m1) \<and>
         decode_body L None (decode_buffer m1) (Some h) m1 = (Inl e, m1))" by blast
  let ?m = "m1\<lparr>decode_buffer := decode_buffer m1 @ y\<rparr>"
  note fh = plain.frame_header_extend(1) [OF h(2), of y]
  from bad have "decode_frames L None ?m = (Inl e, ?m)"
  proof
    assume "header_body_size h = Inl e"
    with fh show ?thesis by (simp add: decode_frames.simps [of L None ?m])
  next
    assume "\<exists>n. header_body_size h = Inr n \<and> 48 + ceil16 n \<le> length (decode_buffer m1) \<and>
         decode_body L None (decode_buffer m1) (Some h) m1 = (Inl e, m1)"
    then obtain n where n: "header_body_size h = Inr n" "48 + ceil16 n \<le> length (decode_buffer m1)"
      "decode_body L None (decode_buffer m1) (Some h) m1 = (Inl e, m1)" by blast
    have "decode_body L None (decode_buffer m1 @ y) (Some h) ?m = (Inl e, ?m)"
      unfolding plain.decode_body_extend [OF n(1,2)]
      by (rule buffer_free_run [OF buffer_free_decode_body n(3)])
    with fh n(1,2) show ?thesis
      by (simp add: decode_frames.simps [of L None ?m] f_header_size_def f_mac_size_def)
  qed
  then show ?thesis by (simp add: decode_def seq_def modify_def)
qed

end
