(* ===== verification/Multiplexer_Properties.thy ===== *)
theory Multiplexer_Properties
  imports Wire_Roundtrip Mux_Packets Decoder_Errors
begin

text \<open>
  The correctness properties of framing and multiplexing, each with a concrete instance. The
  instances use a fixed-width codec in the place of the \<open>rlp\<close> package.
\<close>

section \<open>A concrete codec\<close>

definition sample_rlp :: "bytes rlp_lib" where
  "sample_rlp = \<lparr>
     enc_header = (\<lambda>l. be_bytes 1 (length l) @ concat (map (be_bytes 4) l)),
     dec_header = (\<lambda>b. let n = be_val (take 1 b) in
       if length b < 1 + 4 * n then None
       else Some (map (\<lambda>i. be_val (take 4 (drop (1 + 4 * i) b))) [0..<n])),
     enc_int = be_bytes 2,
     consume_item = (\<lambda>b. if length b < 2 then Inl (LibraryError ''DecodingError'') else Inr (take 2 b, 2)),
     deserialize_int = (\<lambda>b. Inr (be_val b))\<rparr>"

lemma sample_rlp_ok: "rlp_ok sample_rlp"
proof -
  have "dec_header sample_rlp (enc_header sample_rlp l @ replicate n 0) = Some l \<and>
      length (enc_header sample_rlp l) \<le> 13" if "header_list_ok l" for l n
  proof -
    have ne: "l \<noteq> []" "length l \<le> 3" using that by (simp_all add: header_list_ok_def)
    have small: "x < 256 ^ 4" if "x \<in> set l" for x
      using that \<open>header_list_ok l\<close>
      by (cases l; cases "tl l"; cases "tl (tl l)") (auto simp: header_list_ok_def)
    from ne consider a where "l = [a]" | a b where "l = [a, b]" | a b c where "l = [a, b, c]"
      by (cases l; cases "tl l"; cases "tl (tl l)"; cases "tl (tl (tl l))") auto
    then show ?thesis
    proof cases
      case 1
      with small show ?thesis by (simp add: sample_rlp_def Let_def be_val_be_bytes upt_rec)
    next
      case 2
      with small show ?thesis by (simp add: sample_rlp_def Let_def be_val_be_bytes upt_rec)
    next
      case 3
      with small show ?thesis by (simp add: sample_rlp_def Let_def be_val_be_bytes upt_rec take_bit_eq_mod)
    qed
  qed
  moreover have "length (enc_int sample_rlp c) \<in> {1, 2} \<and>
      (\<exists>item. consume_item sample_rlp (enc_int sample_rlp c @ rest) = Inr (item, length (enc_int sample_rlp c)) \<and>
         deserialize_int sample_rlp item = Inr c)" if "c < 256" for c rest
    using that by (simp add: sample_rlp_def be_val_be_bytes)
  ultimately show ?thesis by (simp add: rlp_ok_def)
qed

lemma sample_packet_ok:
  "p < 65536 \<Longrightarrow> c < 256 \<Longrightarrow> sid < 65536 \<Longrightarrow> w mod 16 = 0 \<Longrightarrow> 64 \<le> w \<Longrightarrow> packet_ok sample_rlp p c (Some sid) w"
  by (simp add: packet_ok_def sample_rlp_def)

definition idle_receiver :: "unit mux" where
  "idle_receiver = (mk_mux ())\<lparr>chunked_buffers := [(0, []), (5, [])]\<rparr>"

section \<open>Framing\<close>

text \<open>C38. A packet becomes one normal frame when it fits the window; otherwise a chunked-0 frame that
  carries the size of the whole packet, and chunked-n frames, none of them empty. In both cases
  the constructor succeeds for any window of at least 64 bytes, every frame fits the window, and
  the payloads in order are the payload of the packet.\<close>

theorem packet_cut_into_frames:
  assumes "packet_ok L p c s w"
  shows "\<exists>f fs. mk_frames L p c d s w False = Inr (f # fs) \<and>
    concat (map f_payload (f # fs)) = d \<and>
    (\<forall>g \<in> set (f # fs). frame_size L g \<le> w \<and> f_protocol_id g = p \<and> f_cmd_id g = c \<and> f_sequence_id g = s) \<and>
    (if 48 + ceil16 (length (enc_int L c) + length d) \<le> w then fs = [] \<and> is_normal f
     else fs \<noteq> [] \<and> f_is_chunked_0 f \<and> f_total_payload_size f = Some (length (enc_int L c) + length d) \<and>
       (\<forall>g \<in> set fs. f_is_chunked_n g \<and> f_payload g \<noteq> []))"
  using assms
proof (cases rule: mk_frames_cut [where d = d])
  case one
  then show ?thesis
    by (intro exI [of _ "normal_frame p c s d"] exI [of _ "[]"])
      (simp add: frame_kind_sizes, simp add: normal_frame_def is_normal_def)
next
  case (many k0 ks)
  have "map f_payload (map (later_frame p c s) ks) = ks" by (simp add: later_frame_def comp_def)
  with many show ?thesis
    by (intro exI [of _ "first_frame p c s (length (enc_int L c) + length d) k0"]
        exI [of _ "map (later_frame p c s) ks"])
      (auto simp: frame_kind_sizes, auto simp: first_frame_def later_frame_def)
qed

lemma packet_cut_into_frames_witness:
  "\<exists>fs. mk_frames sample_rlp 5 1 (replicate 100 7) (Some 3) 64 False = Inr fs \<and>
     concat (map f_payload fs) = replicate 100 7 \<and> 2 \<le> length fs"
proof -
  obtain f fs where f: "mk_frames sample_rlp 5 1 (replicate 100 7) (Some 3) 64 False = Inr (f # fs)"
    "concat (map f_payload (f # fs)) = replicate 100 7" "fs \<noteq> []"
    using packet_cut_into_frames [OF sample_packet_ok [of 5 1 3 64], of "replicate 100 7"]
    by (auto simp: sample_rlp_def ceil16_def)
  then show ?thesis by (intro exI [of _ "f # fs"]) (auto simp: Suc_le_eq)
qed

section \<open>The wire\<close>

text \<open>Without a cipher, the bytes of a sequence of packets, cut into frames for any windows, are
  decoded by an idle receiver that knows the protocols to exactly those packets, in order, and
  leave it idle; except that a packet with an empty payload is not delivered, because \<open>decode\<close>
  tests \<open>if packet\<close> and the length of a packet is that of its payload.\<close>

theorem plain_wire_roundtrip:
  fixes m :: "unit mux"
  assumes "rlp_ok L" "\<forall>x \<in> set ps. sendable L x"
    and "cached_header m = None" "decode_buffer m = []" "\<forall>x \<in> set ps. expects m x"
  shows "\<exists>fs bs. cut_all L ps = Inr fs \<and> join_bytes L None fs () = (Inr bs, ()) \<and>
    decode L None bs m = (Inr (concat (map (\<lambda>(p, c, d, sid, w).
      if d = [] then [] else [\<lparr>pk_protocol_id = p, pk_cmd_id = c, pk_payload = d, pk_prioritize = False\<rparr>]) ps)), m)"
proof -
  obtain fs bs tx' rx' where "cut_all L ps = Inr fs" "join_bytes L None fs () = (Inr bs, tx')"
    "decode L None bs m = (Inr (deliveries ps), m\<lparr>cipher_state := rx'\<rparr>)"
    using plain.wire_roundtrip [OF assms(1,2) TrueI assms(3-5)] by blast
  moreover have "m\<lparr>cipher_state := rx'\<rparr> = m" by (cases m) simp
  ultimately show ?thesis unfolding deliveries_def whole_packet_def by auto
qed

lemma plain_wire_roundtrip_witness:
  "\<exists>fs bs. cut_all sample_rlp [(5, 1, replicate 100 7, 3, 64), (0, 2, [], 4, 64), (0, 3, [9], 5, 128)] = Inr fs \<and>
     decode sample_rlp None bs idle_receiver = (Inr
       [\<lparr>pk_protocol_id = 5, pk_cmd_id = 1, pk_payload = replicate 100 7, pk_prioritize = False\<rparr>,
        \<lparr>pk_protocol_id = 0, pk_cmd_id = 3, pk_payload = [9], pk_prioritize = False\<rparr>], idle_receiver)"
  using plain_wire_roundtrip [OF sample_rlp_ok, of
      "[(5, 1, replicate 100 7, 3, 64), (0, 2, [], 4, 64), (0, 3, [9], 5, 128)]" idle_receiver]
  by (auto simp: sendable_def sample_packet_ok expects_def idle_receiver_def mk_mux_def)

text \<open>An error is final: once \<open>decode\<close> has raised for some data, the frame it was raised for is
  still at the start of the buffer with its header cached, and every later call raises the same
  error, whatever data it brings.\<close>

theorem plain_decode_error_is_final:
  assumes "decode L None x m = (Inl e, m1)"
  shows "decode L None y m1 = (Inl e, m1\<lparr>decode_buffer := decode_buffer m1 @ y\<rparr>)"
  using assms by (rule decode_error_persists)

lemma plain_decode_error_is_final_witness:
  "fst (decode sample_rlp None [7] (snd (decode sample_rlp None (replicate 80 0) idle_receiver))) = Inl IndexError"
proof -
  obtain r m1 where m1: "decode sample_rlp None (replicate 80 0) idle_receiver = (r, m1)" by force
  have "fst (decode sample_rlp None (replicate 80 0) idle_receiver) = Inl IndexError"
    unfolding decode_def
    by (simp add: prog_defs, subst decode_frames.simps)
      (simp add: prog_defs frame_header_of_def decode_header_def header_body_size_def decode_body_def
        fetch_body_def parse_header_def sample_rlp_def idle_receiver_def mk_mux_def f_header_size_def
        f_mac_size_def f_padding_def slice_def ceil16_def assert_res_def Let_def min_def be_val_zeros)
  then have r: "r = Inl IndexError" unfolding m1 fst_conv .
  show ?thesis unfolding m1 snd_conv plain_decode_error_is_final [OF m1 [unfolded r]] fst_conv ..
qed

section \<open>The queues\<close>

text \<open>A packet that can be framed goes, as its frames in order, to the end of one queue of its
  protocol: the priority queue if it is to be prioritized, which only a single frame of at most
  1024 bytes may be, otherwise the normal queue for one frame and the chunked one for several.
  The sequence id of the protocol advances modulo \<open>2 ^ 16\<close>, also when the packet is refused.\<close>

theorem add_packet_queues:
  assumes "map_of (sequence_ids m) (pk_protocol_id pk) = Some sid" "map_of (queues m) (pk_protocol_id pk) = Some qs"
    and "protocol_window_size (Some (pk_protocol_id pk)) m = Inr w"
    and "mk_frames L (pk_protocol_id pk) (pk_cmd_id pk) (pk_payload pk) (Some sid) w False = Inr fs"
  defines "q \<equiv> if pk_prioritize pk then Priority else if length fs = 1 then Normal else Chunked"
    and "refused \<equiv> pk_prioritize pk \<and> (length fs \<noteq> 1 \<or> 1024 < frame_size L (hd fs))"
  shows "\<exists>m'. add_packet L pk m = (if refused then Inl AssertionError else Inr (), m') \<and>
    map_of (sequence_ids m') (pk_protocol_id pk) = Some ((sid + 1) mod 2 ^ 16) \<and>
    queues m' = (if refused then queues m
      else AList.update (pk_protocol_id pk) (qs(q := qs q @ fs)) (queues m)) \<and> receiver_part m' = receiver_part m"
proof -
  have r: "refused \<longleftrightarrow> pk_prioritize pk \<and> \<not> (length fs = 1 \<and> frame_size L (hd fs) \<le> 1024)"
    by (auto simp: refused_def)
  have "queue_for pk fs = q" by (simp add: queue_for_def q_def)
  then show ?thesis
    unfolding add_packet_run [OF assms(1-4)] r
    by (simp add: set_queues_def receiver_part_def) (auto simp: next_sequence_id_def update_conv)
qed

lemma add_packet_queues_witness:
  "\<exists>m'. add_packet sample_rlp \<lparr>pk_protocol_id = 3, pk_cmd_id = 1, pk_payload = [7], pk_prioritize = True\<rparr>
      ((mk_mux ())\<lparr>queues := [(3, \<lambda>_. [])], sequence_ids := [(3, 65535)]\<rparr>) = (Inr (), m') \<and>
     map_of (sequence_ids m') 3 = Some 0"
proof -
  let ?pk = "\<lparr>pk_protocol_id = 3, pk_cmd_id = 1, pk_payload = [7], pk_prioritize = True\<rparr>"
  let ?m = "(mk_mux ())\<lparr>queues := [(3, \<lambda>_. [])], sequence_ids := [(3, 65535)]\<rparr>"
  have w: "protocol_window_size (Some 3) ?m = Inr 8192"
    by (simp add: protocol_window_size_def is_active_protocol_def num_active_protocols_def active_def max_window_size_def)
  have "packet_ok sample_rlp 3 1 (Some 65535) 8192" by (rule sample_packet_ok) simp_all
  then have f: "mk_frames sample_rlp 3 1 [7] (Some 65535) 8192 False = Inr [normal_frame 3 1 (Some 65535) [7]]"
    by (rule mk_frames_cut [where d = "[7]"]) (simp_all add: sample_rlp_def ceil16_def)
  have size: "frame_size sample_rlp (normal_frame 3 c s [d]) = 64" for c s d
    by (simp add: frame_kind_sizes sample_rlp_def ceil16_def)
  from add_packet_queues [of ?m ?pk 65535 "\<lambda>_. []" 8192 sample_rlp "[normal_frame 3 1 (Some 65535) [7]]"] w f size
  show ?thesis by (auto simp: mk_mux_def)
qed

text \<open>\<open>next_protocol\<close> goes round: after the protocol at position \<open>i\<close> comes the one at position
  \<open>i + 1\<close>, the first one after the last, and nothing else changes.\<close>

theorem round_robin:
  assumes "mux_wf m" "i < length (queues m)" "last_protocol m = Some (map fst (queues m) ! i)"
  shows "next_protocol m = (Inr (map fst (queues m) ! ((i + 1) mod length (queues m))),
    m\<lparr>last_protocol := Some (map fst (queues m) ! ((i + 1) mod length (queues m)))\<rparr>)"
  using next_protocol_cycles [OF assms] by (simp add: Let_def)

definition sample_mux :: "(nat \<times> (qname \<Rightarrow> frame list)) list \<Rightarrow> unit mux" where
  "sample_mux qs = (mk_mux ())\<lparr>queues := qs, sequence_ids := map (\<lambda>x. (fst x, 0)) qs,
     chunked_buffers := map (\<lambda>x. (fst x, [])) qs, last_protocol := Some (fst (last qs))\<rparr>"

lemma sample_mux_wf: "qs \<noteq> [] \<Longrightarrow> distinct (map fst qs) \<Longrightarrow> mux_wf (sample_mux qs)"
  by (simp add: mux_wf_def sample_mux_def mk_mux_def comp_def)

lemma round_robin_witness:
  "fst (next_protocol (sample_mux [(3, \<lambda>_. []), (5, \<lambda>_. [])])) = Inr 3"
  using round_robin [OF sample_mux_wf [of "[(3, \<lambda>_. []), (5, \<lambda>_. [])]"], of 1]
  by (simp add: sample_mux_def)

text \<open>One round for a protocol takes a prefix of each of its queues, in order, interleaved, at
  most the window in bytes; it leaves no frame at the head of a queue that would still fit, and
  the queues of the other protocols alone.\<close>

theorem round_takes_what_fits:
  assumes "pop_frames_for_protocol L p m = (Inr frames, m')" "map_of (queues m) p = Some qs"
  shows "\<exists>qs' tr. queues m' = AList.update p qs' (queues m) \<and> frames = map snd tr \<and>
    (\<forall>q. qs q = from_queue q tr @ qs' q) \<and>
    (\<forall>pws. protocol_window_size None m = Inr pws \<longrightarrow> sum_list (map (frame_size L) frames) \<le> pws \<and>
      (sum_list (map (frame_size L) frames) < pws \<longrightarrow>
        (\<forall>q f fs. qs' q = f # fs \<longrightarrow> pws < sum_list (map (frame_size L) frames) + frame_size L f)))"
  using assms(1)
proof (rule pop_frames_for_protocol_Inr)
  fix pws qs0 qs'
  assume *: "protocol_window_size None m = Inr pws" "map_of (queues m) p = Some qs0"
    "pop_loop L pws qs0 [] 0 = (qs', frames)" "m' = set_queues p qs' m"
  have "qs0 = qs" using *(2) assms(2) by simp
  obtain tr where "frames = map snd tr" "\<forall>q. qs0 q = from_queue q tr @ qs' q" "sizes L frames \<le> pws"
    "sizes L frames < pws \<longrightarrow> (\<forall>q f fs. qs' q = f # fs \<longrightarrow> pws < sizes L frames + frame_size L f)"
    by (rule pop_loop_spec [OF *(3)], rule that) blast+
  with *(1,4) show ?thesis unfolding sizes_def \<open>qs0 = qs\<close>
    by (intro exI [of _ qs'] exI [of _ tr]) (simp add: set_queues_def)
qed

definition sample_queues :: "frame list \<Rightarrow> qname \<Rightarrow> frame list" where
  "sample_queues fs q = (if q = Normal then fs else [])"

lemma round_takes_what_fits_witness:
  "\<exists>qs' tr. sample_queues [normal_frame 3 1 (Some 0) [7], normal_frame 3 2 (Some 1) [8]] Normal = from_queue Normal tr @ qs' Normal \<and>
     length tr = 2"
proof -
  let ?qs = "sample_queues [normal_frame 3 1 (Some 0) [7], normal_frame 3 2 (Some 1) [8]]"
  obtain r m' where run: "pop_frames_for_protocol sample_rlp 3 (sample_mux [(3, ?qs)]) = (r, m')" by force
  have size: "frame_size sample_rlp (normal_frame p c s [d]) = 64" for p c s d
    by (simp add: frame_kind_sizes sample_rlp_def ceil16_def)
  have "fst (pop_frames_for_protocol sample_rlp 3 (sample_mux [(3, ?qs)])) =
      Inr [normal_frame 3 1 (Some 0) [7], normal_frame 3 2 (Some 1) [8]]"
    by (simp add: pop_frames_for_protocol_def protocol_window_None pop_window_def num_active_protocols_def
        active_def prog_defs sample_mux_def sample_queues_def mk_mux_def max_window_size_def Let_def
        pop_loop.simps size)
  then obtain fs where r: "r = Inr fs" and len: "length fs = 2"
    unfolding run fst_conv by (cases r) auto
  obtain qs' tr where "fs = map snd tr" "\<forall>q. ?qs q = from_queue q tr @ qs' q"
    using round_takes_what_fits [OF run [unfolded r], of ?qs] by (auto simp: sample_mux_def)
  with len show ?thesis by (intro exI [of _ qs'] exI [of _ tr]) simp
qed

text \<open>Nothing is left behind when every queued frame fits the window that all protocols share:
  \<open>pop_all_frames\<close> ends, returns exactly the queued frames, and empties the queues.\<close>

theorem queues_are_drained:
  assumes "mux_wf m" "queues m \<noteq> []"
    and "\<forall>f \<in># all_queued m. frame_size L f \<le> 8192 div length (queues m) - 8192 div length (queues m) mod 16"
  shows "\<exists>frames m'. pop_all_frames L m = (Inr frames, m') \<and> mset frames = all_queued m \<and> all_queued m' = {#}"
proof -
  have "\<forall>f \<in># all_queued m. frame_size L f \<le> (let s = max_window_size div length (queues m) in s - s mod 16)"
    using assms(3) by (simp add: max_window_size_def Let_def)
  from drained [OF assms(1,2) this] show ?thesis unfolding pop_all_frames_def by metis
qed

lemma queues_are_drained_witness:
  "\<exists>frames m'. pop_all_frames sample_rlp (sample_mux [(3, sample_queues [normal_frame 3 1 (Some 0) [7]]), (5, \<lambda>_. [])]) = (Inr frames, m') \<and>
     mset frames = {#normal_frame 3 1 (Some 0) [7]#}"
proof -
  let ?m = "sample_mux [(3, sample_queues [normal_frame 3 1 (Some 0) [7]]), (5, \<lambda>_. [])]"
  have all: "all_queued ?m = {#normal_frame 3 1 (Some 0) [7]#}" and len: "length (queues ?m) = 2"
    by (simp_all add: sample_mux_def all_queued_def sample_queues_def)
  have "frame_size sample_rlp (normal_frame 3 1 (Some 0) [7]) = 64"
    by (simp add: frame_kind_sizes sample_rlp_def ceil16_def)
  with queues_are_drained [OF sample_mux_wf, of "[(3, sample_queues [normal_frame 3 1 (Some 0) [7]]), (5, \<lambda>_. [])]" sample_rlp]
  show ?thesis unfolding all len by (auto simp: sample_mux_def)
qed

text \<open>The queues can be stuck: when the first frame of every queue is larger than the window of
  the moment, \<open>pop_frames\<close> returns nothing and the queues stay as they are. This happens in the
  code's own use, because frames are cut for the window at the time they are added, and
  \<open>protocol_window_size\<close> takes protocol 0 for no protocol at all.\<close>

theorem oversized_heads_block:
  assumes "mux_wf m" "queues m \<noteq> []" "protocol_window_size None m = Inr pws"
    and "\<forall>x \<in> set (queues m). \<forall>q f fs. snd x q = f # fs \<longrightarrow> pws < frame_size L f"
  shows "\<exists>m'. pop_all_frames L m = (Inr [], m') \<and> queues m' = queues m"
proof -
  have "pws = pop_window m" using assms(3) by (simp add: protocol_window_None)
  with assms(4) have "\<forall>x \<in> set (queues m). heads_blocked L (pop_window m) (snd x)"
    by (simp add: heads_blocked_def)
  then obtain m' where "pop_frames L m = (Inr [], m')" "queues m' = queues m"
    by (rule pop_frames_stuck [OF assms(1,2)])
  then show ?thesis by (simp add: pop_all_frames_def pop_all_from.simps)
qed

lemma oversized_heads_block_witness:
  "\<exists>m'. pop_all_frames sample_rlp (sample_mux [(3, sample_queues [normal_frame 3 2 (Some 0) (replicate 5000 7)]),
       (5, sample_queues [normal_frame 5 2 (Some 0) (replicate 5000 7)])]) = (Inr [], m')"
proof -
  let ?qs = "[(3, sample_queues [normal_frame 3 2 (Some 0) (replicate 5000 7)]),
       (5, sample_queues [normal_frame 5 2 (Some 0) (replicate 5000 7)])]"
  have size: "frame_size sample_rlp (normal_frame p 2 (Some 0) (replicate 5000 7)) = 5056" for p
    by (simp add: frame_kind_sizes sample_rlp_def ceil16_def)
  have "protocol_window_size None (sample_mux ?qs) = Inr 4096"
    by (simp add: protocol_window_None pop_window_def num_active_protocols_def active_def sample_mux_def
        mk_mux_def sample_queues_def max_window_size_def Let_def numeral_2_eq_2 [symmetric])
  moreover have "\<forall>x \<in> set (queues (sample_mux ?qs)). \<forall>q f fs. snd x q = f # fs \<longrightarrow> 4096 < frame_size sample_rlp f"
    by (simp add: sample_mux_def mk_mux_def sample_queues_def size)
  ultimately show ?thesis
    using oversized_heads_block [OF sample_mux_wf, of ?qs 4096 sample_rlp] by (auto simp: sample_mux_def)
qed

end
