(* ===== verification/Crypto.thy ===== *)
theory Crypto
  imports Prelude
begin

text \<open>
  \<open>devp2p/crypto.py\<close>: elliptic-curve keys (\<open>ECCx\<close>), the integrated encryption scheme, its key
  derivation, signatures. The primitives of the packages \<open>pyelliptic\<close>, \<open>bitcoin\<close>, \<open>coincurve\<close>,
  \<open>hashlib\<close> and \<open>Crypto\<close> are parameters, gathered in a record; what the code draws at random is
  an argument.
\<close>

section \<open>What is outside the repository\<close>

text \<open>An \<open>ECCx\<close> object: its private key, if it has one, and its public key.\<close>

record ecc =
  e_privkey :: "bytes option"
  e_pubkey :: bytes

text \<open>
  \<open>ecc_init\<close> is the \<open>n\<close>-th run of \<open>pyelliptic.ECC.__init__\<close>, which generates a key when none is given.
  \<open>raw_ecdh\<close> and \<open>check_key\<close> (true for a bad key) are \<open>raw_get_ecdh_key\<close> and \<open>raw_check_key\<close>,
  both on the two coordinates of a public key. \<open>ctr_stream\<close> is the key stream of AES in counter
  mode, byte by byte, \<open>aes_ecb\<close> the encryption of a block. \<open>sign_recoverable\<close> and \<open>recover_key\<close> are
  \<open>coincurve\<close>'s, the recovered key in its uncompressed form.
\<close>

record crypto_lib =
  ecc_init :: "bytes option \<Rightarrow> bytes option \<Rightarrow> nat \<Rightarrow> ecc res"
  pub_of :: "bytes \<Rightarrow> bytes"
  privkey_format_ok :: "bytes \<Rightarrow> bool"
  raw_ecdh :: "ecc \<Rightarrow> bytes \<Rightarrow> bytes \<Rightarrow> bytes res"
  check_key :: "bytes option \<Rightarrow> bytes \<Rightarrow> bytes \<Rightarrow> bool res"
  sha256 :: "bytes \<Rightarrow> bytes"
  hmac_sha256 :: "bytes \<Rightarrow> bytes \<Rightarrow> bytes"
  keccak256 :: "bytes \<Rightarrow> bytes"
  ctr_stream :: "bytes \<Rightarrow> bytes \<Rightarrow> nat \<Rightarrow> byte"
  ctr_blocksize :: nat
  aes_ecb :: "bytes \<Rightarrow> bytes \<Rightarrow> bytes"
  sign_recoverable :: "bytes \<Rightarrow> bytes \<Rightarrow> bytes res"
  recover_key :: "bytes \<Rightarrow> bytes \<Rightarrow> bytes res"

text \<open>What the packages document of them.\<close>

definition key_pair :: "crypto_lib \<Rightarrow> ecc \<Rightarrow> bool" where
  "key_pair P e \<longleftrightarrow>
     (case e_privkey e of None \<Rightarrow> False
      | Some k \<Rightarrow> length k = 32 \<and> privkey_format_ok P k \<and> e_pubkey e = pub_of P k)"

definition hashes_ok :: "crypto_lib \<Rightarrow> bool" where
  "hashes_ok P \<longleftrightarrow> (\<forall>x. length (sha256 P x) = 32 \<and> length (keccak256 P x) = 32) \<and>
     (\<forall>k x. length (hmac_sha256 P k x) = 32) \<and>
     (\<forall>k b. length b = 16 \<longrightarrow> length (aes_ecb P k b) = 16) \<and> ctr_blocksize P = 16"

definition keys_ok :: "crypto_lib \<Rightarrow> bool" where
  "keys_ok P \<longleftrightarrow>
     (\<forall>e. key_pair P e \<longrightarrow> length (e_pubkey e) = 64 \<and>
        check_key P None (take 32 (e_pubkey e)) (drop 32 (e_pubkey e)) = Inr False) \<and>
     (\<forall>a b. key_pair P a \<longrightarrow> key_pair P b \<longrightarrow>
        (\<exists>s. length s = 32 \<and> raw_ecdh P a (take 32 (e_pubkey b)) (drop 32 (e_pubkey b)) = Inr s \<and>
           raw_ecdh P b (take 32 (e_pubkey a)) (drop 32 (e_pubkey a)) = Inr s)) \<and>
     (\<forall>e k m. key_pair P e \<longrightarrow> e_privkey e = Some k \<longrightarrow> length m = 32 \<longrightarrow>
        (\<exists>s. length s = 65 \<and> sign_recoverable P m k = Inr s \<and> recover_key P s m = Inr (4 # e_pubkey e)))"

section \<open>Helpers\<close>

text \<open>\<open>x or y\<close> on byte strings, where \<open>x\<close> may be \<open>None\<close>.\<close>

definition py_or :: "bytes option \<Rightarrow> bytes \<Rightarrow> bytes" where
  "py_or x y = (case x of None \<Rightarrow> y | Some b \<Rightarrow> if b = [] then y else b)"

text \<open>\<open>sha3\<close>, and the keystream cipher: the same operation encrypts and decrypts.\<close>

definition sha3 :: "crypto_lib \<Rightarrow> bytes \<Rightarrow> bytes" where
  "sha3 P seed = keccak256 P seed"

definition mk_privkey :: "crypto_lib \<Rightarrow> bytes \<Rightarrow> bytes" where
  "mk_privkey P seed = sha3 P seed"

definition ctr_xor :: "(nat \<Rightarrow> byte) \<Rightarrow> nat \<Rightarrow> bytes \<Rightarrow> bytes" where
  "ctr_xor ks pos data = map2 xor data (map ks [pos..<pos + length data])"

lemma length_ctr_xor [simp]: "length (ctr_xor ks pos data) = length data"
  by (simp add: ctr_xor_def)

lemma nth_ctr_xor [simp]: "i < length data \<Longrightarrow> ctr_xor ks pos data ! i = xor (data ! i) (ks (pos + i))"
  by (simp add: ctr_xor_def)

lemma ctr_xor_involution [simp]: "ctr_xor ks pos (ctr_xor ks pos data) = data"
  by (rule nth_equalityI) (simp_all add: xor.assoc)

lemma ctr_xor_take: "ctr_xor ks pos (take n data) = take n (ctr_xor ks pos data)"
  by (rule nth_equalityI) simp_all

section \<open>Keys\<close>

definition privtopub :: "crypto_lib \<Rightarrow> bytes \<Rightarrow> bytes res" where
  "privtopub P raw_privkey =
     bind_res (assert_res (length (pub_of P raw_privkey) = 64)) (\<lambda>_. Inr (pub_of P raw_privkey))"

text \<open>
  The loop of \<open>ECCx.__init__\<close> from its \<open>i\<close>-th run on. It may run for ever, which is \<open>None\<close>.
\<close>

partial_function (option) eccx_loop ::
  "crypto_lib \<Rightarrow> bytes option \<Rightarrow> bytes option \<Rightarrow> bool \<Rightarrow> nat \<Rightarrow> ecc res option" where
  "eccx_loop P raw_pubkey raw_privkey given i =
     (case ecc_init P raw_pubkey raw_privkey i of
        Inl e \<Rightarrow> Some (Inl e)
      | Inr ecc \<Rightarrow>
          (let k = py_or (e_privkey ecc) [] in
           if k \<noteq> [] \<and> length k \<noteq> 32 then eccx_loop P raw_pubkey raw_privkey given (Suc i)
           else if length (e_pubkey ecc) = 64 \<and> (k \<noteq> [] \<longrightarrow> privkey_format_ok P k) then Some (Inr ecc)
           else if given then Some (Inl PlainException)
           else eccx_loop P raw_pubkey raw_privkey given (Suc i)))"

definition eccx :: "crypto_lib \<Rightarrow> bytes option \<Rightarrow> bytes option \<Rightarrow> ecc res option" where
  "eccx P raw_pubkey raw_privkey =
     (case bind_res
        (if py_or raw_privkey [] \<noteq> []
         then bind_res (assert_res (py_or raw_pubkey [] = [])) (\<lambda>_.
              bind_res (privtopub P (py_or raw_privkey [])) (\<lambda>p. Inr (Some p)))
         else Inr raw_pubkey) (\<lambda>pubkey.
      bind_res (if py_or pubkey [] \<noteq> [] then assert_res (length (py_or pubkey []) = 64) else Inr ()) (\<lambda>_.
      Inr pubkey)) of
        Inl e \<Rightarrow> Some (Inl e)
      | Inr pubkey \<Rightarrow>
          eccx_loop P (if py_or pubkey [] = [] then None else pubkey) raw_privkey
            (py_or raw_privkey [] \<noteq> [] \<or> py_or pubkey [] \<noteq> []) 0)"

definition get_ecdh_key :: "crypto_lib \<Rightarrow> ecc \<Rightarrow> bytes \<Rightarrow> bytes res" where
  "get_ecdh_key P ecc raw_pubkey =
     bind_res (assert_res (length raw_pubkey = 64)) (\<lambda>_.
     bind_res (raw_ecdh P ecc (take 32 raw_pubkey) (drop 32 raw_pubkey)) (\<lambda>key.
     bind_res (assert_res (length key = 32)) (\<lambda>_.
     Inr key)))"

text \<open>Every exception counts as an invalid key.\<close>

definition is_valid_key :: "crypto_lib \<Rightarrow> bytes option \<Rightarrow> bytes \<Rightarrow> bool" where
  "is_valid_key P raw_privkey raw_pubkey =
     (case bind_res (assert_res (length raw_pubkey = 64)) (\<lambda>_.
           check_key P raw_privkey (take 32 raw_pubkey) (drop 32 raw_pubkey)) of
        Inl _ \<Rightarrow> False
      | Inr failed \<Rightarrow> \<not> failed)"

section \<open>Key derivation\<close>

text \<open>
  \<open>while counter <= reps\<close>, with \<open>reps\<close> a quotient that Python 3 does not round:
  \<open>counter \<le> x / 64\<close> is \<open>64 * counter \<le> x\<close>.
\<close>

function kdf_loop :: "crypto_lib \<Rightarrow> bytes \<Rightarrow> nat \<Rightarrow> nat \<Rightarrow> bytes \<Rightarrow> bytes res" where
  "kdf_loop P key_material key_len counter key =
     (if 64 * counter \<le> key_len + 7 then
        bind_res (if counter + 1 < 2 ^ 32 then Inr (be_bytes 4 (counter + 1)) else Inl StructError) (\<lambda>c.
        kdf_loop P key_material key_len (counter + 1) (key @ sha256 P (c @ key_material)))
      else Inr key)"
  by pat_completeness auto
termination
  by (relation "measure (\<lambda>(P, m, l, c, k). l + 8 - 64 * c)") auto

declare kdf_loop.simps [simp del]

definition eciesKDF :: "crypto_lib \<Rightarrow> bytes \<Rightarrow> nat \<Rightarrow> bytes res" where
  "eciesKDF P key_material key_len =
     bind_res (kdf_loop P key_material key_len 0 []) (\<lambda>key. Inr (take key_len key))"

section \<open>The encryption scheme\<close>

text \<open>The keys for encryption and authentication that both sides derive.\<close>

definition ecies_keys :: "crypto_lib \<Rightarrow> bytes \<Rightarrow> (bytes \<times> bytes) res" where
  "ecies_keys P key_material =
     bind_res (assert_res (length key_material = 32)) (\<lambda>_.
     bind_res (eciesKDF P key_material 32) (\<lambda>key.
     bind_res (assert_res (length key = 32)) (\<lambda>_.
     let key_mac = sha256 P (drop 16 key) in
     bind_res (assert_res (length key_mac = 32)) (\<lambda>_.
     Inr (take 16 key, key_mac)))))"

text \<open>\<open>ephem\<close> is the key that \<open>ECCx()\<close> generates, \<open>iv\<close> what \<open>gen_IV\<close> returns.\<close>

definition ecies_encrypt ::
  "crypto_lib \<Rightarrow> ecc \<Rightarrow> bytes \<Rightarrow> bytes \<Rightarrow> bytes \<Rightarrow> bytes \<Rightarrow> bytes res" where
  "ecies_encrypt P ephem iv data raw_pubkey shared_mac_data =
     bind_res (raw_ecdh P ephem (take 32 raw_pubkey) (drop 32 raw_pubkey)) (\<lambda>key_material.
     bind_res (ecies_keys P key_material) (\<lambda>(key_enc, key_mac).
     bind_res (assert_res (length iv = 16)) (\<lambda>_.
     let ciphertext = ctr_xor (ctr_stream P key_enc iv) 0 data in
     bind_res (assert_res (length ciphertext = length data)) (\<lambda>_.
     let msg = [4] @ e_pubkey ephem @ iv @ ciphertext;
         tag = hmac_sha256 P key_mac (drop (1 + 64) msg @ shared_mac_data) in
     bind_res (assert_res (length tag = 32)) (\<lambda>_.
     let msg = msg @ tag in
     bind_res (assert_res (length msg = 113 + length data)) (\<lambda>_.
     Inr msg))))))"

definition ecies_decrypt :: "crypto_lib \<Rightarrow> ecc \<Rightarrow> bytes \<Rightarrow> bytes \<Rightarrow> bytes res" where
  "ecies_decrypt P ecc data shared_mac_data =
     (if take 1 data \<noteq> [4] then Inl ECIESDecryptionError
      else
        let shared = slice 1 (1 + 64) data in
        bind_res (raw_ecdh P ecc (take 32 shared) (drop 32 shared)) (\<lambda>key_material.
        bind_res (ecies_keys P key_material) (\<lambda>(key_enc, key_mac).
        let tag = drop (length data - 32) data in
        bind_res (assert_res (length tag = 32)) (\<lambda>_.
        if hmac_sha256 P key_mac (drop (1 + 64) (py_take (- 32) data) @ shared_mac_data) \<noteq> tag
        then Inl ECIESDecryptionError
        else
          let blocksize = ctr_blocksize P;
              iv = slice (1 + 64) (1 + 64 + blocksize) data in
          bind_res (assert_res (length iv = 16)) (\<lambda>_.
          let ciphertext = drop (1 + 64 + blocksize) (py_take (- 32) data) in
          bind_res (assert_res (1 + length shared + length iv + length ciphertext + length tag = length data)) (\<lambda>_.
          Inr (ctr_xor (ctr_stream P key_enc iv) 0 ciphertext)))))))"

definition crypto_encrypt :: "crypto_lib \<Rightarrow> ecc \<Rightarrow> bytes \<Rightarrow> bytes \<Rightarrow> bytes \<Rightarrow> bytes res" where
  "crypto_encrypt P ephem iv data raw_pubkey =
     bind_res (assert_res (length raw_pubkey = 64)) (\<lambda>_. ecies_encrypt P ephem iv data raw_pubkey [])"

section \<open>Signatures\<close>

definition ecdsa_verify :: "crypto_lib \<Rightarrow> bytes \<Rightarrow> bytes \<Rightarrow> bytes \<Rightarrow> bool res" where
  "ecdsa_verify P pubkey signature message =
     bind_res (assert_res (length pubkey = 64)) (\<lambda>_.
     bind_res (recover_key P signature message) (\<lambda>pk. Inr (pk = [4] @ pubkey)))"

definition ecdsa_sign :: "crypto_lib \<Rightarrow> bytes \<Rightarrow> bytes \<Rightarrow> bytes res" where
  "ecdsa_sign P msghash privkey = sign_recoverable P msghash privkey"

definition ecdsa_recover :: "crypto_lib \<Rightarrow> bytes \<Rightarrow> bytes \<Rightarrow> bytes res" where
  "ecdsa_recover P message signature =
     bind_res (assert_res (length signature = 65)) (\<lambda>_.
     bind_res (recover_key P signature message) (\<lambda>pk. Inr (drop 1 pk)))"

text \<open>\<open>ECCx.sign\<close> and \<open>ECCx.verify\<close>; an object without a private key passes \<open>None\<close> on.\<close>

definition ecc_sign :: "crypto_lib \<Rightarrow> ecc \<Rightarrow> bytes \<Rightarrow> bytes res" where
  "ecc_sign P ecc data =
     (case e_privkey ecc of
        None \<Rightarrow> Inl TypeError
      | Some k \<Rightarrow>
          bind_res (ecdsa_sign P data k) (\<lambda>signature.
          bind_res (assert_res (length signature = 65)) (\<lambda>_.
          Inr signature)))"

definition ecc_verify :: "crypto_lib \<Rightarrow> ecc \<Rightarrow> bytes \<Rightarrow> bytes \<Rightarrow> bool res" where
  "ecc_verify P ecc signature message =
     bind_res (assert_res (length signature = 65)) (\<lambda>_. ecdsa_verify P (e_pubkey ecc) signature message)"

end
