(* ===== verification/Rlpx.thy ===== *)
theory Rlpx
  imports Crypto Frame_Transport
begin

text \<open>
  \<open>RLPxSession\<close> (\<open>devp2p/rlpxcipher.py\<close>): the handshake in which two nodes agree on secrets, and the
  encryption and authentication of frames with them. A running hash object is the bytes it has
  absorbed, a stream cipher object its key and its position.
\<close>

definition sxor :: "bytes \<Rightarrow> bytes \<Rightarrow> bytes res" where
  "sxor s1 s2 = bind_res (assert_res (length s1 = length s2)) (\<lambda>_. Inr (map2 xor s1 s2))"

definition supported_rlpx_version :: nat where "supported_rlpx_version = 4"

text \<open>
  The codec of the EIP-8 messages, from the \<open>rlp\<close> package, not strict. \<open>Inr None\<close> is a list with
  fewer values than the messages need.
\<close>

record eip8_lib =
  enc_ack :: "bytes \<Rightarrow> bytes \<Rightarrow> nat \<Rightarrow> bytes res"
  dec_ack :: "bytes \<Rightarrow> (bytes \<times> bytes \<times> nat) option res"
  dec_auth :: "bytes \<Rightarrow> (bytes \<times> bytes \<times> bytes \<times> nat) option res"

record session =
  s_ecc :: ecc
  s_is_initiator :: bool
  s_ephemeral :: ecc
  s_remote_ephemeral_pubkey :: "bytes option"
  s_initiator_nonce :: "bytes option"
  s_responder_nonce :: "bytes option"
  s_auth_init :: "bytes option"
  s_auth_ack :: "bytes option"
  s_ecdhe_shared_secret :: "bytes option"
  s_shared_secret :: "bytes option"
  s_token :: "bytes option"
  s_aes_secret :: "bytes option"
  s_mac_secret :: "bytes option"
  s_aes_enc :: "(bytes \<times> nat) option"
  s_aes_dec :: "(bytes \<times> nat) option"
  s_mac_enc :: "bytes option"
  s_egress_mac :: "bytes option"
  s_ingress_mac :: "bytes option"
  s_is_ready :: bool
  s_remote_pubkey :: "bytes option"
  s_remote_version :: nat
  s_got_eip8_auth :: bool
  s_got_eip8_ack :: bool

definition mk_session :: "ecc \<Rightarrow> bool \<Rightarrow> ecc \<Rightarrow> session" where
  "mk_session ecc is_initiator ephemeral = \<lparr>
     s_ecc = ecc, s_is_initiator = is_initiator, s_ephemeral = ephemeral,
     s_remote_ephemeral_pubkey = None, s_initiator_nonce = None, s_responder_nonce = None,
     s_auth_init = None, s_auth_ack = None, s_ecdhe_shared_secret = None, s_shared_secret = None,
     s_token = None, s_aes_secret = None, s_mac_secret = None, s_aes_enc = None, s_aes_dec = None,
     s_mac_enc = None, s_egress_mac = None, s_ingress_mac = None, s_is_ready = False,
     s_remote_pubkey = None, s_remote_version = 0, s_got_eip8_auth = False, s_got_eip8_ack = False\<rparr>"

section \<open>Frames\<close>

text \<open>Using an attribute that is still \<open>None\<close> raises \<open>AttributeError\<close>, or \<open>TypeError\<close> for a function.\<close>

definition need :: "exn \<Rightarrow> 'a option \<Rightarrow> 'a res" where
  "need e x = (case x of None \<Rightarrow> Inl e | Some y \<Rightarrow> Inr y)"

definition zero_iv :: bytes where "zero_iv = replicate 16 0"

definition aes_encrypt :: "crypto_lib \<Rightarrow> bytes \<Rightarrow> (session, bytes) prog" where
  "aes_encrypt P data =
     seq (gets s_aes_enc) (\<lambda>c.
     seq (lift_res (need AttributeError c)) (\<lambda>(key, pos).
     seq (modify (\<lambda>s. s\<lparr>s_aes_enc := Some (key, pos + length data)\<rparr>)) (\<lambda>_.
     ret (ctr_xor (ctr_stream P key zero_iv) pos data))))"

definition aes_decrypt :: "crypto_lib \<Rightarrow> bytes \<Rightarrow> (session, bytes) prog" where
  "aes_decrypt P data =
     seq (gets s_aes_dec) (\<lambda>c.
     seq (lift_res (need AttributeError c)) (\<lambda>(key, pos).
     seq (modify (\<lambda>s. s\<lparr>s_aes_dec := Some (key, pos + length data)\<rparr>)) (\<lambda>_.
     ret (ctr_xor (ctr_stream P key zero_iv) pos data))))"

definition egress :: "crypto_lib \<Rightarrow> bytes \<Rightarrow> (session, bytes) prog" where
  "egress P data =
     seq (gets s_egress_mac) (\<lambda>m.
     seq (lift_res (need AttributeError m)) (\<lambda>absorbed.
     seq (modify (\<lambda>s. s\<lparr>s_egress_mac := Some (absorbed @ data)\<rparr>)) (\<lambda>_.
     ret (keccak256 P (absorbed @ data)))))"

definition ingress :: "crypto_lib \<Rightarrow> bytes \<Rightarrow> (session, bytes) prog" where
  "ingress P data =
     seq (gets s_ingress_mac) (\<lambda>m.
     seq (lift_res (need AttributeError m)) (\<lambda>absorbed.
     seq (modify (\<lambda>s. s\<lparr>s_ingress_mac := Some (absorbed @ data)\<rparr>)) (\<lambda>_.
     ret (keccak256 P (absorbed @ data)))))"

definition mac_enc :: "crypto_lib \<Rightarrow> bytes \<Rightarrow> (session, bytes) prog" where
  "mac_enc P block =
     seq (gets s_mac_enc) (\<lambda>k.
     seq (lift_res (need TypeError k)) (\<lambda>key.
     ret (aes_ecb P key block)))"

text \<open>
  \<open>mac(sxor(self.mac_enc(mac()[:16]), seed))[:16]\<close>, for either direction.
\<close>

definition mac_of :: "crypto_lib \<Rightarrow> (bytes \<Rightarrow> (session, bytes) prog) \<Rightarrow> bytes \<Rightarrow> (session, bytes) prog" where
  "mac_of P mac seed =
     seq (mac []) (\<lambda>d.
     seq (mac_enc P (take 16 d)) (\<lambda>e.
     seq (lift_res (sxor e seed)) (\<lambda>x.
     seq (mac x) (\<lambda>d. ret (take 16 d)))))"

definition rlpx_encrypt :: "crypto_lib \<Rightarrow> bytes \<Rightarrow> bytes \<Rightarrow> (session, bytes) prog" where
  "rlpx_encrypt P header frame =
     seq (gets s_is_ready) (\<lambda>ready.
     seq (py_assert ready) (\<lambda>_.
     seq (py_assert (length header = 16)) (\<lambda>_.
     seq (py_assert (length frame mod 16 = 0)) (\<lambda>_.
     seq (aes_encrypt P header) (\<lambda>header_ciphertext.
     seq (py_assert (length header_ciphertext = 16)) (\<lambda>_.
     seq (mac_of P (egress P) header_ciphertext) (\<lambda>header_mac.
     seq (aes_encrypt P frame) (\<lambda>frame_ciphertext.
     seq (py_assert (length frame_ciphertext = length frame)) (\<lambda>_.
     seq (egress P frame_ciphertext) (\<lambda>fmac_seed.
     seq (mac_of P (egress P) (take 16 fmac_seed)) (\<lambda>frame_mac.
     ret (header_ciphertext @ header_mac @ frame_ciphertext @ frame_mac))))))))))))"

definition rlpx_decrypt_header :: "crypto_lib \<Rightarrow> bytes \<Rightarrow> (session, bytes) prog" where
  "rlpx_decrypt_header P data =
     seq (gets s_is_ready) (\<lambda>ready.
     seq (py_assert ready) (\<lambda>_.
     seq (py_assert (length data = 32)) (\<lambda>_.
     let header_ciphertext = take 16 data;
         header_mac = slice 16 32 data in
     seq (mac_of P (ingress P) header_ciphertext) (\<lambda>expected_header_mac.
     if expected_header_mac \<noteq> header_mac then throw AuthenticationError
     else aes_decrypt P header_ciphertext))))"

definition rlpx_decrypt_body :: "crypto_lib \<Rightarrow> bytes \<Rightarrow> nat \<Rightarrow> (session, bytes) prog" where
  "rlpx_decrypt_body P data n =
     seq (gets s_is_ready) (\<lambda>ready.
     seq (py_assert ready) (\<lambda>_.
     let read_size = ceil16 n in
     if \<not> (read_size + 16 \<le> length data) then throw FormatError
     else
       let frame_ciphertext = take read_size data;
           frame_mac = slice read_size (read_size + 16) data in
       seq (py_assert (length frame_mac = 16)) (\<lambda>_.
       seq (ingress P frame_ciphertext) (\<lambda>fmac_seed.
       seq (mac_of P (ingress P) (take 16 fmac_seed)) (\<lambda>expected_frame_mac.
       if frame_mac \<noteq> expected_frame_mac then throw AuthenticationError
       else seq (aes_decrypt P frame_ciphertext) (\<lambda>frame. ret (take n frame)))))))"

definition rlpx_decrypt :: "crypto_lib \<Rightarrow> bytes \<Rightarrow> (session, bytes \<times> bytes \<times> nat) prog" where
  "rlpx_decrypt P data =
     seq (rlpx_decrypt_header P (take 32 data)) (\<lambda>header.
     seq (lift_res (header_body_size header)) (\<lambda>n.
     if \<not> (32 + ceil16 n + 16 \<le> length data) then throw FormatError
     else
       seq (rlpx_decrypt_body P (drop 32 data) n) (\<lambda>frame.
       ret (header, frame, 32 + ceil16 (length frame) + 16))))"

text \<open>A session as the cipher of a multiplexer.\<close>

definition rlpx_cipher :: "crypto_lib \<Rightarrow> session cipher" where
  "rlpx_cipher P = \<lparr>c_encrypt = rlpx_encrypt P, c_decrypt_header = rlpx_decrypt_header P,
     c_decrypt_body = rlpx_decrypt_body P\<rparr>"

end
