(* ===== verification/Handshake.thy ===== *)
theory Handshake
  imports Rlpx
begin

text \<open>
  The handshake of \<open>RLPxSession\<close>: the initiator sends \<open>auth\<close>, the responder answers with \<open>ack\<close>, and
  both derive the secrets of the connection. A message may come in the old format or in that of
  EIP-8. The functions that only read the session take its \<open>ecc\<close> instead. Nonces may be given, as
  in the code; \<open>random\<close> is the serialized random number otherwise, \<open>ephem\<close> and \<open>iv\<close> are drawn by
  the encryption.
\<close>

definition is_runtime_error :: "exn \<Rightarrow> bool" where
  "is_runtime_error e \<longleftrightarrow> e = ECIESDecryptionError \<or> e = RecursionError"

text \<open>\<open>except RuntimeError as e: raise AuthenticationError(e)\<close>.\<close>

definition auth_error :: "'a res \<Rightarrow> 'a res" where
  "auth_error r = (case r of Inl e \<Rightarrow> Inl (if is_runtime_error e then AuthenticationError else e) | Inr x \<Rightarrow> Inr x)"

text \<open>\<open>struct.unpack('>H', ...)[0] + 2\<close>: the length of an EIP-8 message with its prefix.\<close>

definition eip8_size :: "bytes \<Rightarrow> nat res" where
  "eip8_size ciphertext =
     (if length (take 2 ciphertext) = 2 then Inr (be_val (take 2 ciphertext) + 2) else Inl StructError)"

section \<open>The auth message\<close>

definition create_auth_message ::
  "crypto_lib \<Rightarrow> bytes \<Rightarrow> bytes option \<Rightarrow> bytes \<Rightarrow> (session, bytes) prog" where
  "create_auth_message P remote_pubkey nonce random =
     seq (gets s_is_initiator) (\<lambda>is_initiator.
     seq (py_assert is_initiator) (\<lambda>_.
     if \<not> is_valid_key P None remote_pubkey then throw InvalidKeyError
     else
       seq (modify (\<lambda>s. s\<lparr>s_remote_pubkey := Some remote_pubkey\<rparr>)) (\<lambda>_.
       seq (gets s_ecc) (\<lambda>ecc.
       seq (lift_res (get_ecdh_key P ecc remote_pubkey)) (\<lambda>token.
       let initiator_nonce = py_or nonce (sha3 P random) in
       seq (modify (\<lambda>s. s\<lparr>s_initiator_nonce := Some initiator_nonce\<rparr>)) (\<lambda>_.
       seq (py_assert (length initiator_nonce = 32)) (\<lambda>_.
       seq (lift_res (sxor token initiator_nonce)) (\<lambda>token_xor_nonce.
       seq (py_assert (length token_xor_nonce = 32)) (\<lambda>_.
       seq (gets s_ephemeral) (\<lambda>ephemeral.
       let ephemeral_pubkey = e_pubkey ephemeral in
       seq (py_assert (length ephemeral_pubkey = 512 div 8)) (\<lambda>_.
       if \<not> is_valid_key P None ephemeral_pubkey then throw InvalidKeyError
       else
         seq (lift_res (ecc_sign P ephemeral token_xor_nonce)) (\<lambda>S.
         seq (py_assert (length S = 65)) (\<lambda>_.
         let auth_message = S @ sha3 P ephemeral_pubkey @ e_pubkey ecc @ initiator_nonce @ [0] in
         seq (py_assert (length auth_message = 194)) (\<lambda>_.
         ret auth_message))))))))))))))"

definition encrypt_auth_message ::
  "crypto_lib \<Rightarrow> ecc \<Rightarrow> bytes \<Rightarrow> bytes \<Rightarrow> bytes option \<Rightarrow> (session, bytes) prog" where
  "encrypt_auth_message P ephem iv auth_message remote_pubkey =
     seq (gets s_is_initiator) (\<lambda>is_initiator.
     seq (py_assert is_initiator) (\<lambda>_.
     seq (gets s_remote_pubkey) (\<lambda>own.
     seq (lift_res (if py_or remote_pubkey [] \<noteq> [] then Inr (py_or remote_pubkey []) else need TypeError own)) (\<lambda>pubkey.
     seq (lift_res (ecies_encrypt P ephem iv auth_message pubkey [])) (\<lambda>auth_init.
     seq (modify (\<lambda>s. s\<lparr>s_auth_init := Some auth_init\<rparr>)) (\<lambda>_.
     seq (py_assert (length auth_init = 307)) (\<lambda>_.
     ret auth_init)))))))"

definition decode_auth_plain ::
  "crypto_lib \<Rightarrow> ecc \<Rightarrow> bytes \<Rightarrow> (nat \<times> bytes \<times> bytes \<times> bytes \<times> nat) res" where
  "decode_auth_plain P ecc ciphertext =
     bind_res (auth_error (ecies_decrypt P ecc (take 307 ciphertext) [])) (\<lambda>message.
     bind_res (assert_res (length message = 194)) (\<lambda>_.
     let signature = take 65 message;
         pubkey = slice (65 + 32) (65 + 32 + 64) message in
     if \<not> is_valid_key P None pubkey then Inl InvalidKeyError
     else
       let nonce = slice (65 + 32 + 64) (65 + 32 + 64 + 32) message in
       bind_res (assert_res (hd (drop (65 + 32 + 64 + 32) message) = 0)) (\<lambda>_.
       Inr (307, signature, pubkey, nonce, 4))))"

definition decode_auth_eip8 ::
  "crypto_lib \<Rightarrow> eip8_lib \<Rightarrow> ecc \<Rightarrow> bytes \<Rightarrow> (nat \<times> bytes \<times> bytes \<times> bytes \<times> nat) res" where
  "decode_auth_eip8 P E ecc ciphertext =
     bind_res (eip8_size ciphertext) (\<lambda>n.
     if length ciphertext < n then Inl FormatError
     else
       bind_res (auth_error (ecies_decrypt P ecc (slice 2 n ciphertext) (take 2 ciphertext))) (\<lambda>message.
       bind_res (dec_auth E message) (\<lambda>values.
       bind_res (need AssertionError values) (\<lambda>(sig, pubkey, nonce, version).
       Inr (n, sig, pubkey, nonce, version)))))"

text \<open>The size of the message, what it says, and whether it was in the new format.\<close>

definition decode_auth_any ::
  "crypto_lib \<Rightarrow> eip8_lib \<Rightarrow> ecc \<Rightarrow> bytes \<Rightarrow> ((nat \<times> bytes \<times> bytes \<times> bytes \<times> nat) \<times> bool) res" where
  "decode_auth_any P E ecc ciphertext =
     (case decode_auth_plain P ecc ciphertext of
        Inr x \<Rightarrow> Inr (x, False)
      | Inl e \<Rightarrow>
          if e = AuthenticationError
          then bind_res (decode_auth_eip8 P E ecc ciphertext) (\<lambda>x. Inr (x, True))
          else Inl e)"

definition decode_authentication :: "crypto_lib \<Rightarrow> eip8_lib \<Rightarrow> bytes \<Rightarrow> (session, bytes) prog" where
  "decode_authentication P E ciphertext =
     seq (gets s_is_initiator) (\<lambda>is_initiator.
     seq (py_assert (\<not> is_initiator)) (\<lambda>_.
     if length ciphertext < 307 then throw FormatError
     else
       seq (gets s_ecc) (\<lambda>ecc.
       seq (lift_res (decode_auth_any P E ecc ciphertext)) (\<lambda>((n, sig, initiator_pubkey, nonce, version), eip8).
       seq (modify (\<lambda>s. s\<lparr>s_got_eip8_auth := s_got_eip8_auth s \<or> eip8, s_auth_init := Some (take n ciphertext)\<rparr>)) (\<lambda>_.
       seq (lift_res (get_ecdh_key P ecc initiator_pubkey)) (\<lambda>token.
       seq (lift_res (sxor token nonce)) (\<lambda>x.
       seq (lift_res (ecdsa_recover P x sig)) (\<lambda>pubkey.
       seq (modify (\<lambda>s. s\<lparr>s_remote_ephemeral_pubkey := Some pubkey\<rparr>)) (\<lambda>_.
       if \<not> is_valid_key P None pubkey then throw InvalidKeyError
       else
         seq (modify (\<lambda>s. s\<lparr>s_initiator_nonce := Some nonce, s_remote_pubkey := Some initiator_pubkey,
                             s_remote_version := version\<rparr>)) (\<lambda>_.
         ret (drop n ciphertext)))))))))))"

section \<open>The ack message\<close>

definition create_eip8_auth_ack_message ::
  "eip8_lib \<Rightarrow> bytes \<Rightarrow> bytes \<Rightarrow> bytes \<Rightarrow> nat \<Rightarrow> bytes res" where
  "create_eip8_auth_ack_message E pad ephemeral_pubkey nonce version =
     bind_res (enc_ack E ephemeral_pubkey nonce version) (\<lambda>data. Inr (data @ pad))"

text \<open>\<open>pad\<close> is the random padding of the new format.\<close>

definition create_auth_ack_message ::
  "crypto_lib \<Rightarrow> eip8_lib \<Rightarrow> nat \<Rightarrow> bool \<Rightarrow> bytes option \<Rightarrow> bytes option \<Rightarrow> bytes \<Rightarrow> bytes \<Rightarrow> (session, bytes) prog" where
  "create_auth_ack_message P E version eip8 ephemeral_pubkey nonce random pad =
     seq (gets s_is_initiator) (\<lambda>is_initiator.
     seq (py_assert (\<not> is_initiator)) (\<lambda>_.
     seq (gets s_ephemeral) (\<lambda>ephemeral.
     let pubkey = py_or ephemeral_pubkey (e_pubkey ephemeral);
         responder_nonce = py_or nonce (sha3 P random) in
     seq (modify (\<lambda>s. s\<lparr>s_responder_nonce := Some responder_nonce\<rparr>)) (\<lambda>_.
     seq (gets s_got_eip8_auth) (\<lambda>got.
     if eip8 \<or> got then
       seq (lift_res (create_eip8_auth_ack_message E pad pubkey responder_nonce version)) (\<lambda>msg.
       seq (py_assert (length msg > 97)) (\<lambda>_.
       ret msg))
     else
       let msg = pubkey @ responder_nonce @ [0] in
       seq (py_assert (length msg = 97)) (\<lambda>_.
       ret msg))))))"

definition encrypt_auth_ack_message ::
  "crypto_lib \<Rightarrow> ecc \<Rightarrow> bytes \<Rightarrow> bytes \<Rightarrow> bool \<Rightarrow> bytes option \<Rightarrow> (session, bytes) prog" where
  "encrypt_auth_ack_message P ephem iv ack_message eip8 remote_pubkey =
     seq (gets s_is_initiator) (\<lambda>is_initiator.
     seq (py_assert (\<not> is_initiator)) (\<lambda>_.
     seq (gets s_remote_pubkey) (\<lambda>own.
     seq (lift_res (if py_or remote_pubkey [] \<noteq> [] then Inr (py_or remote_pubkey []) else need TypeError own)) (\<lambda>pubkey.
     seq (gets s_got_eip8_auth) (\<lambda>got.
     if eip8 \<or> got then
       let n = length ack_message + 113 in
       seq (lift_res (if n < 2 ^ 16 then Inr (be_bytes 2 n) else Inl StructError)) (\<lambda>prefix.
       seq (lift_res (ecies_encrypt P ephem iv ack_message pubkey prefix)) (\<lambda>auth_ack.
       seq (modify (\<lambda>s. s\<lparr>s_auth_ack := Some (prefix @ auth_ack)\<rparr>)) (\<lambda>_.
       ret (prefix @ auth_ack))))
     else
       seq (lift_res (ecies_encrypt P ephem iv ack_message pubkey [])) (\<lambda>auth_ack.
       seq (modify (\<lambda>s. s\<lparr>s_auth_ack := Some auth_ack\<rparr>)) (\<lambda>_.
       seq (py_assert (length auth_ack = 210)) (\<lambda>_.
       ret auth_ack))))))))"

definition decode_ack_plain :: "crypto_lib \<Rightarrow> ecc \<Rightarrow> bytes \<Rightarrow> (nat \<times> bytes \<times> bytes \<times> nat) res" where
  "decode_ack_plain P ecc ciphertext =
     bind_res (auth_error (ecies_decrypt P ecc (take 210 ciphertext) [])) (\<lambda>message.
     bind_res (assert_res (length message = 64 + 32 + 1)) (\<lambda>_.
     let eph_pubkey = take 64 message;
         nonce = slice 64 (64 + 32) message in
     bind_res (assert_res (last message = 0)) (\<lambda>_.
     Inr (210, eph_pubkey, nonce, 4))))"

definition decode_ack_eip8 ::
  "crypto_lib \<Rightarrow> eip8_lib \<Rightarrow> ecc \<Rightarrow> bytes \<Rightarrow> (nat \<times> bytes \<times> bytes \<times> nat) res" where
  "decode_ack_eip8 P E ecc ciphertext =
     bind_res (eip8_size ciphertext) (\<lambda>n.
     bind_res (assert_res (length ciphertext = n)) (\<lambda>_.
     bind_res (auth_error (ecies_decrypt P ecc (slice 2 n ciphertext) (take 2 ciphertext))) (\<lambda>message.
     bind_res (dec_ack E message) (\<lambda>values.
     bind_res (need AssertionError values) (\<lambda>(eph_pubkey, nonce, version).
     Inr (n, eph_pubkey, nonce, version))))))"

definition decode_ack_any ::
  "crypto_lib \<Rightarrow> eip8_lib \<Rightarrow> ecc \<Rightarrow> bytes \<Rightarrow> ((nat \<times> bytes \<times> bytes \<times> nat) \<times> bool) res" where
  "decode_ack_any P E ecc ciphertext =
     (case decode_ack_plain P ecc ciphertext of
        Inr x \<Rightarrow> Inr (x, False)
      | Inl e \<Rightarrow>
          if e = AuthenticationError
          then bind_res (decode_ack_eip8 P E ecc ciphertext) (\<lambda>x. Inr (x, True))
          else Inl e)"

definition decode_auth_ack_message :: "crypto_lib \<Rightarrow> eip8_lib \<Rightarrow> bytes \<Rightarrow> (session, bytes) prog" where
  "decode_auth_ack_message P E ciphertext =
     seq (gets s_is_initiator) (\<lambda>is_initiator.
     seq (py_assert is_initiator) (\<lambda>_.
     seq (py_assert (210 \<le> length ciphertext)) (\<lambda>_.
     seq (gets s_ecc) (\<lambda>ecc.
     seq (lift_res (decode_ack_any P E ecc ciphertext)) (\<lambda>((n, eph_pubkey, nonce, version), eip8).
     seq (modify (\<lambda>s. s\<lparr>s_got_eip8_ack := s_got_eip8_ack s \<or> eip8, s_auth_ack := Some (take n ciphertext),
       s_remote_ephemeral_pubkey := Some (take 64 eph_pubkey), s_responder_nonce := Some nonce,
       s_remote_version := version\<rparr>)) (\<lambda>_.
     if \<not> is_valid_key P None (take 64 eph_pubkey) then throw InvalidKeyError
     else ret (drop n ciphertext)))))))"

section \<open>Key derivation\<close>

text \<open>\<open>assert self.x\<close>: neither \<open>None\<close> nor empty. The value is at hand afterwards.\<close>

definition truthy_attr :: "(session \<Rightarrow> bytes option) \<Rightarrow> (session, bytes) prog" where
  "truthy_attr f = seq (gets f) (\<lambda>x. seq (py_assert (py_or x [] \<noteq> [])) (\<lambda>_. ret (py_or x [])))"

definition setup_cipher :: "crypto_lib \<Rightarrow> (session, unit) prog" where
  "setup_cipher P =
     seq (truthy_attr s_responder_nonce) (\<lambda>responder_nonce.
     seq (truthy_attr s_initiator_nonce) (\<lambda>initiator_nonce.
     seq (truthy_attr s_auth_init) (\<lambda>auth_init.
     seq (truthy_attr s_auth_ack) (\<lambda>auth_ack.
     seq (truthy_attr s_remote_ephemeral_pubkey) (\<lambda>remote_ephemeral_pubkey.
     if \<not> is_valid_key P None remote_ephemeral_pubkey then throw InvalidKeyError
     else
       seq (gets s_ephemeral) (\<lambda>ephemeral.
       seq (lift_res (get_ecdh_key P ephemeral remote_ephemeral_pubkey)) (\<lambda>ecdhe_shared_secret.
       let shared_secret = sha3 P (ecdhe_shared_secret @ sha3 P (responder_nonce @ initiator_nonce));
           token = sha3 P shared_secret;
           aes_secret = sha3 P (ecdhe_shared_secret @ shared_secret);
           mac_secret = sha3 P (ecdhe_shared_secret @ aes_secret) in
       seq (modify (\<lambda>s. s\<lparr>s_ecdhe_shared_secret := Some ecdhe_shared_secret,
         s_shared_secret := Some shared_secret, s_token := Some token,
         s_aes_secret := Some aes_secret, s_mac_secret := Some mac_secret\<rparr>)) (\<lambda>_.
       seq (lift_res (sxor mac_secret responder_nonce)) (\<lambda>x1.
       seq (lift_res (sxor mac_secret initiator_nonce)) (\<lambda>x2.
       let mac1 = x1 @ auth_init;
           mac2 = x2 @ auth_ack in
       modify (\<lambda>s. s\<lparr>
         s_egress_mac := Some (if s_is_initiator s then mac1 else mac2),
         s_ingress_mac := Some (if s_is_initiator s then mac2 else mac1),
         s_aes_enc := Some (aes_secret, 0), s_aes_dec := Some (aes_secret, 0),
         s_mac_enc := Some mac_secret, s_is_ready := True\<rparr>)))))))))))"

end
