(* ===== verification/Crypto_Laws.thy ===== *)
theory Crypto_Laws
  imports Crypto
begin

text \<open>
  What the encryption scheme, the key derivation and the signatures of \<open>devp2p/crypto.py\<close>
  guarantee, given the documented laws of the primitives (\<open>hashes_ok\<close>, \<open>keys_ok\<close>), and a concrete
  instance of the primitives on which those laws hold.
\<close>

section \<open>Laws in the form they are used\<close>

lemma hashes_lengths:
  assumes "hashes_ok P"
  shows "length (sha256 P x) = 32" "length (keccak256 P x) = 32" "length (hmac_sha256 P k x) = 32"
    "length b = 16 \<Longrightarrow> length (aes_ecb P k b) = 16" "ctr_blocksize P = 16" "length (sha3 P x) = 32"
  using assms by (auto simp: hashes_ok_def sha3_def)

lemma key_pair_pub: "keys_ok P \<Longrightarrow> key_pair P e \<Longrightarrow> length (e_pubkey e) = 64"
  by (auto simp: keys_ok_def)

lemma key_pair_valid: "keys_ok P \<Longrightarrow> key_pair P e \<Longrightarrow> is_valid_key P None (e_pubkey e)"
  by (simp add: keys_ok_def is_valid_key_def)

text \<open>Both sides of a key agreement get the same 32 bytes.\<close>

lemma ecdh_agree:
  assumes "keys_ok P" "key_pair P a" "key_pair P b"
  obtains s where "length s = 32" "get_ecdh_key P a (e_pubkey b) = Inr s" "get_ecdh_key P b (e_pubkey a) = Inr s"
    "raw_ecdh P a (take 32 (e_pubkey b)) (drop 32 (e_pubkey b)) = Inr s"
    "raw_ecdh P b (take 32 (e_pubkey a)) (drop 32 (e_pubkey a)) = Inr s"
proof -
  note 1 = conjunct2 [OF assms(1) [unfolded keys_ok_def]]
  obtain s where s: "length s = 32" "raw_ecdh P a (take 32 (e_pubkey b)) (drop 32 (e_pubkey b)) = Inr s"
    "raw_ecdh P b (take 32 (e_pubkey a)) (drop 32 (e_pubkey a)) = Inr s"
    using conjunct1 [OF 1] assms(2,3) by blast
  with that key_pair_pub [OF assms(1,2)] key_pair_pub [OF assms(1,3)] show ?thesis
    by (simp add: get_ecdh_key_def)
qed

lemma sign_recover:
  assumes "keys_ok P" "key_pair P e" "length m = 32"
  obtains s where "length s = 65" "ecc_sign P e m = Inr s" "ecdsa_recover P m s = Inr (e_pubkey e)"
    "ecc_verify P e s m = Inr True"
proof -
  obtain k where k: "e_privkey e = Some k" using assms(2) by (auto simp: key_pair_def split: option.splits)
  note 1 = conjunct2 [OF conjunct2 [OF assms(1) [unfolded keys_ok_def]]]
  obtain s where "length s = 65" "sign_recoverable P m k = Inr s" "recover_key P s m = Inr (4 # e_pubkey e)"
    using 1 assms(2,3) k by blast
  with that k key_pair_pub [OF assms(1,2)] show ?thesis
    by (simp add: ecc_sign_def ecdsa_sign_def ecdsa_recover_def ecc_verify_def ecdsa_verify_def)
qed

section \<open>Key derivation\<close>

lemma kdf_loop_length:
  assumes "hashes_ok P"
  shows "kdf_loop P m l c k = Inr r \<Longrightarrow>
    length r = length k + 32 * (if 64 * c \<le> l + 7 then (l + 7) div 64 + 1 - c else 0)"
proof (induction "l + 8 - 64 * c" arbitrary: c k rule: less_induct)
  case less
  show ?case
  proof (cases "64 * c \<le> l + 7")
    case False
    with less.prems show ?thesis by (simp add: kdf_loop.simps [of P m l c])
  next
    case True
    then obtain x where "kdf_loop P m l (c + 1) (k @ sha256 P x) = Inr r"
      using less.prems by (auto simp: kdf_loop.simps [of P m l c] split: if_splits)
    from less.hyps [OF _ this] True hashes_lengths(1) [OF assms]
    have r: "length r = length k + 32 + 32 * (if 64 * (c + 1) \<le> l + 7 then (l + 7) div 64 + 1 - (c + 1) else 0)"
      by simp
    have le: "c \<le> (l + 7) div 64" using True by (simp add: less_eq_div_iff_mult_less_eq)
    moreover have "64 * (c + 1) \<le> l + 7 \<longleftrightarrow> c + 1 \<le> (l + 7) div 64"
      by (subst less_eq_div_iff_mult_less_eq) (auto simp: mult.commute)
    ultimately show ?thesis using r True by (auto split: if_splits)
  qed
qed

lemma kdf_length:
  assumes "hashes_ok P" "eciesKDF P m n = Inr k"
  shows "length k = min n (32 * ((n + 7) div 64 + 1))"
proof -
  obtain r where r: "kdf_loop P m n 0 [] = Inr r" "k = take n r"
    using assms(2) by (auto simp: eciesKDF_def bind_res_eq_Inr)
  from kdf_loop_length [OF assms(1) r(1)] show ?thesis unfolding r(2) by (simp add: min.commute)
qed

text \<open>The 32 bytes of the encryption scheme are one hash value.\<close>

lemma kdf_32: "hashes_ok P \<Longrightarrow> eciesKDF P m 32 = Inr (sha256 P (be_bytes 4 1 @ m))"
  by (simp add: eciesKDF_def kdf_loop.simps [of P m 32] hashes_lengths(1))

lemma ecies_keys_ok:
  assumes "hashes_ok P" "length m = 32"
  obtains ke km where "ecies_keys P m = Inr (ke, km)" "length km = 32"
proof -
  let ?k = "sha256 P (be_bytes 4 1 @ m)"
  have "ecies_keys P m = Inr (take 16 ?k, sha256 P (drop 16 ?k))"
    using assms by (simp add: ecies_keys_def kdf_32 hashes_lengths(1))
  with that assms(1) hashes_lengths(1) show ?thesis by blast
qed

section \<open>Encryption and decryption\<close>

text \<open>
  The shape of an encrypted message: a marker, the ephemeral public key, the initialisation vector,
  the ciphertext and the tag over the last two.
\<close>

lemma ecies_encrypt_shape:
  assumes "hashes_ok P" "keys_ok P" "key_pair P e" "key_pair P b" "length iv = 16"
  obtains s ke km tag where
    "ecies_keys P s = Inr (ke, km)"
    "raw_ecdh P b (take 32 (e_pubkey e)) (drop 32 (e_pubkey e)) = Inr s"
    "tag = hmac_sha256 P km (iv @ ctr_xor (ctr_stream P ke iv) 0 data @ mac)" "length tag = 32"
    "ecies_encrypt P e iv data (e_pubkey b) mac =
       Inr ([4] @ e_pubkey e @ iv @ ctr_xor (ctr_stream P ke iv) 0 data @ tag)"
proof -
  obtain s where s: "length s = 32" "raw_ecdh P e (take 32 (e_pubkey b)) (drop 32 (e_pubkey b)) = Inr s"
    "raw_ecdh P b (take 32 (e_pubkey e)) (drop 32 (e_pubkey e)) = Inr s"
    by (rule ecdh_agree [OF assms(2,3,4)])
  obtain ke km where k: "ecies_keys P s = Inr (ke, km)"
    by (rule ecies_keys_ok [OF assms(1) s(1)])
  have "ecies_encrypt P e iv data (e_pubkey b) mac =
      Inr ([4] @ e_pubkey e @ iv @ ctr_xor (ctr_stream P ke iv) 0 data @
        hmac_sha256 P km (iv @ ctr_xor (ctr_stream P ke iv) 0 data @ mac))"
    using assms(5) key_pair_pub [OF assms(2,3)]
    by (simp add: ecies_encrypt_def s k Let_def hashes_lengths [OF assms(1)])
  with that [OF k s(3) refl] show ?thesis by (simp add: hashes_lengths [OF assms(1)])
qed

lemma ecies_encrypt_length:
  assumes "hashes_ok P" "keys_ok P" "key_pair P e" "key_pair P b" "length iv = 16"
  obtains c where "ecies_encrypt P e iv data (e_pubkey b) mac = Inr c" "length c = 113 + length data" "take 1 c = [4]"
proof -
  obtain ke :: bytes and tag where "length tag = 32" "ecies_encrypt P e iv data (e_pubkey b) mac =
      Inr ([4] @ e_pubkey e @ iv @ ctr_xor (ctr_stream P ke iv) 0 data @ tag)"
    by (rule ecies_encrypt_shape [OF assms, of data mac], rule that)
  with that key_pair_pub [OF assms(2,3)] assms(5) show ?thesis by simp
qed

lemma ecies_decrypt_encrypt:
  assumes "hashes_ok P" "keys_ok P" "key_pair P e" "key_pair P b" "length iv = 16"
    and "ecies_encrypt P e iv data (e_pubkey b) mac = Inr c"
  shows "ecies_decrypt P b c mac = Inr data"
proof -
  obtain s ke km tag where k: "ecies_keys P s = Inr (ke, km)"
    "raw_ecdh P b (take 32 (e_pubkey e)) (drop 32 (e_pubkey e)) = Inr s"
    "tag = hmac_sha256 P km (iv @ ctr_xor (ctr_stream P ke iv) 0 data @ mac)" "length tag = 32"
    "ecies_encrypt P e iv data (e_pubkey b) mac =
       Inr ([4] @ e_pubkey e @ iv @ ctr_xor (ctr_stream P ke iv) 0 data @ tag)"
    by (rule ecies_encrypt_shape [OF assms(1-5)])
  define x where "x = ctr_xor (ctr_stream P ke iv) 0 data"
  have c: "c = [4] @ e_pubkey e @ iv @ x @ tag" using assms(6) k(5) by (simp add: x_def)
  have lens: "length (e_pubkey e) = 64" "length iv = 16" "length tag = 32" "length x = length data"
    using key_pair_pub [OF assms(2,3)] assms(5) k(4) by (simp_all add: x_def)
  define p where "p = [4] @ e_pubkey e @ iv @ x"
  have p: "c = p @ tag" "length p = 81 + length data" using lens by (simp_all add: c p_def)
  have parts: "take 1 c = [4]" "slice 1 (1 + 64) c = e_pubkey e" "drop (length c - 32) c = tag"
    "py_take (- 32) c = [4] @ e_pubkey e @ iv @ x" "slice (1 + 64) (1 + 64 + 16) c = iv"
    "drop (1 + 64) ([4] @ e_pubkey e @ iv @ x) = iv @ x" "drop (1 + 64 + 16) ([4] @ e_pubkey e @ iv @ x) = x"
    "length c = 113 + length data"
  proof -
    show "drop (length c - 32) c = tag" unfolding p(1) using p(2) lens by simp
    have "py_take (- 32) c = p" unfolding p(1) using p(2) lens by (simp add: py_take_def nat_add_distrib)
    then show "py_take (- 32) c = [4] @ e_pubkey e @ iv @ x" unfolding p_def .
  qed (use lens c in \<open>simp_all add: slice_def\<close>)
  have tag: "hmac_sha256 P km ((iv @ x) @ mac) = tag" unfolding k(3) x_def by simp
  show ?thesis
    unfolding ecies_decrypt_def Let_def parts(1-7) hashes_lengths(5) [OF assms(1)]
    using lens by (simp add: k(1,2) tag [simplified] parts(8)) (simp add: x_def)
qed

text \<open>Nothing is decrypted before its tag has been verified.\<close>

lemma ecies_decrypt_verified:
  assumes "ecies_decrypt P b c mac = Inr data" "ctr_blocksize P = 16"
  obtains R iv x tag s ke km where "c = [4] @ R @ iv @ x @ tag" "length R = 64" "length iv = 16" "length tag = 32"
    "raw_ecdh P b (take 32 R) (drop 32 R) = Inr s" "ecies_keys P s = Inr (ke, km)"
    "hmac_sha256 P km (iv @ x @ mac) = tag" "data = ctr_xor (ctr_stream P ke iv) 0 x"
proof -
  define R where "R = slice 1 (1 + 64) c"
  define iv where "iv = slice (1 + 64) (1 + 64 + 16) c"
  define x where "x = drop (1 + 64 + 16) (py_take (- 32) c)"
  define tag where "tag = drop (length c - 32) c"
  obtain s ke km where *: "take 1 c = [4]" "raw_ecdh P b (take 32 R) (drop 32 R) = Inr s"
    "ecies_keys P s = Inr (ke, km)" "length tag = 32" "hmac_sha256 P km (drop 65 (py_take (- 32) c) @ mac) = tag"
    "length iv = 16" "1 + length R + length iv + length x + length tag = length c"
    "data = ctr_xor (ctr_stream P ke iv) 0 x"
    using assms unfolding ecies_decrypt_def R_def iv_def x_def tag_def
    by (auto simp: bind_res_eq_Inr Let_def split: if_splits prod.splits)
  have "length x = length c - 113 \<or> length c < 113"
    unfolding x_def by (auto simp: py_take_def)
  have len: "113 \<le> length c" "length R = 64"
    using *(4,6,7) unfolding R_def x_def iv_def by (auto simp: py_take_def min_def split: if_splits)
  define m where "m = length c - 32"
  have m: "81 \<le> m" "m \<le> length c" "py_take (- 32) c = take m c" "tag = drop m c"
    using len(1) by (simp_all add: m_def py_take_def tag_def nat_diff_distrib)
  have "take 16 (drop 65 (take m c)) = iv" unfolding iv_def slice_def using m(1) by (simp add: drop_take)
  then have body: "drop 65 (py_take (- 32) c) = iv @ x"
    unfolding x_def m(3) using append_take_drop_id [of 16 "drop 65 (take m c)"] by (simp add: add.commute)
  have "take 65 c = take 1 c @ R" unfolding R_def slice_def using take_add [of 1 64 c] by simp
  moreover have "take m c = take 65 c @ drop 65 (take m c)"
    using append_take_drop_id [of 65 "take m c"] m(1) by simp
  moreover have "c = take m c @ tag" unfolding m(4) by simp
  ultimately have "c = take 1 c @ R @ drop 65 (py_take (- 32) c) @ tag"
    unfolding m(3) by (metis append_assoc)
  with that [of R iv x tag s ke km] * len body show ?thesis by simp
qed

section \<open>Making keys\<close>

text \<open>What the constructor returns has a 64-byte public key, and no private key or one of 32 bytes.\<close>

definition ecc_ok :: "crypto_lib \<Rightarrow> ecc \<Rightarrow> bool" where
  "ecc_ok P e \<longleftrightarrow> length (e_pubkey e) = 64 \<and>
     (case e_privkey e of None \<Rightarrow> True | Some k \<Rightarrow> k = [] \<or> length k = 32 \<and> privkey_format_ok P k)"

lemma eccx_loop_shape:
  assumes "eccx_loop P xy sk given i = Some (Inr e)"
  shows "ecc_ok P e"
proof -
  define Q where "Q = (\<lambda>((((P, xy :: bytes option), sk :: bytes option), given :: bool), i :: nat) (r :: ecc res). \<forall>e. r = Inr e \<longrightarrow> ecc_ok P e)"
  have "Q ((((P, xy), sk), given), i) (Inr e)"
    using _ assms
  proof (rule eccx_loop.raw_induct)
    fix loop P xy sk given i r
    assume IH: "\<And>P xy sk given i y. loop P xy sk given i = Some y \<Longrightarrow> Q ((((P, xy), sk), given), i) y"
      and step: "(case ecc_init P xy sk i of Inl e \<Rightarrow> Some (Inl e) | Inr ecc \<Rightarrow>
          (let k = py_or (e_privkey ecc) [] in
           if k \<noteq> [] \<and> length k \<noteq> 32 then loop P xy sk given (Suc i)
           else if length (e_pubkey ecc) = 64 \<and> (k \<noteq> [] \<longrightarrow> privkey_format_ok P k) then Some (Inr ecc)
           else if given then Some (Inl PlainException)
           else loop P xy sk given (Suc i))) = Some r"
    show "Q ((((P, xy), sk), given), i) r"
      using step IH [of P xy sk given "Suc i" r]
      by (auto simp: Q_def ecc_ok_def Let_def py_or_def split: sum.splits if_splits option.splits)
  qed
  then show ?thesis by (simp add: Q_def)
qed

text \<open>It ends as soon as the generator yields an acceptable key.\<close>

lemma eccx_loop_ends:
  assumes "ecc_init P xy sk (i + n) = Inr e" "key_pair P e" "length (e_pubkey e) = 64"
  shows "\<exists>r. eccx_loop P xy sk given i = Some r"
  using assms(1)
proof (induction n arbitrary: i)
  case 0
  then show ?case using assms(2,3)
    by (subst eccx_loop.simps) (auto simp: key_pair_def Let_def py_or_def split: option.splits)
next
  case (Suc n)
  obtain r where "eccx_loop P xy sk given (Suc i) = Some r" using Suc.IH [of "Suc i"] Suc.prems by auto
  then show ?case
    by (subst eccx_loop.simps) (auto simp: Let_def split: sum.split)
qed

section \<open>A concrete instance\<close>

text \<open>Simple primitives that obey the laws, to evaluate the model on.\<close>

definition pad32 :: "bytes \<Rightarrow> bytes" where
  "pad32 x = take 32 (x @ replicate 32 0)"

lemma length_pad32 [simp]: "length (pad32 x) = 32"
  by (simp add: pad32_def)

definition sample_ecc :: "bytes \<Rightarrow> ecc" where
  "sample_ecc k = \<lparr>e_privkey = Some k, e_pubkey = k @ k\<rparr>"

definition sample_crypto :: crypto_lib where
  "sample_crypto = \<lparr>
     ecc_init = \<lambda>pk sk i. Inr (case sk of Some k \<Rightarrow> sample_ecc k | None \<Rightarrow>
        (case pk of Some p \<Rightarrow> \<lparr>e_privkey = None, e_pubkey = p\<rparr> | None \<Rightarrow> sample_ecc (replicate (31 + i) (of_nat i)))),
     pub_of = \<lambda>k. k @ k,
     privkey_format_ok = \<lambda>k. True,
     raw_ecdh = \<lambda>e x y. Inr (map2 xor (py_or (e_privkey e) []) x),
     check_key = \<lambda>k x y. Inr False,
     sha256 = pad32,
     hmac_sha256 = \<lambda>k x. pad32 x,
     keccak256 = \<lambda>x. pad32 (rev x),
     ctr_stream = \<lambda>k iv i. of_nat i,
     ctr_blocksize = 16,
     aes_ecb = \<lambda>k b. rev b,
     sign_recoverable = \<lambda>m k. Inr (map2 xor m k @ replicate 33 0),
     recover_key = \<lambda>s m. Inr (let k = map2 xor (take 32 s) m in 4 # k @ k)\<rparr>"

lemma sample_hashes_ok: "hashes_ok sample_crypto"
  by (simp add: hashes_ok_def sample_crypto_def)

lemma map2_xor_commute: "map2 xor a b = map2 xor b (a :: bytes)"
  by (induction a b rule: list_induct2') (auto simp: xor.commute)

lemma map2_xor_cancel: "length a = length b \<Longrightarrow> map2 xor (map2 xor a b) a = (b :: bytes)"
  by (induction a b rule: list_induct2) (auto simp: xor.commute [of _ "_ :: byte"] simp flip: xor.assoc)

lemma sample_key_pair: "key_pair sample_crypto e \<longleftrightarrow> (\<exists>k. length k = 32 \<and> e = sample_ecc k)"
  by (cases e) (auto simp: key_pair_def sample_crypto_def sample_ecc_def split: option.splits)

lemma sample_keys_ok: "keys_ok sample_crypto"
  unfolding keys_ok_def sample_key_pair
proof (intro conjI allI impI; elim exE conjE)
  fix e k m sk
  assume *: "length (m :: bytes) = 32" "length sk = 32" "e = sample_ecc sk" "e_privkey e = Some k"
  then have "k = sk" by (simp add: sample_ecc_def)
  with * map2_xor_cancel [of m sk]
  show "\<exists>s. length s = 65 \<and> sign_recoverable sample_crypto m k = Inr s \<and>
      recover_key sample_crypto s m = Inr (4 # e_pubkey e)"
    by (auto simp: sample_crypto_def sample_ecc_def Let_def)
qed (auto simp: sample_crypto_def sample_ecc_def py_or_def map2_xor_commute [of "x :: bytes" for x])

end
