(* ===== verification/Rlpx_Transport.thy ===== *)
theory Rlpx_Transport
  imports Rlpx Crypto_Laws Wire_Roundtrip
begin

text \<open>
  An RLPx session carries frames: when the sending side of one session and the receiving side of
  another have the same secrets and have seen the same bytes, what the one encrypts the other
  authenticates and decrypts. This is the contract \<open>frame_transport\<close> of the multiplexer.
\<close>

section \<open>What the operations compute\<close>

definition mac_block :: "crypto_lib \<Rightarrow> bytes \<Rightarrow> bytes \<Rightarrow> bytes \<Rightarrow> bytes" where
  "mac_block P k absorbed seed = map2 xor (aes_ecb P k (take 16 (keccak256 P absorbed))) seed"

definition mac_tag :: "crypto_lib \<Rightarrow> bytes \<Rightarrow> bytes \<Rightarrow> bytes \<Rightarrow> bytes" where
  "mac_tag P k absorbed seed = take 16 (keccak256 P (absorbed @ mac_block P k absorbed seed))"

lemma length_mac_tag: "hashes_ok P \<Longrightarrow> length (mac_tag P k a x) = 16"
  by (simp add: mac_tag_def hashes_lengths)

lemma egress_run:
  "s_egress_mac s = Some a \<Longrightarrow> egress P d s = (Inr (keccak256 P (a @ d)), s\<lparr>s_egress_mac := Some (a @ d)\<rparr>)"
  by (simp add: egress_def prog_defs need_def)

lemma ingress_run:
  "s_ingress_mac s = Some a \<Longrightarrow> ingress P d s = (Inr (keccak256 P (a @ d)), s\<lparr>s_ingress_mac := Some (a @ d)\<rparr>)"
  by (simp add: ingress_def prog_defs need_def)

lemma mac_of_egress:
  assumes "hashes_ok P" "s_egress_mac s = Some a" "s_mac_enc s = Some k" "length x = 16"
  shows "mac_of P (egress P) x s = (Inr (mac_tag P k a x), s\<lparr>s_egress_mac := Some (a @ mac_block P k a x)\<rparr>)"
  using assms(2-4)
  by (simp add: mac_of_def mac_enc_def seq_def egress_run gets_def lift_res_def ret_def need_def sxor_def
      hashes_lengths [OF assms(1)] mac_tag_def mac_block_def)

lemma mac_of_ingress:
  assumes "hashes_ok P" "s_ingress_mac s = Some a" "s_mac_enc s = Some k" "length x = 16"
  shows "mac_of P (ingress P) x s = (Inr (mac_tag P k a x), s\<lparr>s_ingress_mac := Some (a @ mac_block P k a x)\<rparr>)"
  using assms(2-4)
  by (simp add: mac_of_def mac_enc_def seq_def ingress_run gets_def lift_res_def ret_def need_def sxor_def
      hashes_lengths [OF assms(1)] mac_tag_def mac_block_def)

lemma aes_encrypt_run:
  "s_aes_enc s = Some (key, pos) \<Longrightarrow> aes_encrypt P d s =
     (Inr (ctr_xor (ctr_stream P key zero_iv) pos d), s\<lparr>s_aes_enc := Some (key, pos + length d)\<rparr>)"
  by (simp add: aes_encrypt_def prog_defs need_def)

lemma aes_decrypt_run:
  "s_aes_dec s = Some (key, pos) \<Longrightarrow> aes_decrypt P d s =
     (Inr (ctr_xor (ctr_stream P key zero_iv) pos d), s\<lparr>s_aes_dec := Some (key, pos + length d)\<rparr>)"
  by (simp add: aes_decrypt_def prog_defs need_def)

lemmas session_runs = egress_run ingress_run aes_encrypt_run aes_decrypt_run mac_of_egress mac_of_ingress

section \<open>Paired sessions\<close>

text \<open>The side that sends, and the side that receives, in the same state.\<close>

definition sending :: "session \<Rightarrow> bytes \<Rightarrow> nat \<Rightarrow> bytes \<Rightarrow> bytes \<Rightarrow> bool" where
  "sending s key pos k a \<longleftrightarrow> s_is_ready s \<and> s_aes_enc s = Some (key, pos) \<and> s_mac_enc s = Some k \<and> s_egress_mac s = Some a"

definition receiving :: "session \<Rightarrow> bytes \<Rightarrow> nat \<Rightarrow> bytes \<Rightarrow> bytes \<Rightarrow> bool" where
  "receiving s key pos k a \<longleftrightarrow> s_is_ready s \<and> s_aes_dec s = Some (key, pos) \<and> s_mac_enc s = Some k \<and> s_ingress_mac s = Some a"

definition rlpx_paired :: "crypto_lib \<Rightarrow> session \<Rightarrow> session \<Rightarrow> bool" where
  "rlpx_paired P tx rx \<longleftrightarrow> hashes_ok P \<and> (\<exists>key pos k a. sending tx key pos k a \<and> receiving rx key pos k a)"

text \<open>One encrypted frame: header, its tag, body, its tag; and the bytes its tags have absorbed.\<close>

definition frame_ct :: "crypto_lib \<Rightarrow> bytes \<Rightarrow> nat \<Rightarrow> bytes \<Rightarrow> bytes" where
  "frame_ct P key pos d = ctr_xor (ctr_stream P key zero_iv) pos d"

definition after_header :: "crypto_lib \<Rightarrow> bytes \<Rightarrow> bytes \<Rightarrow> bytes \<Rightarrow> bytes" where
  "after_header P k a hc = a @ mac_block P k a hc"

definition body_seed :: "crypto_lib \<Rightarrow> bytes \<Rightarrow> bytes \<Rightarrow> bytes" where
  "body_seed P a bc = take 16 (keccak256 P (a @ bc))"

definition after_body :: "crypto_lib \<Rightarrow> bytes \<Rightarrow> bytes \<Rightarrow> bytes \<Rightarrow> bytes" where
  "after_body P k a bc = a @ bc @ mac_block P k (a @ bc) (body_seed P a bc)"

definition body_tag :: "crypto_lib \<Rightarrow> bytes \<Rightarrow> bytes \<Rightarrow> bytes \<Rightarrow> bytes" where
  "body_tag P k a bc = mac_tag P k (a @ bc) (body_seed P a bc)"

lemma frame_lengths:
  assumes "hashes_ok P"
  shows "length (frame_ct P key pos d) = length d" "length (body_seed P a bc) = 16"
    "length (body_tag P k a bc) = 16" "length (mac_tag P k a x) = 16"
  by (simp_all add: frame_ct_def body_seed_def body_tag_def hashes_lengths [OF assms] length_mac_tag [OF assms])

lemma frame_ct_involution [simp]: "frame_ct P key pos (frame_ct P key pos d) = d"
  by (simp add: frame_ct_def)

lemma rlpx_encrypt_run:
  assumes "hashes_ok P" "sending s key pos k a" "length h = 16" "length b mod 16 = 0"
  defines "hc \<equiv> frame_ct P key pos h" and "bc \<equiv> frame_ct P key (pos + 16) b"
  shows "\<exists>s'. rlpx_encrypt P h b s =
      (Inr (hc @ mac_tag P k a hc @ bc @ body_tag P k (after_header P k a hc) bc), s') \<and>
    sending s' key (pos + 16 + length b) k (after_body P k (after_header P k a hc) bc) \<and>
    s' = s\<lparr>s_aes_enc := s_aes_enc s', s_egress_mac := s_egress_mac s'\<rparr>"
proof -
  have l: "length hc = 16" "length bc = length b" by (simp_all add: hc_def bc_def frame_lengths [OF assms(1)] assms(3))
  show ?thesis
    using assms(2-4) l
    unfolding sending_def rlpx_encrypt_def hc_def bc_def frame_ct_def
    by (simp add: seq_def gets_def py_assert_def lift_res_def ret_def session_runs [OF _] mac_of_egress [OF assms(1)]
        hashes_lengths [OF assms(1)] after_header_def after_body_def body_tag_def body_seed_def)
qed

lemma rlpx_decrypt_header_run:
  assumes "hashes_ok P" "receiving s key pos k a" "length hc = 16" "length t = 16"
  shows "rlpx_decrypt_header P (hc @ t) s =
     (if t = mac_tag P k a hc
      then (Inr (frame_ct P key pos hc),
            s\<lparr>s_ingress_mac := Some (after_header P k a hc), s_aes_dec := Some (key, pos + 16)\<rparr>)
      else (Inl AuthenticationError, s\<lparr>s_ingress_mac := Some (after_header P k a hc)\<rparr>))"
  using assms(2-4)
  unfolding receiving_def rlpx_decrypt_header_def
  by (simp add: seq_def gets_def py_assert_def lift_res_def throw_def Let_def slice_def aes_decrypt_run
      mac_of_ingress [OF assms(1)] after_header_def frame_ct_def)

lemma rlpx_decrypt_body_run:
  assumes "hashes_ok P" "receiving s key pos k a" "length bc = ceil16 n" "length t = 16"
  shows "rlpx_decrypt_body P (bc @ t @ rest) n s =
     (if t = body_tag P k a bc
      then (Inr (take n (frame_ct P key pos bc)),
            s\<lparr>s_ingress_mac := Some (after_body P k a bc), s_aes_dec := Some (key, pos + ceil16 n)\<rparr>)
      else (Inl AuthenticationError, s\<lparr>s_ingress_mac := Some (after_body P k a bc)\<rparr>))"
  using assms(2-4)
  unfolding receiving_def rlpx_decrypt_body_def
  by (simp add: seq_def gets_def py_assert_def lift_res_def throw_def ret_def Let_def slice_def session_runs
      mac_of_ingress [OF assms(1)] hashes_lengths [OF assms(1)] after_body_def body_seed_def body_tag_def frame_ct_def)

lemma rlpx_decrypt_body_prefix:
  assumes "ceil16 n + 16 \<le> length x"
  shows "rlpx_decrypt_body P (x @ y) n = rlpx_decrypt_body P x n"
  using assms by (simp add: rlpx_decrypt_body_def slice_def)

text \<open>A frame reaches the other side, and the two sides stay paired.\<close>

lemma rlpx_transported:
  assumes "rlpx_paired P tx rx" "length h = 16" "ceil16 n = length b" "0 < n"
  shows "\<exists>e tx' rx1 rx2. rlpx_encrypt P h b tx = (Inr e, tx') \<and> length e = 48 + length b \<and>
     rlpx_decrypt_header P (take 32 e) rx = (Inr h, rx1) \<and>
     rlpx_decrypt_body P (drop 32 e) n rx1 = (Inr (take n b), rx2) \<and> rlpx_paired P tx' rx2"
proof -
  obtain key pos k a where ok: "hashes_ok P" and p: "sending tx key pos k a" "receiving rx key pos k a"
    using assms(1) by (auto simp: rlpx_paired_def)
  define hc where "hc = frame_ct P key pos h"
  define bc where "bc = frame_ct P key (pos + 16) b"
  define a1 where "a1 = after_header P k a hc"
  have "length b mod 16 = 0" using ceil16_mod [of n] assms(3) by simp
  from rlpx_encrypt_run [OF ok p(1) assms(2) this, folded hc_def bc_def a1_def] obtain tx' where tx':
    "rlpx_encrypt P h b tx = (Inr (hc @ mac_tag P k a hc @ bc @ body_tag P k a1 bc), tx')"
    "sending tx' key (pos + 16 + length b) k (after_body P k a1 bc)" by blast
  define e where "e = hc @ mac_tag P k a hc @ bc @ body_tag P k a1 bc"
  have l: "length hc = 16" "length bc = ceil16 n" "length (mac_tag P k a hc) = 16" "length (body_tag P k a1 bc) = 16"
    using frame_lengths [OF ok] assms(2,3) by (simp_all add: hc_def bc_def)
  have parts: "take 32 e = hc @ mac_tag P k a hc" "drop 32 e = bc @ body_tag P k a1 bc @ []"
    "length e = 48 + length b" using l assms(3) by (simp_all add: e_def)
  obtain rx1 where rx1: "rlpx_decrypt_header P (take 32 e) rx = (Inr h, rx1)" "receiving rx1 key (pos + 16) k a1"
    unfolding parts using rlpx_decrypt_header_run [OF ok p(2) l(1,3)] p(2)
    by (auto simp: hc_def [symmetric] receiving_def a1_def) (simp add: hc_def)
  define rx2 where "rx2 = rx1\<lparr>s_ingress_mac := Some (after_body P k a1 bc), s_aes_dec := Some (key, pos + 16 + ceil16 n)\<rparr>"
  have body: "rlpx_decrypt_body P (drop 32 e) n rx1 = (Inr (take n b), rx2)"
    unfolding parts rx2_def using rlpx_decrypt_body_run [OF ok rx1(2) l(2,4), of "[]"] by (simp add: bc_def)
  have "receiving rx2 key (pos + 16 + length b) k (after_body P k a1 bc)"
    using rx1(2) assms(3) by (simp add: receiving_def rx2_def)
  with tx'(2) ok have "rlpx_paired P tx' rx2" unfolding rlpx_paired_def by blast
  with tx'(1) rx1(1) body parts(3) show ?thesis unfolding e_def [symmetric] by blast
qed

text \<open>The sessions of the program provide the transport that the multiplexer relies on.\<close>

interpretation rlpx: frame_transport "Some (rlpx_cipher P)" "rlpx_paired P" for P
proof
  fix c :: "session cipher" and n and x y :: bytes
  assume "Some (rlpx_cipher P) = Some c" "ceil16 n + 16 \<le> length x"
  then show "c_decrypt_body c (x @ y) n = c_decrypt_body c x n"
    by (auto simp: rlpx_cipher_def rlpx_decrypt_body_prefix)
next
  fix c :: "session cipher" and n and h b :: bytes and tx rx
  assume "Some (rlpx_cipher P) = Some c" "rlpx_paired P tx rx" "length h = 16" "ceil16 n = length b" "0 < n"
  then show "\<exists>e tx' rx1 rx2. c_encrypt c h b tx = (Inr e, tx') \<and> length e = 48 + length b \<and>
      c_decrypt_header c (take 32 e) rx = (Inr h, rx1) \<and> c_decrypt_body c (drop 32 e) n rx1 = (Inr (take n b), rx2) \<and>
      rlpx_paired P tx' rx2"
    using rlpx_transported [of P tx rx h n b] by (auto simp: rlpx_cipher_def)
qed

end
