(* ===== verification/Handshake_Agreement.thy ===== *)
theory Handshake_Agreement
  imports Handshake Rlpx_Transport
begin

text \<open>
  The handshake of \<open>RLPxSession\<close> succeeds between two nodes that follow it, whatever follows its
  messages in the stream, and leaves two sessions whose directions are paired.
\<close>

section \<open>The auth message\<close>

lemma keys_distinct_bytes: "keys_ok P \<Longrightarrow> key_pair P e \<Longrightarrow> e_pubkey e \<noteq> []"
  using key_pair_pub [of P e] by auto

lemma sxor_run: "length x = length y \<Longrightarrow> sxor x y = Inr (map2 xor x y)"
  by (simp add: sxor_def)

text \<open>What an auth message of \<open>a\<close> says to \<open>b\<close>: the signature proves the ephemeral key.\<close>

definition auth_says :: "crypto_lib \<Rightarrow> ecc \<Rightarrow> ecc \<Rightarrow> ecc \<Rightarrow> bytes \<Rightarrow> bytes \<Rightarrow> bool" where
  "auth_says P a ea b n m \<longleftrightarrow> (\<exists>S h t. m = S @ h @ e_pubkey a @ n @ [0] \<and> length S = 65 \<and> length h = 32 \<and>
     length t = 32 \<and> get_ecdh_key P b (e_pubkey a) = Inr t \<and> ecdsa_recover P (map2 xor t n) S = Inr (e_pubkey ea))"

lemma auth_created:
  assumes "hashes_ok P" "keys_ok P" "key_pair P (s_ecc s)" "key_pair P (s_ephemeral s)" "key_pair P b"
    and "s_is_initiator s" "length (py_or nonce (sha3 P random)) = 32"
  obtains m where "create_auth_message P (e_pubkey b) nonce random s =
      (Inr m, s\<lparr>s_remote_pubkey := Some (e_pubkey b), s_initiator_nonce := Some (py_or nonce (sha3 P random))\<rparr>)"
    "auth_says P (s_ecc s) (s_ephemeral s) b (py_or nonce (sha3 P random)) m" "length m = 194"
proof -
  let ?n = "py_or nonce (sha3 P random)"
  obtain t where t: "length t = 32" "get_ecdh_key P (s_ecc s) (e_pubkey b) = Inr t"
    "get_ecdh_key P b (e_pubkey (s_ecc s)) = Inr t"
    by (rule ecdh_agree [OF assms(2,3,5)])
  have x: "length (map2 xor t ?n) = 32" using t(1) assms(7) by simp
  obtain S where S: "length S = 65" "ecc_sign P (s_ephemeral s) (map2 xor t ?n) = Inr S"
    "ecdsa_recover P (map2 xor t ?n) S = Inr (e_pubkey (s_ephemeral s))"
    by (rule sign_recover [OF assms(2,4) x])
  let ?m = "S @ sha3 P (e_pubkey (s_ephemeral s)) @ e_pubkey (s_ecc s) @ ?n @ [0]"
  have "create_auth_message P (e_pubkey b) nonce random s =
      (Inr ?m, s\<lparr>s_remote_pubkey := Some (e_pubkey b), s_initiator_nonce := Some ?n\<rparr>)"
    using assms(6,7) t S(1,2) key_pair_valid [OF assms(2,5)] key_pair_valid [OF assms(2,4)]
      key_pair_pub [OF assms(2,4)] key_pair_pub [OF assms(2,3)]
    by (simp add: create_auth_message_def seq_def gets_def modify_def ret_def py_assert_def lift_res_def Let_def
        sxor_run hashes_lengths [OF assms(1)])
  moreover have "auth_says P (s_ecc s) (s_ephemeral s) b ?n ?m"
    unfolding auth_says_def using S t hashes_lengths(6) [OF assms(1)] by blast
  moreover have "length ?m = 194"
    using S(1) assms(7) key_pair_pub [OF assms(2,3)] hashes_lengths(6) [OF assms(1)] by simp
  ultimately show ?thesis by (rule that)
qed

lemma auth_encrypted:
  assumes "hashes_ok P" "keys_ok P" "key_pair P e" "key_pair P b" "length iv = 16"
    and "s_is_initiator s" "s_remote_pubkey s = Some (e_pubkey b)" "length m = 194"
  obtains c where "encrypt_auth_message P e iv m None s = (Inr c, s\<lparr>s_auth_init := Some c\<rparr>)"
    "length c = 307" "ecies_decrypt P b c [] = Inr m"
proof -
  obtain c where c: "ecies_encrypt P e iv m (e_pubkey b) [] = Inr c" "length c = 113 + length m"
    by (rule ecies_encrypt_length [OF assms(1-5), of m "[]"])
  have "encrypt_auth_message P e iv m None s = (Inr c, s\<lparr>s_auth_init := Some c\<rparr>)"
    using assms(6-8) c
    by (simp add: encrypt_auth_message_def seq_def gets_def modify_def ret_def py_assert_def lift_res_def need_def py_or_def)
  with that c assms(8) ecies_decrypt_encrypt [OF assms(1-5) c(1)] show ?thesis by simp
qed

lemma auth_decoded:
  assumes "keys_ok P" "key_pair P a" "key_pair P ea" "\<not> s_is_initiator s" "s_ecc s = b" "length n = 32"
    and "length c = 307" "ecies_decrypt P b c [] = Inr m" "auth_says P a ea b n m"
  shows "decode_authentication P E (c @ rest) s = (Inr rest, s\<lparr>s_auth_init := Some c,
      s_remote_ephemeral_pubkey := Some (e_pubkey ea), s_initiator_nonce := Some n,
      s_remote_pubkey := Some (e_pubkey a), s_remote_version := 4\<rparr>)"
proof -
  obtain S h t where m: "m = S @ h @ e_pubkey a @ n @ [0]" "length S = 65" "length h = 32" "length t = 32"
    "get_ecdh_key P b (e_pubkey a) = Inr t" "ecdsa_recover P (map2 xor t n) S = Inr (e_pubkey ea)"
    using assms(9) by (auto simp: auth_says_def)
  have lens: "length (e_pubkey a) = 64" "length m = 194"
    using key_pair_pub [OF assms(1,2)] m(1-3) assms(6) by simp_all
  have "slice 97 161 m = e_pubkey a" "slice 161 193 m = n" "drop 193 m = [0]" "take 65 m = S"
    using lens(1) m(2,3) assms(6) unfolding m(1) by (simp_all add: slice_def)
  then have "decode_auth_plain P b (c @ rest) = Inr (307, S, e_pubkey a, n, 4)"
    using assms(7,8) lens key_pair_valid [OF assms(1,2)]
    by (simp add: decode_auth_plain_def auth_error_def Let_def)
  then have "decode_auth_any P E b (c @ rest) = Inr ((307, S, e_pubkey a, n, 4), False)"
    by (simp add: decode_auth_any_def)
  then show ?thesis
    using assms(4-7) m(4-6) key_pair_valid [OF assms(1,3)]
    by (simp add: decode_authentication_def seq_def gets_def modify_def ret_def py_assert_def lift_res_def sxor_run)
qed

section \<open>The ack message\<close>

lemma ack_created:
  assumes "\<not> s_is_initiator s" "\<not> s_got_eip8_auth s" "length (e_pubkey (s_ephemeral s)) = 64"
    and "length (py_or nonce (sha3 P random)) = 32"
  shows "create_auth_ack_message P E v False None nonce random pad s =
    (Inr (e_pubkey (s_ephemeral s) @ py_or nonce (sha3 P random) @ [0]),
     s\<lparr>s_responder_nonce := Some (py_or nonce (sha3 P random))\<rparr>)"
  using assms
  by (simp add: create_auth_ack_message_def seq_def gets_def modify_def ret_def py_assert_def lift_res_def
      py_or_def [of None] Let_def)

lemma ack_encrypted:
  assumes "hashes_ok P" "keys_ok P" "key_pair P e" "key_pair P a" "length iv = 16"
    and "\<not> s_is_initiator s" "\<not> s_got_eip8_auth s" "s_remote_pubkey s = Some (e_pubkey a)" "length m = 97"
  obtains c where "encrypt_auth_ack_message P e iv m False None s = (Inr c, s\<lparr>s_auth_ack := Some c\<rparr>)"
    "length c = 210" "ecies_decrypt P a c [] = Inr m"
proof -
  obtain c where c: "ecies_encrypt P e iv m (e_pubkey a) [] = Inr c" "length c = 113 + length m"
    by (rule ecies_encrypt_length [OF assms(1-5), of m "[]"])
  have "encrypt_auth_ack_message P e iv m False None s = (Inr c, s\<lparr>s_auth_ack := Some c\<rparr>)"
    using assms(6-9) c
    by (simp add: encrypt_auth_ack_message_def seq_def gets_def modify_def ret_def py_assert_def lift_res_def need_def py_or_def)
  with that c assms(9) ecies_decrypt_encrypt [OF assms(1-5) c(1)] show ?thesis by simp
qed

lemma ack_decoded:
  assumes "keys_ok P" "key_pair P eb" "s_is_initiator s" "s_ecc s = a" "length n = 32"
    and "length c = 210" "ecies_decrypt P a c [] = Inr (e_pubkey eb @ n @ [0])"
  shows "decode_auth_ack_message P E (c @ rest) s = (Inr rest, s\<lparr>s_auth_ack := Some c,
      s_remote_ephemeral_pubkey := Some (e_pubkey eb), s_responder_nonce := Some n, s_remote_version := 4\<rparr>)"
proof -
  let ?m = "e_pubkey eb @ n @ [0]"
  note len = key_pair_pub [OF assms(1,2)]
  have "length ?m = 97" "take 64 ?m = e_pubkey eb" "slice 64 96 ?m = n" "last ?m = 0"
    using len assms(5) by (simp_all add: slice_def)
  then have "decode_ack_plain P a (c @ rest) = Inr (210, e_pubkey eb, n, 4)"
    using assms(6,7) by (simp add: decode_ack_plain_def auth_error_def Let_def)
  then have "decode_ack_any P E a (c @ rest) = Inr ((210, e_pubkey eb, n, 4), False)"
    by (simp add: decode_ack_any_def)
  then show ?thesis
    using assms(3,4,6) len key_pair_valid [OF assms(1,2)]
    by (simp add: decode_auth_ack_message_def seq_def gets_def modify_def ret_def py_assert_def lift_res_def)
qed

section \<open>The secrets\<close>

text \<open>The secrets as a function of the key agreement and the two nonces.\<close>

definition shared_secret_of :: "crypto_lib \<Rightarrow> bytes \<Rightarrow> bytes \<Rightarrow> bytes \<Rightarrow> bytes" where
  "shared_secret_of P z rn inn = sha3 P (z @ sha3 P (rn @ inn))"

definition aes_secret_of :: "crypto_lib \<Rightarrow> bytes \<Rightarrow> bytes \<Rightarrow> bytes \<Rightarrow> bytes" where
  "aes_secret_of P z rn inn = sha3 P (z @ shared_secret_of P z rn inn)"

definition mac_secret_of :: "crypto_lib \<Rightarrow> bytes \<Rightarrow> bytes \<Rightarrow> bytes \<Rightarrow> bytes" where
  "mac_secret_of P z rn inn = sha3 P (z @ aes_secret_of P z rn inn)"

text \<open>What both sides must know of each other before they derive the secrets.\<close>

definition agreed :: "bytes \<Rightarrow> bytes \<Rightarrow> bytes \<Rightarrow> bytes \<Rightarrow> session \<Rightarrow> bool" where
  "agreed inn rn init ack s \<longleftrightarrow> s_initiator_nonce s = Some inn \<and> s_responder_nonce s = Some rn \<and>
     s_auth_init s = Some init \<and> s_auth_ack s = Some ack \<and> length inn = 32 \<and> length rn = 32 \<and> init \<noteq> [] \<and> ack \<noteq> []"

definition derived :: "crypto_lib \<Rightarrow> bytes \<Rightarrow> bytes \<Rightarrow> bytes \<Rightarrow> bytes \<Rightarrow> bytes \<Rightarrow> session \<Rightarrow> bool" where
  "derived P z inn rn init ack s \<longleftrightarrow> s_is_ready s \<and>
     s_token s = Some (sha3 P (shared_secret_of P z rn inn)) \<and>
     s_aes_enc s = Some (aes_secret_of P z rn inn, 0) \<and> s_aes_dec s = Some (aes_secret_of P z rn inn, 0) \<and>
     s_mac_enc s = Some (mac_secret_of P z rn inn) \<and>
     s_egress_mac s = Some (if s_is_initiator s then map2 xor (mac_secret_of P z rn inn) rn @ init
       else map2 xor (mac_secret_of P z rn inn) inn @ ack) \<and>
     s_ingress_mac s = Some (if s_is_initiator s then map2 xor (mac_secret_of P z rn inn) inn @ ack
       else map2 xor (mac_secret_of P z rn inn) rn @ init)"

lemma truthy_attr_run: "f s = Some x \<Longrightarrow> x \<noteq> [] \<Longrightarrow> seq (truthy_attr f) g s = g x s"
  by (simp add: truthy_attr_def seq_def gets_def py_or_def py_assert_def lift_res_def ret_def)

lemma setup_run:
  assumes "hashes_ok P" "agreed inn rn init ack s" "s_remote_ephemeral_pubkey s = Some pk" "pk \<noteq> []"
    and "is_valid_key P None pk" "get_ecdh_key P (s_ephemeral s) pk = Inr z"
  obtains s' where "setup_cipher P s = (Inr (), s')" "derived P z inn rn init ack s'"
    "s_is_initiator s' = s_is_initiator s" "s_remote_pubkey s' = s_remote_pubkey s" "s_ecc s' = s_ecc s"
proof -
  have ne: "inn \<noteq> []" "rn \<noteq> []" using assms(2) by (auto simp: agreed_def)
  have "length (sha3 P x) = 32" for x by (rule hashes_lengths(6) [OF assms(1)])
  then have "\<exists>s'. setup_cipher P s = (Inr (), s') \<and> derived P z inn rn init ack s' \<and>
      s_is_initiator s' = s_is_initiator s \<and> s_remote_pubkey s' = s_remote_pubkey s \<and> s_ecc s' = s_ecc s"
    using assms(2-6) ne unfolding agreed_def
    by (simp add: setup_cipher_def truthy_attr_run step_simps Let_def sxor_run derived_def
        shared_secret_of_def aes_secret_of_def mac_secret_of_def)
  with that show ?thesis by blast
qed

text \<open>The two sides, mirrored: each direction of the connection is paired.\<close>

lemma derived_paired:
  assumes "hashes_ok P" "derived P z inn rn init ack s" "derived P z inn rn init ack t"
    and "s_is_initiator s = (\<not> s_is_initiator t)"
  shows "rlpx_paired P s t"
  using assms unfolding rlpx_paired_def sending_def receiving_def derived_def by auto

section \<open>The whole handshake\<close>

text \<open>
  The run of both sides: \<open>a\<close> initiates, \<open>b\<close> responds; \<open>rest1\<close> and \<open>rest2\<close> follow the two messages
  on the wire.
\<close>

lemma handshake_runs:
  assumes ok: "hashes_ok P" "keys_ok P"
    and keys: "key_pair P a" "key_pair P ea" "key_pair P b" "key_pair P eb" "key_pair P e1" "key_pair P e2"
    and iv: "length iv1 = 16" "length iv2 = 16"
    and nonces: "length (py_or na (sha3 P ra)) = 32" "length (py_or nb (sha3 P rb)) = 32"
    and s: "s_ecc s = a" "s_ephemeral s = ea" "s_is_initiator s"
    and t: "s_ecc t = b" "s_ephemeral t = eb" "\<not> s_is_initiator t" "\<not> s_got_eip8_auth t"
  obtains auth s1 ct1 s2 t1 ack t2 ct2 t3 t4 s3 s4 where
    "create_auth_message P (e_pubkey b) na ra s = (Inr auth, s1)"
    "encrypt_auth_message P e1 iv1 auth None s1 = (Inr ct1, s2)"
    "\<And>rest. decode_authentication P E (ct1 @ rest) t = (Inr rest, t1)"
    "create_auth_ack_message P E supported_rlpx_version False None nb rb pad t1 = (Inr ack, t2)"
    "encrypt_auth_ack_message P e2 iv2 ack False None t2 = (Inr ct2, t3)"
    "setup_cipher P t3 = (Inr (), t4)"
    "\<And>rest. decode_auth_ack_message P E (ct2 @ rest) s2 = (Inr rest, s3)"
    "setup_cipher P s3 = (Inr (), s4)"
    "rlpx_paired P s4 t4" "rlpx_paired P t4 s4" "s_token s4 = s_token t4"
    "s_remote_pubkey s4 = Some (e_pubkey b)" "s_remote_pubkey t4 = Some (e_pubkey a)"
    "length ct1 = 307" "length ct2 = 210" "s_is_ready s2 = s_is_ready s"
proof -
  let ?na = "py_or na (sha3 P ra)" and ?nb = "py_or nb (sha3 P rb)"
  obtain m where m: "create_auth_message P (e_pubkey b) na ra s =
      (Inr m, s\<lparr>s_remote_pubkey := Some (e_pubkey b), s_initiator_nonce := Some ?na\<rparr>)"
    "auth_says P a ea b ?na m" "length m = 194"
    by (rule auth_created [of P s b na ra]) (use ok keys s nonces in auto)
  define s1 where "s1 = s\<lparr>s_remote_pubkey := Some (e_pubkey b), s_initiator_nonce := Some ?na\<rparr>"
  obtain ct1 where c1: "encrypt_auth_message P e1 iv1 m None s1 = (Inr ct1, s1\<lparr>s_auth_init := Some ct1\<rparr>)"
    "length ct1 = 307" "ecies_decrypt P b ct1 [] = Inr m"
    by (rule auth_encrypted [of P e1 b iv1 s1 m]) (use ok keys s iv m in \<open>auto simp: s1_def\<close>)
  define s2 where "s2 = s1\<lparr>s_auth_init := Some ct1\<rparr>"
  define t1 where "t1 = t\<lparr>s_auth_init := Some ct1, s_remote_ephemeral_pubkey := Some (e_pubkey ea),
      s_initiator_nonce := Some ?na, s_remote_pubkey := Some (e_pubkey a), s_remote_version := 4\<rparr>"
  have d1: "decode_authentication P E (ct1 @ rest) t = (Inr rest, t1)" for rest
    unfolding t1_def by (rule auth_decoded [OF ok(2) keys(1,2) t(3,1) nonces(1) c1(2,3) m(2)])
  define ack where "ack = e_pubkey eb @ ?nb @ [0]"
  define t2 where "t2 = t1\<lparr>s_responder_nonce := Some ?nb\<rparr>"
  have a: "create_auth_ack_message P E supported_rlpx_version False None nb rb pad t1 = (Inr ack, t2)"
    using ack_created [of t1 nb P rb E supported_rlpx_version pad] t nonces(2) key_pair_pub [OF ok(2) keys(4)]
    by (simp add: t1_def t2_def ack_def)
  obtain ct2 where c2: "encrypt_auth_ack_message P e2 iv2 ack False None t2 = (Inr ct2, t2\<lparr>s_auth_ack := Some ct2\<rparr>)"
    "length ct2 = 210" "ecies_decrypt P a ct2 [] = Inr ack"
    by (rule ack_encrypted [OF ok keys(6,1) iv(2), of t2 ack])
      (use t nonces key_pair_pub [OF ok(2) keys(4)] in \<open>auto simp: t2_def t1_def ack_def\<close>)
  define t3 where "t3 = t2\<lparr>s_auth_ack := Some ct2\<rparr>"
  define s3 where "s3 = s2\<lparr>s_auth_ack := Some ct2, s_remote_ephemeral_pubkey := Some (e_pubkey eb),
      s_responder_nonce := Some ?nb, s_remote_version := 4\<rparr>"
  have d2: "decode_auth_ack_message P E (ct2 @ rest) s2 = (Inr rest, s3)" for rest
    unfolding s3_def
    by (rule ack_decoded [OF ok(2) keys(4) _ _ nonces(2) c2(2) c2(3) [unfolded ack_def]])
      (use s in \<open>simp_all add: s2_def s1_def\<close>)
  obtain z where z: "get_ecdh_key P ea (e_pubkey eb) = Inr z" "get_ecdh_key P eb (e_pubkey ea) = Inr z"
    by (rule ecdh_agree [OF ok(2) keys(2,4)])
  note pub = keys_distinct_bytes [OF ok(2)] key_pair_valid [OF ok(2)]
  have ne: "ct1 \<noteq> []" "ct2 \<noteq> []" using c1(2) c2(2) by auto
  have ag: "agreed ?na ?nb ct1 ct2 t3" "agreed ?na ?nb ct1 ct2 s3"
    using nonces ne by (simp_all add: agreed_def t3_def t2_def t1_def s3_def s2_def s1_def)
  obtain t4 where t4: "setup_cipher P t3 = (Inr (), t4)" "derived P z ?na ?nb ct1 ct2 t4" "\<not> s_is_initiator t4"
    "s_remote_pubkey t4 = Some (e_pubkey a)"
    by (rule setup_run [OF ok(1) ag(1), of "e_pubkey ea" z])
      (use t z pub keys in \<open>auto simp: t3_def t2_def t1_def\<close>)
  obtain s4 where s4: "setup_cipher P s3 = (Inr (), s4)" "derived P z ?na ?nb ct1 ct2 s4" "s_is_initiator s4"
    "s_remote_pubkey s4 = Some (e_pubkey b)"
    by (rule setup_run [OF ok(1) ag(2), of "e_pubkey eb" z])
      (use s z pub keys in \<open>auto simp: s3_def s2_def s1_def\<close>)
  have "rlpx_paired P s4 t4" "rlpx_paired P t4 s4" "s_token s4 = s_token t4"
    using derived_paired [OF ok(1) s4(2) t4(2)] derived_paired [OF ok(1) t4(2) s4(2)] s4(2,3) t4(2,3)
    by (simp_all add: derived_def)
  with that [of m s1 ct1 s2 t1 ack t2 ct2 t3 t4 s3 s4] m(1) c1(1,2) d1 a c2(1,2) t4(1,4) d2 s4(1,4) show ?thesis
    by (simp add: s1_def s2_def t3_def)
qed

end
