(* ===== verification/Mux_Session.thy ===== *)
theory Mux_Session
  imports Handshake_Agreement Mux_Queues
begin

text \<open>
  \<open>MultiplexedSession\<close> (\<open>devp2p/muxsession.py\<close>): a multiplexer whose frame cipher is an RLPx session.
  Until the handshake is over, an incoming message is a message of the handshake.
\<close>

section \<open>State\<close>

text \<open>
  \<open>ms_post\<close> tells which function the attribute \<open>add_message\<close> is bound to. The mux is the base class,
  its cipher state the session.
\<close>

record msession =
  ms_is_initiator :: bool
  ms_hello :: packet
  ms_messages :: "bytes list"
  ms_packets :: "packet list"
  ms_remote_pubkey :: "bytes option"
  ms_post :: bool
  ms_mux :: "session mux"

text \<open>What the random generators yield in a handshake: a nonce, padding, an ephemeral key, an IV.\<close>

record draws =
  d_nonce :: bytes
  d_pad :: bytes
  d_ephem :: ecc
  d_iv :: bytes

definition on_mux :: "(session mux, 'a) prog \<Rightarrow> (msession, 'a) prog" where
  "on_mux f = (\<lambda>s. case f (ms_mux s) of (r, m) \<Rightarrow> (r, s\<lparr>ms_mux := m\<rparr>))"

definition on_rlpx :: "(session, 'a) prog \<Rightarrow> (msession, 'a) prog" where
  "on_rlpx f = on_mux (on_cipher f)"

definition ms_is_ready :: "msession \<Rightarrow> bool" where
  "ms_is_ready s \<longleftrightarrow> s_is_ready (cipher_state (ms_mux s))"

definition ms_get_remote_pubkey :: "msession \<Rightarrow> bytes option" where
  "ms_get_remote_pubkey s =
     (if py_or (ms_remote_pubkey s) [] \<noteq> [] then ms_remote_pubkey s else s_remote_pubkey (cipher_state (ms_mux s)))"

definition ms_set_remote_pubkey :: "bytes option \<Rightarrow> (msession, unit) prog" where
  "ms_set_remote_pubkey value = modify (\<lambda>s. s\<lparr>ms_remote_pubkey := value\<rparr>)"

definition put_message :: "bytes \<Rightarrow> (msession, unit) prog" where
  "put_message msg = modify (\<lambda>s. s\<lparr>ms_messages := ms_messages s @ [msg]\<rparr>)"

section \<open>Sending\<close>

text \<open>\<open>for f in self.pop_all_frames(): self.message_queue.put(f.as_bytes())\<close>.\<close>

definition put_frame :: "'i rlp_lib \<Rightarrow> crypto_lib \<Rightarrow> frame \<Rightarrow> (msession, unit) prog" where
  "put_frame L P f =
     seq (on_rlpx (as_bytes L (Some (rlpx_cipher P)) f)) (\<lambda>(b, f'). put_message b)"

definition ms_add_packet :: "'i rlp_lib \<Rightarrow> crypto_lib \<Rightarrow> packet \<Rightarrow> (msession, unit) prog" where
  "ms_add_packet L P pk =
     seq (gets ms_is_ready) (\<lambda>ready.
     seq (py_assert ready) (\<lambda>_.
     seq (on_mux (add_packet L pk)) (\<lambda>_.
     seq (on_mux (pop_all_frames L)) (\<lambda>frames.
     for_each frames (put_frame L P)))))"

definition send_init_msg :: "crypto_lib \<Rightarrow> draws \<Rightarrow> (msession, unit) prog" where
  "send_init_msg P r =
     seq (gets ms_remote_pubkey) (\<lambda>remote.
     seq (on_rlpx (create_auth_message P (py_or remote []) None (d_nonce r))) (\<lambda>auth_msg.
     seq (on_rlpx (encrypt_auth_message P (d_ephem r) (d_iv r) auth_msg None)) (\<lambda>auth_msg_ct.
     put_message auth_msg_ct)))"

text \<open>
  The constructor; \<open>ecc\<close> and \<open>ephemeral\<close> are the keys it makes. An exception of \<open>_send_init_msg\<close>
  leaves it.
\<close>

definition mk_msession :: "ecc \<Rightarrow> ecc \<Rightarrow> packet \<Rightarrow> bytes option \<Rightarrow> msession" where
  "mk_msession ecc ephemeral hello remote_pubkey =
     (let initiator = (py_or remote_pubkey [] \<noteq> []) in
      \<lparr>ms_is_initiator = initiator, ms_hello = hello, ms_messages = [], ms_packets = [],
       ms_remote_pubkey = remote_pubkey, ms_post = False, ms_mux = mk_mux (mk_session ecc initiator ephemeral)\<rparr>)"

definition new_msession ::
  "crypto_lib \<Rightarrow> draws \<Rightarrow> ecc \<Rightarrow> ecc \<Rightarrow> packet \<Rightarrow> bytes option \<Rightarrow> unit res \<times> msession" where
  "new_msession P r ecc ephemeral hello remote_pubkey =
     (let s = mk_msession ecc ephemeral hello remote_pubkey
      in if ms_is_initiator s then send_init_msg P r s else (Inr (), s))"

section \<open>Receiving\<close>

definition add_message_post_handshake :: "'i rlp_lib \<Rightarrow> crypto_lib \<Rightarrow> bytes \<Rightarrow> (msession, unit) prog" where
  "add_message_post_handshake L P msg =
     seq (on_mux (decode L (Some (rlpx_cipher P)) msg)) (\<lambda>pks.
     modify (\<lambda>s. s\<lparr>ms_packets := ms_packets s @ pks\<rparr>))"

definition add_message_during_handshake ::
  "'i rlp_lib \<Rightarrow> crypto_lib \<Rightarrow> eip8_lib \<Rightarrow> draws \<Rightarrow> bytes \<Rightarrow> (msession, unit) prog" where
  "add_message_during_handshake L P E r msg =
     seq (gets ms_is_ready) (\<lambda>ready.
     seq (py_assert (\<not> ready)) (\<lambda>_.
     seq (gets ms_is_initiator) (\<lambda>initiator.
     seq (if initiator then
            seq (on_rlpx (decode_auth_ack_message P E msg)) (\<lambda>rest.
            seq (on_rlpx (setup_cipher P)) (\<lambda>_.
            if rest \<noteq> [] then add_message_post_handshake L P rest else ret ()))
          else
            seq (on_rlpx (decode_authentication P E msg)) (\<lambda>rest.
            seq (on_rlpx (create_auth_ack_message P E supported_rlpx_version False None None (d_nonce r) (d_pad r))) (\<lambda>auth_ack_msg.
            seq (on_rlpx (encrypt_auth_ack_message P (d_ephem r) (d_iv r) auth_ack_msg False None)) (\<lambda>auth_ack_msg_ct.
            seq (put_message auth_ack_msg_ct) (\<lambda>_.
            seq (on_rlpx (setup_cipher P)) (\<lambda>_.
            if rest \<noteq> [] then add_message_post_handshake L P rest else ret ())))))) (\<lambda>_.
     seq (modify (\<lambda>s. s\<lparr>ms_post := True\<rparr>)) (\<lambda>_.
     seq (gets ms_is_ready) (\<lambda>ready.
     seq (py_assert ready) (\<lambda>_.
     seq (gets ms_hello) (\<lambda>hello.
     ms_add_packet L P hello))))))))"

definition add_message ::
  "'i rlp_lib \<Rightarrow> crypto_lib \<Rightarrow> eip8_lib \<Rightarrow> draws \<Rightarrow> bytes \<Rightarrow> (msession, unit) prog" where
  "add_message L P E r msg =
     seq (gets ms_post) (\<lambda>post.
     if post then add_message_post_handshake L P msg else add_message_during_handshake L P E r msg)"

end
