(* ===== verification/Mux_Session_Hello.thy ===== *)
theory Mux_Session_Hello
  imports Mux_Session Mux_Packets
begin

text \<open>
  Two multiplexed sessions that exchange their messages complete the handshake, and each gets the
  hello packet of the other.
\<close>

section \<open>Statements on the parts of a session\<close>

lemma on_rlpx_run:
  "f (cipher_state (ms_mux s)) = (r, c) \<Longrightarrow> on_rlpx f s = (r, s\<lparr>ms_mux := (ms_mux s)\<lparr>cipher_state := c\<rparr>\<rparr>)"
  by (simp add: on_rlpx_def on_mux_def on_cipher_def)

lemma on_mux_run: "f (ms_mux s) = (r, m) \<Longrightarrow> on_mux f s = (r, s\<lparr>ms_mux := m\<rparr>)"
  by (simp add: on_mux_def)

text \<open>Encrypting leaves the receiving half of a session alone.\<close>

definition rx_part :: "session \<Rightarrow> bool \<times> (bytes \<times> nat) option \<times> bytes option \<times> bytes option \<times> bytes option" where
  "rx_part c = (s_is_ready c, s_aes_dec c, s_mac_enc c, s_ingress_mac c, s_remote_pubkey c)"

lemma paired_rx_part: "rlpx_paired P tx rx \<Longrightarrow> rx_part rx' = rx_part rx \<Longrightarrow> rlpx_paired P tx rx'"
  by (auto simp: rlpx_paired_def receiving_def rx_part_def)

lemma aes_encrypt_rx [keeps_rules]: "keeps (\<lambda>c. rx_part c = x) (aes_encrypt P d)"
  unfolding aes_encrypt_def by (intro keeps_rules) (auto simp: rx_part_def split: prod.split intro!: keeps_rules)

lemma egress_rx [keeps_rules]: "keeps (\<lambda>c. rx_part c = x) (egress P d)"
  unfolding egress_def by (intro keeps_rules) (simp add: rx_part_def)

lemma rlpx_encrypt_rx: "keeps (\<lambda>c. rx_part c = x) (rlpx_encrypt P h b)"
  unfolding rlpx_encrypt_def mac_of_def mac_enc_def by (intro keeps_rules)

lemma as_bytes_rx: "keeps (\<lambda>c. rx_part c = x) (as_bytes L (Some (rlpx_cipher P)) f)"
  unfolding as_bytes_def option.case by (intro keeps_rules) (simp add: rlpx_cipher_def rlpx_encrypt_rx)

section \<open>Sending a packet\<close>

lemma put_frame_run:
  "as_bytes L (Some (rlpx_cipher P)) f (cipher_state (ms_mux s)) = (Inr (b, f'), c) \<Longrightarrow>
   put_frame L P f s = (Inr (), s\<lparr>ms_mux := (ms_mux s)\<lparr>cipher_state := c\<rparr>, ms_messages := ms_messages s @ [b]\<rparr>)"
  by (simp add: put_frame_def seq_run [OF on_rlpx_run] put_message_def step_simps)

text \<open>\<open>bs\<close> is what goes out for a packet; the other side decodes the packet from it.\<close>

definition decodes :: "'i rlp_lib \<Rightarrow> crypto_lib \<Rightarrow> session \<Rightarrow> packet \<Rightarrow> nat \<Rightarrow> bytes \<Rightarrow> bool" where
  "decodes L P rx pk sid bs \<longleftrightarrow> (\<exists>rx'. \<forall>m buf. cipher_state m = rx \<longrightarrow> cached_header m = None \<longrightarrow> decode_buffer m = [] \<longrightarrow>
     map_of (chunked_buffers m) (pk_protocol_id pk) = Some buf \<longrightarrow> map_of buf sid = None \<longrightarrow>
     decode L (Some (rlpx_cipher P)) bs m =
       (Inr (delivered (pk_protocol_id pk) (pk_cmd_id pk) (pk_payload pk)), m\<lparr>cipher_state := rx'\<rparr>))"

definition idle_for :: "'i rlp_lib \<Rightarrow> packet \<Rightarrow> nat \<Rightarrow> 'c mux \<Rightarrow> bool" where
  "idle_for L pk sid m \<longleftrightarrow> mux_wf m \<and> all_queued m = {#} \<and> map_of (sequence_ids m) (pk_protocol_id pk) = Some sid \<and>
     packet_ok L (pk_protocol_id pk) (pk_cmd_id pk) (Some sid) 8192 \<and> \<not> pk_prioritize pk \<and>
     48 + ceil16 (length (enc_int L (pk_cmd_id pk)) + length (pk_payload pk)) \<le>
       8192 div length (queues m) - 8192 div length (queues m) mod 16"

lemma idle_for_cipher [simp]: "idle_for L pk sid (m\<lparr>cipher_state := c\<rparr>) = idle_for L pk sid m"
  by (simp add: idle_for_def mux_wf_def all_queued_def)

lemma idle_decodes:
  assumes "\<And>m rest buf. cipher_state m = rx \<Longrightarrow> cached_header m = None \<Longrightarrow>
       map_of (chunked_buffers m) (pk_protocol_id pk) = Some buf \<Longrightarrow> map_of buf sid = None \<Longrightarrow>
       decode_frames L (Some (rlpx_cipher P)) (m\<lparr>decode_buffer := bs @ rest\<rparr>) =
       prepend (delivered (pk_protocol_id pk) (pk_cmd_id pk) (pk_payload pk))
         (decode_frames L (Some (rlpx_cipher P)) (m\<lparr>decode_buffer := rest, cipher_state := rx'\<rparr>))"
  shows "decodes L P rx pk sid bs"
  unfolding decodes_def
proof (intro exI [of _ rx'] allI impI)
  fix m :: "session mux" and buf
  assume m: "cipher_state m = rx" "cached_header m = None" "decode_buffer m = []"
    "map_of (chunked_buffers m) (pk_protocol_id pk) = Some buf" "map_of buf sid = None"
  let ?m = "m\<lparr>decode_buffer := [], cipher_state := rx'\<rparr>"
  have eq: "?m = m\<lparr>cipher_state := rx'\<rparr>" using m(3) by (cases m) simp
  have "decode_frames L (Some (rlpx_cipher P)) ?m = (Inr [], ?m)"
    using m(2) by (simp add: decode_frames.simps [of L _ ?m] frame_header_of_def f_header_size_def)
  with assms [OF m(1,2,4,5), of "[]"] m(3)
  show "decode L (Some (rlpx_cipher P)) bs m =
      (Inr (delivered (pk_protocol_id pk) (pk_cmd_id pk) (pk_payload pk)), m\<lparr>cipher_state := rx'\<rparr>)"
    unfolding eq by (simp add: decode_def step_simps)
qed

lemma ms_add_packet_run:
  assumes L: "rlp_ok L" and ready: "ms_is_ready s" and idle: "idle_for L pk sid (ms_mux s)"
    and len: "length (pk_payload pk) < 2 ^ 31" and pr: "rlpx_paired P (cipher_state (ms_mux s)) rx"
  obtains bs s' where "ms_add_packet L P pk s = (Inr (), s')" "ms_messages s' = ms_messages s @ [bs]"
    "decodes L P rx pk sid bs" "rx_part (cipher_state (ms_mux s')) = rx_part (cipher_state (ms_mux s))"
    "chunked_buffers (ms_mux s') = chunked_buffers (ms_mux s)" "decode_buffer (ms_mux s') = decode_buffer (ms_mux s)"
    "cached_header (ms_mux s') = cached_header (ms_mux s)" "ms_packets s' = ms_packets s" "ms_post s' = ms_post s"
    "ms_is_initiator s' = ms_is_initiator s"
proof -
  note i = idle [unfolded idle_for_def]
  let ?f = "normal_frame (pk_protocol_id pk) (pk_cmd_id pk) (Some sid) (pk_payload pk)"
  obtain m1 m2 where m: "add_packet L pk (ms_mux s) = (Inr (), m1)" "pop_all_frames L m1 = (Inr [?f], m2)"
    "receiver_part m2 = receiver_part (ms_mux s)"
    and cut: "mk_frames L (pk_protocol_id pk) (pk_cmd_id pk) (pk_payload pk) (Some sid) 8192 False = Inr [?f]"
    by (rule idle_add_pop [of "ms_mux s" pk sid L]) (use i in auto)
  have ok: "packet_ok L (pk_protocol_id pk) (pk_cmd_id pk) (Some sid) 8192" using i by blast
  have c2: "cipher_state m2 = cipher_state (ms_mux s)" using m(3) by (simp add: receiver_part_def)
  have w: "(8192 :: nat) \<le> 2 ^ 23" by simp
  obtain fs bs tx' rx' where fs: "mk_frames L (pk_protocol_id pk) (pk_cmd_id pk) (pk_payload pk) (Some sid) 8192 False = Inr fs"
    "join_bytes L (Some (rlpx_cipher P)) fs (cipher_state (ms_mux s)) = (Inr bs, tx')"
    and dec: "\<And>m rest buf. cipher_state m = rx \<Longrightarrow> cached_header m = None \<Longrightarrow>
       map_of (chunked_buffers m) (pk_protocol_id pk) = Some buf \<Longrightarrow> map_of buf sid = None \<Longrightarrow>
       decode_frames L (Some (rlpx_cipher P)) (m\<lparr>decode_buffer := bs @ rest\<rparr>) =
       prepend (delivered (pk_protocol_id pk) (pk_cmd_id pk) (pk_payload pk))
         (decode_frames L (Some (rlpx_cipher P)) (m\<lparr>decode_buffer := rest, cipher_state := rx'\<rparr>))"
    using rlpx.packet_received [OF L ok w len pr] by blast
  have "fs = [?f]" using fs(1) cut by simp
  then obtain f' where f': "as_bytes L (Some (rlpx_cipher P)) ?f (cipher_state m2) = (Inr (bs, f'), tx')"
    using fs(2) c2 by (auto simp: run_simps)
  define s' where "s' = s\<lparr>ms_mux := m2\<lparr>cipher_state := tx'\<rparr>, ms_messages := ms_messages s @ [bs]\<rparr>"
  have run: "ms_add_packet L P pk s = (Inr (), s')"
    using ready m(1,2) f'
    by (simp add: ms_add_packet_def step_simps seq_run [OF on_mux_run] seq_run [OF put_frame_run] s'_def ret_def)
  have "rx_part tx' = rx_part (cipher_state (ms_mux s))"
    using keeps_result [OF as_bytes_rx refl f'] c2 by simp
  with that [OF run] idle_decodes [OF dec] m(3) show ?thesis by (simp add: s'_def receiver_part_def)
qed

text \<open>A session that waits for a packet gets it.\<close>

lemma ms_receive:
  assumes "decodes L P rx pk sid bs" "cipher_state (ms_mux s) = rx" "ms_post s" "cached_header (ms_mux s) = None"
    "decode_buffer (ms_mux s) = []" "map_of (chunked_buffers (ms_mux s)) (pk_protocol_id pk) = Some buf" "map_of buf sid = None"
  shows "\<exists>s'. add_message L P E r bs s = (Inr (), s') \<and>
    ms_packets s' = ms_packets s @ delivered (pk_protocol_id pk) (pk_cmd_id pk) (pk_payload pk)"
proof -
  obtain rx' where "decode L (Some (rlpx_cipher P)) bs (ms_mux s) =
      (Inr (delivered (pk_protocol_id pk) (pk_cmd_id pk) (pk_payload pk)), (ms_mux s)\<lparr>cipher_state := rx'\<rparr>)"
    using assms unfolding decodes_def by blast
  then show ?thesis
    using assms(3) by (simp add: add_message_def add_message_post_handshake_def step_simps seq_run [OF on_mux_run])
qed

section \<open>Both sides\<close>

text \<open>
  A session before the handshake: its multiplexer is idle, can send its own hello and knows the
  protocol of the other's.
\<close>

definition before_handshake ::
  "'i rlp_lib \<Rightarrow> bool \<Rightarrow> ecc \<Rightarrow> ecc \<Rightarrow> packet \<Rightarrow> nat \<Rightarrow> packet \<Rightarrow> msession \<Rightarrow> bool" where
  "before_handshake L initiator ecc eph hello sid other s \<longleftrightarrow>
     ms_is_initiator s = initiator \<and> ms_hello s = hello \<and> ms_messages s = [] \<and> ms_packets s = [] \<and> \<not> ms_post s \<and>
     cipher_state (ms_mux s) = mk_session ecc initiator eph \<and> idle_for L hello sid (ms_mux s) \<and>
     length (pk_payload hello) < 2 ^ 31 \<and> decode_buffer (ms_mux s) = [] \<and> cached_header (ms_mux s) = None \<and>
     map_of (chunked_buffers (ms_mux s)) (pk_protocol_id other) = Some []"

lemma mk_session_fields:
  "s_ecc (mk_session e i h) = e" "s_ephemeral (mk_session e i h) = h" "s_is_initiator (mk_session e i h) = i"
  "s_got_eip8_auth (mk_session e i h) = False" "s_is_ready (mk_session e i h) = False"
  by (simp_all add: mk_session_def)

text \<open>A session after its handshake that has received nothing yet.\<close>

definition awaits_packets :: "msession \<Rightarrow> bool" where
  "awaits_packets s \<longleftrightarrow> ms_post s \<and> ms_packets s = [] \<and> decode_buffer (ms_mux s) = [] \<and> cached_header (ms_mux s) = None"

lemma hello_packets_exchanged:
  assumes L: "rlp_ok L" and ok: "hashes_ok P" "keys_ok P"
    and keys: "key_pair P a" "key_pair P ea" "key_pair P b" "key_pair P eb" "key_pair P (d_ephem r1)" "key_pair P (d_ephem r2)"
    and iv: "length (d_iv r1) = 16" "length (d_iv r2) = 16"
    and s: "before_handshake L True a ea hs ss ht s" "ms_remote_pubkey s = Some (e_pubkey b)"
    and t: "before_handshake L False b eb ht st hs t"
  shows "\<exists>auth ack bs bt s1 s2 s3 t1 t2.
    send_init_msg P r1 s = (Inr (), s1) \<and> ms_messages s1 = [auth] \<and>
    add_message L P E r2 auth t = (Inr (), t1) \<and> ms_messages t1 = [ack, bt] \<and>
    add_message L P E r3 ack s1 = (Inr (), s2) \<and> ms_messages s2 = [auth, bs] \<and>
    add_message L P E r4 bs t1 = (Inr (), t2) \<and> ms_packets t2 = delivered (pk_protocol_id hs) (pk_cmd_id hs) (pk_payload hs) \<and>
    add_message L P E r5 bt s2 = (Inr (), s3) \<and> ms_packets s3 = delivered (pk_protocol_id ht) (pk_cmd_id ht) (pk_payload ht) \<and>
    s_remote_pubkey (cipher_state (ms_mux t1)) = Some (e_pubkey a) \<and> awaits_packets t1 \<and> awaits_packets s2 \<and> \<not> ms_post s1"
proof -
  note S = s(1) [unfolded before_handshake_def] and T = t [unfolded before_handshake_def]
  let ?cs = "mk_session a True ea" and ?ct = "mk_session b False eb"
  have n: "length (py_or None (sha3 P (d_nonce r))) = 32" for r
    by (simp add: py_or_def hashes_lengths [OF ok(1)])
  obtain auth c1 ct1 c2 k1 ack k2 ct2 k3 k4 c3 c4 where
    h: "create_auth_message P (e_pubkey b) None (d_nonce r1) ?cs = (Inr auth, c1)"
    "encrypt_auth_message P (d_ephem r1) (d_iv r1) auth None c1 = (Inr ct1, c2)"
    "\<And>rest. decode_authentication P E (ct1 @ rest) ?ct = (Inr rest, k1)"
    "create_auth_ack_message P E supported_rlpx_version False None None (d_nonce r2) (d_pad r2) k1 = (Inr ack, k2)"
    "encrypt_auth_ack_message P (d_ephem r2) (d_iv r2) ack False None k2 = (Inr ct2, k3)"
    "setup_cipher P k3 = (Inr (), k4)"
    "\<And>rest. decode_auth_ack_message P E (ct2 @ rest) c2 = (Inr rest, c3)"
    "setup_cipher P c3 = (Inr (), c4)"
    and paired: "rlpx_paired P c4 k4" "rlpx_paired P k4 c4"
    and remote: "s_remote_pubkey k4 = Some (e_pubkey a)" and ready2: "s_is_ready c2 = s_is_ready ?cs"
    by (rule handshake_runs [where s = ?cs and t = ?ct and E = E and pad = "d_pad r2", OF ok keys iv n [of r1] n [of r2]])
      ((simp_all only: mk_session_fields not_False_eq_True)[7], rule that)
  note d1 = h(3) [of "[]", unfolded append_Nil2] and d2 = h(7) [of "[]", unfolded append_Nil2]
  have b: "py_or (Some (e_pubkey b)) [] = e_pubkey b" using keys_distinct_bytes [OF ok(2) keys(3)] by (simp add: py_or_def)
  text \<open>The initiator's first message.\<close>
  define s1 where "s1 = s\<lparr>ms_mux := (ms_mux s)\<lparr>cipher_state := c2\<rparr>, ms_messages := [ct1]\<rparr>"
  have init: "send_init_msg P r1 s = (Inr (), s1)"
    using S s(2) h(1,2) b
    by (simp add: send_init_msg_def step_simps seq_run [OF on_rlpx_run] put_message_def s1_def)
  text \<open>The responder answers and sends its hello.\<close>
  define t0 where "t0 = t\<lparr>ms_messages := [ct2], ms_mux := (ms_mux t)\<lparr>cipher_state := k4\<rparr>, ms_post := True\<rparr>"
  have k4: "s_is_ready k4" using paired(1) by (auto simp: rlpx_paired_def receiving_def)
  moreover have "\<not> s_is_ready (cipher_state (ms_mux t))" using T by (simp add: mk_session_fields)
  ultimately have resp: "add_message L P E r2 ct1 t = ms_add_packet L P ht t0"
    using T d1 h(4-6)
    by (simp add: add_message_def add_message_during_handshake_def step_simps seq_assoc seq_run [OF on_rlpx_run]
        put_message_def t0_def ms_is_ready_def)
  have "ms_is_ready t0" using k4 by (simp add: ms_is_ready_def t0_def)
  have idle_t: "idle_for L ht st (ms_mux t0)" using T by (simp add: t0_def)
  obtain bt t1 where t1: "ms_add_packet L P ht t0 = (Inr (), t1)" "ms_messages t1 = [ct2, bt]"
    "decodes L P c4 ht st bt" "rx_part (cipher_state (ms_mux t1)) = rx_part k4"
    "chunked_buffers (ms_mux t1) = chunked_buffers (ms_mux t)" "decode_buffer (ms_mux t1) = []"
    "cached_header (ms_mux t1) = None" "ms_packets t1 = []" "ms_post t1"
    by (rule ms_add_packet_run [OF L \<open>ms_is_ready t0\<close> idle_t, of P c4])
      (use T paired(2) in \<open>auto simp: t0_def\<close>)
  text \<open>The initiator gets the answer and sends its hello.\<close>
  define s0 where "s0 = s1\<lparr>ms_mux := (ms_mux s)\<lparr>cipher_state := c4\<rparr>, ms_post := True\<rparr>"
  have "ms_is_ready s0" using paired(1) by (auto simp: ms_is_ready_def s0_def rlpx_paired_def sending_def)
  then have "s_is_ready c4" by (simp add: ms_is_ready_def s0_def)
  moreover have "\<not> s_is_ready c2" using ready2 by (simp add: mk_session_fields)
  ultimately have fin: "add_message L P E r3 ct2 s1 = ms_add_packet L P hs s0"
    using S d2 h(8)
    by (simp add: add_message_def add_message_during_handshake_def step_simps seq_assoc seq_run [OF on_rlpx_run]
        s0_def s1_def ms_is_ready_def)
  have idle_s: "idle_for L hs ss (ms_mux s0)" using S by (simp add: s0_def)
  have pr: "rlpx_paired P c4 (cipher_state (ms_mux t1))" by (rule paired_rx_part [OF paired(1) t1(4)])
  obtain bs s2 where s2: "ms_add_packet L P hs s0 = (Inr (), s2)" "ms_messages s2 = [ct1, bs]"
    "decodes L P (cipher_state (ms_mux t1)) hs ss bs" "rx_part (cipher_state (ms_mux s2)) = rx_part c4"
    "chunked_buffers (ms_mux s2) = chunked_buffers (ms_mux s)" "decode_buffer (ms_mux s2) = []"
    "cached_header (ms_mux s2) = None" "ms_packets s2 = []" "ms_post s2"
    by (rule ms_add_packet_run [OF L \<open>ms_is_ready s0\<close> idle_s, of P "cipher_state (ms_mux t1)"])
      (use S pr in \<open>auto simp: s0_def s1_def\<close>)
  text \<open>Each hello arrives.\<close>
  have pr': "rlpx_paired P k4 (cipher_state (ms_mux s2))" by (rule paired_rx_part [OF paired(2) s2(4)])
  obtain bt' t1' where t1': "ms_add_packet L P ht t0 = (Inr (), t1')" "ms_messages t1' = [ct2, bt']"
    "decodes L P (cipher_state (ms_mux s2)) ht st bt'"
    by (rule ms_add_packet_run [OF L \<open>ms_is_ready t0\<close> idle_t, of P "cipher_state (ms_mux s2)"])
      (use T pr' in \<open>auto simp: t0_def\<close>)
  then have dec: "decodes L P (cipher_state (ms_mux s2)) ht st bt" using t1(1,2) by simp
  obtain t2 where t2: "add_message L P E r4 bs t1 = (Inr (), t2)"
    "ms_packets t2 = delivered (pk_protocol_id hs) (pk_cmd_id hs) (pk_payload hs)"
    using ms_receive [OF s2(3) refl t1(9,7,6), of "[]" E r4] t1(5,8) T by auto
  obtain s3 where s3: "add_message L P E r5 bt s2 = (Inr (), s3)"
    "ms_packets s3 = delivered (pk_protocol_id ht) (pk_cmd_id ht) (pk_payload ht)"
    using ms_receive [OF dec refl s2(9,7,6), of "[]" E r5] s2(5,8) S by auto
  have "s_remote_pubkey (cipher_state (ms_mux t1)) = Some (e_pubkey a)"
    using t1(4) remote by (simp add: rx_part_def)
  moreover have "awaits_packets t1" "awaits_packets s2" using t1(6-9) s2(6-9) by (simp_all add: awaits_packets_def)
  moreover have "\<not> ms_post s1" using S by (simp add: s1_def)
  ultimately show ?thesis
    using init resp [unfolded t1(1)] t1(2) fin [unfolded s2(1)] s2(2) t2 s3
    by (intro exI conjI) (assumption | simp add: s1_def)+
qed

end
