(* ===== verification/Handshake_Eip8.thy ===== *)
theory Handshake_Eip8
  imports Handshake_Agreement
begin

text \<open>
  The acknowledgement in the format of EIP-8: a length prefix that is authenticated with the
  message. The initiator first tries the old format, which the prefix makes fail.
\<close>

lemma ecies_decrypt_bad_marker: "take 1 c \<noteq> [4] \<Longrightarrow> ecies_decrypt P e c mac = Inl ECIESDecryptionError"
  by (simp add: ecies_decrypt_def)

lemma be_bytes_2_hd: "256 \<le> n \<Longrightarrow> n < 512 \<Longrightarrow> take 1 (be_bytes 2 n) = [1]"
proof -
  assume n: "256 \<le> n" "n < 512"
  then have "n div 256 = 1" by (intro div_nat_eqI) simp_all
  then show ?thesis by (simp add: numeral_2_eq_2)
qed

text \<open>What the responder sends: prefix and ciphertext.\<close>

lemma eip8_ack_created:
  assumes "\<not> s_is_initiator t" "s_got_eip8_auth t" "nonce \<noteq> []"
    and "enc_ack E (e_pubkey (s_ephemeral t)) nonce v = Inr data" "97 < length data"
  shows "create_auth_ack_message P E v False None (Some nonce) random pad t =
    (Inr (data @ pad), t\<lparr>s_responder_nonce := Some nonce\<rparr>)"
  using assms
  by (simp add: create_auth_ack_message_def step_simps create_eip8_auth_ack_message_def py_or_def Let_def ret_def)

lemma eip8_ack_encrypted:
  assumes "hashes_ok P" "keys_ok P" "key_pair P e" "key_pair P a" "length iv = 16"
    and "\<not> s_is_initiator t" "s_got_eip8_auth t" "s_remote_pubkey t = Some (e_pubkey a)" "length m < 2 ^ 16 - 113"
  obtains c where "encrypt_auth_ack_message P e iv m False None t =
      (Inr (be_bytes 2 (length m + 113) @ c), t\<lparr>s_auth_ack := Some (be_bytes 2 (length m + 113) @ c)\<rparr>)"
    "length c = length m + 113" "ecies_decrypt P a c (be_bytes 2 (length m + 113)) = Inr m"
proof -
  obtain c where c: "ecies_encrypt P e iv m (e_pubkey a) (be_bytes 2 (length m + 113)) = Inr c" "length c = 113 + length m"
    by (rule ecies_encrypt_length [OF assms(1-5), of m "be_bytes 2 (length m + 113)"])
  have "encrypt_auth_ack_message P e iv m False None t =
      (Inr (be_bytes 2 (length m + 113) @ c), t\<lparr>s_auth_ack := Some (be_bytes 2 (length m + 113) @ c)\<rparr>)"
    using assms(6-9) c
    by (simp add: encrypt_auth_ack_message_def step_simps need_def py_or_def Let_def ret_def)
  with that c(2) ecies_decrypt_encrypt [OF assms(1-5) c(1)] show ?thesis by simp
qed

text \<open>What the initiator makes of it: the message, or an assertion when anything follows.\<close>

lemma eip8_ack_decoded:
  assumes n: "256 \<le> n" "n < 512" and c: "length c = n" "ecies_decrypt P a c (be_bytes 2 n) = Inr m"
    and dec: "dec_ack E m = Inr (Some (pk, nonce, v))"
  shows "decode_ack_any P E a (be_bytes 2 n @ c @ rest) =
    (if rest = [] then Inr ((n + 2, pk, nonce, v), True) else Inl AssertionError)"
proof -
  let ?x = "be_bytes 2 n @ c @ rest"
  have "take 1 (take 210 ?x) = [1]" using be_bytes_2_hd [OF n] by simp
  then have plain: "decode_ack_plain P a ?x = Inl AuthenticationError"
    by (simp add: decode_ack_plain_def ecies_decrypt_bad_marker auth_error_def is_runtime_error_def)
  have pre: "take 2 ?x = be_bytes 2 n" by simp
  have val: "be_val (be_bytes 2 n) = n" by (rule be_val_be_bytes) (use n in simp)
  have size: "eip8_size ?x = Inr (n + 2)" by (simp add: eip8_size_def pre val)
  have body: "slice 2 (n + 2) ?x = c" if "rest = []" using that c(1) by (simp add: slice_def)
  have "decode_ack_eip8 P E a ?x = (if rest = [] then Inr (n + 2, pk, nonce, v) else Inl AssertionError)"
  proof (cases "rest = []")
    case True
    then show ?thesis unfolding decode_ack_eip8_def size bind_res.simps body [OF True] pre
      using c dec by (simp add: auth_error_def need_def)
  next
    case False
    then show ?thesis unfolding decode_ack_eip8_def size using c(1) by simp
  qed
  with plain show ?thesis by (simp add: decode_ack_any_def)
qed

lemma eip8_ack_received:
  assumes "keys_ok P" "key_pair P eb" "s_is_initiator s" "256 \<le> n" "n < 512" "length c = n"
    "ecies_decrypt P (s_ecc s) c (be_bytes 2 n) = Inr m" "dec_ack E m = Inr (Some (e_pubkey eb, nonce, v))"
  shows "decode_auth_ack_message P E (be_bytes 2 n @ c @ rest) s =
    (if rest = []
     then (Inr [], s\<lparr>s_got_eip8_ack := True, s_auth_ack := Some (be_bytes 2 n @ c), s_remote_ephemeral_pubkey := Some (e_pubkey eb),
       s_responder_nonce := Some nonce, s_remote_version := v\<rparr>)
     else (Inl AssertionError, s))"
proof -
  note any = eip8_ack_decoded [of n, OF assms(4-8)]
  have pk: "take 64 (e_pubkey eb) = e_pubkey eb" using key_pair_pub [OF assms(1,2)] by simp
  show ?thesis
    using assms(3-6) key_pair_valid [OF assms(1,2)]
    by (auto simp: decode_auth_ack_message_def step_simps seq_lift_run any pk ret_def)
qed

end
