(* ===== verification/Crypto_Properties.thy ===== *)
theory Crypto_Properties
  imports Crypto_Laws
begin

text \<open>
  The correctness properties of keys, key derivation and encryption, each with a concrete instance
  on the sample primitives.
\<close>

definition sample_key :: "byte \<Rightarrow> ecc" where
  "sample_key b = sample_ecc (replicate 32 b)"

lemma sample_key_ok: "key_pair sample_crypto (sample_key b)"
  unfolding sample_key_pair sample_key_def by (rule exI [of _ "replicate 32 b"]) simp

text \<open>C24. What is encrypted for the public key of a node, with any ephemeral key and initialisation
  vector, is 113 bytes longer than the data, and that node decrypts it to the data again, given
  the same authenticated data.\<close>

theorem ecies_roundtrip:
  assumes "hashes_ok P" "keys_ok P" "key_pair P ephem" "key_pair P node" "length iv = 16"
  shows "\<exists>c. ecies_encrypt P ephem iv data (e_pubkey node) mac = Inr c \<and> length c = 113 + length data \<and>
    ecies_decrypt P node c mac = Inr data"
proof -
  obtain c where c: "ecies_encrypt P ephem iv data (e_pubkey node) mac = Inr c" "length c = 113 + length data"
    by (rule ecies_encrypt_length [OF assms, of data mac])
  with ecies_decrypt_encrypt [OF assms c(1)] show ?thesis by blast
qed

lemma ecies_roundtrip_witness:
  "\<exists>c. ecies_encrypt sample_crypto (sample_key 3) (replicate 16 9) [1, 2, 3] (e_pubkey (sample_key 5)) [7] = Inr c \<and>
    length c = 116 \<and> ecies_decrypt sample_crypto (sample_key 5) c [7] = Inr [1, 2, 3]"
  using ecies_roundtrip [OF sample_hashes_ok sample_keys_ok sample_key_ok sample_key_ok, of "replicate 16 9" 3 "[1, 2, 3]" 5 "[7]"]
  by simp

text \<open>C25. Nothing is decrypted that has not been authenticated: a message that is accepted consists of
  the marker 4, a public key, an initialisation vector, a ciphertext, and the tag that the key
  agreed with that public key gives for the vector, the ciphertext and the authenticated data.\<close>

theorem ecies_accepts_only_authenticated:
  assumes "ctr_blocksize P = 16" "ecies_decrypt P node c mac = Inr data"
  shows "\<exists>R iv x tag s ke km. c = [4] @ R @ iv @ x @ tag \<and> length R = 64 \<and> length iv = 16 \<and> length tag = 32 \<and>
    raw_ecdh P node (take 32 R) (drop 32 R) = Inr s \<and> ecies_keys P s = Inr (ke, km) \<and>
    hmac_sha256 P km (iv @ x @ mac) = tag \<and> data = ctr_xor (ctr_stream P ke iv) 0 x"
  using ecies_decrypt_verified [OF assms(2,1)] by metis

lemma ecies_accepts_only_authenticated_witness:
  "\<exists>c R iv x tag. ecies_decrypt sample_crypto (sample_key 5) c [7] = Inr [1, 2, 3] \<and> c = [4] @ R @ iv @ x @ tag \<and>
    tag = pad32 (iv @ x @ [7])"
proof -
  obtain c where c: "ecies_encrypt sample_crypto (sample_key 3) (replicate 16 9) [1, 2, 3] (e_pubkey (sample_key 5)) [7] = Inr c"
    by (rule ecies_encrypt_length [OF sample_hashes_ok sample_keys_ok sample_key_ok sample_key_ok, of "replicate 16 9"]) auto
  have d: "ecies_decrypt sample_crypto (sample_key 5) c [7] = Inr [1, 2, 3]"
    by (rule ecies_decrypt_encrypt [OF sample_hashes_ok sample_keys_ok sample_key_ok sample_key_ok _ c]) simp
  have "ctr_blocksize sample_crypto = 16" by (simp add: sample_crypto_def)
  from ecies_accepts_only_authenticated [OF this d] obtain R iv x tag km where
    "c = [4] @ R @ iv @ x @ tag" "hmac_sha256 sample_crypto km (iv @ x @ [7]) = tag" by blast
  with d show ?thesis by (auto simp: sample_crypto_def)
qed

text \<open>\<open>eciesKDF\<close> returns the requested number of bytes, but never more than 32 bytes for each started
  64 bytes of \<open>key_len + 7\<close>: it counts in blocks of the hash function's input where its output
  is half as long. Up to 32 bytes the length is right, from 33 to 56 it is 32.\<close>

theorem kdf_output_length:
  assumes "hashes_ok P" "eciesKDF P key_material key_len = Inr key"
  shows "length key = min key_len (32 * ((key_len + 7) div 64 + 1))"
  using assms by (rule kdf_length)

lemma kdf_output_length_witness:
  "\<exists>key. eciesKDF sample_crypto [] 40 = Inr key \<and> length key = 32"
proof -
  obtain key where k: "eciesKDF sample_crypto [] 40 = Inr key"
    by (simp add: eciesKDF_def kdf_loop.simps)
  from kdf_output_length [OF sample_hashes_ok k] k show ?thesis by simp
qed

text \<open>Every key object the constructor returns has a public key of 64 bytes, and no private key or
  one of 32 bytes in the accepted format.\<close>

theorem new_keys_are_well_formed:
  assumes "eccx P raw_pubkey raw_privkey = Some (Inr e)"
  shows "length (e_pubkey e) = 64 \<and>
    (case e_privkey e of None \<Rightarrow> True | Some k \<Rightarrow> k = [] \<or> length k = 32 \<and> privkey_format_ok P k)"
proof -
  obtain xy given where "eccx_loop P xy raw_privkey given 0 = Some (Inr e)"
    using assms unfolding eccx_def by (auto split: sum.splits)
  then show ?thesis using eccx_loop_shape unfolding ecc_ok_def by blast
qed

lemma sample_eccx:
  "eccx sample_crypto None (Some (replicate 32 5)) = Some (Inr (sample_key 5))"
  by (simp add: eccx_def py_or_def privtopub_def sample_crypto_def eccx_loop.simps sample_ecc_def sample_key_def Let_def
      numeral_eq_Suc)

lemma new_keys_are_well_formed_witness: "length (e_pubkey (sample_key 5)) = 64"
  using new_keys_are_well_formed [OF sample_eccx] by blast

text \<open>Generating a key ends as soon as the generator yields one in the accepted format: the loop
  goes on for keys it rejects only.\<close>

theorem key_generation_ends:
  assumes "ecc_init P None None n = Inr e" "key_pair P e" "length (e_pubkey e) = 64"
  shows "\<exists>r. eccx P None None = Some r"
  using eccx_loop_ends [of P None None 0 n e False] assms by (simp add: eccx_def py_or_def)

lemma key_generation_ends_witness: "\<exists>r. eccx sample_crypto None None = Some r"
proof -
  have "key_pair sample_crypto (sample_ecc (replicate 32 1))"
    using sample_key_ok [of 1] by (simp add: sample_key_def)
  moreover have "ecc_init sample_crypto None None 1 = Inr (sample_ecc (replicate 32 1))" by (simp add: sample_crypto_def)
  ultimately show ?thesis
    using key_generation_ends [of sample_crypto 1] by (simp add: sample_ecc_def)
qed

end
