(* ===== verification/Mux_Traffic.thy ===== *)
theory Mux_Traffic
  imports Mux_Packets Rlpx_Transport
begin

text \<open>
  Packets on the whole way: added to the queues of one multiplexer, popped as frames, written to the
  wire, and decoded by another multiplexer.
\<close>

section \<open>One busy queue\<close>

text \<open>All that is queued are the frames \<open>fs\<close>, in one queue of one protocol.\<close>

definition holds_only :: "nat \<Rightarrow> qname \<Rightarrow> frame list \<Rightarrow> 'c mux \<Rightarrow> bool" where
  "holds_only p q fs m \<longleftrightarrow> mux_wf m \<and>
     (\<exists>qs. map_of (queues m) p = Some qs \<and> qs q = fs \<and> (\<forall>q'. q' \<noteq> q \<longrightarrow> qs q' = [])) \<and>
     (\<forall>p' qs q'. p' \<noteq> p \<longrightarrow> map_of (queues m) p' = Some qs \<longrightarrow> qs q' = [])"

lemma holds_only_set:
  assumes "holds_only p q fs m" "qs q = gs" "\<forall>q'. q' \<noteq> q \<longrightarrow> qs q' = []"
  shows "holds_only p q gs (set_queues p qs m)"
proof -
  obtain qs0 where "map_of (queues m) p = Some qs0" using assms(1) by (auto simp: holds_only_def)
  from mux_wf_set_queues [OF _ this, of qs] assms show ?thesis
    by (auto simp: holds_only_def set_queues_def update_conv')
qed

lemma same_elements_length:
  assumes "distinct xs" "\<And>x y. x \<in> set xs \<Longrightarrow> y \<in> set xs \<Longrightarrow> x = y"
  shows "length xs \<le> 1"
proof (rule ccontr)
  assume "\<not> length xs \<le> 1"
  then have l: "0 < length xs" "1 < length xs" by linarith+
  then have "xs ! 0 \<noteq> xs ! 1" using assms(1) by (subst nth_eq_iff_index_eq) auto
  moreover have "xs ! 0 \<in> set xs" "xs ! 1 \<in> set xs" using l by (simp_all only: nth_mem)
  ultimately show False using assms(2) by blast
qed

lemma holds_only_window:
  assumes "holds_only p q fs m"
  shows "pop_window m = 8192"
proof -
  have d: "distinct (map fst (queues m))" using assms by (simp add: holds_only_def mux_wf_def)
  have "x = y" if "x \<in> set (filter (\<lambda>(p, qs). active qs) (queues m))" "y \<in> set (filter (\<lambda>(p, qs). active qs) (queues m))" for x y
  proof -
    have "fst z = p" if "z \<in> set (filter (\<lambda>(p, qs). active qs) (queues m))" for z
    proof (rule ccontr)
      assume "fst z \<noteq> p"
      moreover have "map_of (queues m) (fst z) = Some (snd z)" using that d by simp
      ultimately have "snd z q' = []" for q' using assms unfolding holds_only_def by blast
      then show False using that by (auto simp: active_def)
    qed
    then have "fst x = p" "fst y = p" using that by blast+
    then show ?thesis using that d by (auto simp: eq_key_imp_eq_value intro!: prod_eqI)
  qed
  moreover have "distinct (filter (\<lambda>(p, qs). active qs) (queues m))" using d by (simp add: distinct_map)
  ultimately have "length (filter (\<lambda>(p, qs). active qs) (queues m)) \<le> 1" by (intro same_elements_length) blast+
  then have "max 1 (num_active_protocols m) = 1" by (simp add: num_active_protocols_def)
  then show ?thesis by (simp add: pop_window_def max_window_size_def)
qed

lemma pop_idle_protocol:
  assumes "map_of (queues m) p = Some qs" "\<forall>q. qs q = []"
  shows "pop_frames_for_protocol L p m = (Inr [], m)"
proof -
  obtain frames qs' where r: "pop_loop L (pop_window m) qs [] 0 = (qs', frames)"
    "pop_frames_for_protocol L p m = (Inr frames, set_queues p qs' m)" using pop_for_protocol_total [OF assms(1)] by blast
  have "heads_blocked L (pop_window m) qs" using assms(2) by (simp add: heads_blocked_def)
  from pop_loop_blocked [OF this] r set_queues_same [OF assms(1)] show ?thesis by simp
qed

lemma from_other_queue: "(\<forall>q'. q' \<noteq> q \<longrightarrow> from_queue q' tr = []) \<Longrightarrow> map snd tr = from_queue q tr"
proof (induction tr)
  case Nil
  then show ?case by (simp add: from_queue_def)
next
  case (Cons x tr)
  have "fst x = q"
  proof (rule ccontr)
    assume "fst x \<noteq> q"
    then have "from_queue (fst x) (x # tr) = []" using Cons.prems by blast
    then show False by (simp add: from_queue_def)
  qed
  moreover have "\<forall>q'. q' \<noteq> q \<longrightarrow> from_queue q' tr = []"
    using Cons.prems by (auto simp: from_queue_def split: if_splits)
  ultimately show ?case using Cons.IH by (simp add: from_queue_def)
qed

lemma pop_busy_protocol:
  assumes "holds_only p q fs m" "fs \<noteq> []" "\<forall>f \<in> set fs. frame_size L f \<le> 8192"
  obtains gs hs m' where "pop_frames_for_protocol L p m = (Inr gs, m')" "fs = gs @ hs" "gs \<noteq> []" "holds_only p q hs m'"
proof -
  obtain qs where qs: "map_of (queues m) p = Some qs" "qs q = fs" "\<forall>q'. q' \<noteq> q \<longrightarrow> qs q' = []"
    using assms(1) by (auto simp: holds_only_def)
  obtain gs qs' where r: "pop_loop L (pop_window m) qs [] 0 = (qs', gs)"
    "pop_frames_for_protocol L p m = (Inr gs, set_queues p qs' m)" using pop_for_protocol_total [OF qs(1)] by blast
  obtain tr where tr: "gs = map snd tr" "\<forall>q. qs q = from_queue q tr @ qs' q"
    by (rule pop_loop_spec [OF r(1)], rule that)
  have other: "\<forall>q'. q' \<noteq> q \<longrightarrow> from_queue q' tr = [] \<and> qs' q' = []" using tr(2) qs(3) by (metis append_is_Nil_conv)
  then have "gs = from_queue q tr" using tr(1) from_other_queue [of q tr] by blast
  then have "fs = gs @ qs' q" using tr(2) qs(2) by metis
  moreover have "gs \<noteq> []"
  proof
    assume "gs = []"
    with pop_loop_nothing(2) [of L "pop_window m" qs qs'] r(1) have "heads_blocked L 8192 qs"
      by (simp add: holds_only_window [OF assms(1)])
    with qs(2) assms(2,3) show False by (cases fs) (auto simp: heads_blocked_def not_le [symmetric])
  qed
  moreover have "holds_only p q (qs' q) (set_queues p qs' m)"
    using holds_only_set [OF assms(1)] other by blast
  ultimately show thesis using that r(2) by blast
qed

lemma first_nonempty_busy:
  assumes "holds_only p q fs m" "fs \<noteq> []" "\<forall>f \<in> set fs. frame_size L f \<le> 8192" "p \<in> set ps" "set ps \<subseteq> fst ` set (queues m)"
  obtains gs hs m' where "first_nonempty (pop_frames_for_protocol L) ps m = (Inr gs, m')" "fs = gs @ hs" "gs \<noteq> []" "holds_only p q hs m'"
  using assms(4,5)
proof (induction ps arbitrary: thesis)
  case (Cons p' ps)
  show ?case
  proof (cases "p' = p")
    case True
    obtain gs hs m' where "pop_frames_for_protocol L p m = (Inr gs, m')" "fs = gs @ hs" "gs \<noteq> []" "holds_only p q hs m'"
      by (rule pop_busy_protocol [OF assms(1-3)])
    then show ?thesis by (intro Cons.prems(1)) (simp_all add: True seq_def ret_def)
  next
    case False
    obtain qs where "map_of (queues m) p' = Some qs" using Cons.prems(3) key_map_of [of p' "queues m"] by auto
    moreover from this False assms(1) have "\<forall>q. qs q = []" by (auto simp: holds_only_def)
    ultimately have "pop_frames_for_protocol L p' m = (Inr [], m)" by (rule pop_idle_protocol)
    then have "first_nonempty (pop_frames_for_protocol L) (p' # ps) m = first_nonempty (pop_frames_for_protocol L) ps m"
      by (simp add: seq_def)
    then show ?thesis using Cons.IH Cons.prems False by auto
  qed
qed simp

lemma first_nonempty_idle:
  assumes "\<forall>p \<in> set ps. \<exists>qs. map_of (queues m) p = Some qs \<and> (\<forall>q. qs q = [])"
  shows "first_nonempty (pop_frames_for_protocol L) ps m = (Inr [], m)"
  using assms
proof (induction ps)
  case (Cons p ps)
  then have "pop_frames_for_protocol L p m = (Inr [], m)" using pop_idle_protocol [of m p] by auto
  then show ?case using Cons by (simp add: seq_def)
qed (simp add: ret_def)

lemma pop_all_only:
  "holds_only p q fs m \<Longrightarrow> \<forall>f \<in> set fs. frame_size L f \<le> 8192 \<Longrightarrow>
   \<exists>m'. pop_all_from L acc m = (Inr (acc @ fs), m') \<and> holds_only p q [] m'"
proof (induction "length fs" arbitrary: fs acc m rule: less_induct)
  case less
  obtain qs where qs: "map_of (queues m) p = Some qs" using less.prems(1) by (auto simp: holds_only_def)
  have wf: "mux_wf m" "queues m \<noteq> []" using less.prems(1) qs by (auto simp: holds_only_def)
  obtain n ps where u: "set ps = fst ` set (queues m)" "n \<in> fst ` set (queues m)"
    "pop_frames L m = first_nonempty (pop_frames_for_protocol L) ps (m\<lparr>last_protocol := Some n\<rparr>)"
    by (rule pop_frames_unfold [OF wf])
  let ?m = "m\<lparr>last_protocol := Some n\<rparr>"
  have only: "holds_only p q fs ?m" using less.prems(1) u(2) by (auto simp: holds_only_def mux_wf_def)
  show ?case
  proof (cases "fs = []")
    case True
    have "\<exists>qs. map_of (queues ?m) p' = Some qs \<and> (\<forall>q. qs q = [])" if "p' \<in> set ps" for p'
    proof -
      have "p' \<in> fst ` set (queues ?m)" using that u(1) by simp
      from key_map_of [OF this] obtain qs where "map_of (queues ?m) p' = Some qs" ..
      with only True show ?thesis unfolding holds_only_def by (metis option.inject)
    qed
    then have "pop_frames L m = (Inr [], ?m)" unfolding u(3) by (intro first_nonempty_idle) blast
    then show ?thesis using only True by (simp add: pop_all_from.simps [of L acc m])
  next
    case False
    have "p \<in> set ps" "set ps \<subseteq> fst ` set (queues ?m)" using u(1) map_of_Some_key [OF qs] by auto
    then obtain gs hs m' where r: "pop_frames L m = (Inr gs, m')" "fs = gs @ hs" "gs \<noteq> []" "holds_only p q hs m'"
      using first_nonempty_busy [OF only False less.prems(2)] u(3) by metis
    then have "length hs < length fs" "\<forall>f \<in> set hs. frame_size L f \<le> 8192" using less.prems(2) by auto
    from less.hyps [OF this(1) r(4) this(2), of "acc @ gs"] r show ?thesis by (simp add: pop_all_from.simps [of L acc m])
  qed
qed

section \<open>A packet through an idle multiplexer\<close>

definition idle :: "'c mux \<Rightarrow> bool" where
  "idle m \<longleftrightarrow> mux_wf m \<and> all_queued m = {#} \<and> (\<forall>(p, sid) \<in> set (sequence_ids m). sid < 2 ^ 16)"

text \<open>
  What can be sent: a packet of a registered protocol, the ids and the size within the ranges of the
  format, and a prioritized one within the size that is allowed for it.
\<close>

definition can_send :: "'i rlp_lib \<Rightarrow> 'c mux \<Rightarrow> packet \<Rightarrow> bool" where
  "can_send L m pk \<longleftrightarrow> pk_protocol_id pk \<in> fst ` set (queues m) \<and> pk_protocol_id pk < 2 ^ 16 \<and> pk_cmd_id pk < 256 \<and>
     length (pk_payload pk) < 2 ^ 31 \<and>
     (pk_prioritize pk \<longrightarrow> 48 + ceil16 (length (enc_int L (pk_cmd_id pk)) + length (pk_payload pk)) \<le> 1024)"

lemma holds_nothing:
  assumes "holds_only p q [] m"
  shows "all_queued m = {#}"
proof -
  have d: "distinct (map fst (queues m))" using assms by (simp add: holds_only_def mux_wf_def)
  have "snd x q' = []" if "x \<in> set (queues m)" for x q'
  proof -
    have x: "map_of (queues m) (fst x) = Some (snd x)" using that d by simp
    obtain qs where "map_of (queues m) p = Some qs" "\<forall>q'. qs q' = []" using assms unfolding holds_only_def by metis
    with x assms show ?thesis unfolding holds_only_def by (metis option.inject)
  qed
  moreover have "(\<And>x. x \<in> set xs \<Longrightarrow> f x = {#}) \<Longrightarrow> (\<Sum>x\<leftarrow>xs. f x) = {#}" for f :: "nat \<times> (qname \<Rightarrow> frame list) \<Rightarrow> frame multiset" and xs
    by (induction xs) simp_all
  ultimately show ?thesis unfolding all_queued_def by simp
qed

lemma mk_frames_fit:
  assumes "packet_ok L p c s w" "mk_frames L p c d s w False = Inr fs"
  shows "\<forall>f \<in> set fs. frame_size L f \<le> w"
  using assms(1)
proof (cases rule: mk_frames_cut [where d = d])
  case one
  then show ?thesis using assms(2) by (simp add: frame_kind_sizes)
next
  case (many k0 ks)
  then show ?thesis using assms(2) by (auto simp: frame_kind_sizes)
qed

lemma packet_through_queues:
  assumes "rlp_ok L" "idle m" "can_send L m pk"
  obtains sid fs m1 m2 where "sid < 2 ^ 16" "packet_ok L (pk_protocol_id pk) (pk_cmd_id pk) (Some sid) 8192"
    "mk_frames L (pk_protocol_id pk) (pk_cmd_id pk) (pk_payload pk) (Some sid) 8192 False = Inr fs"
    "add_packet L pk m = (Inr (), m1)" "pop_all_frames L m1 = (Inr fs, m2)"
    "idle m2" "fst ` set (queues m2) = fst ` set (queues m)" "cipher_state m2 = cipher_state m"
proof -
  let ?p = "pk_protocol_id pk"
  have wf: "mux_wf m" "all_queued m = {#}" using assms(2) by (simp_all add: idle_def)
  obtain qs where qs: "map_of (queues m) ?p = Some qs" using assms(3) key_map_of by (fastforce simp: can_send_def)
  have "fst ` set (sequence_ids m) = fst ` set (queues m)" using wf(1) unfolding mux_wf_def by (metis list.set_map)
  then obtain sid where sid: "map_of (sequence_ids m) ?p = Some sid"
    using assms(3) key_map_of [of ?p "sequence_ids m"] by (auto simp: can_send_def)
  have small: "sid < 2 ^ 16" using assms(2) map_of_SomeD [OF sid] by (auto simp: idle_def)
  have len: "length (enc_int L (pk_cmd_id pk)) \<in> {1, 2}" using assms(1,3) by (simp add: rlp_ok_def can_send_def)
  have ok: "packet_ok L ?p (pk_cmd_id pk) (Some sid) 8192" using assms(3) small len by (simp add: packet_ok_def can_send_def)
  have empty: "qs q = []" for q by (rule no_active_protocol(2) [OF wf(2) qs])
  obtain fs where fs: "mk_frames L ?p (pk_cmd_id pk) (pk_payload pk) (Some sid) 8192 False = Inr fs"
    using ok by (cases rule: mk_frames_cut [where d = "pk_payload pk"]) auto
  have prio: "length fs = 1 \<and> frame_size L (hd fs) \<le> 1024" if "pk_prioritize pk"
    using ok that assms(3) fs
    by (cases rule: mk_frames_cut [where d = "pk_payload pk"]) (auto simp: can_send_def frame_kind_sizes)
  let ?q = "queue_for pk fs"
  define m1 where "m1 = set_queues ?p (qs(?q := fs)) (next_sequence_id ?p sid m)"
  have add: "add_packet L pk m = (Inr (), m1)"
    using add_packet_run [OF sid qs no_active_protocol(3) [OF wf(2) qs] fs] prio empty by (simp add: m1_def)
  have "holds_only ?p ?q [] (next_sequence_id ?p sid m)"
    using next_sequence_id_wf [OF wf(1) sid] qs empty no_active_protocol(2) [OF wf(2)] by (simp add: holds_only_def)
  from holds_only_set [OF this, of "qs(?q := fs)" fs] have only: "holds_only ?p ?q fs m1" using empty by (simp add: m1_def)
  from pop_all_only [OF only mk_frames_fit [OF ok fs], of "[]"]
  obtain m2 where pop: "pop_all_from L [] m1 = (Inr fs, m2)" "holds_only ?p ?q [] m2" by auto
  have un: "unqueued m2 = unqueued m1" using pop_all_from_unqueued [of L "[]" m1] pop(1) by simp
  have ids: "sequence_ids m2 = AList.update ?p ((sid + 1) mod 2 ^ 16) (sequence_ids m)"
    using un by (simp add: unqueued_def m1_def set_queues_def next_sequence_id_def)
  have "sid' < 2 ^ 16" if "(p', sid') \<in> set (AList.update ?p ((sid + 1) mod 2 ^ 16) (sequence_ids m))" for p' sid'
  proof -
    have "(p', sid') \<in> set (AList.update p k d) \<Longrightarrow> (p', sid') = (p, k) \<or> (p', sid') \<in> set d" for p k d
      by (induction d) (auto split: if_splits)
    from this [OF that] assms(2) show ?thesis by (auto simp: idle_def)
  qed
  then have "idle m2" using pop(2) holds_nothing [OF pop(2)] by (auto simp: idle_def holds_only_def ids)
  moreover have "fst ` set (queues m2) = fst ` set (queues m)"
  proof -
    have "fst ` set (sequence_ids m2) = fst ` set (queues m2)" using pop(2) unfolding holds_only_def mux_wf_def by (metis list.set_map)
    moreover have "fst ` set (sequence_ids m2) = fst ` set (queues m)"
      unfolding ids dom_update using \<open>fst ` set (sequence_ids m) = fst ` set (queues m)\<close> assms(3) by (auto simp: can_send_def)
    ultimately show ?thesis by simp
  qed
  moreover have "cipher_state m2 = cipher_state m"
    using un by (simp add: unqueued_def receiver_part_def m1_def set_queues_def)
  ultimately show thesis using that small ok fs add pop(1) by (simp add: pop_all_frames_def)
qed

section \<open>Packets from one multiplexer to another\<close>

text \<open>Each packet is added and then everything is popped, as \<open>MultiplexedSession.add_packet\<close> does it.\<close>

fun transmit_all :: "'i rlp_lib \<Rightarrow> 'c cipher option \<Rightarrow> packet list \<Rightarrow> ('c mux, bytes) prog" where
  "transmit_all L C [] = ret []"
| "transmit_all L C (pk # pks) =
     seq (add_packet L pk) (\<lambda>_.
     seq (pop_all_frames_as_bytes L C) (\<lambda>b.
     seq (transmit_all L C pks) (\<lambda>bs.
     ret (b @ bs))))"

text \<open>A receiver in the middle of nothing, which knows the protocols of a sender.\<close>

definition awaits_from :: "'c mux \<Rightarrow> 'c mux \<Rightarrow> bool" where
  "awaits_from s m \<longleftrightarrow> cached_header m = None \<and> decode_buffer m = [] \<and>
     (\<forall>p \<in> fst ` set (queues s). map_of (chunked_buffers m) p = Some [])"

definition arriving :: "packet list \<Rightarrow> packet list" where
  "arriving pks = map (\<lambda>pk. pk\<lparr>pk_prioritize := False\<rparr>) (filter (\<lambda>pk. pk_payload pk \<noteq> []) pks)"

text \<open>What \<open>MultiplexedSession\<close> does with the segments that it reads from the socket: each is decoded on its own.\<close>

fun decode_segments :: "'i rlp_lib \<Rightarrow> 'c cipher option \<Rightarrow> bytes list \<Rightarrow> ('c mux, packet list) prog" where
  "decode_segments L C [] = ret []"
| "decode_segments L C (x # xs) =
     seq (decode L C x) (\<lambda>ps. seq (decode_segments L C xs) (\<lambda>qs. ret (ps @ qs)))"

context frame_transport
begin

lemma decode_segments_append:
  "decode_segments L C xs m = (Inr ps, m1) \<Longrightarrow> decode L C (concat xs @ y) m = prepend ps (decode L C y m1)"
proof (induction xs arbitrary: m ps)
  case Nil
  then show ?case by (simp add: ret_def)
next
  case (Cons x xs)
  obtain qs m2 rs where r: "decode L C x m = (Inr qs, m2)" "decode_segments L C xs m2 = (Inr rs, m1)" "ps = qs @ rs"
    using Cons.prems by (auto simp: run_simps)
  have "decode L C (x @ concat xs @ y) m = prepend qs (decode L C (concat xs @ y) m2)" by (rule decode_append [OF r(1)])
  then show ?case using Cons.IH [OF r(2)] by (simp add: r(3) prepend_prepend)
qed

lemma packets_transmitted:
  assumes "rlp_ok L" "idle s" "\<forall>pk \<in> set pks. can_send L s pk" "awaits_from s m" "paired (cipher_state s) (cipher_state m)"
  shows "\<exists>bs s' rx'. transmit_all L C pks s = (Inr bs, s') \<and> idle s' \<and> decode L C bs m = (Inr (arriving pks), m\<lparr>cipher_state := rx'\<rparr>) \<and>
    paired (cipher_state s') rx'"
  using assms(2-5)
proof (induction pks arbitrary: s m)
  case Nil
  have "decode L C [] m = (Inr [], m)"
    using Nil.prems(3) by (simp add: awaits_from_def decode_def step_simps decode_frames.simps [of L C m] frame_header_of_def f_header_size_def)
  then show ?case using Nil by (intro exI [of _ "[]"] exI [of _ s] exI [of _ "cipher_state m"]) (simp add: ret_def arriving_def)
next
  case (Cons pk pks)
  let ?p = "pk_protocol_id pk" and ?c = "pk_cmd_id pk" and ?d = "pk_payload pk"
  obtain sid fs s1 s2 where q: "sid < 2 ^ 16" "packet_ok L ?p ?c (Some sid) 8192" "mk_frames L ?p ?c ?d (Some sid) 8192 False = Inr fs"
    "add_packet L pk s = (Inr (), s1)" "pop_all_frames L s1 = (Inr fs, s2)"
    "idle s2" "fst ` set (queues s2) = fst ` set (queues s)" "cipher_state s2 = cipher_state s"
    by (rule packet_through_queues [OF assms(1) Cons.prems(1), of pk]) (use Cons.prems(2) in simp)
  let ?x = "(?p, ?c, ?d, sid, 8192 :: nat)"
  have x: "sendable L ?x" "expects m ?x" using q(2) Cons.prems(2,3) by (auto simp: sendable_def expects_def can_send_def awaits_from_def)
  have paired: "paired (cipher_state s) (cipher_state m)" by (rule Cons.prems(4))
  obtain bs tx' rx' where b: "join_bytes L C fs (cipher_state s) = (Inr bs, tx')"
    "decode L C bs m = (Inr (deliveries [?x]), m\<lparr>cipher_state := rx'\<rparr>)" "paired tx' rx'"
    using wire_roundtrip [OF assms(1), of "[?x]" "cipher_state s" m] x paired Cons.prems(3) q(3) by (auto simp: awaits_from_def)
  let ?s = "s2\<lparr>cipher_state := tx'\<rparr>" and ?m = "m\<lparr>cipher_state := rx'\<rparr>"
  have s: "idle ?s" "\<forall>pk \<in> set pks. can_send L ?s pk" "awaits_from ?s ?m" "paired (cipher_state ?s) (cipher_state ?m)"
    using q(6,7) Cons.prems(2,3) b(3) by (auto simp: idle_def mux_wf_def all_queued_def can_send_def awaits_from_def)
  obtain cs s' rx'' where r: "transmit_all L C pks ?s = (Inr cs, s')" "idle s'"
    "decode L C cs ?m = (Inr (arriving pks), ?m\<lparr>cipher_state := rx''\<rparr>)" "paired (cipher_state s') rx''"
    using Cons.IH [OF s] by blast
  have "decode L C (bs @ cs) m = (Inr (arriving (pk # pks)), m\<lparr>cipher_state := rx''\<rparr>)"
    using decode_append [OF b(2), of cs] r(3) by (simp add: arriving_def deliveries_def whole_packet_def)
  moreover have "transmit_all L C (pk # pks) s = (Inr (bs @ cs), s')"
    using q(4,5,8) b(1) r(1) by (simp add: seq_run pop_all_frames_as_bytes_def on_cipher_def ret_def)
  ultimately show ?case using r(2,4) by blast
qed

end

end
