(* ===== verification/Session_Properties.thy ===== *)
theory Session_Properties
  imports Mux_Session_Hello Handshake_Eip8 Crypto_Properties Multiplexer_Properties Mux_Traffic
begin

text \<open>
  The correctness properties of RLPx sessions: frames, the handshake, and multiplexed sessions,
  each with a concrete instance.
\<close>

section \<open>A concrete pair of sessions\<close>

definition sample_sending :: session where
  "sample_sending = (mk_session (sample_key 1) True (sample_key 2))\<lparr>s_is_ready := True,
     s_aes_enc := Some (replicate 32 1, 0), s_mac_enc := Some (replicate 32 2), s_egress_mac := Some [1, 2, 3]\<rparr>"

definition sample_receiving :: session where
  "sample_receiving = (mk_session (sample_key 3) False (sample_key 4))\<lparr>s_is_ready := True,
     s_aes_dec := Some (replicate 32 1, 0), s_mac_enc := Some (replicate 32 2), s_ingress_mac := Some [1, 2, 3]\<rparr>"

lemma sample_paired: "rlpx_paired sample_crypto sample_sending sample_receiving"
  by (simp add: rlpx_paired_def sample_hashes_ok sending_def receiving_def sample_sending_def sample_receiving_def)

section \<open>Frames\<close>

text \<open>C21. A frame that one session encrypts is authenticated and decrypted by the other to the same
  header and, without its padding, the same body, whatever follows it; the number of bytes read
  is the length of the encrypted frame, and the sessions stay paired.\<close>

theorem rlpx_frame_roundtrip:
  assumes "rlpx_paired P tx rx" "length header = 16" "header_body_size header = Inr n" "0 < n" "length frame = ceil16 n"
  shows "\<exists>e tx' rx'. rlpx_encrypt P header frame tx = (Inr e, tx') \<and>
    rlpx_decrypt P (e @ rest) rx = (Inr (header, take n frame, length e), rx') \<and> rlpx_paired P tx' rx'"
proof -
  obtain e tx' rx1 rx2 where e: "rlpx_encrypt P header frame tx = (Inr e, tx')" "length e = 48 + length frame"
    "rlpx_decrypt_header P (take 32 e) rx = (Inr header, rx1)"
    "rlpx_decrypt_body P (drop 32 e) n rx1 = (Inr (take n frame), rx2)" "rlpx_paired P tx' rx2"
    using rlpx_transported [OF assms(1,2) assms(5) [symmetric] assms(4)] by blast
  have "rlpx_decrypt_body P (drop 32 (e @ rest)) n rx1 = (Inr (take n frame), rx2)"
    using e(2,4) assms(5) by (simp add: rlpx_decrypt_body_prefix)
  moreover have "min n (ceil16 n) = n" using ceil16_bounds(1) [of n] by simp
  ultimately have "rlpx_decrypt P (e @ rest) rx = (Inr (header, take n frame, length e), rx2)"
    using e(2,3) assms(3,5)
    by (simp add: rlpx_decrypt_def seq_run [of "rlpx_decrypt_header _ _"] seq_run [of "rlpx_decrypt_body _ _ _"] ret_def)
  with e show ?thesis by blast
qed

lemma rlpx_frame_roundtrip_witness:
  "\<exists>e tx' rx'. rlpx_encrypt sample_crypto (be_bytes 3 5 @ replicate 13 0) (replicate 16 7) sample_sending = (Inr e, tx') \<and>
    rlpx_decrypt sample_crypto (e @ [1]) sample_receiving = (Inr (be_bytes 3 5 @ replicate 13 0, replicate 5 7, length e), rx')"
  using rlpx_frame_roundtrip [OF sample_paired, of "be_bytes 3 5 @ replicate 13 0" 5 "replicate 16 7" "[1]"]
  by (auto simp: header_body_size_def be_val_be_bytes ceil16_def)

text \<open>C23. A frame with another tag is rejected: when the header tag of an encrypted frame is replaced
  the header raises \<open>AuthenticationError\<close>, when the tag at its end is replaced the body does.\<close>

theorem altered_tag_rejected:
  assumes "rlpx_paired P tx rx" "length header = 16" "ceil16 n = length frame" "0 < n"
    and "rlpx_encrypt P header frame tx = (Inr e, tx')" "length tag = 16"
  shows "(tag = slice 16 32 e \<or> fst (rlpx_decrypt_header P (take 16 e @ tag) rx) = Inl AuthenticationError) \<and>
    (tag = drop (32 + length frame) e \<or> (\<exists>rx1. rlpx_decrypt_header P (take 32 e) rx = (Inr header, rx1) \<and>
       fst (rlpx_decrypt_body P (slice 32 (32 + length frame) e @ tag) n rx1) = Inl AuthenticationError))"
proof -
  obtain key pos k a where ok: "hashes_ok P" and p: "sending tx key pos k a" "receiving rx key pos k a"
    using assms(1) by (auto simp: rlpx_paired_def)
  define hc where "hc = frame_ct P key pos header"
  define bc where "bc = frame_ct P key (pos + 16) frame"
  define a1 where "a1 = after_header P k a hc"
  have "length frame mod 16 = 0" using ceil16_mod [of n] assms(3) by simp
  from rlpx_encrypt_run [OF ok p(1) assms(2) this, folded hc_def bc_def a1_def] assms(5)
  have e: "e = hc @ mac_tag P k a hc @ bc @ body_tag P k a1 bc" by auto
  have l: "length hc = 16" "length bc = ceil16 n" "length (mac_tag P k a hc) = 16" "length (body_tag P k a1 bc) = 16"
    using frame_lengths [OF ok] assms(2,3) by (simp_all add: hc_def bc_def)
  have parts: "take 16 e = hc" "slice 16 32 e = mac_tag P k a hc" "take 32 e = hc @ mac_tag P k a hc"
    "slice 32 (32 + length frame) e = bc" "drop (32 + length frame) e = body_tag P k a1 bc"
    using l assms(3) by (simp_all add: e slice_def)
  have "tag = mac_tag P k a hc \<or> fst (rlpx_decrypt_header P (hc @ tag) rx) = Inl AuthenticationError"
    using rlpx_decrypt_header_run [OF ok p(2) l(1) assms(6)] by simp
  moreover obtain rx1 where rx1: "rlpx_decrypt_header P (take 32 e) rx = (Inr header, rx1)" "receiving rx1 key (pos + 16) k a1"
    unfolding parts using rlpx_decrypt_header_run [OF ok p(2) l(1,3)] p(2)
    by (auto simp: hc_def [symmetric] receiving_def a1_def) (simp add: hc_def)
  moreover have "tag = body_tag P k a1 bc \<or> fst (rlpx_decrypt_body P (bc @ tag) n rx1) = Inl AuthenticationError"
    using rlpx_decrypt_body_run [OF ok rx1(2) l(2) assms(6), of "[]"] by simp
  ultimately show ?thesis unfolding parts(1,2,4,5) by blast
qed

lemma altered_tag_rejected_witness:
  "\<exists>e tx'. rlpx_encrypt sample_crypto (be_bytes 3 5 @ replicate 13 0) (replicate 16 7) sample_sending = (Inr e, tx') \<and>
    (replicate 16 99 = slice 16 32 e \<or>
     fst (rlpx_decrypt_header sample_crypto (take 16 e @ replicate 16 99) sample_receiving) = Inl AuthenticationError)"
proof -
  have c: "ceil16 5 = length (replicate 16 (7 :: byte))" by (simp add: ceil16_def)
  obtain e tx' where e: "rlpx_encrypt sample_crypto (be_bytes 3 5 @ replicate 13 0) (replicate 16 7) sample_sending = (Inr e, tx')"
    using rlpx_transported [OF sample_paired _ c, of "be_bytes 3 5 @ replicate 13 0"] by auto
  have l: "length (be_bytes 3 5 @ replicate 13 0) = 16" "length (replicate 16 (99 :: byte)) = 16" "0 < (5 :: nat)" by simp_all
  from altered_tag_rejected [OF sample_paired l(1) c l(3) e l(2)] e show ?thesis by blast
qed

text \<open>C8. The whole way over an encrypted connection: the packets of a list that have a payload come out of the
  decoder of the other side in order, and nothing else does, when the frames that each packet is cut into
  (for any windows and sequence ids in their ranges) are encrypted by one session and decoded by the other;
  the sessions stay paired. A packet with an empty payload is dropped by the decoder.\<close>

theorem rlpx_wire_roundtrip:
  assumes "rlp_ok L" "\<forall>x \<in> set ps. sendable L x" "rlpx_paired P tx (cipher_state m)"
    and "cached_header m = None" "decode_buffer m = []" "\<forall>x \<in> set ps. expects m x"
  shows "\<exists>fs bs tx' rx'. cut_all L ps = Inr fs \<and> join_bytes L (Some (rlpx_cipher P)) fs tx = (Inr bs, tx') \<and>
    decode L (Some (rlpx_cipher P)) bs m = (Inr (concat (map (\<lambda>(p, c, d, sid, w).
      if d = [] then [] else [\<lparr>pk_protocol_id = p, pk_cmd_id = c, pk_payload = d, pk_prioritize = False\<rparr>]) ps)),
      m\<lparr>cipher_state := rx'\<rparr>) \<and> rlpx_paired P tx' rx'"
  using rlpx.wire_roundtrip [OF assms] unfolding deliveries_def whole_packet_def by blast

lemma rlpx_wire_roundtrip_witness:
  "\<exists>bs fs m'. cut_all sample_rlp [(5, 1, replicate 100 7, 3, 64)] = Inr fs \<and>
    decode sample_rlp (Some (rlpx_cipher sample_crypto)) bs ((mk_mux sample_receiving)\<lparr>chunked_buffers := [(5, [])]\<rparr>) =
      (Inr [\<lparr>pk_protocol_id = 5, pk_cmd_id = 1, pk_payload = replicate 100 7, pk_prioritize = False\<rparr>], m')"
  using rlpx_wire_roundtrip [OF sample_rlp_ok, of "[(5, 1, replicate 100 7, 3, 64)]" sample_crypto sample_sending
      "(mk_mux sample_receiving)\<lparr>chunked_buffers := [(5, [])]\<rparr>"] sample_paired
  by (auto simp: sendable_def sample_packet_ok expects_def mk_mux_def)

text \<open>C9. Packets that are added to the queues of an idle multiplexer one after the other, each followed by popping
  everything, as \<open>MultiplexedSession.add_packet\<close> does, whatever their sizes and priorities, reach the other side
  of an encrypted connection in order: all frames come out of the queues, and decoding what was written gives
  the packets that have a payload (their mark of priority is not transmitted). The sender is idle again, and
  the sessions are still paired. A prioritized packet has to fit a frame of 1024 bytes, and ids and sizes
  the ranges of the format.\<close>

theorem queued_packets_arrive:
  assumes "rlp_ok L" "idle s" "\<forall>pk \<in> set pks. can_send L s pk" "awaits_from s m"
    and "rlpx_paired P (cipher_state s) (cipher_state m)"
  shows "\<exists>bs s' rx'. transmit_all L (Some (rlpx_cipher P)) pks s = (Inr bs, s') \<and> idle s' \<and>
    decode L (Some (rlpx_cipher P)) bs m =
      (Inr (map (\<lambda>pk. pk\<lparr>pk_prioritize := False\<rparr>) (filter (\<lambda>pk. pk_payload pk \<noteq> []) pks)), m\<lparr>cipher_state := rx'\<rparr>) \<and>
    rlpx_paired P (cipher_state s') rx'"
  using rlpx.packets_transmitted [OF assms] unfolding arriving_def .

text \<open>A prioritized packet, one of 10000 bytes, which takes two frames, and one without a payload.\<close>

lemma queued_packets_arrive_witness:
  "\<exists>bs s' m'. transmit_all sample_rlp (Some (rlpx_cipher sample_crypto))
      [\<lparr>pk_protocol_id = 5, pk_cmd_id = 1, pk_payload = [7], pk_prioritize = True\<rparr>,
       \<lparr>pk_protocol_id = 5, pk_cmd_id = 2, pk_payload = replicate 10000 8, pk_prioritize = False\<rparr>,
       \<lparr>pk_protocol_id = 5, pk_cmd_id = 3, pk_payload = [], pk_prioritize = False\<rparr>]
      (snd (add_protocol 5 (mk_mux sample_sending))) = (Inr bs, s') \<and>
    decode sample_rlp (Some (rlpx_cipher sample_crypto)) bs (snd (add_protocol 5 (mk_mux sample_receiving))) =
      (Inr [\<lparr>pk_protocol_id = 5, pk_cmd_id = 1, pk_payload = [7], pk_prioritize = False\<rparr>,
            \<lparr>pk_protocol_id = 5, pk_cmd_id = 2, pk_payload = replicate 10000 8, pk_prioritize = False\<rparr>], m')"
proof -
  let ?s = "snd (add_protocol 5 (mk_mux sample_sending))" and ?m = "snd (add_protocol 5 (mk_mux sample_receiving))"
  let ?pks = "[\<lparr>pk_protocol_id = 5, pk_cmd_id = 1, pk_payload = [7], pk_prioritize = True\<rparr>,
       \<lparr>pk_protocol_id = 5, pk_cmd_id = 2, pk_payload = replicate 10000 8, pk_prioritize = False\<rparr>,
       \<lparr>pk_protocol_id = 5, pk_cmd_id = 3, pk_payload = [], pk_prioritize = False\<rparr>]"
  have run: "add_protocol 5 (mk_mux c) = (Inr (), (mk_mux c)\<lparr>queues := [(5, \<lambda>_. [])], sequence_ids := [(5, 0)],
      chunked_buffers := [(5, [])], last_protocol := Some 5\<rparr>)" for c :: session
    by (simp add: add_protocol_def prog_defs mk_mux_def)
  have s: "idle ?s" by (simp add: run idle_def mux_wf_def all_queued_def)
  have len: "length (enc_int sample_rlp c) \<le> 2" if "c < 256" for c using sample_rlp_ok that by (auto simp: rlp_ok_def)
  have "ceil16 (length (enc_int sample_rlp 1) + 1) \<le> 16" using len [of 1] by (intro ceil16_least) simp_all
  then have pks: "\<forall>pk \<in> set ?pks. can_send sample_rlp ?s pk" by (simp add: run can_send_def)
  have m: "awaits_from ?s ?m" by (simp add: run awaits_from_def) (simp add: mk_mux_def)
  have p: "rlpx_paired sample_crypto (cipher_state ?s) (cipher_state ?m)" using sample_paired by (simp add: run) (simp add: mk_mux_def)
  from queued_packets_arrive [OF sample_rlp_ok s pks m p] show ?thesis by auto
qed

text \<open>C37. The receiver may get the stream in any segments, without a cipher or encrypted: when all segments up to
  some point were decoded without an error, decoding all of them and whatever follows at once gives the
  same packets and the same state, or the error that what follows raises.\<close>

theorem stream_segments:
  fixes C :: "session cipher option"
  assumes "C = None \<or> C = Some (rlpx_cipher P)" "decode_segments L C xs m = (Inr ps, m1)"
  shows "decode L C (concat xs @ y) m = (case decode L C y m1 of
      (Inr qs, m2) \<Rightarrow> (Inr (ps @ qs), m2) | (Inl e, m2) \<Rightarrow> (Inl e, m2))"
proof -
  have "decode L C (concat xs @ y) m = prepend ps (decode L C y m1)"
    using assms(1)
  proof
    assume c: "C = None"
    show ?thesis using plain.decode_segments_append assms(2) unfolding c by blast
  next
    assume c: "C = Some (rlpx_cipher P)"
    show ?thesis using rlpx.decode_segments_append assms(2) unfolding c by blast
  qed
  then show ?thesis by (simp add: prepend_def split: prod.splits sum.splits)
qed

text \<open>The header of a frame that arrives in three segments is waited for.\<close>

lemma stream_segments_witness:
  "fst (decode sample_rlp (Some (rlpx_cipher sample_crypto)) (concat [[1, 2], [3]] @ [4]) (mk_mux sample_receiving)) = Inr []"
proof -
  let ?C = "Some (rlpx_cipher sample_crypto)" and ?m = "mk_mux sample_receiving"
  have d: "decode sample_rlp ?C x (?m\<lparr>decode_buffer := b\<rparr>) = (Inr [], ?m\<lparr>decode_buffer := b @ x\<rparr>)" if "length (b @ x) < 32" for b x
    using that by (simp add: decode_def prog_defs decode_frames.simps frame_header_of_def mk_mux_def f_header_size_def f_mac_size_def)
  have m: "?m\<lparr>decode_buffer := []\<rparr> = ?m" by (simp add: mk_mux_def)
  have "decode_segments sample_rlp ?C [[1, 2], [3]] ?m = (Inr [], ?m\<lparr>decode_buffer := [1, 2, 3]\<rparr>)"
    using d [of "[]" "[1, 2]"] d [of "[1, 2]" "[3]"] by (simp add: m seq_def ret_def)
  from stream_segments [OF disjI2 [OF refl] this, of "[4]"] d [of "[1, 2, 3]" "[4]"] show ?thesis by simp
qed

section \<open>The handshake\<close>

definition sample_eip8 :: eip8_lib where
  "sample_eip8 = \<lparr>
     enc_ack = (\<lambda>pk nonce v. Inr (pk @ nonce @ be_bytes 4 v)),
     dec_ack = (\<lambda>m. Inr (if length m < 100 then None else Some (take 64 m, slice 64 96 m, be_val (slice 96 100 m)))),
     dec_auth = (\<lambda>m. Inr None)\<rparr>"

text \<open>C5. A handshake between two nodes that follow the protocol succeeds, whatever data follows its two
  messages: each side learns the other's identity, both derive the same token, and what either
  side encrypts from then on the other can authenticate and decrypt.\<close>

theorem handshake_agreement:
  assumes "hashes_ok P" "keys_ok P"
    and "key_pair P a" "key_pair P ea" "key_pair P b" "key_pair P eb" "key_pair P e1" "key_pair P e2"
    and "length iv1 = 16" "length iv2 = 16"
  shows "\<exists>auth s1 ct1 s2 t1 ack t2 ct2 t3 t4 s3 s4.
    create_auth_message P (e_pubkey b) None ra (mk_session a True ea) = (Inr auth, s1) \<and>
    encrypt_auth_message P e1 iv1 auth None s1 = (Inr ct1, s2) \<and>
    (\<forall>rest. decode_authentication P E (ct1 @ rest) (mk_session b False eb) = (Inr rest, t1)) \<and>
    create_auth_ack_message P E supported_rlpx_version False None None rb pad t1 = (Inr ack, t2) \<and>
    encrypt_auth_ack_message P e2 iv2 ack False None t2 = (Inr ct2, t3) \<and>
    setup_cipher P t3 = (Inr (), t4) \<and>
    (\<forall>rest. decode_auth_ack_message P E (ct2 @ rest) s2 = (Inr rest, s3)) \<and>
    setup_cipher P s3 = (Inr (), s4) \<and>
    rlpx_paired P s4 t4 \<and> rlpx_paired P t4 s4 \<and> s_token s4 = s_token t4 \<and>
    s_remote_pubkey s4 = Some (e_pubkey b) \<and> s_remote_pubkey t4 = Some (e_pubkey a)"
proof -
  have n: "length (py_or None (sha3 P r)) = 32" for r
    by (simp add: py_or_def hashes_lengths [OF assms(1)])
  show ?thesis
    by (rule handshake_runs [where s = "mk_session a True ea" and t = "mk_session b False eb" and E = E and pad = pad,
          OF assms n [of ra] n [of rb]])
      ((simp_all only: mk_session_fields not_False_eq_True)[7], blast)
qed

lemma sample_iv: "length (replicate 16 0 :: bytes) = 16"
  by simp

lemma handshake_agreement_witness:
  "\<exists>s4 t4 :: session. rlpx_paired sample_crypto s4 t4 \<and> rlpx_paired sample_crypto t4 s4 \<and> s_token s4 = s_token t4"
  using handshake_agreement [where ra = "[]" and rb = "[]" and pad = "[]" and E = sample_eip8,
      OF sample_hashes_ok sample_keys_ok sample_key_ok [of 1] sample_key_ok [of 2] sample_key_ok [of 3]
        sample_key_ok [of 4] sample_key_ok [of 5] sample_key_ok [of 6] sample_iv sample_iv] by blast

text \<open>C32. An acknowledgement in the format of EIP-8 gives the initiator the responder's nonce, ephemeral
  key and version, when it comes alone. When anything follows it in the same segment the
  initiator raises \<open>AssertionError\<close>, where the responder accepts data after an EIP-8 auth message.\<close>

theorem eip8_ack_must_come_alone:
  assumes "hashes_ok P" "keys_ok P" "key_pair P (s_ecc s)" "key_pair P (s_ephemeral t)" "key_pair P e" "length iv = 16"
    and "s_is_initiator s" "\<not> s_is_initiator t" "s_got_eip8_auth t" "s_remote_pubkey t = Some (e_pubkey (s_ecc s))"
    and "nonce \<noteq> []" "enc_ack E (e_pubkey (s_ephemeral t)) nonce v = Inr data"
    and "dec_ack E (data @ pad) = Inr (Some (e_pubkey (s_ephemeral t), nonce, v))"
    and "97 < length data" "143 \<le> length (data @ pad)" "length (data @ pad) < 399"
  shows "\<exists>m t1 c t2 s1. create_auth_ack_message P E v False None (Some nonce) random pad t = (Inr m, t1) \<and>
    encrypt_auth_ack_message P e iv m False None t1 = (Inr c, t2) \<and>
    decode_auth_ack_message P E c s = (Inr [], s1) \<and> s_responder_nonce s1 = Some nonce \<and>
    s_remote_ephemeral_pubkey s1 = Some (e_pubkey (s_ephemeral t)) \<and> s_remote_version s1 = v \<and> s_got_eip8_ack s1 \<and>
    (\<forall>rest. rest = [] \<or> decode_auth_ack_message P E (c @ rest) s = (Inl AssertionError, s))"
proof -
  let ?m = "data @ pad"
  define n where "n = length ?m + 113"
  have n: "256 \<le> n" "n < 512" using assms(15,16) by (simp_all add: n_def)
  define t1 where "t1 = t\<lparr>s_responder_nonce := Some nonce\<rparr>"
  have m: "create_auth_ack_message P E v False None (Some nonce) random pad t = (Inr ?m, t1)"
    unfolding t1_def by (rule eip8_ack_created [OF assms(8,9,11,12,14)])
  obtain x where x: "encrypt_auth_ack_message P e iv ?m False None t1 =
      (Inr (be_bytes 2 n @ x), t1\<lparr>s_auth_ack := Some (be_bytes 2 n @ x)\<rparr>)" "length x = n"
    "ecies_decrypt P (s_ecc s) x (be_bytes 2 n) = Inr ?m"
    by (rule eip8_ack_encrypted [OF assms(1,2,5,3,6), of t1 ?m, folded n_def])
      (use assms n in \<open>simp_all add: t1_def n_def\<close>)
  note rec = eip8_ack_received [where s = s, OF assms(2,4,7) n x(2,3) assms(13)]
  have "\<forall>rest. rest = [] \<or> decode_auth_ack_message P E ((be_bytes 2 n @ x) @ rest) s = (Inl AssertionError, s)"
    using rec by simp
  moreover have "decode_auth_ack_message P E (be_bytes 2 n @ x) s = (Inr [], s\<lparr>s_got_eip8_ack := True,
      s_auth_ack := Some (be_bytes 2 n @ x), s_remote_ephemeral_pubkey := Some (e_pubkey (s_ephemeral t)),
      s_responder_nonce := Some nonce, s_remote_version := v\<rparr>)" using rec [of "[]"] by simp
  ultimately show ?thesis using m x(1) by fastforce
qed

definition eip8_responder :: session where
  "eip8_responder = (mk_session (sample_key 3) False (sample_key 4))\<lparr>s_got_eip8_auth := True,
     s_remote_pubkey := Some (e_pubkey (sample_key 1))\<rparr>"

lemma eip8_ack_must_come_alone_witness:
  "\<exists>c s1. decode_auth_ack_message sample_crypto sample_eip8 c (mk_session (sample_key 1) True (sample_key 2)) = (Inr [], s1) \<and>
    s_responder_nonce s1 = Some (replicate 32 7) \<and>
    decode_auth_ack_message sample_crypto sample_eip8 (c @ [1]) (mk_session (sample_key 1) True (sample_key 2)) =
      (Inl AssertionError, mk_session (sample_key 1) True (sample_key 2))"
proof -
  have t: "s_ephemeral eip8_responder = sample_key 4" "\<not> s_is_initiator eip8_responder" "s_got_eip8_auth eip8_responder"
    "s_remote_pubkey eip8_responder = Some (e_pubkey (sample_key 1))"
    by (simp_all add: eip8_responder_def mk_session_def)
  have len: "length (e_pubkey (sample_key 4)) = 64" by (rule key_pair_pub [OF sample_keys_ok sample_key_ok])
  let ?d = "e_pubkey (sample_key 4) @ replicate 32 7 @ be_bytes 4 4"
  have "enc_ack sample_eip8 (e_pubkey (sample_key 4)) (replicate 32 7) 4 = Inr ?d"
    "dec_ack sample_eip8 (?d @ replicate 100 0) = Inr (Some (e_pubkey (sample_key 4), replicate 32 7, 4))"
    using len by (simp_all add: sample_eip8_def slice_def be_val_be_bytes)
  with eip8_ack_must_come_alone [where s = "mk_session (sample_key 1) True (sample_key 2)" and t = eip8_responder
      and e = "sample_key 5" and iv = "replicate 16 0" and P = sample_crypto and E = sample_eip8 and pad = "replicate 100 0"
      and data = ?d and v = 4 and nonce = "replicate 32 7" and random = "[]"]
  show ?thesis using t len by (auto simp: mk_session_fields sample_hashes_ok sample_keys_ok sample_key_ok)
qed

section \<open>Multiplexed sessions\<close>

text \<open>Two multiplexed sessions that pass each other's messages on establish the connection by
  themselves: the initiator's first message makes the responder answer and send its hello packet,
  the answer makes the initiator send its own, and each side receives the hello of the other.\<close>

theorem hello_packets_arrive:
  assumes "rlp_ok L" "hashes_ok P" "keys_ok P"
    and "key_pair P a" "key_pair P ea" "key_pair P b" "key_pair P eb" "key_pair P (d_ephem r1)" "key_pair P (d_ephem r2)"
    and "length (d_iv r1) = 16" "length (d_iv r2) = 16"
    and "before_handshake L True a ea hs ss ht s" "ms_remote_pubkey s = Some (e_pubkey b)"
    and "before_handshake L False b eb ht st hs t"
    and "pk_payload hs \<noteq> []" "pk_payload ht \<noteq> []"
  shows "\<exists>auth ack bs bt s1 s2 s3 t1 t2.
    send_init_msg P r1 s = (Inr (), s1) \<and> ms_messages s1 = [auth] \<and>
    add_message L P E r2 auth t = (Inr (), t1) \<and> ms_messages t1 = [ack, bt] \<and>
    add_message L P E r3 ack s1 = (Inr (), s2) \<and> ms_messages s2 = [auth, bs] \<and>
    add_message L P E r4 bs t1 = (Inr (), t2) \<and> ms_packets t2 = [hs] \<and>
    add_message L P E r5 bt s2 = (Inr (), s3) \<and> ms_packets s3 = [ht]"
proof -
  have "delivered (pk_protocol_id hs) (pk_cmd_id hs) (pk_payload hs) = [hs]"
    "delivered (pk_protocol_id ht) (pk_cmd_id ht) (pk_payload ht) = [ht]"
    using assms(12,14-16) by (simp_all add: delivered_def whole_packet_def before_handshake_def idle_for_def)
  with hello_packets_exchanged [OF assms(1-14), of E r3 r4 r5] show ?thesis by metis
qed

definition sample_hello :: packet where
  "sample_hello = \<lparr>pk_protocol_id = 0, pk_cmd_id = 0, pk_payload = [1, 2, 3], pk_prioritize = False\<rparr>"

definition sample_session :: "byte \<Rightarrow> bytes option \<Rightarrow> msession" where
  "sample_session k remote = snd (on_mux (add_protocol 0)
     (mk_msession (sample_key k) (sample_key (k + 1)) sample_hello remote))"

definition sample_draws :: draws where
  "sample_draws = \<lparr>d_nonce = [9], d_pad = [], d_ephem = sample_key 7, d_iv = replicate 16 0\<rparr>"

lemma sample_session_before:
  assumes "initiator = (py_or remote [] \<noteq> [])"
  shows "before_handshake sample_rlp initiator (sample_key k) (sample_key (k + 1)) sample_hello 0 sample_hello (sample_session k remote)"
proof -
  have mux: "ms_mux (sample_session k remote) = (mk_mux (mk_session (sample_key k) initiator (sample_key (k + 1))))
      \<lparr>queues := [(0, \<lambda>_. [])], sequence_ids := [(0, 0)], chunked_buffers := [(0, [])], last_protocol := Some 0\<rparr>"
    by (simp add: sample_session_def on_mux_def mk_msession_def Let_def add_protocol_def prog_defs mk_mux_def assms)
  show ?thesis
    unfolding before_handshake_def mux
    by (simp add: idle_for_def mux_wf_def all_queued_def sample_hello_def sample_packet_ok mk_mux_def)
      (simp add: sample_session_def on_mux_def mk_msession_def Let_def add_protocol_def prog_defs mk_mux_def
        sample_hello_def sample_rlp_def ceil16_def assms)
qed

lemma hello_packets_arrive_witness:
  "\<exists>bs bt s2 s3 t1 t2. add_message sample_rlp sample_crypto sample_eip8 sample_draws bs t1 = (Inr (), t2) \<and>
    ms_packets t2 = [sample_hello] \<and>
    add_message sample_rlp sample_crypto sample_eip8 sample_draws bt s2 = (Inr (), s3) \<and> ms_packets s3 = [sample_hello]"
proof -
  have d: "key_pair sample_crypto (d_ephem sample_draws)" "length (d_iv sample_draws) = 16"
    by (simp_all add: sample_draws_def sample_key_ok)
  let ?r = "Some (e_pubkey (sample_key 3))"
  have r: "py_or ?r [] \<noteq> []" using key_pair_pub [OF sample_keys_ok sample_key_ok, of 3] by (auto simp: py_or_def)
  have s: "before_handshake sample_rlp True (sample_key 1) (sample_key (1 + 1)) sample_hello 0 sample_hello (sample_session 1 ?r)"
    using r by (intro sample_session_before) simp
  have t: "before_handshake sample_rlp False (sample_key 3) (sample_key (3 + 1)) sample_hello 0 sample_hello (sample_session 3 None)"
    by (intro sample_session_before) (simp add: py_or_def)
  have ne: "pk_payload sample_hello \<noteq> []" by (simp add: sample_hello_def)
  have rem: "ms_remote_pubkey (sample_session 1 ?r) = ?r"
    by (simp add: sample_session_def on_mux_def mk_msession_def Let_def split: prod.split)
  from hello_packets_arrive [OF sample_rlp_ok sample_hashes_ok sample_keys_ok sample_key_ok sample_key_ok sample_key_ok
      sample_key_ok d(1) d(1) d(2) d(2) s rem t ne ne, of sample_eip8 sample_draws sample_draws sample_draws]
  show ?thesis by blast
qed

end
