(* ===== verification/Discovery_Packet.thy ===== *)
theory Discovery_Packet
  imports Crypto Kademlia_Protocol
begin

text \<open>
  Addresses and the signed datagrams of \<open>DiscoveryProtocol\<close> (\<open>devp2p/discovery.py\<close>). A payload is a
  list of items as the \<open>rlp\<close> package has them: byte strings and lists.
\<close>

datatype item = Bytes bytes | Items "item list"

text \<open>
  The \<open>rlp\<close> package, \<open>rlp_encode\<close> and \<open>rlp_decode\<close> (not strict), and its big-endian integers
  (\<open>ser_int\<close> and the strict \<open>deser_int\<close>); \<open>parse_ip_text\<close> is \<open>ipaddress.ip_address\<close> on a text, the
  result in packed form.
\<close>

record wire_lib =
  rlp_encode :: "item \<Rightarrow> bytes"
  rlp_decode :: "bytes \<Rightarrow> item res"
  ser_int :: "nat \<Rightarrow> bytes"
  deser_int :: "bytes \<Rightarrow> int res"
  parse_ip_text :: "bytes \<Rightarrow> bytes res"

section \<open>Addresses\<close>

text \<open>
  \<open>struct.pack('>I', p)[-2:]\<close>: the lower two of four bytes.
\<close>

definition enc_port :: "nat \<Rightarrow> bytes res" where
  "enc_port p = (if p < 2 ^ 32 then Inr (drop 2 (be_bytes 4 p)) else Inl StructError)"

definition dec_port :: "wire_lib \<Rightarrow> bytes \<Rightarrow> nat res" where
  "dec_port W b = bind_res (big_endian_to_int (deser_int W) b) (\<lambda>i. Inr (nat i))"

definition is_digit :: "byte \<Rightarrow> bool" where "is_digit b \<longleftrightarrow> 48 \<le> unat b \<and> unat b \<le> 57"

definition is_hex :: "byte \<Rightarrow> bool" where
  "is_hex b \<longleftrightarrow> is_digit b \<or> 97 \<le> unat b \<and> unat b \<le> 102"

text \<open>
  \<open>ip_pattern\<close>. Its first alternative, \<open>\d{1,3}\.\d{1,3}\.\d{1,3}\.\d{1,3}\<close>, is not anchored at the
  end: \<open>dotted n s\<close> matches \<open>n\<close> further groups at the start of \<open>s\<close>. The second one is groups of at
  most four hex digits between colons, up to the end or to a final newline.
\<close>

fun dotted :: "nat \<Rightarrow> bytes \<Rightarrow> bool" where
  "dotted 0 s = True"
| "dotted (Suc n) s =
     (let d = takeWhile is_digit s; r = drop (length d) s in
      if n = 0 then d \<noteq> []
      else d \<noteq> [] \<and> length d \<le> 3 \<and> r \<noteq> [] \<and> hd r = 46 \<and> dotted n (tl r))"

fun hex_groups :: "nat \<Rightarrow> bytes \<Rightarrow> bool" where
  "hex_groups k [] = True"
| "hex_groups k (b # s) =
     (if b = 58 then hex_groups 0 s
      else is_hex b \<and> k < 4 \<and> hex_groups (Suc k) s \<or> b = 10 \<and> s = [])"

definition ip_pattern :: "bytes \<Rightarrow> bool" where
  "ip_pattern s \<longleftrightarrow> dotted 4 s \<or> hex_groups 0 s"

text \<open>\<open>ipaddress.ip_address\<close> on a byte string takes it as a packed address.\<close>

definition ip_address :: "wire_lib \<Rightarrow> bytes \<Rightarrow> bytes res" where
  "ip_address W ip =
     (if ip_pattern ip then parse_ip_text W ip
      else if length ip = 4 \<or> length ip = 16 then Inr ip else Inl ValueError)"

record address =
  a_ip :: bytes
  udp_port :: nat
  tcp_port :: nat

definition mk_address :: "wire_lib \<Rightarrow> bytes \<Rightarrow> nat \<Rightarrow> nat \<Rightarrow> address res" where
  "mk_address W ip udp tcp =
     bind_res (ip_address W ip) (\<lambda>a.
     Inr \<lparr>a_ip = a, udp_port = udp, tcp_port = (if tcp = 0 then udp else tcp)\<rparr>)"

definition address_from_binary :: "wire_lib \<Rightarrow> bytes \<Rightarrow> bytes \<Rightarrow> bytes \<Rightarrow> address res" where
  "address_from_binary W ip udp tcp =
     (let tcp = (if tcp = [] then udp else tcp) in
      bind_res (dec_port W udp) (\<lambda>u.
      bind_res (dec_port W tcp) (\<lambda>t.
      bind_res (ip_address W ip) (\<lambda>a.
      Inr \<lparr>a_ip = a, udp_port = u, tcp_port = t\<rparr>))))"

definition address_to_binary :: "address \<Rightarrow> (bytes \<times> bytes \<times> bytes) res" where
  "address_to_binary a =
     bind_res (enc_port (udp_port a)) (\<lambda>u.
     bind_res (enc_port (tcp_port a)) (\<lambda>t.
     Inr (a_ip a, u, t)))"

definition address_update :: "address \<Rightarrow> address \<Rightarrow> address" where
  "address_update a other = (if tcp_port a = 0 then a\<lparr>tcp_port := tcp_port other\<rparr> else a)"

definition address_eq :: "address \<Rightarrow> address \<Rightarrow> bool" where
  "address_eq a b \<longleftrightarrow> a_ip a = a_ip b \<and> udp_port a = udp_port b"

text \<open>
  An endpoint in a payload, and \<open>Address.from_endpoint(*x)\<close>: \<open>x\<close> must have two or three parts.
  \<open>lstrip\<close> is called on the ports, which a list does not have; an empty list is false like an empty
  string. The default \<open>'\x00\x00'\<close> is a text, on which \<open>lstrip(b'\x00')\<close> fails.
\<close>

definition endpoint :: "address \<Rightarrow> item list res" where
  "endpoint a = bind_res (address_to_binary a) (\<lambda>(ip, u, t). Inr [Bytes ip, Bytes u, Bytes t])"

definition dec_port_item :: "wire_lib \<Rightarrow> item \<Rightarrow> nat res" where
  "dec_port_item W i = (case i of Bytes b \<Rightarrow> dec_port W b | Items _ \<Rightarrow> Inl AttributeError)"

definition from_endpoint :: "wire_lib \<Rightarrow> item list \<Rightarrow> address res" where
  "from_endpoint W x =
     (case x of
        [ip, u, t] \<Rightarrow>
          bind_res (dec_port_item W u) (\<lambda>up.
          bind_res (dec_port_item W (if t = Bytes [] \<or> t = Items [] then u else t)) (\<lambda>tp.
          case ip of
            Items _ \<Rightarrow> Inl TypeError
          | Bytes b \<Rightarrow> bind_res (ip_address W b) (\<lambda>a. Inr \<lparr>a_ip = a, udp_port = up, tcp_port = tp\<rparr>)))
      | [ip, u] \<Rightarrow> bind_res (dec_port_item W u) (\<lambda>_. Inl TypeError)
      | _ \<Rightarrow> Inl TypeError)"

definition from_endpoint_item :: "wire_lib \<Rightarrow> item \<Rightarrow> address res" where
  "from_endpoint_item W i =
     (case i of
        Items x \<Rightarrow> from_endpoint W x
      | Bytes b \<Rightarrow> Inl (if length b \<in> {2, 3} then AttributeError else TypeError))"

section \<open>Datagrams\<close>

definition disc_version :: nat where "disc_version = 4"
definition disc_expiration :: rat where "disc_expiration = 60"

text \<open>\<open>cmd_id_map\<close>, its inverse and \<open>cmd_elem_count_map\<close>.\<close>

datatype cmd = CPing | CPong | CFindNode | CNeighbours

definition cmd_id_map :: "cmd \<Rightarrow> nat" where
  "cmd_id_map c = (case c of CPing \<Rightarrow> 1 | CPong \<Rightarrow> 2 | CFindNode \<Rightarrow> 3 | CNeighbours \<Rightarrow> 4)"

definition rev_cmd_id_map :: "nat \<Rightarrow> cmd res" where
  "rev_cmd_id_map n =
     (if n = 1 then Inr CPing else if n = 2 then Inr CPong
      else if n = 3 then Inr CFindNode else if n = 4 then Inr CNeighbours else Inl KeyError)"

definition cmd_elem_count_map :: "cmd \<Rightarrow> nat" where
  "cmd_elem_count_map c = (case c of CPing \<Rightarrow> 4 | CPong \<Rightarrow> 3 | CFindNode \<Rightarrow> 2 | CNeighbours \<Rightarrow> 2)"

definition disc_sign :: "crypto_lib \<Rightarrow> bytes \<Rightarrow> bytes \<Rightarrow> bytes res" where
  "disc_sign P privkey msg = ecdsa_sign P (sha3 P msg) privkey"

definition disc_pack :: "crypto_lib \<Rightarrow> wire_lib \<Rightarrow> bytes \<Rightarrow> rat \<Rightarrow> nat \<Rightarrow> item list \<Rightarrow> bytes res" where
  "disc_pack P W privkey now cmd_id payload =
     bind_res (assert_res (cmd_id \<in> {1, 2, 3, 4})) (\<lambda>_.
     let expiration = ser_int W (nat \<lfloor>now + disc_expiration\<rfloor>);
         encoded_data = rlp_encode W (Items (payload @ [Bytes expiration]));
         signed_data = sha3 P ([of_nat cmd_id] @ encoded_data) in
     bind_res (ecdsa_sign P signed_data privkey) (\<lambda>signature.
     bind_res (assert_res (length signature = 65)) (\<lambda>_.
     let mdc = sha3 P (signature @ [of_nat cmd_id] @ encoded_data) in
     bind_res (assert_res (length mdc = 32)) (\<lambda>_.
     Inr (mdc @ signature @ [of_nat cmd_id] @ encoded_data)))))"

definition disc_unpack ::
  "crypto_lib \<Rightarrow> wire_lib \<Rightarrow> bytes \<Rightarrow> (bytes \<times> nat \<times> item list \<times> bytes) res" where
  "disc_unpack P W message =
     (let mdc = take 32 message in
      if mdc \<noteq> sha3 P (drop 32 message) then Inl WrongMAC
      else
        let signature = slice 32 97 message in
        bind_res (assert_res (length signature = 65)) (\<lambda>_.
        let signed_data = sha3 P (drop 97 message) in
        bind_res (ecdsa_recover P signed_data signature) (\<lambda>remote_pubkey.
        bind_res (assert_res (length remote_pubkey = 512 div 8)) (\<lambda>_.
        bind_res (if 97 < length message then Inr (unat (message ! 97)) else Inl IndexError) (\<lambda>cmd_id.
        bind_res (rev_cmd_id_map cmd_id) (\<lambda>cmd.
        bind_res (rlp_decode W (drop 98 message)) (\<lambda>decoded.
        case decoded of
          Bytes _ \<Rightarrow> Inl AssertionError
        | Items payload \<Rightarrow>
            Inr (remote_pubkey, cmd_id, take (cmd_elem_count_map cmd) payload, mdc))))))))"

text \<open>\<open>int(p)\<close> of the popped element: what \<open>receive\<close> does before it looks at the command.\<close>

definition pop_expiration :: "wire_lib \<Rightarrow> item list \<Rightarrow> (int \<times> item list) res" where
  "pop_expiration W payload =
     (if payload = [] then Inl IndexError
      else case last payload of
        Items _ \<Rightarrow> Inl (LibraryError ''DeserializationError'')
      | Bytes b \<Rightarrow> bind_res (deser_int W b) (\<lambda>e. Inr (e, butlast payload)))"

end
