(* ===== verification/Discovery.thy ===== *)
theory Discovery
  imports Discovery_Packet
begin

text \<open>
  \<open>DiscoveryProtocol\<close> and \<open>NodeDiscovery\<close> (\<open>devp2p/discovery.py\<close>): the wire interface of the Kademlia
  protocol. Datagrams that go out are recorded in \<open>d_out\<close> with their address. The addresses of
  node objects are kept in the Kademlia state. A handler of the Kademlia protocol runs on the wire that
  \<open>DiscoveryProtocol\<close> is: a message that cannot be packed raises in the handler, where it is sent.
\<close>

section \<open>State\<close>

text \<open>The \<open>LRUCache\<close> of the package \<open>repoze.lru\<close>. Looking up may change it.\<close>

record 'c cache_lib =
  cache_new :: "nat \<Rightarrow> 'c"
  cache_get :: "bytes \<Rightarrow> 'c \<Rightarrow> node option \<times> 'c"
  cache_put :: "bytes \<Rightarrow> node \<Rightarrow> 'c \<Rightarrow> 'c"

record disc_config =
  listen_host :: bytes
  listen_port :: nat
  p2p_listen_port :: nat
  privkey :: bytes

text \<open>\<open>d_next\<close> numbers the node objects that are created.\<close>

record 'c disc =
  d_nodes :: 'c
  d_kad :: "address kad"
  d_out :: "(address \<times> bytes) list"
  d_next :: nat

text \<open>All libraries and the configuration, and what changes from call to call.\<close>

record 'c disc_lib =
  dl_crypto :: crypto_lib
  dl_wire :: wire_lib
  dl_cache :: "'c cache_lib"
  dl_config :: disc_config

definition address_at :: "node \<Rightarrow> 'c disc \<Rightarrow> address option" where
  "address_at n s = address_of (d_kad s) (oref n)"

definition set_address :: "node \<Rightarrow> address \<Rightarrow> ('c disc, unit) prog" where
  "set_address n a = modify (\<lambda>s. s\<lparr>d_kad := (d_kad s)\<lparr>address_of := (address_of (d_kad s))(oref n \<mapsto> a)\<rparr>\<rparr>)"

definition lookup_node :: "'c disc_lib \<Rightarrow> bytes \<Rightarrow> ('c disc, node option) prog" where
  "lookup_node D nodeid = (\<lambda>s. case cache_get (dl_cache D) nodeid (d_nodes s) of (r, c) \<Rightarrow> (Inr r, s\<lparr>d_nodes := c\<rparr>))"

text \<open>\<open>self.nodes.put(nodeid, Node(nodeid, address))\<close>.\<close>

definition put_node :: "'c disc_lib \<Rightarrow> bytes \<Rightarrow> address option \<Rightarrow> ('c disc, unit) prog" where
  "put_node D nodeid address =
     seq (gets d_next) (\<lambda>r.
     seq (lift_res (mk_node (sha3 (dl_crypto D)) (deser_int (dl_wire D)) r nodeid)) (\<lambda>n.
     modify (\<lambda>s. s\<lparr>d_next := r + 1, d_nodes := cache_put (dl_cache D) nodeid n (d_nodes s),
       d_kad := (d_kad s)\<lparr>address_of := (address_of (d_kad s))(r := address)\<rparr>\<rparr>)))"

definition get_node :: "'c disc_lib \<Rightarrow> bytes \<Rightarrow> address option \<Rightarrow> ('c disc, node) prog" where
  "get_node D nodeid address =
     seq (py_assert (length nodeid = 512 div 8)) (\<lambda>_.
     seq (if address \<noteq> None then ret () else
            seq (lookup_node D nodeid) (\<lambda>known. py_assert (known \<noteq> None))) (\<lambda>_.
     seq (lookup_node D nodeid) (\<lambda>known.
     seq (if known = None then put_node D nodeid address else ret ()) (\<lambda>_.
     seq (lookup_node D nodeid) (\<lambda>onode.
     seq (case address of
            None \<Rightarrow> ret ()
          | Some a \<Rightarrow> (case onode of None \<Rightarrow> throw AttributeError | Some n \<Rightarrow> set_address n a)) (\<lambda>_.
     case onode of
       None \<Rightarrow> throw AttributeError
     | Some n \<Rightarrow>
         seq (gets (address_at n)) (\<lambda>a.
         seq (py_assert (a \<noteq> None)) (\<lambda>_.
         ret n))))))))"

text \<open>\<open>DiscoveryProtocol.__init__\<close>, with the address of \<open>NodeDiscovery\<close>.\<close>

definition mk_disc :: "'c disc_lib \<Rightarrow> rat \<Rightarrow> 'c disc res" where
  "mk_disc D now =
     (let c = dl_config D in
      bind_res (privtopub (dl_crypto D) (privkey c)) (\<lambda>pubkey.
      bind_res (mk_address (dl_wire D) (listen_host c) (listen_port c) 0) (\<lambda>address.
      bind_res (mk_node (sha3 (dl_crypto D)) (deser_int (dl_wire D)) 0 pubkey) (\<lambda>this.
      Inr \<lparr>d_nodes = cache_new (dl_cache D) 2048,
           d_kad = mk_kad now this (\<lambda>r. if r = 0 then Some address else None),
           d_out = [], d_next = 1\<rparr>))))"

section \<open>Sending\<close>

text \<open>\<open>node.address.to_endpoint()\<close>.\<close>

definition endpoint_of :: "(nat \<Rightarrow> address option) \<Rightarrow> node \<Rightarrow> item list res" where
  "endpoint_of addrs n = (case addrs (oref n) of None \<Rightarrow> Inl AttributeError | Some a \<Rightarrow> endpoint a)"

definition ping_payload ::
  "'c disc_lib \<Rightarrow> (nat \<Rightarrow> address option) \<Rightarrow> node \<Rightarrow> node \<Rightarrow> item list res" where
  "ping_payload D addrs this n =
     bind_res (assert_res (\<not> node_eq n this)) (\<lambda>_.
     let c = dl_config D in
     bind_res (mk_address (dl_wire D) (listen_host c) (listen_port c) (p2p_listen_port c)) (\<lambda>own.
     bind_res (endpoint own) (\<lambda>src.
     bind_res (endpoint_of addrs n) (\<lambda>dst.
     Inr [Bytes (ser_int (dl_wire D) disc_version), Items src, Items dst]))))"

definition pong_payload :: "(nat \<Rightarrow> address option) \<Rightarrow> node \<Rightarrow> bytes \<Rightarrow> item list res" where
  "pong_payload addrs n token =
     bind_res (endpoint_of addrs n) (\<lambda>dst.
     bind_res (assert_res (case dst of Bytes ip # _ \<Rightarrow> length ip \<in> {4, 16} | _ \<Rightarrow> False)) (\<lambda>_.
     Inr [Items dst, Bytes token]))"

definition find_node_payload :: "'c disc_lib \<Rightarrow> int \<Rightarrow> item list res" where
  "find_node_payload D target =
     (if target < 0 then Inl (LibraryError ''SerializationError'')
      else
        let b = ser_int (dl_wire D) (nat target);
            id = replicate (k_pubkey_size div 8 - length b) 0 @ b in
        bind_res (assert_res (length id = k_pubkey_size div 8)) (\<lambda>_. Inr [Bytes id]))"

fun neighbour_items :: "(nat \<Rightarrow> address option) \<Rightarrow> node list \<Rightarrow> item list res" where
  "neighbour_items addrs [] = Inr []"
| "neighbour_items addrs (n # ns) =
     bind_res (endpoint_of addrs n) (\<lambda>e.
     bind_res (neighbour_items addrs ns) (\<lambda>is. Inr (Items (e @ [Bytes (pubkey n)]) # is)))"

text \<open>\<open>sorted(neighbours)\<close> compares node ids; at most twelve are sent.\<close>

definition neighbours_payload :: "(nat \<Rightarrow> address option) \<Rightarrow> node list \<Rightarrow> item list res" where
  "neighbours_payload addrs ns =
     bind_res (neighbour_items addrs (sort_key node_id ns)) (\<lambda>nodes. Inr [Items (take 12 nodes)])"

fun wire_payload ::
  "'c disc_lib \<Rightarrow> (nat \<Rightarrow> address option) \<Rightarrow> node \<Rightarrow> wire_msg \<Rightarrow> (node \<times> cmd \<times> item list) res" where
  "wire_payload D addrs this (Ping n) = bind_res (ping_payload D addrs this n) (\<lambda>p. Inr (n, CPing, p))"
| "wire_payload D addrs this (Pong n token) = bind_res (pong_payload addrs n token) (\<lambda>p. Inr (n, CPong, p))"
| "wire_payload D addrs this (FindNode n t) = bind_res (find_node_payload D t) (\<lambda>p. Inr (n, CFindNode, p))"
| "wire_payload D addrs this (Neighbours n ns) = bind_res (neighbours_payload addrs ns) (\<lambda>p. Inr (n, CNeighbours, p))"

text \<open>
  A message as the address it goes to and its datagram. \<open>sendto\<close> raises an \<open>OverflowError\<close> for a port
  that is no port, which \<open>NodeDiscovery.send\<close> does not catch, unlike the errors of the socket itself.
\<close>

definition datagram ::
  "'c disc_lib \<Rightarrow> rat \<Rightarrow> (nat \<Rightarrow> address option) \<Rightarrow> node \<Rightarrow> wire_msg \<Rightarrow> (address \<times> bytes) res" where
  "datagram D now addrs this m =
     bind_res (wire_payload D addrs this m) (\<lambda>(n, c, payload).
     bind_res (disc_pack (dl_crypto D) (dl_wire D) (privkey (dl_config D)) now (cmd_id_map c) payload) (\<lambda>message.
     case addrs (oref n) of
       None \<Rightarrow> Inl AssertionError
     | Some a \<Rightarrow> if udp_port a < 65536 then Inr (a, message) else Inl (LibraryError ''OverflowError'')))"

text \<open>
  \<open>DiscoveryProtocol\<close> as the wire of the Kademlia protocol: a message that cannot be packed raises where it is
  sent; of one that is sent, \<open>send_ping\<close> returns the first 32 bytes of the datagram.
\<close>

definition wire_send ::
  "'c disc_lib \<Rightarrow> rat \<Rightarrow> node \<Rightarrow> (nat \<Rightarrow> address option) \<Rightarrow> wire_msg list \<Rightarrow> wire_msg \<Rightarrow> bytes res" where
  "wire_send D now this addrs before m =
     bind_res (datagram D now addrs this m) (\<lambda>(a, message). Inr (take 32 message))"

definition disc_env ::
  "'c disc_lib \<Rightarrow> rat \<Rightarrow> (wire_msg list \<Rightarrow> int \<Rightarrow> int \<Rightarrow> int) \<Rightarrow> node \<Rightarrow> address env" where
  "disc_env D now rnd this = \<lparr>clock = now, on_wire = wire_send D now this, randint = rnd\<rparr>"

text \<open>The datagrams of the messages sent.\<close>

definition datagrams ::
  "'c disc_lib \<Rightarrow> rat \<Rightarrow> (nat \<Rightarrow> address option) \<Rightarrow> node \<Rightarrow> wire_msg list \<Rightarrow> (address \<times> bytes) list" where
  "datagrams D now addrs this ms =
     concat (map (\<lambda>m. case datagram D now addrs this m of Inl _ \<Rightarrow> [] | Inr d \<Rightarrow> [d]) ms)"

text \<open>
  A handler of the Kademlia protocol on this wire. It ends with the first message that cannot be packed; the
  datagrams of those before it are out. No address changes while it sends (only \<open>recv_pong\<close> changes one,
  before it sends), so the addresses at its end are those that each message was packed with (lemma
  \<open>run_kad_packed\<close> of \<open>Discovery_Invariant\<close>).
\<close>

definition run_kad ::
  "'c disc_lib \<Rightarrow> rat \<Rightarrow> (wire_msg list \<Rightarrow> int \<Rightarrow> int \<Rightarrow> int) \<Rightarrow> kad_event \<Rightarrow> ('c disc, unit) prog" where
  "run_kad D now rnd ev = (\<lambda>s.
     let k = d_kad s in
     case kad_step (disc_env D now rnd (local_node k)) ev k of
       (r, k') \<Rightarrow>
         (r, s\<lparr>d_kad := k', d_out := d_out s @
            datagrams D now (address_of k') (local_node k) (drop (length (sent k)) (sent k'))\<rparr>))"

section \<open>Receiving\<close>

type_synonym rnd = "wire_msg list \<Rightarrow> int \<Rightarrow> int \<Rightarrow> int"

definition nth_item :: "item list \<Rightarrow> nat \<Rightarrow> item res" where
  "nth_item xs i = (if i < length xs then Inr (xs ! i) else Inl IndexError)"

definition disc_recv_ping :: "'c disc_lib \<Rightarrow> rat \<Rightarrow> rnd \<Rightarrow> bytes \<Rightarrow> item list \<Rightarrow> bytes \<Rightarrow> ('c disc, unit) prog" where
  "disc_recv_ping D now rnd nodeid payload mdc =
     (if length payload \<noteq> 3 then ret ()
      else
        seq (get_node D nodeid None) (\<lambda>n.
        seq (lift_res (from_endpoint_item (dl_wire D) (payload ! 1))) (\<lambda>remote_address.
        seq (get_node D nodeid None) (\<lambda>m.
        seq (gets (address_at m)) (\<lambda>a.
        seq (case a of None \<Rightarrow> throw AttributeError | Some a \<Rightarrow> set_address m (address_update a remote_address)) (\<lambda>_.
        run_kad D now rnd (RecvPing n mdc)))))))"

definition disc_recv_pong :: "'c disc_lib \<Rightarrow> rat \<Rightarrow> rnd \<Rightarrow> bytes \<Rightarrow> item list \<Rightarrow> bytes \<Rightarrow> ('c disc, unit) prog" where
  "disc_recv_pong D now rnd nodeid payload mdc =
     (if length payload \<noteq> 2 then ret ()
      else
        seq (py_assert (case payload ! 0 of Items x \<Rightarrow> length x = 3 | Bytes b \<Rightarrow> length b = 3)) (\<lambda>_.
        seq (lift_res (from_endpoint_item (dl_wire D) (payload ! 0))) (\<lambda>_.
        seq (lookup_node D nodeid) (\<lambda>known.
        if known = None then ret ()
        else
          seq (get_node D nodeid None) (\<lambda>n.
          seq (lift_res (case payload ! 1 of Bytes b \<Rightarrow> Inr b | Items _ \<Rightarrow> Inl TypeError)) (\<lambda>echoed.
          run_kad D now rnd (RecvPong n echoed)))))))"

definition disc_recv_find_node :: "'c disc_lib \<Rightarrow> rat \<Rightarrow> rnd \<Rightarrow> bytes \<Rightarrow> item list \<Rightarrow> bytes \<Rightarrow> ('c disc, unit) prog" where
  "disc_recv_find_node D now rnd nodeid payload mdc =
     seq (get_node D nodeid None) (\<lambda>n.
     seq (lift_res (nth_item payload 0)) (\<lambda>i.
     seq (py_assert (case i of Bytes b \<Rightarrow> length b = k_pubkey_size div 8 | Items x \<Rightarrow> length x = k_pubkey_size div 8)) (\<lambda>_.
     seq (lift_res (case i of Bytes b \<Rightarrow> big_endian_to_int (deser_int (dl_wire D)) b | Items _ \<Rightarrow> Inl AttributeError)) (\<lambda>target.
     run_kad D now rnd (RecvFindNode n target)))))"

fun learn_neighbours :: "'c disc_lib \<Rightarrow> item list \<Rightarrow> ('c disc, node list) prog" where
  "learn_neighbours D [] = ret []"
| "learn_neighbours D (i # is) =
     seq (lift_res (case i of
            Bytes _ \<Rightarrow> Inl AttributeError
          | Items x \<Rightarrow> if x = [] then Inl IndexError else Inr (last x, butlast x))) (\<lambda>(nodeid, n).
     seq (lift_res (from_endpoint (dl_wire D) n)) (\<lambda>address.
     seq (lift_res (case nodeid of Bytes b \<Rightarrow> Inr b | Items _ \<Rightarrow> Inl AssertionError)) (\<lambda>nodeid.
     seq (get_node D nodeid (Some address)) (\<lambda>node.
     seq (learn_neighbours D is) (\<lambda>nodes.
     ret (node # nodes))))))"

definition disc_recv_neighbours :: "'c disc_lib \<Rightarrow> rat \<Rightarrow> rnd \<Rightarrow> bytes \<Rightarrow> item list \<Rightarrow> bytes \<Rightarrow> ('c disc, unit) prog" where
  "disc_recv_neighbours D now rnd nodeid payload mdc =
     seq (get_node D nodeid None) (\<lambda>remote.
     seq (py_assert (length payload = 1)) (\<lambda>_.
     seq (lift_res (case payload ! 0 of Items x \<Rightarrow> Inr x | Bytes _ \<Rightarrow> Inl AssertionError)) (\<lambda>neighbours_lst.
     seq (learn_neighbours D neighbours_lst) (\<lambda>neighbours.
     run_kad D now rnd (RecvNeighbours remote neighbours)))))"

definition dispatch :: "'c disc_lib \<Rightarrow> rat \<Rightarrow> rnd \<Rightarrow> cmd \<Rightarrow> bytes \<Rightarrow> item list \<Rightarrow> bytes \<Rightarrow> ('c disc, unit) prog" where
  "dispatch D now rnd c =
     (case c of
        CPing \<Rightarrow> disc_recv_ping D now rnd
      | CPong \<Rightarrow> disc_recv_pong D now rnd
      | CFindNode \<Rightarrow> disc_recv_find_node D now rnd
      | CNeighbours \<Rightarrow> disc_recv_neighbours D now rnd)"

text \<open>What \<open>receive\<close> knows of a datagram that is neither defective nor expired.\<close>

definition open_datagram ::
  "'c disc_lib \<Rightarrow> rat \<Rightarrow> bytes \<Rightarrow> (bytes \<times> cmd \<times> item list \<times> bytes) res" where
  "open_datagram D now message =
     bind_res (disc_unpack (dl_crypto D) (dl_wire D) message) (\<lambda>(remote_pubkey, cmd_id, payload, mdc).
     bind_res (pop_expiration (dl_wire D) payload) (\<lambda>(expiration, payload).
     if rat_of_int expiration < now then Inl PacketExpired
     else bind_res (rev_cmd_id_map cmd_id) (\<lambda>c. Inr (remote_pubkey, c, payload, mdc))))"

definition is_defective :: "exn \<Rightarrow> bool" where
  "is_defective e \<longleftrightarrow> e = WrongMAC \<or> e = InvalidSignature \<or> e = PacketExpired"

definition disc_receive :: "'c disc_lib \<Rightarrow> rat \<Rightarrow> rnd \<Rightarrow> address \<Rightarrow> bytes \<Rightarrow> ('c disc, unit) prog" where
  "disc_receive D now rnd address message =
     (case open_datagram D now message of
        Inl e \<Rightarrow> if is_defective e then ret () else throw e
      | Inr (nodeid, c, payload, mdc) \<Rightarrow>
          seq (get_node D nodeid (Some address)) (\<lambda>_. dispatch D now rnd c nodeid payload mdc))"

text \<open>\<open>NodeDiscovery._handle_packet\<close>: every exception is logged, and what was done stays.\<close>

definition handle_packet :: "'c disc_lib \<Rightarrow> rat \<Rightarrow> rnd \<Rightarrow> bytes \<Rightarrow> nat \<Rightarrow> bytes \<Rightarrow> ('c disc, unit) prog" where
  "handle_packet D now rnd ip port message = (\<lambda>s.
     (Inr (), snd (seq (lift_res (mk_address (dl_wire D) ip port 0)) (\<lambda>a. disc_receive D now rnd a message) s)))"

end
