(* ===== verification/Discovery_Laws.thy ===== *)
theory Discovery_Laws
  imports Discovery Crypto_Laws Kademlia_Behaviour
begin

text \<open>
  The documented laws of the packages that \<open>devp2p/discovery.py\<close> uses, what they give for addresses
  and datagrams, and simple instances that obey them.
\<close>

section \<open>Laws of the packages\<close>

definition minimal :: "bytes \<Rightarrow> bool" where
  "minimal b \<longleftrightarrow> (b = [] \<or> hd b \<noteq> 0)"

text \<open>\<open>rlp\<close>: decoding inverts encoding, integers are big-endian without leading zeros.\<close>

definition wire_ok :: "wire_lib \<Rightarrow> bool" where
  "wire_ok W \<longleftrightarrow>
     (\<forall>x. rlp_decode W (rlp_encode W x) = Inr x) \<and>
     (\<forall>b. minimal b \<longrightarrow> deser_int W b = Inr (int (be_val b))) \<and>
     (\<forall>n. minimal (ser_int W n) \<and> be_val (ser_int W n) = n)"

text \<open>
  The cache: a new one is empty, what was just put is found, a look-up loses nothing, and another key is found
  only when it was there before.
\<close>

definition cache_ok :: "'c cache_lib \<Rightarrow> bool" where
  "cache_ok C \<longleftrightarrow>
     (\<forall>k size. fst (cache_get C k (cache_new C size)) = None) \<and>
     (\<forall>k v c. fst (cache_get C k (cache_put C k v c)) = Some v) \<and>
     (\<forall>k k' c. fst (cache_get C k' (snd (cache_get C k c))) = fst (cache_get C k' c)) \<and>
     (\<forall>k k' v c n. k' \<noteq> k \<longrightarrow> fst (cache_get C k' (cache_put C k v c)) = Some n \<longrightarrow> fst (cache_get C k' c) = Some n)"

lemma cache_laws:
  assumes "cache_ok C"
  shows "fst (cache_get C k (cache_put C k v c)) = Some v"
    "fst (cache_get C k' (snd (cache_get C k c))) = fst (cache_get C k' c)"
    "fst (cache_get C k' (cache_put C k v c)) = Some n \<Longrightarrow> k' = k \<and> n = v \<or> fst (cache_get C k' c) = Some n"
    "fst (cache_get C k (cache_new C i)) = None"
  using assms unfolding cache_ok_def by (blast, blast, metis option.inject, blast)

section \<open>Integers\<close>

lemma wire_laws:
  assumes "wire_ok W"
  shows "rlp_decode W (rlp_encode W x) = Inr x" "minimal b \<Longrightarrow> deser_int W b = Inr (int (be_val b))"
    "minimal (ser_int W n)" "be_val (ser_int W n) = n"
  using assms unfolding wire_ok_def by blast+

lemma wire_int: "wire_ok W \<Longrightarrow> deser_int W (ser_int W n) = Inr (int n)"
  using wire_laws(2-4) by metis

lemma minimal_dropWhile: "minimal (dropWhile (\<lambda>b. b = 0) b)"
  by (induction b) (simp_all add: minimal_def)

lemma be_val_dropWhile: "be_val (dropWhile (\<lambda>b. b = 0) b) = be_val b"
  by (induction b) simp_all

lemma wire_big_endian: "wire_ok W \<Longrightarrow> big_endian_to_int (deser_int W) b = Inr (int (be_val b))"
  unfolding big_endian_to_int_def using wire_laws(2) [OF _ minimal_dropWhile] be_val_dropWhile by metis

lemma wire_dec_port: "wire_ok W \<Longrightarrow> dec_port W b = Inr (be_val b)"
  by (simp add: dec_port_def wire_big_endian)

text \<open>A minimal encoding has no more bytes than the number needs.\<close>

lemma minimal_length: "minimal b \<Longrightarrow> be_val b < 256 ^ n \<Longrightarrow> length b \<le> n"
proof (cases b)
  case (Cons x xs)
  assume m: "minimal b" "be_val b < 256 ^ n"
  then have "0 < unat x" using Cons by (simp add: minimal_def unat_gt_0)
  then have "1 * 256 ^ length xs \<le> unat x * 256 ^ length xs" by (intro mult_le_mono1) simp
  then have "256 ^ length xs \<le> be_val b" unfolding Cons be_val.simps mult_1 by (rule trans_le_add1)
  with m(2) have "(256::nat) ^ length xs < 256 ^ n" by linarith
  then show ?thesis using Cons by (simp add: power_less_imp_less_exp Suc_leI)
qed simp

section \<open>Addresses\<close>

lemma drop_be_bytes: "drop (Suc k) (be_bytes (Suc k + w) n) = be_bytes w (n mod 256 ^ w)"
proof (induction k arbitrary: n)
  case 0
  show ?case by simp
next
  case (Suc k)
  have "n mod 256 ^ (Suc k + w) mod 256 ^ w = n mod 256 ^ w"
    by (rule mod_mod_cancel) (simp add: le_imp_power_dvd)
  with Suc [of "n mod 256 ^ (Suc k + w)"] show ?case by simp
qed

lemma enc_port_eq: "p < 2 ^ 32 \<Longrightarrow> enc_port p = Inr (be_bytes 2 (p mod 65536))"
proof -
  have e: "Suc 1 + 2 = (4::nat)" "Suc 1 = (2::nat)" "(256::nat) ^ 2 = 65536" by simp_all
  show "p < 2 ^ 32 \<Longrightarrow> ?thesis" using drop_be_bytes [of 1 2 p] unfolding enc_port_def e by simp
qed

lemma endpoint_eq:
  "udp_port a < 2 ^ 32 \<Longrightarrow> tcp_port a < 2 ^ 32 \<Longrightarrow>
   endpoint a = Inr [Bytes (a_ip a), Bytes (be_bytes 2 (udp_port a mod 65536)), Bytes (be_bytes 2 (tcp_port a mod 65536))]"
  by (simp add: endpoint_def address_to_binary_def enc_port_eq)

section \<open>Datagrams\<close>

lemma cmd_ids: "rev_cmd_id_map (cmd_id_map c) = Inr c" "cmd_id_map c \<in> {1, 2, 3, 4}"
  by (cases c; simp add: cmd_id_map_def rev_cmd_id_map_def)+

lemma rev_cmd_id_map_Inr: "rev_cmd_id_map i = Inr c \<longleftrightarrow> i = cmd_id_map c"
  by (cases c) (auto simp: cmd_id_map_def rev_cmd_id_map_def)

lemma unat_cmd_id: "unat (of_nat (cmd_id_map c) :: byte) = cmd_id_map c"
  by (cases c) (simp_all add: cmd_id_map_def)

text \<open>What packing yields for a pair of keys.\<close>

lemma disc_pack_shape:
  assumes "hashes_ok P" "keys_ok P" "key_pair P e" "e_privkey e = Some k"
  obtains sg data where "data = rlp_encode W (Items (payload @ [Bytes (ser_int W (nat \<lfloor>now + 60\<rfloor>))]))"
    "length sg = 65" "recover_key P sg (sha3 P ([of_nat (cmd_id_map c)] @ data)) = Inr (4 # e_pubkey e)"
    "disc_pack P W k now (cmd_id_map c) payload =
       Inr (sha3 P (sg @ [of_nat (cmd_id_map c)] @ data) @ sg @ [of_nat (cmd_id_map c)] @ data)"
proof -
  define data where "data = rlp_encode W (Items (payload @ [Bytes (ser_int W (nat \<lfloor>now + 60\<rfloor>))]))"
  have len: "length (sha3 P x) = 32" for x by (rule hashes_lengths(6) [OF assms(1)])
  obtain sg where sg: "length sg = 65" "sign_recoverable P (sha3 P ([of_nat (cmd_id_map c)] @ data)) k = Inr sg"
    "recover_key P sg (sha3 P ([of_nat (cmd_id_map c)] @ data)) = Inr (4 # e_pubkey e)"
    using assms(2-4) len unfolding keys_ok_def by blast
  have "disc_pack P W k now (cmd_id_map c) payload =
      Inr (sha3 P (sg @ [of_nat (cmd_id_map c)] @ data) @ sg @ [of_nat (cmd_id_map c)] @ data)"
    unfolding disc_pack_def disc_expiration_def data_def [symmetric] ecdsa_sign_def Let_def
    using sg(1,2) cmd_ids(2) [of c] len by simp
  with that [OF data_def sg(1,3)] show ?thesis .
qed

lemma disc_unpack_shape:
  assumes "length mdc = 32" "length sg = 65" "mdc = sha3 P (sg @ [b] @ data)"
    "recover_key P sg (sha3 P ([b] @ data)) = Inr (x # pk)" "length pk = 64"
    "rev_cmd_id_map (unat b) = Inr c" "rlp_decode W data = Inr (Items items)"
  shows "disc_unpack P W (mdc @ sg @ [b] @ data) = Inr (pk, unat b, take (cmd_elem_count_map c) items, mdc)"
proof -
  define m where "m = mdc @ sg @ [b] @ data"
  have parts: "take 32 m = mdc" "drop 32 m = sg @ [b] @ data" "slice 32 97 m = sg" "drop 97 m = [b] @ data"
    "drop 98 m = data" "m ! 97 = b" "97 < length m"
    using assms(1,2) by (simp_all add: m_def slice_def nth_append)
  show ?thesis unfolding m_def [symmetric] disc_unpack_def Let_def parts
    using assms parts by (simp add: ecdsa_recover_def)
qed

text \<open>What must have held of a message that unpacks.\<close>

lemma disc_unpack_Inr:
  assumes "disc_unpack P W m = Inr (pk, i, payload, mdc)"
  obtains sg b data x c items where "m = mdc @ sg @ [b] @ data" "length mdc = 32" "length sg = 65"
    "mdc = sha3 P (sg @ [b] @ data)" "recover_key P sg (sha3 P ([b] @ data)) = Inr x" "pk = drop 1 x"
    "length pk = 64" "i = unat b" "i = cmd_id_map c" "rlp_decode W data = Inr (Items items)"
    "payload = take (cmd_elem_count_map c) items"
proof -
  obtain x c items where *: "mdc = take 32 m" "mdc = sha3 P (drop 32 m)"
    "length (slice 32 97 m) = 65" "recover_key P (slice 32 97 m) (sha3 P (drop 97 m)) = Inr x" "pk = drop 1 x"
    "length pk = 64" "97 < length m" "i = unat (m ! 97)" "rev_cmd_id_map i = Inr c"
    "rlp_decode W (drop 98 m) = Inr (Items items)" "payload = take (cmd_elem_count_map c) items"
    using assms unfolding disc_unpack_def ecdsa_recover_def
    by (auto simp: bind_res_eq_Inr Let_def split: if_splits item.splits) (metis item.exhaust)
  have 1: "drop 97 m = [m ! 97] @ drop 98 m" using *(7) Cons_nth_drop_Suc [of 97 m] by simp
  have 2: "drop 32 m = slice 32 97 m @ [m ! 97] @ drop 98 m"
    using append_take_drop_id [of 65 "drop 32 m"] 1 by (simp add: slice_def)
  have 3: "m = mdc @ slice 32 97 m @ [m ! 97] @ drop 98 m"
    using append_take_drop_id [of 32 m] unfolding *(1) 2 [symmetric] by simp
  have "length mdc = 32" using *(1,7) by simp
  with that [OF 3 _ *(3)] * 1 2 rev_cmd_id_map_Inr show ?thesis by metis
qed

end
