(* ===== verification/Discovery_Invariant.thy ===== *)
theory Discovery_Invariant
  imports Discovery_Laws
begin

text \<open>
  The invariant of a discovery instance, kept whatever datagrams arrive from whomever, and well
  formed or not: that of the Kademlia protocol, and that the cache holds under a node id only
  well-formed nodes with that public key, and no node object under two ids.
\<close>

section \<open>The invariant\<close>

text \<open>The id the code computes of a public key.\<close>

definition disc_hash :: "'c disc_lib \<Rightarrow> bytes \<Rightarrow> int" where
  "disc_hash D pk = int (be_val (sha3 (dl_crypto D) pk))"

definition libs_ok :: "'c disc_lib \<Rightarrow> bool" where
  "libs_ok D \<longleftrightarrow> hashes_ok (dl_crypto D) \<and> wire_ok (dl_wire D) \<and> cache_ok (dl_cache D)"

definition cached :: "'c disc_lib \<Rightarrow> 'c disc \<Rightarrow> bytes \<Rightarrow> node option" where
  "cached D s nodeid = fst (cache_get (dl_cache D) nodeid (d_nodes s))"

definition disc_inv :: "'c disc_lib \<Rightarrow> node \<Rightarrow> 'c disc \<Rightarrow> bool" where
  "disc_inv D l s \<longleftrightarrow> kad_inv (disc_hash D) l (d_kad s) \<and>
     (\<forall>nodeid n. cached D s nodeid = Some n \<longrightarrow> node_ok (disc_hash D) n \<and> pubkey n = nodeid \<and> oref n < d_next s) \<and>
     (\<forall>i j m n. cached D s i = Some m \<longrightarrow> cached D s j = Some n \<longrightarrow> oref m = oref n \<longrightarrow> i = j)"

lemma disc_mk_node:
  assumes "libs_ok D"
  shows "mk_node (sha3 (dl_crypto D)) (deser_int (dl_wire D)) r nodeid =
    (if length nodeid = 64 then Inr \<lparr>oref = r, pubkey = nodeid, node_id = disc_hash D nodeid\<rparr> else Inl AssertionError)"
  using assms
  by (simp add: mk_node_def libs_ok_def disc_hash_def k_id_size_def wire_big_endian assert_res_def)

lemma disc_node_ok:
  assumes "libs_ok D" "length nodeid = 64"
  shows "node_ok (disc_hash D) \<lparr>oref = r, pubkey = nodeid, node_id = disc_hash D nodeid\<rparr>"
proof -
  have "be_val (sha3 (dl_crypto D) nodeid) < 256 ^ 32"
    using be_val_bound [of "sha3 (dl_crypto D) nodeid"] hashes_lengths(6) assms(1) by (metis libs_ok_def)
  then have "int (be_val (sha3 (dl_crypto D) nodeid)) < int (256 ^ 32)" by (simp only: of_nat_less_iff)
  then have "int (be_val (sha3 (dl_crypto D) nodeid)) < 2 ^ 256" by simp
  with assms(2) show ?thesis by (simp add: node_ok_def id_bounded_def disc_hash_def)
qed

lemma mk_disc_inv:
  assumes "libs_ok D" "mk_disc D now = Inr s"
  shows "disc_inv D (local_node (d_kad s)) s"
proof -
  obtain pk a where s: "length pk = 64"
    "s = \<lparr>d_nodes = cache_new (dl_cache D) 2048,
       d_kad = mk_kad now \<lparr>oref = 0, pubkey = pk, node_id = disc_hash D pk\<rparr> (\<lambda>r. if r = 0 then Some a else None),
       d_out = [], d_next = 1\<rparr>"
    using assms(2) by (auto simp: mk_disc_def Let_def bind_res_eq_Inr disc_mk_node [OF assms(1)] split: if_splits)
  have c: "cache_ok (dl_cache D)" using assms(1) by (simp add: libs_ok_def)
  have l: "local_node (d_kad s) = \<lparr>oref = 0, pubkey = pk, node_id = disc_hash D pk\<rparr>" by (simp add: s(2) mk_kad_def)
  show ?thesis unfolding disc_inv_def l using mk_kad_inv [OF disc_node_ok [OF assms(1) s(1)]]
    by (simp add: s(2) cached_def cache_laws(4) [OF c])
qed

section \<open>Statements that keep it\<close>

lemma cached_unchanged: "d_nodes s' = d_nodes s \<Longrightarrow> cached D s' = cached D s"
  by (simp add: cached_def fun_eq_iff)

lemma disc_inv_address: "disc_inv D l (s\<lparr>d_kad := (d_kad s)\<lparr>address_of := f\<rparr>\<rparr>) = disc_inv D l s"
  by (simp add: disc_inv_def kad_inv_def cached_def)

lemma set_address_keeps: "keeps (disc_inv D l) (set_address n a)"
  unfolding set_address_def by (rule keeps_modify) (simp add: disc_inv_address)

lemma lookup_node_run:
  assumes "libs_ok D" "lookup_node D nodeid s = (r, s')"
  shows "r = Inr (cached D s nodeid) \<and> cached D s' = cached D s \<and> d_kad s' = d_kad s \<and>
    d_out s' = d_out s \<and> d_next s' = d_next s"
  using assms cache_laws(2) [of "dl_cache D" _ nodeid "d_nodes s"]
  by (auto simp: lookup_node_def cached_def libs_ok_def fun_eq_iff split: prod.splits)

lemma lookup_node_triple:
  assumes "libs_ok D"
  shows "triple (disc_inv D l) (lookup_node D nodeid)
    (\<lambda>r s. disc_inv D l s \<and> (\<forall>n. r = Some n \<longrightarrow> node_ok (disc_hash D) n \<and> pubkey n = nodeid)) (\<lambda>_. disc_inv D l)"
  by (rule tripleI) (auto dest!: lookup_node_run [OF assms] simp: disc_inv_def)

lemma lookup_node_keeps: "libs_ok D \<Longrightarrow> keeps (disc_inv D l) (lookup_node D nodeid)"
  unfolding keeps_triple by (rule triple_conseq [OF lookup_node_triple]) auto

lemma put_node_keeps:
  assumes "libs_ok D"
  shows "keeps (disc_inv D l) (put_node D nodeid address)"
  unfolding keeps_def
proof (intro allI impI)
  fix s assume s: "disc_inv D l s"
  have c: "cache_ok (dl_cache D)" using assms by (simp add: libs_ok_def)
  show "disc_inv D l (snd (put_node D nodeid address s))"
  proof (cases "length nodeid = 64")
    case True
    define n where "n = \<lparr>oref = d_next s, pubkey = nodeid, node_id = disc_hash D nodeid\<rparr>"
    define s' where "s' = s\<lparr>d_next := d_next s + 1, d_nodes := cache_put (dl_cache D) nodeid n (d_nodes s),
      d_kad := (d_kad s)\<lparr>address_of := (address_of (d_kad s))(d_next s := address)\<rparr>\<rparr>"
    have run: "put_node D nodeid address s = (Inr (), s')"
      using True by (simp add: put_node_def disc_mk_node [OF assms] step_simps n_def s'_def)
    have old: "j = nodeid \<and> m = n \<or> cached D s j = Some m" if "cached D s' j = Some m" for j m
      using cache_laws(3) [OF c] that by (auto simp: cached_def s'_def)
    have n: "node_ok (disc_hash D) n" "pubkey n = nodeid" "oref n = d_next s"
      unfolding n_def by (rule disc_node_ok [OF assms True]) simp_all
    have lt: "oref m < d_next s" if "cached D s j = Some m" for j m
      using s that by (simp add: disc_inv_def)
    have "kad_inv (disc_hash D) l (d_kad s')" using s by (simp add: disc_inv_def kad_inv_def s'_def)
    moreover have "node_ok (disc_hash D) m \<and> pubkey m = j \<and> oref m < d_next s'" if "cached D s' j = Some m" for j m
    proof -
      have "d_next s' = Suc (d_next s)" by (simp add: s'_def)
      with old [OF that] n s lt show ?thesis by (auto simp: disc_inv_def less_Suc_eq)
    qed
    moreover have "i = j" if "cached D s' i = Some m" "cached D s' j = Some k" "oref m = oref k" for i j m k
      using old [OF that(1)] old [OF that(2)] that(3) n(3) lt s unfolding disc_inv_def by (metis less_irrefl)
    ultimately show ?thesis unfolding run snd_conv disc_inv_def by blast
  next
    case False
    with s show ?thesis by (simp add: put_node_def disc_mk_node [OF assms] step_simps seq_lift_run)
  qed
qed

lemma get_node_triple:
  assumes "libs_ok D"
  shows "triple (disc_inv D l) (get_node D nodeid address)
    (\<lambda>n s. disc_inv D l s \<and> (node_ok (disc_hash D) n \<and> pubkey n = nodeid)) (\<lambda>_. disc_inv D l)"
  unfolding get_node_def
proof (rule triple_keeps_seq [OF _ triple_keeps_seq [OF _ triple_keeps_seq [OF _ triple_keeps_seq [OF _
      triple_seq [OF lookup_node_triple [OF assms] triple_pure]]]]])
  fix onode
  assume n: "\<forall>n. onode = Some n \<longrightarrow> node_ok (disc_hash D) n \<and> pubkey n = nodeid"
  show "triple (disc_inv D l)
      (seq (case address of None \<Rightarrow> ret ()
            | Some a \<Rightarrow> (case onode of None \<Rightarrow> throw AttributeError | Some n \<Rightarrow> set_address n a)) (\<lambda>_.
       case onode of None \<Rightarrow> throw AttributeError
       | Some n \<Rightarrow> seq (gets (address_at n)) (\<lambda>a. seq (py_assert (a \<noteq> None)) (\<lambda>_. ret n))))
      (\<lambda>n s. disc_inv D l s \<and> (node_ok (disc_hash D) n \<and> pubkey n = nodeid)) (\<lambda>_. disc_inv D l)"
  proof (rule triple_keeps_seq)
    show "keeps (disc_inv D l) (case address of None \<Rightarrow> ret ()
        | Some a \<Rightarrow> (case onode of None \<Rightarrow> throw AttributeError | Some n \<Rightarrow> set_address n a))"
      by (intro keeps_rules set_address_keeps)
  qed (use n in \<open>auto intro!: prog_rules triple_keeps_seq keeps_rules split: option.split\<close>)
qed (auto intro!: keeps_rules lookup_node_keeps put_node_keeps assms)

lemma get_node_keeps: "libs_ok D \<Longrightarrow> keeps (disc_inv D l) (get_node D nodeid address)"
  unfolding keeps_triple by (rule triple_conseq [OF get_node_triple]) auto

text \<open>A Kademlia handler whose nodes are well formed.\<close>

lemma run_kad_keeps:
  assumes "event_ok (disc_hash D) ev"
  shows "keeps (disc_inv D l) (run_kad D now rnd ev)"
  unfolding keeps_def
proof (intro allI impI)
  fix s assume s: "disc_inv D l s"
  define e where "e = disc_env D now rnd (local_node (d_kad s))"
  obtain r k' where k: "kad_step e ev (d_kad s) = (r, k')" by force
  have "kad_inv (disc_hash D) l k'"
    using keeps_result [OF kad_step_keeps [OF assms] _ k] s by (simp add: disc_inv_def)
  with s show "disc_inv D l (snd (run_kad D now rnd ev s))"
    by (simp add: run_kad_def Let_def e_def [symmetric] k disc_inv_def cached_def)
qed

text \<open>Every message that was sent is out, as the datagram it was packed into when it was sent.\<close>

lemma run_kad_packed:
  assumes "run_kad D now rnd ev s = (r, s')"
  obtains ms where "sent (d_kad s') = sent (d_kad s) @ ms"
    "\<forall>m \<in> set ms. \<exists>d. datagram D now (address_of (d_kad s')) (local_node (d_kad s)) m = Inr d"
    "map Inr (drop (length (d_out s)) (d_out s')) =
       map (datagram D now (address_of (d_kad s')) (local_node (d_kad s))) ms"
proof -
  let ?e = "disc_env D now rnd (local_node (d_kad s))"
  obtain k' where k: "kad_step ?e ev (d_kad s) = (r, k')" "d_kad s' = k'"
    "d_out s' = d_out s @ datagrams D now (address_of k') (local_node (d_kad s)) (drop (length (sent (d_kad s))) (sent k'))"
    using assms by (auto simp: run_kad_def Let_def split: prod.splits)
  obtain ms where ms: "sent k' = sent (d_kad s) @ ms"
    "\<forall>m \<in> set ms. \<exists>before e. on_wire ?e (address_of k') before m = Inr e"
    using kad_step_wired [of ?e "d_kad s" ev] k(1) by (auto simp: wired_def)
  have d: "\<forall>m \<in> set ms. \<exists>d. datagram D now (address_of k') (local_node (d_kad s)) m = Inr d"
    using ms(2) by (fastforce simp: disc_env_def wire_send_def bind_res_eq_Inr)
  then have "map Inr (datagrams D now (address_of k') (local_node (d_kad s)) ms) =
      map (datagram D now (address_of k') (local_node (d_kad s))) ms"
    unfolding datagrams_def by (induction ms) auto
  with that [of ms] d ms(1) k(2,3) show thesis by simp
qed

text \<open>The handlers.\<close>

lemma get_node_seq_keeps:
  assumes "libs_ok D" "\<And>n. node_ok (disc_hash D) n \<Longrightarrow> keeps (disc_inv D l) (f n)"
  shows "keeps (disc_inv D l) (seq (get_node D nodeid address) f)"
  unfolding keeps_triple
  by (intro triple_seq [OF get_node_triple [OF assms(1)]] triple_pure assms(2) [unfolded keeps_triple]) blast

lemma learn_neighbours_triple:
  assumes "libs_ok D"
  shows "triple (disc_inv D l) (learn_neighbours D is)
    (\<lambda>ns s. disc_inv D l s \<and> list_all (node_ok (disc_hash D)) ns) (\<lambda>_. disc_inv D l)"
proof (induction "is")
  case Nil
  show ?case by (simp add: triple_ret)
next
  case (Cons i "is")
  show ?case unfolding learn_neighbours.simps
    by (intro triple_keeps_seq keeps_lift, unfold split_beta, intro triple_keeps_seq keeps_lift
        triple_seq [OF get_node_triple [OF assms]] triple_pure triple_seq [OF Cons] triple_ret) auto
qed

lemma disc_recv_keeps:
  assumes "libs_ok D"
  shows "keeps (disc_inv D l) (disc_recv_ping D now rnd nodeid payload mdc)"
    "keeps (disc_inv D l) (disc_recv_pong D now rnd nodeid payload mdc)"
    "keeps (disc_inv D l) (disc_recv_find_node D now rnd nodeid payload mdc)"
    "keeps (disc_inv D l) (disc_recv_neighbours D now rnd nodeid payload mdc)"
proof -
  have learn: "keeps (disc_inv D l) (seq (learn_neighbours D is) (\<lambda>ns. run_kad D now rnd (RecvNeighbours n ns)))"
    if "node_ok (disc_hash D) n" for n "is"
    unfolding keeps_triple
    by (intro triple_seq [OF learn_neighbours_triple [OF assms]] triple_pure run_kad_keeps [unfolded keeps_triple])
      (simp add: event_ok_def that)
  show "keeps (disc_inv D l) (disc_recv_neighbours D now rnd nodeid payload mdc)"
    unfolding disc_recv_neighbours_def
    by (intro get_node_seq_keeps assms learn | rule keeps_seq keeps_assert keeps_lift)+
qed (unfold disc_recv_ping_def disc_recv_pong_def disc_recv_find_node_def,
    (intro keeps_if keeps_ret get_node_seq_keeps assms keeps_seq keeps_lift keeps_gets keeps_assert
      get_node_keeps lookup_node_keeps run_kad_keeps keeps_option keeps_throw set_address_keeps;
      simp add: event_ok_def)+)

lemma disc_receive_keeps: "libs_ok D \<Longrightarrow> keeps (disc_inv D l) (disc_receive D now rnd address message)"
  unfolding disc_receive_def dispatch_def
  by (auto intro!: keeps_seq get_node_keeps disc_recv_keeps keeps_ret keeps_throw split: sum.split cmd.split)

lemma handle_packet_keeps: "libs_ok D \<Longrightarrow> keeps (disc_inv D l) (handle_packet D now rnd ip port message)"
proof -
  assume "libs_ok D"
  then have "keeps (disc_inv D l) (seq (lift_res r) (\<lambda>a. disc_receive D now rnd a message))" for r
    by (intro keeps_seq keeps_lift disc_receive_keeps)
  then show ?thesis unfolding handle_packet_def by (simp add: keeps_def)
qed

end
