(* ===== verification/Discovery_Delivery.thy ===== *)
theory Discovery_Delivery
  imports Discovery_Invariant
begin

text \<open>
  From a message that one instance sends to the Kademlia handler that another one runs: payloads,
  datagrams and the cache together.
\<close>

section \<open>The cache\<close>

text \<open>A node object that the cache holds, now or before, under its own id and will hold under no other.\<close>

definition owned :: "'c disc_lib \<Rightarrow> 'c disc \<Rightarrow> node \<Rightarrow> bool" where
  "owned D s n \<longleftrightarrow> oref n < d_next s \<and> (\<forall>j m. cached D s j = Some m \<longrightarrow> oref m = oref n \<longrightarrow> j = pubkey n)"

lemma owned_cached: "disc_inv D l s \<Longrightarrow> cached D s j = Some n \<Longrightarrow> owned D s n"
  unfolding disc_inv_def owned_def by metis

definition keeps_owned :: "'c disc_lib \<Rightarrow> 'c disc \<Rightarrow> 'c disc \<Rightarrow> bool" where
  "keeps_owned D s s' \<longleftrightarrow> (\<forall>n. owned D s n \<longrightarrow> owned D s' n)"

lemma keeps_owned_same: "cached D s' = cached D s \<Longrightarrow> d_next s' = d_next s \<Longrightarrow> keeps_owned D s s'"
  by (simp add: keeps_owned_def owned_def)

lemma put_node_run:
  assumes "libs_ok D" "length nodeid = 64"
  obtains s' n where "put_node D nodeid address s = (Inr (), s')" "pubkey n = nodeid" "node_ok (disc_hash D) n"
    "cached D s' nodeid = Some n" "d_out s' = d_out s"
    "d_kad s' = (d_kad s)\<lparr>address_of := (address_of (d_kad s))(oref n := address)\<rparr>" "keeps_owned D s s'"
proof -
  define n where "n = \<lparr>oref = d_next s, pubkey = nodeid, node_id = disc_hash D nodeid\<rparr>"
  define s' where "s' = s\<lparr>d_next := d_next s + 1, d_nodes := cache_put (dl_cache D) nodeid n (d_nodes s),
      d_kad := (d_kad s)\<lparr>address_of := (address_of (d_kad s))(d_next s := address)\<rparr>\<rparr>"
  have "put_node D nodeid address s = (Inr (), s')"
    using assms(2) by (simp add: put_node_def disc_mk_node [OF assms(1)] step_simps n_def s'_def)
  moreover have "cached D s' nodeid = Some n"
    using cache_laws(1) [of "dl_cache D"] assms(1) by (simp add: cached_def s'_def libs_ok_def)
  moreover have "node_ok (disc_hash D) n" unfolding n_def by (rule disc_node_ok [OF assms])
  moreover have "j = nodeid \<and> m = n \<or> cached D s j = Some m" if "cached D s' j = Some m" for j m
    using cache_laws(3) [of "dl_cache D"] assms(1) that by (auto simp: cached_def s'_def libs_ok_def)
  then have "keeps_owned D s s'"
    by (fastforce simp: keeps_owned_def owned_def n_def s'_def)
  ultimately show thesis using that [of s' n] by (simp add: s'_def) (simp add: n_def)
qed

lemma seq_lookup_run:
  assumes "libs_ok D"
  obtains s' where "seq (lookup_node D nodeid) f s = f (cached D s nodeid) s'"
    "cached D s' = cached D s" "d_kad s' = d_kad s" "d_out s' = d_out s" "d_next s' = d_next s"
proof -
  obtain r s' where r: "lookup_node D nodeid s = (r, s')" by force
  with lookup_node_run [OF assms r] that [of s'] show thesis by (simp add: seq_def)
qed

text \<open>A node that is known and has an address.\<close>

lemma get_known_run:
  assumes "libs_ok D" "length nodeid = 64" "cached D s nodeid = Some n" "address_at n s = Some a"
  obtains s' where "seq (get_node D nodeid None) f s = f n s'"
    "cached D s' = cached D s" "d_kad s' = d_kad s" "d_out s' = d_out s"
proof -
  let ?g = "\<lambda>onode. case onode of None \<Rightarrow> throw AttributeError
      | Some n \<Rightarrow> seq (gets (address_at n)) (\<lambda>a. seq (py_assert (a \<noteq> None)) (\<lambda>_. ret n))"
  let ?h = "\<lambda>onode. seq (?g onode) f"
  let ?p = "\<lambda>known. seq (if known = None then put_node D nodeid None else ret ()) (\<lambda>_. seq (lookup_node D nodeid) ?h)"
  let ?q = "\<lambda>known. seq (py_assert (known \<noteq> None)) (\<lambda>_. seq (lookup_node D nodeid) ?p)"
  have def: "seq (get_node D nodeid None) f = seq (lookup_node D nodeid) ?q"
    using assms(2) by (simp add: get_node_def seq_assoc del: not_None_eq)
  obtain s1 where 1: "seq (lookup_node D nodeid) ?q s = ?q (cached D s nodeid) s1"
    "cached D s1 = cached D s" "d_kad s1 = d_kad s" "d_out s1 = d_out s"
    by (rule seq_lookup_run [OF assms(1)])
  obtain s2 where 2: "seq (lookup_node D nodeid) ?p s1 = ?p (cached D s1 nodeid) s2"
    "cached D s2 = cached D s1" "d_kad s2 = d_kad s1" "d_out s2 = d_out s1"
    by (rule seq_lookup_run [OF assms(1)])
  obtain s3 where 3: "seq (lookup_node D nodeid) ?h s2 = ?h (cached D s2 nodeid) s3"
    "cached D s3 = cached D s2" "d_kad s3 = d_kad s2" "d_out s3 = d_out s2"
    by (rule seq_lookup_run [OF assms(1)])
  have "seq (?g (Some n)) f s3 = f n s3"
    using assms(4) 1(3) 2(3) 3(3) by (simp add: seq_assoc step_simps address_at_def)
  with that [of s3] def 1 2 3 assms(3) show thesis by simp
qed

text \<open>A node whose address is given: it is known afterwards, at that address.\<close>

lemma get_node_run:
  assumes "libs_ok D" "length nodeid = 64"
  obtains s' n where "seq (get_node D nodeid (Some a)) f s = f n s'" "cached D s' nodeid = Some n"
    "cached D s nodeid = None \<and> pubkey n = nodeid \<or> cached D s nodeid = Some n" "d_out s' = d_out s"
    "d_kad s' = (d_kad s)\<lparr>address_of := (address_of (d_kad s))(oref n \<mapsto> a)\<rparr>" "keeps_owned D s s'"
proof -
  let ?g = "\<lambda>onode. case onode of None \<Rightarrow> throw AttributeError
      | Some n \<Rightarrow> seq (gets (address_at n)) (\<lambda>a. seq (py_assert (a \<noteq> None)) (\<lambda>_. ret n))"
  let ?h = "\<lambda>onode. seq (case onode of None \<Rightarrow> throw AttributeError | Some n \<Rightarrow> set_address n a) (\<lambda>_. seq (?g onode) f)"
  let ?p = "\<lambda>known. seq (if known = None then put_node D nodeid (Some a) else ret ()) (\<lambda>_. seq (lookup_node D nodeid) ?h)"
  have def: "seq (get_node D nodeid (Some a)) f = seq (lookup_node D nodeid) ?p"
    using assms(2) by (simp add: get_node_def seq_assoc del: not_None_eq)
  obtain s1 where 1: "seq (lookup_node D nodeid) ?p s = ?p (cached D s nodeid) s1"
    "cached D s1 = cached D s" "d_kad s1 = d_kad s" "d_out s1 = d_out s" "d_next s1 = d_next s"
    by (rule seq_lookup_run [OF assms(1)])
  have o1: "keeps_owned D s s1" by (rule keeps_owned_same [OF 1(2,5)])
  obtain s2 n where 2: "?p (cached D s nodeid) s1 = seq (lookup_node D nodeid) ?h s2" "cached D s2 nodeid = Some n"
    "cached D s nodeid = None \<and> pubkey n = nodeid \<or> cached D s nodeid = Some n" "d_out s2 = d_out s"
    "(d_kad s2)\<lparr>address_of := (address_of (d_kad s2))(oref n \<mapsto> a)\<rparr> = (d_kad s)\<lparr>address_of := (address_of (d_kad s))(oref n \<mapsto> a)\<rparr>"
    "keeps_owned D s s2"
  proof (cases "cached D s nodeid")
    case None
    obtain t n where t: "put_node D nodeid (Some a) s1 = (Inr (), t)" "pubkey n = nodeid" "node_ok (disc_hash D) n"
      "cached D t nodeid = Some n" "d_out t = d_out s1"
      "d_kad t = (d_kad s1)\<lparr>address_of := (address_of (d_kad s1))(oref n := Some a)\<rparr>" "keeps_owned D s1 t"
      by (rule put_node_run [OF assms])
    note run = seq_run [where f = "put_node D nodeid (Some a)" and s = s1, OF t(1)]
    have "keeps_owned D s t" using o1 t(7) by (simp add: keeps_owned_def)
    with that [of t n] t None 1 show thesis by (simp add: run)
  next
    case (Some m)
    with that [of s1 m] 1 o1 show thesis by simp
  qed
  obtain s3 where 3: "seq (lookup_node D nodeid) ?h s2 = ?h (cached D s2 nodeid) s3"
    "cached D s3 = cached D s2" "d_kad s3 = d_kad s2" "d_out s3 = d_out s2" "d_next s3 = d_next s2"
    by (rule seq_lookup_run [OF assms(1)])
  define s4 where "s4 = s3\<lparr>d_kad := (d_kad s3)\<lparr>address_of := (address_of (d_kad s3))(oref n \<mapsto> a)\<rparr>\<rparr>"
  have "?h (Some n) s3 = f n s4"
    unfolding set_address_def option.case seq_modify_run
    unfolding s4_def [symmetric] by (simp add: seq_assoc step_simps) (simp add: s4_def address_at_def)
  moreover have "cached D s4 = cached D s3" by (simp add: s4_def cached_def fun_eq_iff)
  moreover have "d_kad s4 = (d_kad s)\<lparr>address_of := (address_of (d_kad s))(oref n \<mapsto> a)\<rparr>"
    using 2(5) 3(3) by (simp add: s4_def)
  moreover have "d_out s4 = d_out s" using 2(4) 3(4) by (simp add: s4_def)
  moreover have "keeps_owned D s2 s4"
    by (rule keeps_owned_same) (use 3(2,5) in \<open>simp_all add: s4_def cached_def fun_eq_iff\<close>)
  then have "keeps_owned D s s4" using 2(6) by (simp add: keeps_owned_def)
  ultimately show thesis using that [of n s4] def 1(1) 2(1-3) 3(1,2) by simp
qed

text \<open>As a statement of its own.\<close>

lemma get_node_at:
  assumes "libs_ok D" "length nodeid = 64" "disc_inv D l s"
  obtains n s' where "get_node D nodeid (Some a) s = (Inr n, s')" "pubkey n = nodeid" "disc_inv D l s'"
    "cached D s' nodeid = Some n" "d_out s' = d_out s"
    "d_kad s' = (d_kad s)\<lparr>address_of := (address_of (d_kad s))(oref n \<mapsto> a)\<rparr>" "keeps_owned D s s'"
proof -
  obtain s' n where n: "seq (get_node D nodeid (Some a)) ret s = ret n s'" "cached D s' nodeid = Some n"
    "cached D s nodeid = None \<and> pubkey n = nodeid \<or> cached D s nodeid = Some n" "d_out s' = d_out s"
    "d_kad s' = (d_kad s)\<lparr>address_of := (address_of (d_kad s))(oref n \<mapsto> a)\<rparr>" "keeps_owned D s s'"
    by (rule get_node_run [OF assms(1,2)])
  have r: "get_node D nodeid (Some a) s = (Inr n, s')"
    using n(1) by (simp add: seq_def ret_def split: prod.splits sum.splits)
  with triple_Inr [OF get_node_triple [OF assms(1)] assms(3)] that n show thesis by metis
qed

section \<open>Payloads\<close>

text \<open>A packed address that is not taken for a text.\<close>

definition plain_address :: "address \<Rightarrow> bool" where
  "plain_address a \<longleftrightarrow> length (a_ip a) \<in> {4, 16} \<and> \<not> ip_pattern (a_ip a)"

definition wire_address :: "address \<Rightarrow> address" where
  "wire_address a = a\<lparr>udp_port := udp_port a mod 65536, tcp_port := tcp_port a mod 65536\<rparr>"

lemma endpoint_Inr:
  assumes "endpoint a = Inr x"
  shows "udp_port a < 2 ^ 32 \<and> tcp_port a < 2 ^ 32 \<and> length x = 3 \<and>
    x = [Bytes (a_ip a), Bytes (be_bytes 2 (udp_port a mod 65536)), Bytes (be_bytes 2 (tcp_port a mod 65536))]"
proof -
  have "udp_port a < 2 ^ 32 \<and> tcp_port a < 2 ^ 32"
    using assms by (auto simp: endpoint_def address_to_binary_def enc_port_def bind_res_eq_Inr split: if_splits)
  with assms endpoint_eq [of a] show ?thesis by auto
qed

lemma from_endpoint_endpoint:
  assumes "wire_ok W" "plain_address a" "endpoint a = Inr x"
  shows "from_endpoint W x = Inr (wire_address a)"
proof -
  have ne: "be_bytes 2 p \<noteq> []" for p using length_be_bytes [of 2 p] by (metis list.size(3) zero_neq_numeral)
  have v: "be_val (be_bytes 2 (p mod 65536)) = p mod 65536" for p by (rule be_val_be_bytes) simp
  note endpoint_Inr [OF assms(3)]
  then show ?thesis using assms(2)
    by (cases a) (simp add: from_endpoint_def dec_port_item_def wire_dec_port [OF assms(1)] v ne ip_address_def
        plain_address_def wire_address_def)
qed

text \<open>How many elements a payload has.\<close>

lemma bind_res_length:
  assumes "bind_res r f = Inr p" "\<And>x q. f x = Inr q \<Longrightarrow> length q = k"
  shows "length p = k"
  using assms by (cases r) auto

lemma payload_lengths:
  "ping_payload D addrs this n = Inr p \<Longrightarrow> length p = 3"
  "pong_payload addrs n token = Inr p \<Longrightarrow> length p = 2"
  "find_node_payload D i = Inr p \<Longrightarrow> length p = 1"
  "neighbours_payload addrs ns = Inr p \<Longrightarrow> length p = 1"
  unfolding ping_payload_def pong_payload_def find_node_payload_def neighbours_payload_def Let_def
  by (erule bind_res_length | auto split: if_splits elim: bind_res_length; fail)+

lemma wire_payload_length:
  assumes "wire_payload D addrs this m = Inr (n, c, payload)"
  shows "Suc (length payload) = cmd_elem_count_map c"
  using assms by (cases m) (auto simp: bind_res_eq_Inr cmd_elem_count_map_def dest!: payload_lengths)

lemma datagram_Inr:
  assumes "datagram D t addrs this m = Inr (a, msg)"
  obtains n c payload where "wire_payload D addrs this m = Inr (n, c, payload)" "addrs (oref n) = Some a"
    "disc_pack (dl_crypto D) (dl_wire D) (privkey (dl_config D)) t (cmd_id_map c) payload = Inr msg"
proof -
  obtain n c payload where p: "wire_payload D addrs this m = Inr (n, c, payload)"
    using assms by (cases "wire_payload D addrs this m") (auto simp: datagram_def)
  obtain message where q: "disc_pack (dl_crypto D) (dl_wire D) (privkey (dl_config D)) t (cmd_id_map c) payload = Inr message"
    using assms by (cases "disc_pack (dl_crypto D) (dl_wire D) (privkey (dl_config D)) t (cmd_id_map c) payload")
      (simp_all add: datagram_def p)
  have "addrs (oref n) = Some a \<and> message = msg"
    using assms by (cases "addrs (oref n)") (simp_all add: datagram_def p q split: if_splits)
  with that p q show thesis by blast
qed

text \<open>Two instances on the same packages; \<open>e\<close> is the key pair of the sender.\<close>

definition sender_of :: "'c disc_lib \<Rightarrow> 'd disc_lib \<Rightarrow> ecc \<Rightarrow> bool" where
  "sender_of A B e \<longleftrightarrow> dl_crypto A = dl_crypto B \<and> dl_wire A = dl_wire B \<and> keys_ok (dl_crypto B) \<and>
     key_pair (dl_crypto B) e \<and> e_privkey e = Some (privkey (dl_config A))"

lemma packed_opens:
  assumes "libs_ok B" "sender_of A B e" "Suc (length payload) = cmd_elem_count_map c"
    "disc_pack (dl_crypto A) (dl_wire A) (privkey (dl_config A)) t (cmd_id_map c) payload = Inr msg"
  shows "disc_unpack (dl_crypto B) (dl_wire B) msg =
      Inr (e_pubkey e, cmd_id_map c, payload @ [Bytes (ser_int (dl_wire B) (nat \<lfloor>t + 60\<rfloor>))], take 32 msg)"
proof -
  have same: "dl_crypto A = dl_crypto B" "dl_wire A = dl_wire B" "keys_ok (dl_crypto B)"
    "key_pair (dl_crypto B) e" "e_privkey e = Some (privkey (dl_config A))"
    using assms(2) by (simp_all add: sender_of_def)
  have libs: "hashes_ok (dl_crypto B)" "wire_ok (dl_wire B)" using assms(1) by (simp_all add: libs_ok_def)
  let ?items = "payload @ [Bytes (ser_int (dl_wire B) (nat \<lfloor>t + 60\<rfloor>))]"
  obtain sg data where d: "data = rlp_encode (dl_wire B) (Items ?items)" "length sg = 65"
    "recover_key (dl_crypto B) sg (sha3 (dl_crypto B) ([of_nat (cmd_id_map c)] @ data)) = Inr (4 # e_pubkey e)"
    "disc_pack (dl_crypto B) (dl_wire B) (privkey (dl_config A)) t (cmd_id_map c) payload =
       Inr (sha3 (dl_crypto B) (sg @ [of_nat (cmd_id_map c)] @ data) @ sg @ [of_nat (cmd_id_map c)] @ data)"
    by (rule disc_pack_shape [OF libs(1) same(3-5)])
  let ?mdc = "sha3 (dl_crypto B) (sg @ [of_nat (cmd_id_map c)] @ data)"
  have msg: "msg = ?mdc @ sg @ [of_nat (cmd_id_map c)] @ data"
    using assms(4) d(4) unfolding same(1,2) by simp
  have len: "length ?mdc = 32" by (rule hashes_lengths(6) [OF libs(1)])
  have t: "take 32 msg = ?mdc" unfolding msg using len by simp
  have dec: "rlp_decode (dl_wire B) data = Inr (Items ?items)" unfolding d(1) by (rule wire_laws(1) [OF libs(2)])
  have id: "rev_cmd_id_map (unat (of_nat (cmd_id_map c) :: byte)) = Inr c" unfolding unat_cmd_id by (rule cmd_ids(1))
  have "take (cmd_elem_count_map c) ?items = ?items" using assms(3) by simp
  with disc_unpack_shape [OF len d(2) refl d(3) key_pair_pub [OF same(3,4)] id dec] show ?thesis
    unfolding msg [symmetric] t unat_cmd_id by simp
qed

lemma datagram_opens:
  assumes "libs_ok B" "sender_of A B e" "datagram A t addrs this m = Inr (a, msg)" "0 \<le> t" "now \<le> of_int \<lfloor>t + 60\<rfloor>"
    and "wire_payload A addrs this m = Inr (n, c, payload)"
  shows "open_datagram B now msg = Inr (e_pubkey e, c, payload, take 32 msg)"
proof -
  have p: "disc_pack (dl_crypto A) (dl_wire A) (privkey (dl_config A)) t (cmd_id_map c) payload = Inr msg"
    using datagram_Inr [OF assms(3)] assms(6) by force
  have w: "wire_ok (dl_wire B)" using assms(1) by (simp add: libs_ok_def)
  have "0 \<le> \<lfloor>t + 60\<rfloor>" using assms(4) by simp
  then have "\<not> rat_of_int (int (nat \<lfloor>t + 60\<rfloor>)) < now" using assms(5) by simp
  then show ?thesis
    unfolding open_datagram_def packed_opens [OF assms(1,2) wire_payload_length [OF assms(6)] p]
    by (simp add: pop_expiration_def wire_int [OF w] cmd_ids)
qed

end
