(* ===== verification/Discovery_Exchange.thy ===== *)
theory Discovery_Exchange
  imports Discovery_Delivery
begin

text \<open>
  What the receiver of a datagram does: the handler of the Kademlia protocol it runs, and with
  which arguments.
\<close>

section \<open>The handlers, one by one\<close>

text \<open>After \<open>receive\<close> has stored the source address, the handlers find the node.\<close>

definition heard :: "'c disc_lib \<Rightarrow> 'c disc \<Rightarrow> bytes \<Rightarrow> node \<Rightarrow> address \<Rightarrow> 'c disc \<Rightarrow> bool" where
  "heard D s pk n src s1 \<longleftrightarrow> pubkey n = pk \<and> cached D s1 pk = Some n \<and> address_at n s1 = Some src \<and>
     d_out s1 = d_out s \<and> d_kad s1 = (d_kad s)\<lparr>address_of := (address_of (d_kad s))(oref n \<mapsto> src)\<rparr>"

lemma heard_same:
  "heard D s pk n src s1 \<Longrightarrow> cached D s2 = cached D s1 \<Longrightarrow> d_kad s2 = d_kad s1 \<Longrightarrow> d_out s2 = d_out s1 \<Longrightarrow>
   heard D s pk n src s2"
  by (simp add: heard_def address_at_def)

lemma heard_known:
  assumes "libs_ok D" "length pk = 64" "heard D s pk n src s1"
  obtains s2 where "seq (get_node D pk None) f s1 = f n s2" "heard D s pk n src s2"
proof -
  obtain s2 where "seq (get_node D pk None) f s1 = f n s2"
    "cached D s2 = cached D s1" "d_kad s2 = d_kad s1" "d_out s2 = d_out s1"
    by (rule get_known_run [OF assms(1,2), of s1 n src f]) (use assms(3) in \<open>auto simp: heard_def\<close>)
  with that heard_same [OF assms(3)] show thesis by blast
qed

lemma recv_ping_run:
  assumes "libs_ok D" "length pk = 64" "heard D s pk n src s1" "tcp_port src \<noteq> 0"
    "from_endpoint (dl_wire D) x = Inr a"
  obtains s2 where "disc_recv_ping D now rnd pk [v, Items x, w] mdc s1 = run_kad D now rnd (RecvPing n mdc) s2"
    "heard D s pk n src s2"
proof -
  let ?k = "run_kad D now rnd (RecvPing n mdc)"
  let ?h = "\<lambda>m. seq (gets (address_at m)) (\<lambda>b. seq (case b of None \<Rightarrow> throw AttributeError
      | Some b \<Rightarrow> set_address m (address_update b a)) (\<lambda>_. ?k))"
  let ?g = "\<lambda>n. seq (lift_res (from_endpoint_item (dl_wire D) (Items x))) (\<lambda>a. seq (get_node D pk None)
      (\<lambda>m. seq (gets (address_at m)) (\<lambda>b. seq (case b of None \<Rightarrow> throw AttributeError
      | Some b \<Rightarrow> set_address m (address_update b a)) (\<lambda>_. run_kad D now rnd (RecvPing n mdc)))))"
  obtain s2 where 2: "seq (get_node D pk None) ?g s1 = ?g n s2" "heard D s pk n src s2"
    by (rule heard_known [OF assms(1-3)])
  obtain s3 where 3: "seq (get_node D pk None) ?h s2 = ?h n s3" "heard D s pk n src s3"
    by (rule heard_known [OF assms(1,2) 2(2)])
  have upd: "address_update src a = src" using assms(4) by (simp add: address_update_def)
  have at: "address_at n s3 = Some src" using 3(2) by (simp add: heard_def)
  then have "(address_of (d_kad s3))(oref n \<mapsto> src) = address_of (d_kad s3)" by (auto simp: address_at_def)
  then have "set_address n src s3 = (Inr (), s3)" by (simp add: set_address_def modify_def)
  then have "?h n s3 = ?k s3" by (simp add: step_simps at upd seq_run)
  with that [of s3] 2 3 assms(5) show thesis by (simp add: disc_recv_ping_def from_endpoint_item_def)
qed

lemma recv_pong_run:
  assumes "libs_ok D" "length pk = 64" "heard D s pk n src s1" "length x = 3" "from_endpoint (dl_wire D) x = Inr a"
  obtains s2 where "disc_recv_pong D now rnd pk [Items x, Bytes token] mdc s1 = run_kad D now rnd (RecvPong n token) s2"
    "heard D s pk n src s2"
proof -
  let ?k = "\<lambda>n. run_kad D now rnd (RecvPong n token)"
  let ?g = "\<lambda>known. if known = None then ret () else seq (get_node D pk None) ?k"
  obtain s2 where 2: "seq (lookup_node D pk) ?g s1 = ?g (cached D s1 pk) s2"
    "cached D s2 = cached D s1" "d_kad s2 = d_kad s1" "d_out s2 = d_out s1"
    by (rule seq_lookup_run [OF assms(1)])
  have h: "heard D s pk n src s2" by (rule heard_same [OF assms(3) 2(2-4)])
  obtain s3 where 3: "seq (get_node D pk None) ?k s2 = ?k n s3" "heard D s pk n src s3"
    by (rule heard_known [OF assms(1,2) h])
  have "?g (cached D s1 pk) s2 = ?k n s3" using 3(1) assms(3) by (simp add: heard_def)
  with that [of s3] 2(1) 3(2) assms(4,5) show thesis by (simp add: disc_recv_pong_def from_endpoint_item_def cong: if_cong)
qed

lemma recv_find_node_run:
  assumes "libs_ok D" "length pk = 64" "heard D s pk n src s1" "length b = 64"
  obtains s2 where "disc_recv_find_node D now rnd pk [Bytes b] mdc s1 = run_kad D now rnd (RecvFindNode n (int (be_val b))) s2"
    "heard D s pk n src s2"
proof -
  have w: "wire_ok (dl_wire D)" using assms(1) by (simp add: libs_ok_def)
  let ?k = "\<lambda>n. run_kad D now rnd (RecvFindNode n (int (be_val b)))"
  obtain s2 where "seq (get_node D pk None) ?k s1 = ?k n s2" "heard D s pk n src s2"
    by (rule heard_known [OF assms(1-3)])
  with that [of s2] assms(4) show thesis
    by (simp add: disc_recv_find_node_def nth_item_def k_pubkey_size_def wire_big_endian [OF w])
qed

text \<open>
  The nodes of a neighbours message are made known with their addresses: the node objects have the public
  keys of the message in order and, no key being twice in it, the addresses that the message states. The
  addresses of other objects of the cache stay.
\<close>

definition told :: "(nat \<Rightarrow> address option) \<Rightarrow> node list \<Rightarrow> (nat \<Rightarrow> address option) \<Rightarrow> node list \<Rightarrow> bool" where
  "told addrs ns f ns' \<longleftrightarrow> map pubkey ns' = map pubkey ns \<and>
     (distinct (map pubkey ns) \<longrightarrow> list_all2 (\<lambda>m n. f (oref m) = map_option wire_address (addrs (oref n))) ns' ns)"

lemma learn_neighbours_run:
  assumes "libs_ok D" "neighbour_items addrs ns = Inr is" "disc_inv D l s"
    "\<forall>n \<in> set ns. length (pubkey n) = 64 \<and> (\<forall>a. addrs (oref n) = Some a \<longrightarrow> plain_address a)"
  obtains ns' s' f where "learn_neighbours D is s = (Inr ns', s')" "told addrs ns f ns'"
    "d_out s' = d_out s" "d_kad s' = (d_kad s)\<lparr>address_of := f\<rparr>" "disc_inv D l s'"
    "\<forall>n. owned D s n \<and> pubkey n \<notin> pubkey ` set ns \<longrightarrow> f (oref n) = address_of (d_kad s) (oref n)"
proof -
  have "\<exists>ns' s' f. learn_neighbours D is s = (Inr ns', s') \<and> told addrs ns f ns' \<and>
    d_out s' = d_out s \<and> d_kad s' = (d_kad s)\<lparr>address_of := f\<rparr> \<and> disc_inv D l s' \<and>
    (\<forall>n. owned D s n \<and> pubkey n \<notin> pubkey ` set ns \<longrightarrow> f (oref n) = address_of (d_kad s) (oref n))"
    using assms(2-4)
  proof (induction ns arbitrary: "is" s)
    case Nil
    then show ?case by (simp add: ret_def told_def) (metis kad.surjective kad.update_convs(6))
  next
    case (Cons n ns)
    have w: "wire_ok (dl_wire D)" using assms(1) by (simp add: libs_ok_def)
    from Cons.prems(1) obtain e is' where e: "endpoint_of addrs n = Inr e" "neighbour_items addrs ns = Inr is'"
      "is = Items (e @ [Bytes (pubkey n)]) # is'" by (auto simp: bind_res_eq_Inr)
    then obtain a where a: "addrs (oref n) = Some a" "endpoint a = Inr e"
      by (auto simp: endpoint_of_def split: option.splits)
    have dec: "from_endpoint (dl_wire D) e = Inr (wire_address a)"
      by (rule from_endpoint_endpoint [OF w _ a(2)]) (use Cons.prems(3) a(1) in auto)
    obtain m s1 where m: "get_node D (pubkey n) (Some (wire_address a)) s = (Inr m, s1)" "pubkey m = pubkey n"
      "disc_inv D l s1" "cached D s1 (pubkey n) = Some m" "d_out s1 = d_out s"
      "d_kad s1 = (d_kad s)\<lparr>address_of := (address_of (d_kad s))(oref m \<mapsto> wire_address a)\<rparr>" "keeps_owned D s s1"
      by (rule get_node_at [OF assms(1) _ Cons.prems(2), of "pubkey n" "wire_address a"]) (use Cons.prems(3) in auto)
    obtain ns' s' f where r: "learn_neighbours D is' s1 = (Inr ns', s')" "told addrs ns f ns'"
      "d_out s' = d_out s1" "d_kad s' = (d_kad s1)\<lparr>address_of := f\<rparr>" "disc_inv D l s'"
      "\<forall>k. owned D s1 k \<and> pubkey k \<notin> pubkey ` set ns \<longrightarrow> f (oref k) = address_of (d_kad s1) (oref k)"
      using Cons.IH [OF e(2) m(3)] Cons.prems(3) by auto
    have run: "learn_neighbours D is s = (Inr (m # ns'), s')"
      unfolding e(3) by (simp add: dec seq_def m(1) r(1) lift_res_def ret_def)
    have own: "owned D s1 m" by (rule owned_cached [OF m(3,4)])
    have "f (oref m) = Some (wire_address a)" if "pubkey m \<notin> pubkey ` set ns"
      using r(6) own that m(6) by simp
    then have told: "told addrs (n # ns) f (m # ns')"
      using r(2) m(2) a(1) by (auto simp: told_def)
    have "f (oref k) = address_of (d_kad s) (oref k)"
      if k: "owned D s k" "pubkey k \<notin> pubkey ` set (n # ns)" for k
    proof -
      have "owned D s1 k" using m(7) k(1) by (simp add: keeps_owned_def)
      moreover from this have "oref m \<noteq> oref k" using m(2,4) k(2) by (auto simp: owned_def)
      ultimately show ?thesis using r(6) k(2) m(6) by simp
    qed
    with run told m r show ?case by (intro exI [of _ "m # ns'"] exI [of _ s'] exI [of _ f]) simp
  qed
  with that show thesis by blast
qed

lemma neighbour_items_take:
  "neighbour_items addrs ns = Inr is \<Longrightarrow> neighbour_items addrs (take k ns) = Inr (take k is)"
proof (induction ns arbitrary: "is" k)
  case (Cons n ns)
  then show ?case by (cases k) (auto simp: bind_res_eq_Inr)
qed simp

lemma recv_neighbours_run:
  assumes "libs_ok D" "length pk = 64" "heard D s pk n src s1" "disc_inv D l s1"
    "neighbours_payload addrs ns = Inr payload"
    "\<forall>n \<in> set ns. length (pubkey n) = 64 \<and> (\<forall>a. addrs (oref n) = Some a \<longrightarrow> plain_address a)"
  obtains s2 f ns' where "disc_recv_neighbours D now rnd pk payload mdc s1 = run_kad D now rnd (RecvNeighbours n ns') s2"
    "told addrs (take 12 (sort_key node_id ns)) f ns'" "d_out s2 = d_out s"
    "d_kad s2 = (d_kad s)\<lparr>address_of := f\<rparr>"
    "pk \<notin> pubkey ` set (take 12 (sort_key node_id ns)) \<Longrightarrow> f (oref n) = Some src"
proof -
  obtain "is" where i: "neighbour_items addrs (sort_key node_id ns) = Inr is" "payload = [Items (take 12 is)]"
    using assms(5) by (auto simp: neighbours_payload_def bind_res_eq_Inr)
  obtain s2 where 2: "seq (get_node D pk None) ret s1 = ret n s2" "heard D s pk n src s2"
    by (rule heard_known [OF assms(1-3)])
  then have g: "get_node D pk None s1 = (Inr n, s2)"
    by (simp add: seq_def ret_def split: prod.splits sum.splits)
  have inv: "disc_inv D l s2" by (rule keeps_result [OF get_node_keeps [OF assms(1)] assms(4) g])
  have "\<forall>n \<in> set (take 12 (sort_key node_id ns)). length (pubkey n) = 64 \<and>
      (\<forall>a. addrs (oref n) = Some a \<longrightarrow> plain_address a)"
    using assms(6) by (auto dest: in_set_takeD)
  then obtain ns' s3 f where 3: "learn_neighbours D (take 12 is) s2 = (Inr ns', s3)"
    "told addrs (take 12 (sort_key node_id ns)) f ns'"
    "d_out s3 = d_out s2" "d_kad s3 = (d_kad s2)\<lparr>address_of := f\<rparr>"
    "\<forall>k. owned D s2 k \<and> pubkey k \<notin> pubkey ` set (take 12 (sort_key node_id ns)) \<longrightarrow>
       f (oref k) = address_of (d_kad s2) (oref k)"
    by (rule learn_neighbours_run [OF assms(1) neighbour_items_take [OF i(1)] inv])
  have "disc_recv_neighbours D now rnd pk payload mdc s1 = run_kad D now rnd (RecvNeighbours n ns') s3"
    unfolding i(2) disc_recv_neighbours_def by (simp add: seq_def g 3(1) lift_res_def py_assert_def)
  moreover have "owned D s2 n" using owned_cached [OF inv] 2(2) by (auto simp: heard_def)
  ultimately show thesis using that 2(2) 3 by (simp add: heard_def)
qed

section \<open>Delivery\<close>

text \<open>The event that a message is for the receiver, and the addresses a message must not garble.\<close>

definition receipt ::
  "bytes \<Rightarrow> (nat \<Rightarrow> address option) \<Rightarrow> (nat \<Rightarrow> address option) \<Rightarrow> node \<Rightarrow> wire_msg \<Rightarrow> kad_event \<Rightarrow> bool" where
  "receipt mdc addrs f n m ev \<longleftrightarrow>
     (case m of
        Ping _ \<Rightarrow> ev = RecvPing n mdc
      | Pong _ token \<Rightarrow> ev = RecvPong n token
      | FindNode _ i \<Rightarrow> ev = RecvFindNode n i
      | Neighbours _ ns \<Rightarrow> (\<exists>ns'. ev = RecvNeighbours n ns' \<and> told addrs (take 12 (sort_key node_id ns)) f ns'))"

text \<open>The source address of the datagram is the sender's, unless the sender lists itself as a neighbour.\<close>

definition sender_address :: "(nat \<Rightarrow> address option) \<Rightarrow> (nat \<Rightarrow> address option) \<Rightarrow> node \<Rightarrow> wire_msg \<Rightarrow> address \<Rightarrow> bool" where
  "sender_address before f n m src \<longleftrightarrow>
     (case m of
        Neighbours _ ns \<Rightarrow> pubkey n \<notin> pubkey ` set (take 12 (sort_key node_id ns)) \<longrightarrow> f (oref n) = Some src
      | _ \<Rightarrow> f = before(oref n \<mapsto> src))"

definition readable :: "'c disc_lib \<Rightarrow> (nat \<Rightarrow> address option) \<Rightarrow> wire_msg \<Rightarrow> bool" where
  "readable A addrs m \<longleftrightarrow>
     (case m of
        Ping _ \<Rightarrow> (\<forall>own. mk_address (dl_wire A) (listen_host (dl_config A)) (listen_port (dl_config A))
          (p2p_listen_port (dl_config A)) = Inr own \<longrightarrow> plain_address own)
      | Pong n _ \<Rightarrow> (\<forall>a. addrs (oref n) = Some a \<longrightarrow> plain_address a)
      | FindNode _ _ \<Rightarrow> True
      | Neighbours _ ns \<Rightarrow> (\<forall>n \<in> set ns. length (pubkey n) = 64 \<and>
          (\<forall>a. addrs (oref n) = Some a \<longrightarrow> plain_address a)))"

lemma dispatch_run:
  assumes "libs_ok B" "dl_wire A = dl_wire B" "wire_payload A addrs this m = Inr (to, c, payload)" "readable A addrs m"
    "length pk = 64" "heard B s pk n src s1" "disc_inv B l s1" "tcp_port src \<noteq> 0"
  obtains s2 ev f where "dispatch B now rnd c pk payload mdc s1 = run_kad B now rnd ev s2"
    "receipt mdc addrs f n m ev" "d_out s2 = d_out s" "d_kad s2 = (d_kad s)\<lparr>address_of := f\<rparr>"
    "sender_address (address_of (d_kad s)) f n m src"
proof (cases m)
  case (Ping q)
  have w: "wire_ok (dl_wire B)" using assms(1) by (simp add: libs_ok_def)
  obtain own x y where p: "mk_address (dl_wire A) (listen_host (dl_config A)) (listen_port (dl_config A))
      (p2p_listen_port (dl_config A)) = Inr own" "endpoint own = Inr x"
    "payload = [Bytes (ser_int (dl_wire A) disc_version), Items x, Items y]" "c = CPing"
    using assms(3) by (auto simp: Ping ping_payload_def bind_res_eq_Inr Let_def)
  have "plain_address own" using assms(4) p(1) by (simp add: Ping readable_def)
  note dec = from_endpoint_endpoint [OF w this p(2)]
  obtain s2 where "disc_recv_ping B now rnd pk payload mdc s1 = run_kad B now rnd (RecvPing n mdc) s2"
    "heard B s pk n src s2"
    unfolding p(3) by (rule recv_ping_run [OF assms(1,5,6,8) dec])
  then show thesis by (intro that [of "RecvPing n mdc" s2 "(address_of (d_kad s))(oref n \<mapsto> src)"]) (auto simp: dispatch_def p(4) receipt_def sender_address_def Ping heard_def)
next
  case (Pong q token)
  have w: "wire_ok (dl_wire B)" using assms(1) by (simp add: libs_ok_def)
  obtain a x where p: "addrs (oref q) = Some a" "endpoint a = Inr x" "payload = [Items x, Bytes token]" "c = CPong"
    using assms(3) by (auto simp: Pong pong_payload_def endpoint_of_def bind_res_eq_Inr split: option.splits)
  have "plain_address a" using assms(4) p(1) by (simp add: Pong readable_def)
  note dec = from_endpoint_endpoint [OF w this p(2)]
  have len: "length x = 3" using endpoint_Inr [OF p(2)] by blast
  obtain s2 where "disc_recv_pong B now rnd pk payload mdc s1 = run_kad B now rnd (RecvPong n token) s2"
    "heard B s pk n src s2"
    unfolding p(3) by (rule recv_pong_run [OF assms(1,5,6) len dec])
  then show thesis by (intro that [of "RecvPong n token" s2 "(address_of (d_kad s))(oref n \<mapsto> src)"]) (auto simp: dispatch_def p(4) receipt_def sender_address_def Pong heard_def)
next
  case (FindNode q i)
  have w: "wire_ok (dl_wire B)" using assms(1) by (simp add: libs_ok_def)
  define b where "b = replicate (k_pubkey_size div 8 - length (ser_int (dl_wire B) (nat i))) 0 @ ser_int (dl_wire B) (nat i)"
  have p: "0 \<le> i" "payload = [Bytes b]" "length b = 64" "c = CFindNode"
    using assms(3) unfolding b_def
    by (auto simp: FindNode find_node_payload_def bind_res_eq_Inr Let_def assms(2) k_pubkey_size_def split: if_splits)
  have v: "int (be_val b) = i" using p(1) wire_laws(4) [OF w] by (simp add: b_def be_val_zeros)
  obtain s2 where "disc_recv_find_node B now rnd pk payload mdc s1 = run_kad B now rnd (RecvFindNode n i) s2"
    "heard B s pk n src s2"
    unfolding p(2) by (rule recv_find_node_run [OF assms(1,5,6) p(3), unfolded v])
  then show thesis by (intro that [of "RecvFindNode n i" s2 "(address_of (d_kad s))(oref n \<mapsto> src)"]) (auto simp: dispatch_def p(4) receipt_def sender_address_def FindNode heard_def)
next
  case (Neighbours q ns)
  have p: "neighbours_payload addrs ns = Inr payload" "c = CNeighbours"
    using assms(3) by (auto simp: Neighbours bind_res_eq_Inr)
  obtain s2 f ns' where "disc_recv_neighbours B now rnd pk payload mdc s1 = run_kad B now rnd (RecvNeighbours n ns') s2"
    "told addrs (take 12 (sort_key node_id ns)) f ns'" "d_out s2 = d_out s" "d_kad s2 = (d_kad s)\<lparr>address_of := f\<rparr>"
    "pk \<notin> pubkey ` set (take 12 (sort_key node_id ns)) \<Longrightarrow> f (oref n) = Some src"
    by (rule recv_neighbours_run [OF assms(1,5,6,7) p(1)]) (use assms(4) in \<open>auto simp: Neighbours readable_def\<close>)
  then show thesis by (intro that [of "RecvNeighbours n ns'" s2 f]) (use assms(6) in \<open>auto simp: dispatch_def p(2) receipt_def sender_address_def Neighbours heard_def\<close>)
qed

lemma packet_delivered:
  assumes "libs_ok B" "sender_of A B e" "datagram A t addrs this m = Inr (to, msg)" "readable A addrs m"
    "0 \<le> t" "now \<le> of_int \<lfloor>t + 60\<rfloor>" "disc_inv B l s" "mk_address (dl_wire B) ip port 0 = Inr src" "port \<noteq> 0"
  obtains n s1 ev f where "handle_packet B now rnd ip port msg s = (Inr (), snd (run_kad B now rnd ev s1))"
    "receipt (take 32 msg) addrs f n m ev" "pubkey n = e_pubkey e" "d_out s1 = d_out s" "d_kad s1 = (d_kad s)\<lparr>address_of := f\<rparr>"
    "sender_address (address_of (d_kad s)) f n m src"
proof -
  obtain q c payload where w: "wire_payload A addrs this m = Inr (q, c, payload)"
    by (rule datagram_Inr [OF assms(3)])
  note o = datagram_opens [OF assms(1,2,3,5,6) w]
  have same: "dl_wire A = dl_wire B" "length (e_pubkey e) = 64"
    using assms(2) key_pair_pub by (auto simp: sender_of_def)
  obtain n s1 where 1: "get_node B (e_pubkey e) (Some src) s = (Inr n, s1)" "pubkey n = e_pubkey e" "disc_inv B l s1"
    "cached B s1 (e_pubkey e) = Some n" "d_out s1 = d_out s"
    "d_kad s1 = (d_kad s)\<lparr>address_of := (address_of (d_kad s))(oref n \<mapsto> src)\<rparr>"
    by (rule get_node_at [OF assms(1) same(2) assms(7)])
  then have h: "heard B s (e_pubkey e) n src s1" by (simp add: heard_def address_at_def)
  have "tcp_port src \<noteq> 0" using assms(8,9) by (auto simp: mk_address_def bind_res_eq_Inr)
  obtain s2 ev f where 2: "dispatch B now rnd c (e_pubkey e) payload (take 32 msg) s1 = run_kad B now rnd ev s2"
    "receipt (take 32 msg) addrs f n m ev" "d_out s2 = d_out s" "d_kad s2 = (d_kad s)\<lparr>address_of := f\<rparr>"
    "sender_address (address_of (d_kad s)) f n m src"
    by (rule dispatch_run [OF assms(1) same(1) w assms(4) same(2) h 1(3) \<open>tcp_port src \<noteq> 0\<close>,
        where now = now and rnd = rnd and mdc = "take 32 msg"]) blast
  have "handle_packet B now rnd ip port msg s = (Inr (), snd (run_kad B now rnd ev s2))"
    using assms(8) by (simp add: handle_packet_def disc_receive_def o seq_def lift_res_def 1(1) 2(1))
  from that [OF this 2(2) 1(2) 2(3-5)] show thesis .
qed

end
