(* ===== verification/Discovery_Samples.thy ===== *)
theory Discovery_Samples
  imports Discovery_Exchange
begin

text \<open>
  Simple packages that obey the laws of the discovery protocol, and an instance on them: a prefix
  code for items, big-endian integers, a cache that never forgets.
\<close>

section \<open>A code for items\<close>

fun w_bytes :: "bytes \<Rightarrow> bytes" where
  "w_bytes [] = [0]"
| "w_bytes (b # bs) = 1 # b # w_bytes bs"

fun w_item :: "item \<Rightarrow> bytes" where
  "w_item (Bytes b) = 1 # w_bytes b"
| "w_item (Items xs) = 2 # concat (map w_item xs) @ [0]"

fun r_bytes :: "bytes \<Rightarrow> (bytes \<times> bytes) option" where
  "r_bytes [] = None"
| "r_bytes [x] = (if x = 0 then Some ([], []) else None)"
| "r_bytes (x # b # r) =
     (if x = 0 then Some ([], b # r)
      else case r_bytes r of None \<Rightarrow> None | Some (bs, q) \<Rightarrow> Some (b # bs, q))"

fun r_item :: "nat \<Rightarrow> bytes \<Rightarrow> (item \<times> bytes) option"
  and r_items :: "nat \<Rightarrow> bytes \<Rightarrow> (item list \<times> bytes) option" where
  "r_item 0 s = None"
| "r_item (Suc n) s =
     (case s of [] \<Rightarrow> None
      | x # r \<Rightarrow>
          if x = 1 then (case r_bytes r of None \<Rightarrow> None | Some (b, q) \<Rightarrow> Some (Bytes b, q))
          else (case r_items n r of None \<Rightarrow> None | Some (is, q) \<Rightarrow> Some (Items is, q)))"
| "r_items 0 s = None"
| "r_items (Suc n) s =
     (case s of [] \<Rightarrow> None
      | x # r \<Rightarrow>
          if x = 0 then Some ([], r)
          else (case r_item n s of None \<Rightarrow> None
            | Some (i, q) \<Rightarrow> (case r_items n q of None \<Rightarrow> None | Some (is, q') \<Rightarrow> Some (i # is, q'))))"

lemma r_w_bytes: "r_bytes (w_bytes b @ r) = Some (b, r)"
proof (induction b)
  case Nil
  show ?case by (cases r) simp_all
qed simp

lemma w_item_Cons: "\<exists>x r. w_item i = x # r \<and> x \<noteq> 0"
  by (cases i) simp_all

lemma r_w_items:
  assumes "\<forall>i \<in> set is. \<forall>n r. length (w_item i) \<le> n \<longrightarrow> r_item n (w_item i @ r) = Some (i, r)"
    "length (concat (map w_item is)) < n"
  shows "r_items n (concat (map w_item is) @ 0 # r) = Some (is, r)"
  using assms
proof (induction "is" arbitrary: n)
  case Nil
  then show ?case by (cases n) simp_all
next
  case (Cons i "is")
  obtain x t where x: "w_item i = x # t" "x \<noteq> 0" using w_item_Cons by blast
  from Cons.prems(2) obtain m where m: "n = Suc m" "length (w_item i) \<le> m" "length (concat (map w_item is)) < m"
    using x by (cases n) auto
  have "r_item m (w_item i @ concat (map w_item is) @ 0 # r) = Some (i, concat (map w_item is) @ 0 # r)"
    using Cons.prems(1) m(2) by simp
  moreover have "r_items m (concat (map w_item is) @ 0 # r) = Some (is, r)"
    by (rule Cons.IH) (use Cons.prems(1) m(3) in auto)
  ultimately show ?case using x by (simp add: m(1))
qed

lemma r_w_item: "length (w_item i) \<le> n \<Longrightarrow> r_item n (w_item i @ r) = Some (i, r)"
proof (induction i arbitrary: n r)
  case (Bytes b)
  then obtain m where "n = Suc m" by (cases n) auto
  then show ?case by (simp add: r_w_bytes)
next
  case (Items xs)
  then obtain m where m: "n = Suc m" "length (concat (map w_item xs)) < m" by (cases n) auto
  from Items.IH r_w_items [OF _ m(2), of r] show ?case by (simp add: m(1))
qed

section \<open>Integers\<close>

fun w_int :: "nat \<Rightarrow> bytes" where
  "w_int n = (if n = 0 then [] else w_int (n div 256) @ [of_nat (n mod 256)])"

declare w_int.simps [simp del]

lemma be_val_snoc: "be_val (bs @ [b]) = be_val bs * 256 + unat b"
  by (induction bs) (simp_all add: algebra_simps)

lemma be_val_w_int: "be_val (w_int n) = n"
proof (induction n rule: w_int.induct)
  case (1 n)
  then show ?case by (subst w_int.simps) (auto simp: be_val_snoc unat_of_nat)
qed

lemma minimal_w_int: "minimal (w_int n)"
proof (induction n rule: w_int.induct)
  case (1 n)
  show ?case
  proof (cases "n < 256")
    case True
    moreover have "unat (of_nat n :: byte) = n" using True by (simp add: unat_of_nat)
    ultimately show ?thesis
      by (subst w_int.simps, subst w_int.simps) (auto simp: minimal_def)
  next
    case False
    then have "n div 256 \<noteq> 0" by (simp add: div_eq_0_iff)
    then have "w_int (n div 256) \<noteq> []" by (subst w_int.simps) simp
    with 1 False show ?thesis by (subst w_int.simps) (auto simp: minimal_def)
  qed
qed

section \<open>Instances\<close>

definition sample_wire :: wire_lib where
  "sample_wire = \<lparr>rlp_encode = w_item,
     rlp_decode = (\<lambda>b. case r_item (length b) b of Some (i, []) \<Rightarrow> Inr i | _ \<Rightarrow> Inl DeserializationError),
     ser_int = w_int, deser_int = (\<lambda>b. Inr (int (be_val b))),
     parse_ip_text = (\<lambda>b. if 46 \<in> set b then Inr [127, 0, 0, 1] else Inl ValueError)\<rparr>"

lemma sample_wire_ok: "wire_ok sample_wire"
  using r_w_item [OF order_refl, of _ "[]"]
  by (simp add: wire_ok_def sample_wire_def minimal_w_int be_val_w_int)

definition sample_cache :: "(bytes \<Rightarrow> node option) cache_lib" where
  "sample_cache = \<lparr>cache_new = \<lambda>_ _. None, cache_get = \<lambda>k c. (c k, c), cache_put = \<lambda>k v c. c(k \<mapsto> v)\<rparr>"

definition sample_disc_lib :: "byte \<Rightarrow> (bytes \<Rightarrow> node option) disc_lib" where
  "sample_disc_lib b = \<lparr>dl_crypto = sample_crypto, dl_wire = sample_wire, dl_cache = sample_cache,
     dl_config = \<lparr>listen_host = [127, 0, 0, 1], listen_port = 7, p2p_listen_port = 7, privkey = replicate 32 b\<rparr>\<rparr>"

lemma sample_libs_ok: "libs_ok (sample_disc_lib b)"
  by (simp add: libs_ok_def sample_disc_lib_def sample_hashes_ok sample_wire_ok cache_ok_def sample_cache_def)

definition sample_peer :: "byte \<Rightarrow> nat \<Rightarrow> node" where
  "sample_peer b r = \<lparr>oref = r, pubkey = replicate 64 b, node_id = disc_hash (sample_disc_lib 0) (replicate 64 b)\<rparr>"

lemma sample_peer_fields [simp]: "oref (sample_peer b r) = r" "pubkey (sample_peer b r) = replicate 64 b"
  by (simp_all add: sample_peer_def)

lemma sample_hash_same: "disc_hash (sample_disc_lib b) = disc_hash (sample_disc_lib 0)"
  by (rule ext) (simp add: disc_hash_def sample_disc_lib_def)

definition sample_disc :: "byte \<Rightarrow> (bytes \<Rightarrow> node option) disc" where
  "sample_disc b = \<lparr>d_nodes = Map.empty, d_kad = mk_kad 0 (sample_peer b 0) (\<lambda>_. None), d_out = [], d_next = 1\<rparr>"

lemma sample_disc_inv: "disc_inv (sample_disc_lib b) (sample_peer b 0) (sample_disc b)"
proof -
  have "node_ok (disc_hash (sample_disc_lib b)) (sample_peer b 0)"
    using disc_node_ok [OF sample_libs_ok, of "replicate 64 b" b 0] by (simp add: sample_peer_def sample_hash_same [of b])
  from mk_kad_inv [OF this] show ?thesis
    by (simp add: disc_inv_def sample_disc_def cached_def sample_disc_lib_def sample_cache_def)
qed

lemma sample_sender: "sender_of (sample_disc_lib a) (sample_disc_lib b) (sample_ecc (replicate 32 a))"
  using sample_keys_ok by (simp add: sender_of_def sample_disc_lib_def sample_key_pair) (simp add: sample_ecc_def)

definition sample_address :: address where
  "sample_address = \<lparr>a_ip = [10, 0, 0, 1], udp_port = 7, tcp_port = 7\<rparr>"

lemma sample_address_port [simp]: "udp_port sample_address < 65536"
  by (simp add: sample_address_def)

lemma sample_mk_disc: "\<exists>s. mk_disc (sample_disc_lib b) 0 = Inr s"
proof -
  have "mk_address sample_wire [127, 0, 0, 1] 7 0 = Inr \<lparr>a_ip = [127, 0, 0, 1], udp_port = 7, tcp_port = 7\<rparr>" by code_simp
  moreover have "length (pub_of sample_crypto (replicate 32 b)) = 64" by (simp add: sample_crypto_def)
  ultimately show ?thesis unfolding mk_disc_def disc_mk_node [OF sample_libs_ok]
    by (simp add: Let_def privtopub_def sample_disc_lib_def)
qed

text \<open>Every message whose payload can be made is packed.\<close>

lemma sample_datagram:
  assumes "wire_payload (sample_disc_lib a) addrs this m = Inr (n, c, payload)" "addrs (oref n) = Some to"
    "udp_port to < 65536"
  shows "\<exists>msg. datagram (sample_disc_lib a) t addrs this m = Inr (to, msg)"
proof -
  have k: "key_pair sample_crypto (sample_ecc (replicate 32 a))" "e_privkey (sample_ecc (replicate 32 a)) = Some (replicate 32 a)"
    by (simp_all add: sample_key_pair sample_ecc_def)
  have "\<exists>msg. disc_pack sample_crypto sample_wire (replicate 32 a) t (cmd_id_map c) payload = Inr msg"
    by (rule disc_pack_shape [OF sample_hashes_ok sample_keys_ok k]) blast
  then obtain msg where "disc_pack sample_crypto sample_wire (replicate 32 a) t (cmd_id_map c) payload = Inr msg" ..
  with assms show ?thesis by (simp add: datagram_def) (simp add: sample_disc_lib_def)
qed

end
