(* ===== verification/Discovery_Properties.thy ===== *)
theory Discovery_Properties
  imports Discovery_Samples
begin

text \<open>
  The correctness properties of the discovery protocol over UDP, each with a concrete instance.
\<close>

section \<open>The invariant against arbitrary datagrams\<close>

text \<open>
  The states of a discovery instance: datagrams of any content from any source, and the calls of
  the application, in any order and at any time.
\<close>

inductive disc_reach :: "'c disc_lib \<Rightarrow> node \<Rightarrow> 'c disc \<Rightarrow> bool" for D l where
  start: "mk_disc D now = Inr s \<Longrightarrow> local_node (d_kad s) = l \<Longrightarrow> disc_reach D l s"
| packet: "disc_reach D l s \<Longrightarrow> handle_packet D now rnd ip port message s = (r, s') \<Longrightarrow> disc_reach D l s'"
| call: "disc_reach D l s \<Longrightarrow> event_ok (disc_hash D) ev \<Longrightarrow> run_kad D now rnd ev s = (r, s') \<Longrightarrow> disc_reach D l s'"

text \<open>C4. Whatever datagrams arrive, well formed or not, from whomever, and wherever in a handler they
  cause an exception, such as that of a message that cannot be packed: the routing table stays well formed
  and never holds or pings the local node, the expected pongs are of well-formed nodes, and the node cache
  holds under each id a node with that public key whose Kademlia id is the hash of it, and no node object
  under two ids.\<close>

theorem arbitrary_datagrams_keep_invariant:
  assumes "libs_ok D" "disc_reach D l s"
  shows "kad_inv (disc_hash D) l (d_kad s) \<and>
    (\<forall>nodeid n. fst (cache_get (dl_cache D) nodeid (d_nodes s)) = Some n \<longrightarrow>
       node_ok (disc_hash D) n \<and> pubkey n = nodeid) \<and>
    (\<forall>i j m n. fst (cache_get (dl_cache D) i (d_nodes s)) = Some m \<longrightarrow>
       fst (cache_get (dl_cache D) j (d_nodes s)) = Some n \<longrightarrow> oref m = oref n \<longrightarrow> i = j)"
proof -
  from assms(2) have "disc_inv D l s"
  proof (induction rule: disc_reach.induct)
    case (start now s)
    then show ?case using mk_disc_inv [OF assms(1)] by blast
  next
    case (packet s now rnd ip port message r s')
    then show ?case using keeps_result [OF handle_packet_keeps [OF assms(1)]] by blast
  next
    case (call s ev now rnd r s')
    then show ?case using keeps_result [OF run_kad_keeps] by blast
  qed
  then show ?thesis unfolding disc_inv_def cached_def by blast
qed

lemma arbitrary_datagrams_keep_invariant_witness:
  "\<exists>s. mk_disc (sample_disc_lib 1) 0 = Inr s \<and> kad_inv (disc_hash (sample_disc_lib 1)) (local_node (d_kad s))
     (d_kad (snd (handle_packet (sample_disc_lib 1) 0 (\<lambda>_ a _. a) [10, 0, 0, 1] 7 [1, 2, 3] s)))"
proof -
  obtain s where s: "mk_disc (sample_disc_lib 1) 0 = Inr s" using sample_mk_disc ..
  then have "disc_reach (sample_disc_lib 1) (local_node (d_kad s)) s" by (rule disc_reach.start) simp
  then have "disc_reach (sample_disc_lib 1) (local_node (d_kad s))
      (snd (handle_packet (sample_disc_lib 1) 0 (\<lambda>_ a _. a) [10, 0, 0, 1] 7 [1, 2, 3] s))"
    by (rule disc_reach.packet) (rule surjective_pairing)
  from arbitrary_datagrams_keep_invariant [OF sample_libs_ok this] s show ?thesis by blast
qed

section \<open>From sender to receiver\<close>

text \<open>C2. A message that one instance packs is, while it has not expired, unpacked, authenticated and
  dispatched by any other: the receiver runs the Kademlia handler of that message on the node with
  the sender's public key. With a ping it gets the checksum of the datagram to echo, with a pong the token, with a
  find-node request the target; with neighbours it gets nodes with the public keys of the first twelve in the order
  of their ids, and these nodes now have the addresses that the sender has of them, with ports modulo 65536
  (provided no key is twice among them). The sender's node has the address that the datagram came from, unless the
  sender lists itself as a neighbour; no other address changes with the other messages, and nothing has been
  sent yet. The endpoints that pings and pongs state are only parsed, none is stored. \<open>readable\<close> excludes packed
  addresses that look like text.\<close>

theorem udp_delivers:
  assumes "libs_ok B" "sender_of A B e" "disc_inv B l s"
    and "datagram A t addrs this m = Inr (to, msg)" "readable A addrs m"
    and "0 \<le> t" "now \<le> of_int \<lfloor>t + 60\<rfloor>" "mk_address (dl_wire B) ip port 0 = Inr src" "port \<noteq> 0"
  shows "\<exists>n s1 ev f. handle_packet B now rnd ip port msg s = (Inr (), snd (run_kad B now rnd ev s1)) \<and>
    pubkey n = e_pubkey e \<and> d_out s1 = d_out s \<and> d_kad s1 = (d_kad s)\<lparr>address_of := f\<rparr> \<and>
    (case m of
       Ping _ \<Rightarrow> ev = RecvPing n (take 32 msg) \<and> f = (address_of (d_kad s))(oref n \<mapsto> src)
     | Pong _ token \<Rightarrow> ev = RecvPong n token \<and> f = (address_of (d_kad s))(oref n \<mapsto> src)
     | FindNode _ i \<Rightarrow> ev = RecvFindNode n i \<and> f = (address_of (d_kad s))(oref n \<mapsto> src)
     | Neighbours _ ns \<Rightarrow> let listed = take 12 (sort_key node_id ns) in
         \<exists>ns'. ev = RecvNeighbours n ns' \<and> map pubkey ns' = map pubkey listed \<and>
           (distinct (map pubkey listed) \<longrightarrow>
              list_all2 (\<lambda>m n. f (oref m) = map_option (\<lambda>a. a\<lparr>udp_port := udp_port a mod 65536,
                tcp_port := tcp_port a mod 65536\<rparr>) (addrs (oref n))) ns' listed) \<and>
           (pubkey n \<notin> pubkey ` set listed \<longrightarrow> f (oref n) = Some src))"
proof -
  obtain n s1 ev f where "handle_packet B now rnd ip port msg s = (Inr (), snd (run_kad B now rnd ev s1))"
    "receipt (take 32 msg) addrs f n m ev" "pubkey n = e_pubkey e" "d_out s1 = d_out s"
    "d_kad s1 = (d_kad s)\<lparr>address_of := f\<rparr>" "sender_address (address_of (d_kad s)) f n m src"
    by (rule packet_delivered [OF assms(1,2,4,5,6,7,3,8,9), of rnd])
  then show ?thesis
    unfolding receipt_def sender_address_def told_def wire_address_def [abs_def] Let_def
    by (intro exI [of _ n] exI [of _ s1] exI [of _ ev] exI [of _ f]) (auto split: wire_msg.splits)
qed

lemma udp_delivers_witness:
  "\<exists>msg n s1 ev. datagram (sample_disc_lib 2) 0 (\<lambda>_. Some sample_address) (sample_peer 2 0) (FindNode (sample_peer 1 1) 5) =
       Inr (sample_address, msg) \<and>
     handle_packet (sample_disc_lib 1) 30 (\<lambda>_ a _. a) [10, 0, 0, 9] 7 msg (sample_disc 1) =
       (Inr (), snd (run_kad (sample_disc_lib 1) 30 (\<lambda>_ a _. a) ev s1)) \<and>
     ev = RecvFindNode n 5 \<and> pubkey n = replicate 64 2"
proof -
  let ?m = "FindNode (sample_peer 1 1) 5"
  have ip: "mk_address (dl_wire (sample_disc_lib 1)) [10, 0, 0, 9] 7 0 =
      Inr \<lparr>a_ip = [10, 0, 0, 9], udp_port = 7, tcp_port = 7\<rparr>" by code_simp
  have "\<exists>payload. wire_payload (sample_disc_lib 2) (\<lambda>_. Some sample_address) (sample_peer 2 0) ?m =
      Inr (sample_peer 1 1, CFindNode, payload)"
    by (simp add: find_node_payload_def k_pubkey_size_def Let_def sample_disc_lib_def sample_wire_def w_int.simps)
  then obtain payload where "wire_payload (sample_disc_lib 2) (\<lambda>_. Some sample_address) (sample_peer 2 0) ?m =
      Inr (sample_peer 1 1, CFindNode, payload)" ..
  from sample_datagram [OF this, of sample_address 0] obtain msg where
    msg: "datagram (sample_disc_lib 2) 0 (\<lambda>_. Some sample_address) (sample_peer 2 0) ?m = Inr (sample_address, msg)"
    by auto
  have r: "readable (sample_disc_lib 2) (\<lambda>_. Some sample_address) ?m" by (simp add: readable_def)
  have pk: "e_pubkey (sample_ecc (replicate 32 2)) = replicate 64 2"
    by (simp add: sample_ecc_def flip: replicate_add)
  obtain n s1 ev f where "handle_packet (sample_disc_lib 1) 30 (\<lambda>_ a _. a) [10, 0, 0, 9] 7 msg (sample_disc 1) =
      (Inr (), snd (run_kad (sample_disc_lib 1) 30 (\<lambda>_ a _. a) ev s1))"
    "ev = RecvFindNode n 5" "pubkey n = replicate 64 2"
    using udp_delivers [OF sample_libs_ok sample_sender sample_disc_inv msg r _ _ ip, of 30 "\<lambda>_ a _. a"]
    unfolding pk by auto
  with msg show ?thesis by auto
qed

text \<open>A datagram whose expiration has passed changes nothing, so a recorded one cannot be replayed
  later than a minute after it was made.\<close>

theorem stale_packets_ignored:
  assumes "libs_ok B" "sender_of A B e" "datagram A t addrs this m = Inr (to, msg)" "0 \<le> t" "of_int \<lfloor>t + 60\<rfloor> < now"
  shows "handle_packet B now rnd ip port msg s = (Inr (), s)"
proof -
  have w: "wire_ok (dl_wire B)" using assms(1) by (simp add: libs_ok_def)
  obtain n c payload where p: "wire_payload A addrs this m = Inr (n, c, payload)"
    "disc_pack (dl_crypto A) (dl_wire A) (privkey (dl_config A)) t (cmd_id_map c) payload = Inr msg"
    by (rule datagram_Inr [OF assms(3)])
  have "0 \<le> \<lfloor>t + 60\<rfloor>" using assms(4) by simp
  then have "rat_of_int (int (nat \<lfloor>t + 60\<rfloor>)) < now" using assms(5) by simp
  then have "open_datagram B now msg = Inl PacketExpired"
    unfolding open_datagram_def packed_opens [OF assms(1,2) wire_payload_length [OF p(1)] p(2)]
    by (simp add: pop_expiration_def wire_int [OF w])
  then show ?thesis
    by (cases "mk_address (dl_wire B) ip port 0")
      (simp_all add: handle_packet_def disc_receive_def is_defective_def seq_def lift_res_def ret_def)
qed

lemma stale_packets_ignored_witness:
  "\<exists>msg. datagram (sample_disc_lib 2) 0 (\<lambda>_. Some sample_address) (sample_peer 2 0) (FindNode (sample_peer 1 1) 5) =
       Inr (sample_address, msg) \<and>
     handle_packet (sample_disc_lib 1) 61 (\<lambda>_ a _. a) [10, 0, 0, 9] 7 msg (sample_disc 1) = (Inr (), sample_disc 1)"
proof -
  have "\<exists>payload. wire_payload (sample_disc_lib 2) (\<lambda>_. Some sample_address) (sample_peer 2 0) (FindNode (sample_peer 1 1) 5) =
      Inr (sample_peer 1 1, CFindNode, payload)"
    by (simp add: find_node_payload_def k_pubkey_size_def Let_def sample_disc_lib_def sample_wire_def w_int.simps)
  then obtain payload where "wire_payload (sample_disc_lib 2) (\<lambda>_. Some sample_address) (sample_peer 2 0)
      (FindNode (sample_peer 1 1) 5) = Inr (sample_peer 1 1, CFindNode, payload)" ..
  from sample_datagram [OF this, of sample_address 0] obtain msg where
    msg: "datagram (sample_disc_lib 2) 0 (\<lambda>_. Some sample_address) (sample_peer 2 0) (FindNode (sample_peer 1 1) 5) =
      Inr (sample_address, msg)" by auto
  with stale_packets_ignored [OF sample_libs_ok sample_sender msg, of 61] show ?thesis by simp
qed

section \<open>What a datagram must be to have any effect\<close>

text \<open>C22. A datagram that changes anything is complete and authentic: its first 32 bytes are the hash of
  the rest, a 64-byte key is recovered from the 65-byte signature over the hash of command and
  data, the command is one of the four, the data decodes to a list, and the last of the elements
  kept of it is an integer not in the past.\<close>

theorem only_authentic_packets_act:
  assumes "snd (handle_packet D now rnd ip port msg s) \<noteq> s"
  shows "\<exists>mdc sg b data x c items expiration.
    msg = mdc @ sg @ [b] @ data \<and> length mdc = 32 \<and> length sg = 65 \<and>
    mdc = sha3 (dl_crypto D) (sg @ [b] @ data) \<and>
    recover_key (dl_crypto D) sg (sha3 (dl_crypto D) ([b] @ data)) = Inr x \<and> length (drop 1 x) = 64 \<and>
    unat b = cmd_id_map c \<and> rlp_decode (dl_wire D) data = Inr (Items items) \<and> items \<noteq> [] \<and>
    (\<exists>y. last (take (cmd_elem_count_map c) items) = Bytes y \<and> deser_int (dl_wire D) y = Inr expiration) \<and>
    now \<le> rat_of_int expiration"
proof -
  obtain pk c payload mdc where o: "open_datagram D now msg = Inr (pk, c, payload, mdc)"
  proof (cases "open_datagram D now msg")
    case (Inl e)
    then have "snd (handle_packet D now rnd ip port msg s) = s"
      by (cases "mk_address (dl_wire D) ip port 0")
        (simp_all add: handle_packet_def disc_receive_def seq_def lift_res_def ret_def throw_def)
    with assms show thesis by simp
  next
    case (Inr x)
    with that show thesis by (cases x) auto
  qed
  then obtain i p expiration where u: "disc_unpack (dl_crypto D) (dl_wire D) msg = Inr (pk, i, p, mdc)"
    "pop_expiration (dl_wire D) p = Inr (expiration, payload)" "now \<le> rat_of_int expiration"
    by (auto simp: open_datagram_def bind_res_eq_Inr split: if_splits)
  obtain sg b data x c items where "msg = mdc @ sg @ [b] @ data" "length mdc = 32" "length sg = 65"
    "mdc = sha3 (dl_crypto D) (sg @ [b] @ data)"
    "recover_key (dl_crypto D) sg (sha3 (dl_crypto D) ([b] @ data)) = Inr x" "pk = drop 1 x" "length pk = 64"
    "i = unat b" "i = cmd_id_map c" "rlp_decode (dl_wire D) data = Inr (Items items)"
    "p = take (cmd_elem_count_map c) items"
    by (rule disc_unpack_Inr [OF u(1)])
  moreover from u(2) obtain y where "p \<noteq> []" "last p = Bytes y" "deser_int (dl_wire D) y = Inr expiration"
    by (auto simp: pop_expiration_def bind_res_eq_Inr split: if_splits item.splits)
  ultimately show ?thesis using u(3) by fastforce
qed

text \<open>A find-node request of instance 2 makes instance 1 remember the address it came from.\<close>

lemma only_authentic_packets_act_witness:
  "\<exists>msg mdc sg b data. snd (handle_packet (sample_disc_lib 1) 30 (\<lambda>_ a _. a) [10, 0, 0, 9] 7 msg (sample_disc 1)) \<noteq> sample_disc 1 \<and>
     msg = mdc @ sg @ [b] @ data \<and> length mdc = 32 \<and> length sg = 65 \<and>
     mdc = sha3 (dl_crypto (sample_disc_lib 1)) (sg @ [b] @ data)"
proof -
  let ?m = "FindNode (sample_peer 1 1) 5" and ?D = "sample_disc_lib 1"
  have ip: "mk_address (dl_wire ?D) [10, 0, 0, 9] 7 0 = Inr \<lparr>a_ip = [10, 0, 0, 9], udp_port = 7, tcp_port = 7\<rparr>"
    by code_simp
  have "\<exists>payload. wire_payload (sample_disc_lib 2) (\<lambda>_. Some sample_address) (sample_peer 2 0) ?m =
      Inr (sample_peer 1 1, CFindNode, payload)"
    by (simp add: find_node_payload_def k_pubkey_size_def Let_def sample_disc_lib_def sample_wire_def w_int.simps)
  then obtain payload where p: "wire_payload (sample_disc_lib 2) (\<lambda>_. Some sample_address) (sample_peer 2 0) ?m =
      Inr (sample_peer 1 1, CFindNode, payload)" ..
  obtain msg where msg: "datagram (sample_disc_lib 2) 0 (\<lambda>_. Some sample_address) (sample_peer 2 0) ?m = Inr (sample_address, msg)"
    using sample_datagram [OF p, of sample_address 0] by auto
  have r: "readable (sample_disc_lib 2) (\<lambda>_. Some sample_address) ?m" by (simp add: readable_def)
  obtain n s1 ev f where run: "handle_packet ?D 30 (\<lambda>_ a _. a) [10, 0, 0, 9] 7 msg (sample_disc 1) =
      (Inr (), snd (run_kad ?D 30 (\<lambda>_ a _. a) ev s1))" "receipt (take 32 msg) (\<lambda>_. Some sample_address) f n ?m ev"
    "d_kad s1 = (d_kad (sample_disc 1))\<lparr>address_of := f\<rparr>"
    "sender_address (address_of (d_kad (sample_disc 1))) f n ?m \<lparr>a_ip = [10, 0, 0, 9], udp_port = 7, tcp_port = 7\<rparr>"
    by (rule packet_delivered [OF sample_libs_ok sample_sender msg r _ _ sample_disc_inv ip, of 30 "\<lambda>_ a _. a"]) auto
  have "address_of (d_kad (snd (run_kad ?D 30 (\<lambda>_ a _. a) ev s1))) = f"
    using kad_step_addresses [of ev "disc_env ?D 30 (\<lambda>_ a _. a) (local_node (d_kad s1))" "d_kad s1"] run(2,3)
    by (simp add: run_kad_def Let_def receipt_def case_prod_beta)
  moreover have "f \<noteq> address_of (d_kad (sample_disc 1))"
    using run(4) by (auto simp: sender_address_def sample_disc_def mk_kad_def dest: fun_cong [of _ _ "oref n"])
  ultimately have acts: "snd (handle_packet ?D 30 (\<lambda>_ a _. a) [10, 0, 0, 9] 7 msg (sample_disc 1)) \<noteq> sample_disc 1"
    unfolding run(1) by auto
  from only_authentic_packets_act [OF acts] acts show ?thesis by blast
qed

section \<open>Addresses\<close>

text \<open>An address survives the wire when its packed form is not taken for a text, except that ports
  are cut to their lower 16 bits without an error, up to the range of 32 bits.\<close>

theorem endpoint_roundtrip:
  assumes "wire_ok W" "length (a_ip a) = 4 \<or> length (a_ip a) = 16" "\<not> ip_pattern (a_ip a)"
    "udp_port a < 2 ^ 32" "tcp_port a < 2 ^ 32"
  shows "\<exists>x. endpoint a = Inr x \<and> length x = 3 \<and>
    from_endpoint W x = Inr (a\<lparr>udp_port := udp_port a mod 65536, tcp_port := tcp_port a mod 65536\<rparr>)"
proof -
  have "plain_address a" using assms(2,3) by (auto simp: plain_address_def)
  from from_endpoint_endpoint [OF assms(1) this endpoint_eq [OF assms(4,5)]] endpoint_eq [OF assms(4,5)]
  show ?thesis by (simp add: wire_address_def)
qed

lemma endpoint_roundtrip_witness:
  "\<exists>x. endpoint \<lparr>a_ip = [10, 0, 0, 1], udp_port = 65537, tcp_port = 7\<rparr> = Inr x \<and>
     from_endpoint sample_wire x = Inr \<lparr>a_ip = [10, 0, 0, 1], udp_port = 1, tcp_port = 7\<rparr>"
proof -
  have "\<not> ip_pattern [10, 0, 0, 1]" by code_simp
  with endpoint_roundtrip [OF sample_wire_ok, of "\<lparr>a_ip = [10, 0, 0, 1], udp_port = 65537, tcp_port = 7\<rparr>"]
  show ?thesis by auto
qed

text \<open>A packed IPv4 address of four bytes that are all hex digits in ASCII (49.50.51.52 is the
  text 1234) is taken for a text, so it cannot be parsed back where the parser of texts refuses
  it: pings and pongs with that endpoint are dropped.\<close>

theorem hex_like_ip_rejected:
  assumes "wire_ok W" "length (a_ip a) = 4" "\<forall>b \<in> set (a_ip a). is_hex b" "parse_ip_text W (a_ip a) = Inl e"
    "endpoint a = Inr x"
  shows "from_endpoint W x = Inl e"
proof -
  have h: "hex_groups k s" if "\<forall>b \<in> set s. is_hex b" "k + length s \<le> 4" for k and s :: bytes
    using that
  proof (induction s arbitrary: k)
    case (Cons b s)
    then have "b \<noteq> 58" by (auto simp: is_hex_def is_digit_def)
    with Cons show ?case by simp
  qed simp
  have ip: "ip_pattern (a_ip a)" using h [of "a_ip a" 0] assms(2,3) by (simp add: ip_pattern_def)
  have ne: "be_bytes 2 p \<noteq> []" for p using length_be_bytes [of 2 p] by (metis list.size(3) zero_neq_numeral)
  show ?thesis using endpoint_Inr [OF assms(5)] assms(4) ip
    by (simp add: from_endpoint_def dec_port_item_def wire_dec_port [OF assms(1)] ne ip_address_def)
qed

lemma hex_like_ip_rejected_witness:
  "\<exists>x. endpoint \<lparr>a_ip = [49, 50, 51, 52], udp_port = 7, tcp_port = 7\<rparr> = Inr x \<and> from_endpoint sample_wire x = Inl ValueError"
proof -
  let ?a = "\<lparr>a_ip = [49, 50, 51, 52], udp_port = 7, tcp_port = 7\<rparr>"
  obtain x where x: "endpoint ?a = Inr x" using endpoint_eq [of ?a] by auto
  have "from_endpoint sample_wire x = Inl ValueError"
    by (rule hex_like_ip_rejected [OF sample_wire_ok _ _ _ x]) (auto simp: is_hex_def is_digit_def sample_wire_def)
  with x show ?thesis by blast
qed

section \<open>Neighbours\<close>

text \<open>The answer to a find-node request carries at most twelve of the sixteen nodes found, those
  with the smallest ids: a node with twelve smaller ids beside it is not told, however close it is
  to the target.\<close>

theorem neighbours_sent_by_id:
  assumes "neighbours_payload addrs ns = Inr payload"
  shows "\<exists>is. payload = [Items is] \<and> length is = min 12 (length ns) \<and>
    map (\<lambda>i. case i of Items x \<Rightarrow> last x | Bytes _ \<Rightarrow> i) is = map (\<lambda>n. Bytes (pubkey n)) (take 12 (sort_key node_id ns)) \<and>
    (\<forall>n \<in> set ns. distinct (map pubkey ns) \<and> 12 \<le> length (filter (\<lambda>m. node_id m < node_id n) ns) \<longrightarrow>
       Bytes (pubkey n) \<notin> (\<lambda>i. case i of Items x \<Rightarrow> last x | Bytes _ \<Rightarrow> i) ` set is)"
proof -
  let ?key = "\<lambda>i. case i of Items x \<Rightarrow> last x | Bytes _ \<Rightarrow> i"
  let ?S = "sort_key node_id ns"
  obtain "is" where i: "neighbour_items addrs ?S = Inr is" "payload = [Items (take 12 is)]"
    using assms by (auto simp: neighbours_payload_def bind_res_eq_Inr)
  have keys: "neighbour_items addrs ms = Inr js \<Longrightarrow> map ?key js = map (\<lambda>n. Bytes (pubkey n)) ms" for ms js
    by (induction ms arbitrary: js) (auto simp: bind_res_eq_Inr)
  have k: "map ?key is = map (\<lambda>n. Bytes (pubkey n)) ?S" by (rule keys [OF i(1)])
  then have t: "map ?key (take 12 is) = map (\<lambda>n. Bytes (pubkey n)) (take 12 ?S)" by (simp add: take_map [symmetric])
  have len: "length (take 12 is) = min 12 (length ns)" using arg_cong [OF k, of length] by simp
  have out: "n \<notin> set (take 12 ?S)" if "n \<in> set ns" "12 \<le> length (filter (\<lambda>m. node_id m < node_id n) ns)" for n
  proof
    assume "n \<in> set (take 12 ?S)"
    then obtain j where j: "j < 12" "j < length ?S" "?S ! j = n" by (auto simp: in_set_conv_nth)
    have "\<not> node_id (?S ! i) < node_id n" if "j \<le> i" "i < length ?S" for i
      using sorted_nth_mono [OF sorted_sort_key [of node_id ns], of j i] that j by (auto simp: not_less)
    then have "filter (\<lambda>m. node_id m < node_id n) (drop j ?S) = []"
      by (auto simp: filter_empty_conv in_set_conv_nth)
    then have "filter (\<lambda>m. node_id m < node_id n) ?S = filter (\<lambda>m. node_id m < node_id n) (take j ?S)"
      by (metis append_Nil2 append_take_drop_id filter_append)
    moreover have "length (filter (\<lambda>m. node_id m < node_id n) (take j ?S)) \<le> j"
      by (rule order_trans [OF length_filter_le]) simp
    moreover have "length (filter (\<lambda>m. node_id m < node_id n) ?S) = length (filter (\<lambda>m. node_id m < node_id n) ns)"
      by (metis mset_filter mset_sort size_mset)
    ultimately show False using that(2) j(1) by simp
  qed
  have "Bytes (pubkey n) \<notin> ?key ` set (take 12 is)"
    if "n \<in> set ns" "distinct (map pubkey ns)" "12 \<le> length (filter (\<lambda>m. node_id m < node_id n) ns)" for n
  proof
    assume "Bytes (pubkey n) \<in> ?key ` set (take 12 is)"
    then have "Bytes (pubkey n) \<in> set (map (\<lambda>n. Bytes (pubkey n)) (take 12 ?S))" unfolding t [symmetric] by simp
    then obtain m where m: "m \<in> set (take 12 ?S)" "pubkey m = pubkey n" by auto
    then have "m \<in> set ns" using in_set_takeD by fastforce
    with that(1,2) m(2) have "m = n" by (auto simp: distinct_map dest: inj_onD)
    with out [OF that(1,3)] m(1) show False by blast
  qed
  with i(2) len t show ?thesis by blast
qed

lemma neighbours_sent_by_id_witness:
  "\<exists>is. neighbours_payload (\<lambda>_. Some sample_address) [sample_peer 1 1, sample_peer 2 2] = Inr [Items is] \<and> length is = 2"
proof -
  obtain x where "endpoint sample_address = Inr x" using endpoint_eq [of sample_address] by (simp add: sample_address_def)
  then have "\<exists>is. neighbour_items (\<lambda>_. Some sample_address) ns = Inr is" for ns
    by (induction ns) (auto simp: endpoint_of_def)
  then obtain payload where p: "neighbours_payload (\<lambda>_. Some sample_address) [sample_peer 1 1, sample_peer 2 2] = Inr payload"
    unfolding neighbours_payload_def by (metis bind_res.simps(2))
  with neighbours_sent_by_id [OF p] show ?thesis by auto
qed

text \<open>A neighbours message overwrites the address of a node that is already known with the one it
  states, although the documentation has addresses learned by pings only.\<close>

theorem neighbours_overwrite_address:
  assumes "libs_ok D" "length pk = 64" "cached D s pk = Some n"
    and "from_endpoint (dl_wire D) x = Inr a"
  shows "\<exists>s'. learn_neighbours D [Items (x @ [Bytes pk])] s = (Inr [n], s') \<and> address_at n s' = Some a"
proof -
  let ?f = "\<lambda>node. seq (ret []) (\<lambda>nodes. ret (node # nodes))"
  obtain s' m where m: "seq (get_node D pk (Some a)) ?f s = ?f m s'" "cached D s' pk = Some m"
    "cached D s pk = None \<and> pubkey m = pk \<or> cached D s pk = Some m" "d_out s' = d_out s"
    "d_kad s' = (d_kad s)\<lparr>address_of := (address_of (d_kad s))(oref m \<mapsto> a)\<rparr>"
    by (rule get_node_run [OF assms(1,2)])
  then have "m = n" "address_at n s' = Some a" using assms(3) by (auto simp: address_at_def)
  with m(1) assms(4) show ?thesis by (simp add: ret_eq_Inr)
qed

lemma neighbours_overwrite_address_witness:
  "\<exists>x s'. endpoint sample_address = Inr x \<and>
     learn_neighbours (sample_disc_lib 1) [Items (x @ [Bytes (replicate 64 2)])]
       ((sample_disc 1)\<lparr>d_nodes := [replicate 64 2 \<mapsto> sample_peer 2 5]\<rparr>) = (Inr [sample_peer 2 5], s') \<and>
     address_at (sample_peer 2 5) s' = Some sample_address"
proof -
  obtain x where x: "endpoint sample_address = Inr x" using endpoint_eq [of sample_address] by (simp add: sample_address_def)
  have "plain_address sample_address" by code_simp
  from from_endpoint_endpoint [OF sample_wire_ok this x]
  have "from_endpoint (dl_wire (sample_disc_lib 1)) x = Inr sample_address"
    by (simp add: wire_address_def sample_disc_lib_def) (simp add: sample_address_def)
  from neighbours_overwrite_address [OF sample_libs_ok _ _ this, of "replicate 64 2"
      "(sample_disc 1)\<lparr>d_nodes := [replicate 64 2 \<mapsto> sample_peer 2 5]\<rparr>" "sample_peer 2 5"] x
  show ?thesis by (simp add: cached_def sample_disc_lib_def sample_cache_def)
qed

end
