(* ===== verification/Peer_Dispatch.thy ===== *)
theory Peer_Dispatch
  imports Mux_Session
begin

text \<open>
  The protocols of a peer (\<open>devp2p/protocol.py\<close>, \<open>devp2p/p2p_protocol.py\<close>) and the choice of the
  protocol a packet is for (\<open>Peer.send_packet\<close>, \<open>Peer.protocol_cmd_id_from_packet\<close>), by its offset
  for legacy peers and by protocol id otherwise.
\<close>

section \<open>Protocol classes\<close>

text \<open>
  A class of protocols: the class attributes and the ids of its commands. Names are byte strings or
  texts; a text is represented by its UTF-8 encoding.
\<close>

datatype pyname = ByteStr bytes | Str bytes

record protocol_class =
  pc_protocol_id :: nat
  pc_name :: pyname
  pc_version :: nat
  pc_max_cmd_id :: nat
  pc_cmds :: "nat list"

definition p2p_name :: bytes where "p2p_name = [112, 50, 112]"

text \<open>\<open>P2PProtocol\<close> with the commands ping, pong, hello and disconnect.\<close>

definition p2p_protocol :: protocol_class where
  "p2p_protocol = \<lparr>pc_protocol_id = 0, pc_name = ByteStr p2p_name, pc_version = 4, pc_max_cmd_id = 15,
     pc_cmds = [2, 3, 0, 1]\<rparr>"

text \<open>\<open>protocol.cmd_by_id[cmd_id]\<close>.\<close>

definition cmd_by_id :: "protocol_class \<Rightarrow> nat \<Rightarrow> nat res" where
  "cmd_by_id c i = (if i \<in> set (pc_cmds c) then Inr i else Inl KeyError)"

section \<open>Sending\<close>

text \<open>
  The first loop of \<open>send_packet\<close> ends at the protocol of the packet, or else at the last one, which
  the assertion refuses.
\<close>

fun find_protocol :: "nat \<Rightarrow> protocol_class list \<Rightarrow> protocol_class res" where
  "find_protocol i [] = Inl (LibraryError ''UnboundLocalError'')"
| "find_protocol i [c] = (if i = pc_protocol_id c then Inr c else Inl AssertionError)"
| "find_protocol i (c # d # cs) = (if i = pc_protocol_id c then Inr c else find_protocol i (d # cs))"

text \<open>The second loop adds up the command spaces of the protocols before it.\<close>

definition cmd_space :: "protocol_class \<Rightarrow> nat" where
  "cmd_space c = (if pc_max_cmd_id c = 0 then 0 else pc_max_cmd_id c + 1)"

fun offset_cmd_id :: "nat \<Rightarrow> protocol_class list \<Rightarrow> nat \<Rightarrow> nat" where
  "offset_cmd_id i [] cmd = cmd"
| "offset_cmd_id i (c # cs) cmd = (if i = pc_protocol_id c then cmd else offset_cmd_id i cs (cmd + cmd_space c))"

definition rewrite_packet :: "bool \<Rightarrow> protocol_class list \<Rightarrow> packet \<Rightarrow> packet res" where
  "rewrite_packet offset_based cs pk =
     bind_res (find_protocol (pk_protocol_id pk) cs) (\<lambda>c.
     bind_res (cmd_by_id c (pk_cmd_id pk)) (\<lambda>_.
     Inr (if offset_based
          then pk\<lparr>pk_cmd_id := offset_cmd_id (pk_protocol_id pk) cs (pk_cmd_id pk), pk_protocol_id := 0\<rparr>
          else pk)))"

section \<open>Receiving\<close>

fun protocol_by_offset :: "protocol_class list \<Rightarrow> nat \<Rightarrow> nat \<Rightarrow> (protocol_class \<times> nat) res" where
  "protocol_by_offset [] max_id cmd = Inl UnknownCommandError"
| "protocol_by_offset (c # cs) max_id cmd =
     (if cmd < max_id + pc_max_cmd_id c + 1 then Inr (c, cmd - max_id)
      else protocol_by_offset cs (max_id + pc_max_cmd_id c + 1) cmd)"

fun protocol_by_id :: "protocol_class list \<Rightarrow> nat \<Rightarrow> nat \<Rightarrow> (protocol_class \<times> nat) res" where
  "protocol_by_id [] i cmd = Inl UnknownCommandError"
| "protocol_by_id (c # cs) i cmd = (if i = pc_protocol_id c then Inr (c, cmd) else protocol_by_id cs i cmd)"

definition protocol_cmd_id_from_packet ::
  "bool \<Rightarrow> protocol_class list \<Rightarrow> packet \<Rightarrow> (protocol_class \<times> nat) res" where
  "protocol_cmd_id_from_packet offset_based cs pk =
     (if offset_based then protocol_by_offset cs 0 (pk_cmd_id pk)
      else protocol_by_id cs (pk_protocol_id pk) (pk_cmd_id pk))"

section \<open>Facts\<close>

lemma find_protocol_Cons:
  "find_protocol i (c # cs) = (if i = pc_protocol_id c then Inr c else if cs = [] then Inl AssertionError else find_protocol i cs)"
  by (cases cs) simp_all

lemma find_protocol_Inr:
  assumes "find_protocol i cs = Inr c"
  shows "\<exists>pre post. cs = pre @ c # post \<and> i = pc_protocol_id c \<and> i \<notin> pc_protocol_id ` set pre"
  using assms
proof (induction cs)
  case (Cons d cs)
  show ?case
  proof (cases "i = pc_protocol_id d")
    case True
    then show ?thesis using Cons.prems by (intro exI [of _ "[]"] exI [of _ cs]) (auto simp: find_protocol_Cons)
  next
    case False
    then have "find_protocol i cs = Inr c" using Cons.prems by (auto simp: find_protocol_Cons split: if_splits)
    then obtain pre post where "cs = pre @ c # post" "i = pc_protocol_id c" "i \<notin> pc_protocol_id ` set pre"
      using Cons.IH by blast
    then show ?thesis using False by (intro exI [of _ "d # pre"] exI [of _ post]) auto
  qed
qed simp

lemma offset_cmd_id_split:
  assumes "i = pc_protocol_id c" "i \<notin> pc_protocol_id ` set pre"
  shows "offset_cmd_id i (pre @ c # post) cmd = cmd + sum_list (map cmd_space pre)"
  using assms by (induction pre arbitrary: cmd) auto

lemma protocol_by_offset_split:
  assumes "cmd \<le> pc_max_cmd_id c"
  shows "protocol_by_offset (pre @ c # post) m (m + sum_list (map (\<lambda>c. pc_max_cmd_id c + 1) pre) + cmd) = Inr (c, cmd)"
proof (induction pre arbitrary: m)
  case Nil
  then show ?case using assms by simp
next
  case (Cons a pre)
  show ?case using Cons [of "m + pc_max_cmd_id a + 1"] by (simp add: add.assoc)
qed

lemma protocol_by_id_split:
  assumes "i = pc_protocol_id c" "i \<notin> pc_protocol_id ` set pre"
  shows "protocol_by_id (pre @ c # post) i cmd = Inr (c, cmd)"
  using assms by (induction pre) auto

lemma cmd_spaces_agree:
  "(\<And>d. d \<in> set pre \<Longrightarrow> 0 < pc_max_cmd_id d) \<Longrightarrow>
   sum_list (map cmd_space pre) = sum_list (map (\<lambda>c. Suc (pc_max_cmd_id c)) pre)"
  by (induction pre) (auto simp: cmd_space_def)

text \<open>What is sent for a command of a protocol arrives there, when no protocol before it has \<open>max_cmd_id\<close> 0.\<close>

lemma rewritten_dispatched:
  assumes "rewrite_packet offset_based cs pk = Inr pk'"
    and "\<forall>c \<in> set cs. \<forall>i \<in> set (pc_cmds c). i \<le> pc_max_cmd_id c"
    and "offset_based \<longrightarrow> (\<forall>c \<in> set cs. 0 < pc_max_cmd_id c)"
  obtains c where "find_protocol (pk_protocol_id pk) cs = Inr c"
    "protocol_cmd_id_from_packet offset_based cs pk' = Inr (c, pk_cmd_id pk)"
proof -
  obtain c where c: "find_protocol (pk_protocol_id pk) cs = Inr c" "pk_cmd_id pk \<in> set (pc_cmds c)"
    "pk' = (if offset_based
      then pk\<lparr>pk_cmd_id := offset_cmd_id (pk_protocol_id pk) cs (pk_cmd_id pk), pk_protocol_id := 0\<rparr> else pk)"
    using assms(1) by (auto simp: rewrite_packet_def bind_res_eq_Inr cmd_by_id_def split: if_splits)
  obtain pre post where cs: "cs = pre @ c # post" "pk_protocol_id pk = pc_protocol_id c"
    "pk_protocol_id pk \<notin> pc_protocol_id ` set pre"
    using find_protocol_Inr [OF c(1)] by blast
  have "protocol_cmd_id_from_packet offset_based cs pk' = Inr (c, pk_cmd_id pk)"
  proof (cases offset_based)
    case True
    have "pk_cmd_id pk \<le> pc_max_cmd_id c" using assms(2) c(2) cs(1) by auto
    moreover have "sum_list (map cmd_space pre) = sum_list (map (\<lambda>c. Suc (pc_max_cmd_id c)) pre)"
      by (rule cmd_spaces_agree) (use assms(3) True cs(1) in auto)
    ultimately show ?thesis
      using protocol_by_offset_split [of "pk_cmd_id pk" c pre post 0] offset_cmd_id_split [OF cs(2,3)] True c(3)
      by (simp add: protocol_cmd_id_from_packet_def cs(1) add.commute)
  next
    case False
    then show ?thesis using protocol_by_id_split [OF cs(2,3)] c(3) by (simp add: protocol_cmd_id_from_packet_def cs(1))
  qed
  with that c(1) show thesis by blast
qed

text \<open>
  A protocol with \<open>max_cmd_id\<close> 0 takes one id of the receiver's numbering and none of the sender's:
  the first command of the protocol after it is taken for a command of that protocol.
\<close>

lemma zero_max_misdispatched:
  assumes "pc_max_cmd_id z = 0" "\<forall>d \<in> set pre. 0 < pc_max_cmd_id d" "pc_protocol_id c \<notin> pc_protocol_id ` (set pre \<union> {z})"
  shows "protocol_by_offset (pre @ z # c # post) 0 (offset_cmd_id (pc_protocol_id c) (pre @ z # c # post) 0) = Inr (z, 0)"
proof -
  have "offset_cmd_id (pc_protocol_id c) ((pre @ [z]) @ c # post) 0 = 0 + sum_list (map cmd_space (pre @ [z]))"
    by (rule offset_cmd_id_split) (use assms(3) in auto)
  moreover have "sum_list (map cmd_space pre) = sum_list (map (\<lambda>c. Suc (pc_max_cmd_id c)) pre)" by (rule cmd_spaces_agree) (use assms(2) in auto)
  ultimately show ?thesis
    using protocol_by_offset_split [of 0 z pre "c # post" 0] assms(1) by (simp add: cmd_space_def)
qed

end
