(* ===== verification/Peer.thy ===== *)
theory Peer
  imports Peer_Dispatch "HOL-Library.List_Lexorder"
begin

text \<open>
  \<open>Peer\<close> (\<open>devp2p/peer.py\<close>), \<open>P2PProtocol\<close> with its \<open>ConnectionMonitor\<close> (\<open>devp2p/p2p_protocol.py\<close>) and
  the state of \<open>PeerManager\<close> (\<open>devp2p/peermanager.py\<close>), which the peers share. Peer objects are numbered.
  What a greenlet does between two blocking calls is one operation; timers that were started are
  counted and may fire at any time. Logging is left out.
\<close>

section \<open>What is outside\<close>

text \<open>The payloads of the commands of \<open>P2PProtocol\<close>, by their structures.\<close>

record hello_data =
  h_version :: nat
  h_client_version_string :: bytes
  h_capabilities :: "(bytes \<times> nat) list"
  h_listen_port :: nat
  h_remote_pubkey :: bytes

datatype p2p_data = PingData | PongData | HelloData hello_data | DisconnectData nat

record service =
  sv_name :: bytes
  sv_protocol :: protocol_class

text \<open>
  The entries of the configuration that are used; \<open>py3\<close> is whether the interpreter is Python 3,
  \<open>services\<close> are the instances of \<open>WiredService\<close> among the services of the application, the peer
  manager being one of them.
\<close>

record pm_config =
  py3 :: bool
  own_id :: bytes
  node_key :: ecc
  client_version :: bytes
  p2p_port :: nat
  min_peers :: nat
  max_peers :: nat
  log_disconnects :: bool
  services :: "service list"

text \<open>
  The packages: \<open>encode_p2p\<close> and \<open>decode_p2p\<close> are \<open>rlp\<close> with the structures of the commands (not
  strict for the hello), \<open>app_receive\<close> is the effect of the callbacks that an application has
  registered for its own commands.
\<close>

record 'i net_lib =
  nl_rlp :: "'i rlp_lib"
  nl_crypto :: crypto_lib
  nl_eip8 :: eip8_lib
  encode_p2p :: "p2p_data \<Rightarrow> bytes res"
  decode_p2p :: "nat \<Rightarrow> bytes \<Rightarrow> p2p_data res"
  app_receive :: "protocol_class \<Rightarrow> nat \<Rightarrow> bytes \<Rightarrow> unit res"
  nl_config :: pm_config

section \<open>State\<close>

text \<open>The texts of \<open>report_error\<close>.\<close>

datatype report =
    SendingDisconnect nat
  | Disconnected nat
  | NoHello
  | WrongVersion
  | WriteError
  | NetworkError
  | RlpxError
  | MuxError
  | NotResponding
  | ConnectionTimeout
  | ConnectionError

record peer =
  is_stopped :: bool
  hello_received :: bool
  offset_based_dispatch :: bool
  protocols :: "protocol_class list option"
  session :: msession
  remote_pubkey_available :: bool
  remote_client_version :: bytes
  remote_capabilities :: "(bytes \<times> nat) list option"
  peername :: "(bytes \<times> nat) option"
  stop_timers :: nat
  monitor_started :: bool
  last_request :: rat
  last_response :: rat
  samples :: "rat list"
  wire :: "bytes list"

text \<open>
  The peer manager: \<open>peers\<close> lists the numbers of the peers it knows, \<open>errors\<close> and \<open>client_versions\<close>
  belong to \<open>PeerErrors\<close>, an address that is not available is \<open>None\<close>. \<open>delivered\<close> records what the
  callbacks of the application got.
\<close>

record net =
  peers :: "nat list"
  peer_at :: "nat \<Rightarrow> peer"
  next_peer :: nat
  errors :: "((bytes \<times> nat) option, report list) dict"
  client_versions :: "((bytes \<times> nat) option, bytes) dict"
  delivered :: "(nat \<times> protocol_class \<times> nat \<times> bytes) list"

definition upd :: "nat \<Rightarrow> (peer \<Rightarrow> peer) \<Rightarrow> (net, unit) prog" where
  "upd i f = modify (\<lambda>s. s\<lparr>peer_at := (peer_at s)(i := f (peer_at s i))\<rparr>)"

definition look :: "nat \<Rightarrow> (peer \<Rightarrow> 'a) \<Rightarrow> (net, 'a) prog" where
  "look i f = gets (\<lambda>s. f (peer_at s i))"

definition on_session :: "nat \<Rightarrow> (msession, 'a) prog \<Rightarrow> (net, 'a) prog" where
  "on_session i m = (\<lambda>s. case m (session (peer_at s i)) of
     (r, ms) \<Rightarrow> (r, s\<lparr>peer_at := (peer_at s)(i := (peer_at s i)\<lparr>session := ms\<rparr>)\<rparr>))"

text \<open>The property \<open>remote_pubkey\<close> and its setter.\<close>

definition remote_pubkey :: "peer \<Rightarrow> bytes option" where
  "remote_pubkey p = ms_get_remote_pubkey (session p)"

definition set_remote_pubkey :: "nat \<Rightarrow> bytes option \<Rightarrow> (net, unit) prog" where
  "set_remote_pubkey i value =
     seq (upd i (\<lambda>p. p\<lparr>remote_pubkey_available := (py_or value [] \<noteq> [])\<rparr>)) (\<lambda>_.
     on_session i (ms_set_remote_pubkey value))"

section \<open>Errors and the end of a peer\<close>

text \<open>\<open>PeerErrors.add\<close>, and \<open>PeerErrorsBase.add\<close> when disconnects are not logged.\<close>

definition errors_add :: "pm_config \<Rightarrow> (bytes \<times> nat) option \<Rightarrow> report \<Rightarrow> bytes \<Rightarrow> (net, unit) prog" where
  "errors_add cfg address error version =
     (if log_disconnects cfg then
        seq (modify (\<lambda>s. s\<lparr>errors := AList.update address
               ((case map_of (errors s) address of None \<Rightarrow> [] | Some es \<Rightarrow> es) @ [error]) (errors s)\<rparr>)) (\<lambda>_.
        if version \<noteq> [] then modify (\<lambda>s. s\<lparr>client_versions := AList.update address version (client_versions s)\<rparr>)
        else ret ())
      else ret ())"

definition report_error :: "pm_config \<Rightarrow> nat \<Rightarrow> report \<Rightarrow> (net, unit) prog" where
  "report_error cfg i reason =
     seq (look i (\<lambda>p. (peername p, remote_client_version p))) (\<lambda>(address, version).
     errors_add cfg address reason version)"

text \<open>\<open>self.peermanager.peers.remove(self)\<close>.\<close>

definition remove_peer :: "nat \<Rightarrow> (net, unit) prog" where
  "remove_peer i =
     seq (gets (\<lambda>s. i \<in> set (peers s))) (\<lambda>present.
     if present then modify (\<lambda>s. s\<lparr>peers := remove1 i (peers s)\<rparr>) else throw ValueError)"

text \<open>
  \<open>Peer.stop\<close>. Its greenlets end, the monitor among them, and its protocols are stopped; what a
  service does in \<open>on_wire_protocol_stop\<close> is up to the application.
\<close>

definition stop :: "nat \<Rightarrow> (net, unit) prog" where
  "stop i =
     seq (look i is_stopped) (\<lambda>stopped.
     if stopped then ret ()
     else
       seq (upd i (\<lambda>p. p\<lparr>is_stopped := True, monitor_started := False, protocols := None\<rparr>)) (\<lambda>_.
       remove_peer i))"

text \<open>\<open>BaseProtocol.stop\<close> of a protocol of the application leaves the peer as it is.\<close>

definition stop_protocol :: "nat \<Rightarrow> protocol_class \<Rightarrow> (net, unit) prog" where
  "stop_protocol i c = (if c = p2p_protocol then stop i else ret ())"

section \<open>Sending\<close>

definition the_protocols :: "nat \<Rightarrow> (net, protocol_class list) prog" where
  "the_protocols i =
     seq (look i protocols) (\<lambda>ps.
     case ps of None \<Rightarrow> throw AttributeError | Some cs \<Rightarrow> ret cs)"

definition send_packet :: "'i net_lib \<Rightarrow> nat \<Rightarrow> packet \<Rightarrow> (net, unit) prog" where
  "send_packet N i pk =
     seq (the_protocols i) (\<lambda>cs.
     seq (look i offset_based_dispatch) (\<lambda>offset_based.
     seq (lift_res (rewrite_packet offset_based cs pk)) (\<lambda>pk'.
     on_session i (ms_add_packet (nl_rlp N) (nl_crypto N) pk'))))"

text \<open>The commands of \<open>P2PProtocol\<close>: their ids, and sending one.\<close>

definition p2p_cmd_id :: "p2p_data \<Rightarrow> nat" where
  "p2p_cmd_id d = (case d of PingData \<Rightarrow> 2 | PongData \<Rightarrow> 3 | HelloData _ \<Rightarrow> 0 | DisconnectData _ \<Rightarrow> 1)"

definition p2p_packet :: "'i net_lib \<Rightarrow> p2p_data \<Rightarrow> packet res" where
  "p2p_packet N d =
     bind_res (encode_p2p N d) (\<lambda>payload.
     Inr \<lparr>pk_protocol_id = 0, pk_cmd_id = p2p_cmd_id d, pk_payload = payload, pk_prioritize = False\<rparr>)"

definition send_p2p :: "'i net_lib \<Rightarrow> nat \<Rightarrow> p2p_data \<Rightarrow> (net, unit) prog" where
  "send_p2p N i d = seq (lift_res (p2p_packet N d)) (send_packet N i)"

text \<open>\<open>disconnect.reason\<close>.\<close>

definition reason_useless_peer :: nat where "reason_useless_peer = 3"
definition reason_too_many_peers :: nat where "reason_too_many_peers = 4"
definition reason_incompatible_p2p_version :: nat where "reason_incompatible_p2p_version = 6"
definition reason_connected_to_self :: nat where "reason_connected_to_self = 10"

definition send_disconnect :: "'i net_lib \<Rightarrow> nat \<Rightarrow> nat \<Rightarrow> (net, unit) prog" where
  "send_disconnect N i reason =
     seq (report_error (nl_config N) i (SendingDisconnect reason)) (\<lambda>_.
     seq (upd i (\<lambda>p. p\<lparr>stop_timers := stop_timers p + 1\<rparr>)) (\<lambda>_.
     send_p2p N i (DisconnectData reason)))"

section \<open>Services\<close>

definition peermanager_service :: service where
  "peermanager_service = \<lparr>sv_name = [112, 101, 101, 114, 109, 97, 110, 97, 103, 101, 114], sv_protocol = p2p_protocol\<rparr>"

text \<open>
  \<open>connect_service\<close>; the connection monitor is made with \<open>P2PProtocol\<close>. What a service does in
  \<open>on_wire_protocol_start\<close> is up to the application.
\<close>

definition connect_service :: "rat \<Rightarrow> nat \<Rightarrow> service \<Rightarrow> (net, unit) prog" where
  "connect_service now i service =
     (let c = sv_protocol service in
      seq (if c = p2p_protocol then upd i (\<lambda>p. p\<lparr>last_request := now, last_response := now\<rparr>) else ret ()) (\<lambda>_.
      seq (look i protocols) (\<lambda>ps.
      case ps of
        None \<Rightarrow> throw TypeError
      | Some cs \<Rightarrow>
          seq (py_assert (c \<notin> set cs)) (\<lambda>_.
          seq (upd i (\<lambda>p. p\<lparr>protocols := Some (cs @ [c])\<rparr>)) (\<lambda>_.
          on_session i (on_mux (add_protocol (pc_protocol_id c))))))))"

text \<open>
  \<open>Peer.capabilities\<close>, and what becomes of them in the payload of a hello: the field is a list of byte
  strings and numbers (\<open>rlp.sedes.binary\<close>), for which \<open>rlp\<close> takes byte strings as they are and refuses texts.
\<close>

definition capabilities :: "service list \<Rightarrow> (pyname \<times> nat) list" where
  "capabilities svs = map (\<lambda>sv. (pc_name (sv_protocol sv), pc_version (sv_protocol sv))) svs"

fun binary_names :: "(pyname \<times> nat) list \<Rightarrow> (bytes \<times> nat) list res" where
  "binary_names [] = Inr []"
| "binary_names ((name, version) # cs) =
     (case name of
        Str _ \<Rightarrow> Inl (LibraryError ''SerializationError'')
      | ByteStr b \<Rightarrow> bind_res (binary_names cs) (\<lambda>bs. Inr ((b, version) # bs)))"

definition announced :: "service list \<Rightarrow> (bytes \<times> nat) list res" where
  "announced svs = binary_names (capabilities svs)"

lemma announced_simps [simp]:
  "announced [] = Inr []"
  "announced (sv # svs) =
     (case pc_name (sv_protocol sv) of
        Str _ \<Rightarrow> Inl (LibraryError ''SerializationError'')
      | ByteStr b \<Rightarrow> bind_res (announced svs) (\<lambda>bs. Inr ((b, pc_version (sv_protocol sv)) # bs)))"
  by (simp_all add: announced_def capabilities_def split: pyname.split)

definition get_hello_packet :: "'i net_lib \<Rightarrow> packet res" where
  "get_hello_packet N =
     (let cfg = nl_config N in
      bind_res (announced (services cfg)) (\<lambda>caps.
      p2p_packet N (HelloData \<lparr>h_version = pc_version p2p_protocol, h_client_version_string = client_version cfg,
        h_capabilities = caps, h_listen_port = p2p_port cfg, h_remote_pubkey = own_id cfg\<rparr>)))"

end
