(* ===== verification/Peer_Receive.thy ===== *)
theory Peer_Receive
  imports Peer
begin

text \<open>
  What a peer does with what it receives (\<open>devp2p/peer.py\<close>, \<open>devp2p/p2p_protocol.py\<close>): the hello and
  its check by the peer manager, the other commands of \<open>P2PProtocol\<close>, the connection monitor, and
  the greenlets that read, decode and write.
\<close>

section \<open>The hello\<close>

text \<open>\<open>PeerManager.on_hello_received\<close>.\<close>

definition on_hello_received :: "'i net_lib \<Rightarrow> nat \<Rightarrow> bytes \<Rightarrow> (net, bool) prog" where
  "on_hello_received N i pubkey =
     seq (gets (\<lambda>s. length (peers s))) (\<lambda>num_peers.
     if num_peers > max_peers (nl_config N) then
       seq (send_disconnect N i reason_too_many_peers) (\<lambda>_. ret False)
     else
       seq (gets (\<lambda>s. map (\<lambda>j. remote_pubkey (peer_at s j)) (filter (\<lambda>j. j \<noteq> i) (peers s)))) (\<lambda>pubkeys.
       if Some pubkey \<in> set pubkeys then
         seq (send_disconnect N i reason_useless_peer) (\<lambda>_. ret False)
       else ret True))"

text \<open>
  \<open>name.decode('utf-8')\<close>: the forms of UTF-8 characters by their lead byte, without overlong forms,
  surrogates and numbers above 0x10ffff.
\<close>

definition continuation :: "byte \<Rightarrow> bool" where
  "continuation b \<longleftrightarrow> 128 \<le> unat b \<and> unat b < 192"

fun valid_utf8 :: "bytes \<Rightarrow> bool" where
  "valid_utf8 [] = True"
| "valid_utf8 (a # s) =
     (let x = unat a in
      if x < 128 then valid_utf8 s
      else if x < 194 then False
      else if x < 224 then (case s of b # s' \<Rightarrow> continuation b \<and> valid_utf8 s' | _ \<Rightarrow> False)
      else if x < 240 then
        (case s of
           b # c # s' \<Rightarrow> continuation b \<and> continuation c \<and> (x = 224 \<longrightarrow> 160 \<le> unat b) \<and>
             (x = 237 \<longrightarrow> unat b < 160) \<and> valid_utf8 s'
         | _ \<Rightarrow> False)
      else if x < 245 then
        (case s of
           b # c # d # s' \<Rightarrow> continuation b \<and> continuation c \<and> continuation d \<and> (x = 240 \<longrightarrow> 144 \<le> unat b) \<and>
             (x = 244 \<longrightarrow> unat b < 144) \<and> valid_utf8 s'
         | _ \<Rightarrow> False)
      else False)"

text \<open>
  The keys of \<open>remote_services\<close>. In Python 2 a byte string is a \<open>str\<close> and stays as it is; in Python 3
  it is decoded.
\<close>

fun remote_services :: "bool \<Rightarrow> (bytes \<times> nat) list \<Rightarrow> (pyname \<times> nat) list res" where
  "remote_services three [] = Inr []"
| "remote_services three ((name, version) # cs) =
     (if three \<and> \<not> valid_utf8 name then Inl ValueError
      else bind_res (remote_services three cs) (\<lambda>rs. Inr ((if three then Str name else ByteStr name, version) # rs)))"

definition connect_common :: "'i net_lib \<Rightarrow> rat \<Rightarrow> nat \<Rightarrow> (pyname \<times> nat) list \<Rightarrow> service \<Rightarrow> (net, unit) prog" where
  "connect_common N now i remote service =
     (let c = sv_protocol service in
      if pc_name c \<in> fst ` set remote then
        if (pc_name c, pc_version c) \<in> set remote then
          if service \<noteq> peermanager_service then connect_service now i service else ret ()
        else report_error (nl_config N) i WrongVersion
      else ret ())"

definition compatible_p2p_version :: nat where "compatible_p2p_version = 5"

definition receive_hello :: "'i net_lib \<Rightarrow> rat \<Rightarrow> nat \<Rightarrow> hello_data \<Rightarrow> (net, unit) prog" where
  "receive_hello N now i h =
     seq (py_assert (length (h_remote_pubkey h) = 64)) (\<lambda>_.
     seq (look i (\<lambda>p. (remote_pubkey_available p, remote_pubkey p))) (\<lambda>(available, known).
     seq (py_assert (available \<longrightarrow> known = Some (h_remote_pubkey h))) (\<lambda>_.
     seq (upd i (\<lambda>p. p\<lparr>hello_received := True\<rparr>)) (\<lambda>_.
     seq (if h_version h \<le> compatible_p2p_version
          then upd i (\<lambda>p. p\<lparr>offset_based_dispatch := True\<rparr>)
          else send_disconnect N i reason_incompatible_p2p_version) (\<lambda>_.
     seq (on_hello_received N i (h_remote_pubkey h)) (\<lambda>agree.
     if \<not> agree then ret ()
     else
       seq (upd i (\<lambda>p. p\<lparr>remote_client_version := h_client_version_string h\<rparr>)) (\<lambda>_.
       seq (set_remote_pubkey i (Some (h_remote_pubkey h))) (\<lambda>_.
       seq (upd i (\<lambda>p. p\<lparr>remote_capabilities := Some (h_capabilities h)\<rparr>)) (\<lambda>_.
       seq (lift_res (remote_services (py3 (nl_config N)) (h_capabilities h))) (\<lambda>remote.
       for_each (sort_key sv_name (services (nl_config N))) (connect_common N now i remote)))))))))))"

section \<open>The commands of \<open>P2PProtocol\<close>\<close>

text \<open>
  \<open>track_response\<close>, a callback of the pong: at most a thousand samples, the newest first. The
  callback of the hello starts the monitor.
\<close>

definition track_response :: "rat \<Rightarrow> nat \<Rightarrow> (net, unit) prog" where
  "track_response now i = upd i (\<lambda>p. p\<lparr>last_response := now,
     samples := take 1000 ((now - last_request p) # samples p)\<rparr>)"

text \<open>\<open>ping.receive\<close>, \<open>hello.receive\<close> and \<open>disconnect.receive\<close>, and what the commands do together.\<close>

definition ping_receive :: "'i net_lib \<Rightarrow> nat \<Rightarrow> (net, unit) prog" where
  "ping_receive N i = send_p2p N i PongData"

definition hello_receive :: "'i net_lib \<Rightarrow> rat \<Rightarrow> nat \<Rightarrow> hello_data \<Rightarrow> (net, unit) prog" where
  "hello_receive N now i h =
     (if h_remote_pubkey h = own_id (nl_config N) then send_disconnect N i reason_connected_to_self
      else seq (receive_hello N now i h) (\<lambda>_. upd i (\<lambda>p. p\<lparr>monitor_started := True\<rparr>)))"

definition disconnect_receive :: "'i net_lib \<Rightarrow> nat \<Rightarrow> nat \<Rightarrow> (net, unit) prog" where
  "disconnect_receive N i reason =
     seq (report_error (nl_config N) i (Disconnected reason)) (\<lambda>_. stop i)"

definition p2p_receive :: "'i net_lib \<Rightarrow> rat \<Rightarrow> nat \<Rightarrow> p2p_data \<Rightarrow> (net, unit) prog" where
  "p2p_receive N now i d =
     (case d of
        PingData \<Rightarrow> ping_receive N i
      | PongData \<Rightarrow> track_response now i
      | HelloData h \<Rightarrow> hello_receive N now i h
      | DisconnectData reason \<Rightarrow> disconnect_receive N i reason)"

lemmas p2p_receive_defs = p2p_receive_def ping_receive_def hello_receive_def disconnect_receive_def

text \<open>\<open>BaseProtocol.receive_packet\<close>: a \<open>ProtocolError\<close> stops the protocol, other errors go on.\<close>

definition is_protocol_error :: "exn \<Rightarrow> bool" where
  "is_protocol_error e \<longleftrightarrow> e = ProtocolError \<or> e = SubProtocolError"

definition try_catch :: "('s, 'a) prog \<Rightarrow> (exn \<Rightarrow> ('s, 'a) prog) \<Rightarrow> ('s, 'a) prog" where
  "try_catch m f = (\<lambda>s. case m s of (Inl e, s') \<Rightarrow> f e s' | (Inr x, s') \<Rightarrow> (Inr x, s'))"

definition receive_packet :: "'i net_lib \<Rightarrow> rat \<Rightarrow> nat \<Rightarrow> protocol_class \<Rightarrow> nat \<Rightarrow> bytes \<Rightarrow> (net, unit) prog" where
  "receive_packet N now i c cmd payload =
     try_catch
       (seq (lift_res (cmd_by_id c cmd)) (\<lambda>_.
        if c = p2p_protocol then seq (lift_res (decode_p2p N cmd payload)) (p2p_receive N now i)
        else seq (modify (\<lambda>s. s\<lparr>delivered := delivered s @ [(i, c, cmd, payload)]\<rparr>)) (\<lambda>_.
             lift_res (app_receive N c cmd payload))))
       (\<lambda>e. if is_protocol_error e then stop_protocol i c else throw e)"

text \<open>\<open>Peer._handle_packet\<close>: an unknown command is ignored, every other error stops the peer.\<close>

definition peer_handle_packet :: "'i net_lib \<Rightarrow> rat \<Rightarrow> nat \<Rightarrow> packet \<Rightarrow> (net, unit) prog" where
  "peer_handle_packet N now i pk =
     try_catch
       (seq (the_protocols i) (\<lambda>cs.
        seq (look i offset_based_dispatch) (\<lambda>offset_based.
        seq (lift_res (protocol_cmd_id_from_packet offset_based cs pk)) (\<lambda>(c, cmd).
        seq (lift_res (cmd_by_id c cmd)) (\<lambda>_.
        receive_packet N now i c cmd (pk_payload pk))))))
       (\<lambda>e. if e = UnknownCommandError then ret () else stop i)"

section \<open>The greenlets\<close>

text \<open>\<open>_run_decoded_packets\<close>: the next packet of the queue.\<close>

definition run_decoded_packet :: "'i net_lib \<Rightarrow> rat \<Rightarrow> nat \<Rightarrow> (net, unit) prog" where
  "run_decoded_packet N now i =
     seq (look i (\<lambda>p. (is_stopped p, ms_packets (session p)))) (\<lambda>(stopped, pks).
     if stopped then ret ()
     else case pks of
       [] \<Rightarrow> ret ()
     | pk # rest \<Rightarrow>
         seq (on_session i (modify (\<lambda>s. s\<lparr>ms_packets := rest\<rparr>))) (\<lambda>_.
         peer_handle_packet N now i pk))"

text \<open>\<open>_run_egress_message\<close> and \<open>send\<close>: the next message of the queue is written, or that fails.\<close>

definition run_egress_message :: "'i net_lib \<Rightarrow> nat \<Rightarrow> bool \<Rightarrow> (net, unit) prog" where
  "run_egress_message N i ok =
     seq (look i (\<lambda>p. (is_stopped p, ms_messages (session p)))) (\<lambda>(stopped, msgs).
     if stopped then ret ()
     else case msgs of
       [] \<Rightarrow> ret ()
     | data # rest \<Rightarrow>
         seq (on_session i (modify (\<lambda>s. s\<lparr>ms_messages := rest\<rparr>))) (\<lambda>_.
         if data = [] then ret ()
         else if ok then upd i (\<lambda>p. p\<lparr>wire := wire p @ [data]\<rparr>)
         else seq (report_error (nl_config N) i WriteError) (\<lambda>_. stop i)))"

text \<open>
  One round of \<open>_run_ingress_message\<close>: what the socket gives, bytes or an error, which is among those that
  the loop expects (\<open>EBADF\<close>, \<open>ECONNRESET\<close> and so on) or is raised again. Of the exceptions of \<open>add_message\<close> the
  errors of the session and of the multiplexer stop the peer, all others leave the loop.
\<close>

datatype socket_read = Received bytes | ReadError bool

definition is_rlpx_error :: "exn \<Rightarrow> bool" where
  "is_rlpx_error e \<longleftrightarrow> e = AuthenticationError \<or> e = InvalidKeyError \<or> e = FormatError \<or> e = ECIESDecryptionError"

definition is_multiplexer_error :: "exn \<Rightarrow> bool" where
  "is_multiplexer_error e \<longleftrightarrow> e = MultiplexerError \<or> e = DeserializationError"

definition run_ingress_message :: "'i net_lib \<Rightarrow> nat \<Rightarrow> draws \<Rightarrow> socket_read \<Rightarrow> (net, unit) prog" where
  "run_ingress_message N i r imsg =
     seq (look i is_stopped) (\<lambda>stopped.
     if stopped then ret ()
     else case imsg of
       ReadError expected \<Rightarrow>
         seq (report_error (nl_config N) i NetworkError) (\<lambda>_.
         if expected then stop i else throw (LibraryError ''socket.error''))
     | Received data \<Rightarrow>
         if data = [] then ret ()
         else
           try_catch (on_session i (add_message (nl_rlp N) (nl_crypto N) (nl_eip8 N) r data)) (\<lambda>e.
             if is_rlpx_error e then seq (report_error (nl_config N) i RlpxError) (\<lambda>_. stop i)
             else if is_multiplexer_error e then seq (report_error (nl_config N) i MuxError) (\<lambda>_. stop i)
             else throw e))"

text \<open>
  The greenlet of the peer with what \<open>_start_peer\<close> links to it: an exception ends the greenlet, and then
  \<open>on_peer_exit\<close> runs.
\<close>

definition on_peer_exit :: "nat \<Rightarrow> (net, unit) prog" where
  "on_peer_exit i = stop i"

definition peer_greenlet :: "'i net_lib \<Rightarrow> nat \<Rightarrow> draws \<Rightarrow> socket_read \<Rightarrow> (net, unit) prog" where
  "peer_greenlet N i r imsg = try_catch (run_ingress_message N i r imsg) (\<lambda>_. on_peer_exit i)"

section \<open>Timers\<close>

definition dumb_remote_timeout :: rat where "dumb_remote_timeout = 10"
definition ping_interval :: rat where "ping_interval = 15"
definition response_delay_threshold :: rat where "response_delay_threshold = 120"

text \<open>\<open>check_if_dumb_remote\<close>; the timer is killed with the peer.\<close>

definition check_if_dumb_remote :: "'i net_lib \<Rightarrow> nat \<Rightarrow> (net, unit) prog" where
  "check_if_dumb_remote N i =
     seq (look i (\<lambda>p. (is_stopped p, hello_received p))) (\<lambda>(stopped, received).
     if stopped \<or> received then ret ()
     else seq (report_error (nl_config N) i NoHello) (\<lambda>_. stop i))"

text \<open>A timer of \<open>send_disconnect\<close>.\<close>

definition stop_timer :: "nat \<Rightarrow> (net, unit) prog" where
  "stop_timer i =
     seq (look i stop_timers) (\<lambda>n.
     if n = 0 then ret ()
     else seq (upd i (\<lambda>p. p\<lparr>stop_timers := n - 1\<rparr>)) (\<lambda>_. stop i))"

text \<open>
  \<open>ConnectionMonitor._run\<close>: the ping at the start of a round, and the check at its end, fifteen
  seconds later, which compares the time of that ping with the last response. An exception in
  the ping ends the monitor, and \<open>_on_monitor_exit\<close> stops the peer.
\<close>

definition monitor_ping :: "'i net_lib \<Rightarrow> rat \<Rightarrow> nat \<Rightarrow> (net, unit) prog" where
  "monitor_ping N now i =
     seq (look i monitor_started) (\<lambda>started.
     if \<not> started then ret ()
     else
       try_catch
         (seq (send_p2p N i PingData) (\<lambda>_. upd i (\<lambda>p. p\<lparr>last_request := now\<rparr>)))
         (\<lambda>e. stop i))"

definition monitor_check :: "'i net_lib \<Rightarrow> nat \<Rightarrow> (net, unit) prog" where
  "monitor_check N i =
     seq (look i (\<lambda>p. (monitor_started p, last_request p - last_response p))) (\<lambda>(started, delay).
     if started \<and> delay > response_delay_threshold
     then seq (report_error (nl_config N) i NotResponding) (\<lambda>_. stop i)
     else ret ())"

text \<open>\<open>ConnectionMonitor.latency\<close>.\<close>

definition latency :: "nat \<Rightarrow> peer \<Rightarrow> rat" where
  "latency num_samples p =
     (let n = min num_samples (length (samples p)) in
      if n = 0 then 1 else sum_list (take n (samples p)) / of_nat n)"

end
