(* ===== verification/Peer_Manager.thy ===== *)
theory Peer_Manager
  imports Peer_Receive Kademlia_Protocol
begin

text \<open>
  \<open>PeerManager\<close> (\<open>devp2p/peermanager.py\<close>): new connections, broadcasts, the loop that looks for more
  peers, and everything that can happen to the manager and its peers as a relation.
\<close>

section \<open>Making peers\<close>

text \<open>What a new connection draws at random: the ephemeral key, and the values of the handshake.\<close>

record connection =
  cn_peername :: "(bytes \<times> nat) option"
  cn_ephemeral :: ecc
  cn_draws :: draws
  cn_closed :: bool

definition blank_peer :: "connection \<Rightarrow> msession \<Rightarrow> peer" where
  "blank_peer cn ms =
     \<lparr>is_stopped = False, hello_received = False, offset_based_dispatch = False, protocols = Some [],
      session = ms, remote_pubkey_available = False, remote_client_version = [],
      remote_capabilities = None, peername = cn_peername cn, stop_timers = 0, monitor_started = False,
      last_request = 0, last_response = 0, samples = [], wire = []\<rparr>"

text \<open>\<open>Peer.__init__\<close>: an initiator sends the first message of the handshake at once.\<close>

definition new_peer :: "'i net_lib \<Rightarrow> rat \<Rightarrow> connection \<Rightarrow> bytes option \<Rightarrow> (net, nat) prog" where
  "new_peer N now cn pk =
     seq (lift_res (get_hello_packet N)) (\<lambda>hello.
     case new_msession (nl_crypto N) (cn_draws cn) (node_key (nl_config N)) (cn_ephemeral cn) hello pk of
       (Inl e, _) \<Rightarrow> throw e
     | (Inr _, ms) \<Rightarrow>
         seq (gets next_peer) (\<lambda>i.
         seq (modify (\<lambda>s. s\<lparr>next_peer := i + 1, peer_at := (peer_at s)(i := blank_peer cn ms)\<rparr>)) (\<lambda>_.
         seq (set_remote_pubkey i pk) (\<lambda>_.
         seq (connect_service now i peermanager_service) (\<lambda>_.
         ret i)))))"

definition start_peer :: "'i net_lib \<Rightarrow> rat \<Rightarrow> connection \<Rightarrow> bytes option \<Rightarrow> (net, nat) prog" where
  "start_peer N now cn pk =
     seq (new_peer N now cn pk) (\<lambda>i.
     seq (modify (\<lambda>s. s\<lparr>peers := peers s @ [i]\<rparr>)) (\<lambda>_.
     seq (py_assert (\<not> cn_closed cn)) (\<lambda>_.
     ret i)))"

datatype connect_outcome = TimedOut | Refused | Connected connection

definition connect :: "'i net_lib \<Rightarrow> rat \<Rightarrow> bytes \<times> nat \<Rightarrow> bytes \<Rightarrow> connect_outcome \<Rightarrow> (net, bool) prog" where
  "connect N now address pk outcome =
     (case outcome of
        TimedOut \<Rightarrow> seq (errors_add (nl_config N) (Some address) ConnectionTimeout []) (\<lambda>_. ret False)
      | Refused \<Rightarrow> seq (errors_add (nl_config N) (Some address) ConnectionError []) (\<lambda>_. ret False)
      | Connected cn \<Rightarrow> seq (start_peer N now cn (Some pk)) (\<lambda>_. ret True))"

section \<open>Peers\<close>

definition remote_pubkeys :: "net \<Rightarrow> bytes option list" where
  "remote_pubkeys s = map (\<lambda>i. remote_pubkey (peer_at s i)) (peers s)"

definition num_peers :: "net \<Rightarrow> nat" where
  "num_peers s = length (filter (\<lambda>i. \<not> is_stopped (peer_at s i)) (peers s))"

text \<open>\<open>for peer in self.peers: peer.stop()\<close> iterates over the list that \<open>stop\<close> takes the peers out of.\<close>

fun stop_from :: "nat \<Rightarrow> nat \<Rightarrow> (net, unit) prog" where
  "stop_from fuel k s =
     (case fuel of
        0 \<Rightarrow> (Inr (), s)
      | Suc fuel \<Rightarrow>
          if k < length (peers s) then seq (stop (peers s ! k)) (\<lambda>_. stop_from fuel (k + 1)) s
          else (Inr (), s))"

definition stop_peers :: "(net, unit) prog" where
  "stop_peers = (\<lambda>s. stop_from (length (peers s)) 0 s)"

section \<open>Broadcasting\<close>

text \<open>
  \<open>broadcast\<close>; \<open>sample\<close> is \<open>random.sample\<close> and \<open>sender\<close> the method \<open>send_X\<close> of the command. The wait for
  each message to be out is left out.
\<close>

definition peers_with_proto :: "protocol_class \<Rightarrow> nat list \<Rightarrow> net \<Rightarrow> nat list" where
  "peers_with_proto c exclude s =
     filter (\<lambda>i. (case protocols (peer_at s i) of None \<Rightarrow> False | Some cs \<Rightarrow> c \<in> set cs) \<and> i \<notin> set exclude) (peers s)"

definition broadcast ::
  "(nat list \<Rightarrow> nat \<Rightarrow> nat list) \<Rightarrow> (nat \<Rightarrow> (net, unit) prog) \<Rightarrow> protocol_class \<Rightarrow> nat option \<Rightarrow> nat list \<Rightarrow> (net, unit) prog" where
  "broadcast sample sender c num exclude =
     seq (py_assert (num \<noteq> Some 0)) (\<lambda>_.
     seq (gets (peers_with_proto c exclude)) (\<lambda>candidates.
     let n = (case num of None \<Rightarrow> length candidates | Some n \<Rightarrow> n) in
     for_each (sample candidates (min n (length candidates))) sender))"

text \<open>\<open>BaseProtocol.send_X\<close> for a command of the application with an encoded payload.\<close>

definition send_command :: "'i net_lib \<Rightarrow> protocol_class \<Rightarrow> nat \<Rightarrow> bytes \<Rightarrow> nat \<Rightarrow> (net, unit) prog" where
  "send_command N c cmd payload i =
     send_packet N i \<lparr>pk_protocol_id = pc_protocol_id c, pk_cmd_id = cmd, pk_payload = payload, pk_prioritize = False\<rparr>"

section \<open>Looking for peers\<close>

text \<open>
  A round of \<open>_discovery_loop\<close> in two parts, between which the loop sleeps: it asks for a random id
  when peers are missing, and connects to one of the two known nodes that are closest to it. \<open>pick\<close> is
  \<open>random.choice\<close>.
\<close>

definition discovery_ask :: "'i net_lib \<Rightarrow> 'a env \<Rightarrow> int \<Rightarrow> net \<Rightarrow> ('a kad, bool) prog" where
  "discovery_ask N env nodeid s =
     (if num_peers s < min_peers (nl_config N) then seq (find_node env nodeid None) (\<lambda>_. ret True) else ret False)"

definition discovery_choice :: "pm_config \<Rightarrow> (node list \<Rightarrow> node) \<Rightarrow> int \<Rightarrow> 'a kad \<Rightarrow> net \<Rightarrow> node option" where
  "discovery_choice cfg pick nodeid k s =
     (let ns = neighbours 2 nodeid (routing k) in
      if ns = [] then None
      else
        let n = pick ns in
        if Some (pubkey n) \<in> set (remote_pubkeys s) then None
        else if pubkey n = own_id cfg then None
        else Some n)"

definition discovery_connect ::
  "'i net_lib \<Rightarrow> rat \<Rightarrow> (node list \<Rightarrow> node) \<Rightarrow> int \<Rightarrow> 'a kad \<Rightarrow> (node \<Rightarrow> bytes \<times> nat) \<Rightarrow> connect_outcome \<Rightarrow> (net, unit) prog" where
  "discovery_connect N now pick nodeid k address outcome =
     seq (gets (discovery_choice (nl_config N) pick nodeid k)) (\<lambda>choice.
     case choice of
       None \<Rightarrow> ret ()
     | Some n \<Rightarrow> seq (connect N now (address n) (pubkey n) outcome) (\<lambda>_. ret ()))"

section \<open>Everything that happens\<close>

text \<open>
  The events: connections in and out, bytes read, packets decoded and handled, messages written,
  timers, the monitor, and commands the application sends.
\<close>

datatype event =
    Incoming connection
  | Outgoing "bytes \<times> nat" bytes connect_outcome
  | Ingress nat draws socket_read
  | Decoded nat
  | Egress nat bool
  | DumbTimer nat
  | StopTimer nat
  | MonitorPing nat
  | MonitorCheck nat
  | SendCommand nat protocol_class nat bytes
  | StopPeers

definition net_step :: "'i net_lib \<Rightarrow> rat \<Rightarrow> event \<Rightarrow> (net, unit) prog" where
  "net_step N now ev =
     (case ev of
        Incoming cn \<Rightarrow> seq (start_peer N now cn None) (\<lambda>_. ret ())
      | Outgoing address pk outcome \<Rightarrow> seq (connect N now address pk outcome) (\<lambda>_. ret ())
      | Ingress i r imsg \<Rightarrow> peer_greenlet N i r imsg
      | Decoded i \<Rightarrow> run_decoded_packet N now i
      | Egress i ok \<Rightarrow> run_egress_message N i ok
      | DumbTimer i \<Rightarrow> check_if_dumb_remote N i
      | StopTimer i \<Rightarrow> stop_timer i
      | MonitorPing i \<Rightarrow> monitor_ping N now i
      | MonitorCheck i \<Rightarrow> monitor_check N i
      | SendCommand i c cmd payload \<Rightarrow> send_command N c cmd payload i
      | StopPeers \<Rightarrow> stop_peers)"

definition mk_net :: "(nat \<Rightarrow> peer) \<Rightarrow> net" where
  "mk_net junk = \<lparr>peers = [], peer_at = junk, next_peer = 0, errors = [], client_versions = [], delivered = []\<rparr>"

text \<open>The states of a manager; events of peers name peers that have been made.\<close>

fun event_peer :: "event \<Rightarrow> nat option" where
  "event_peer (Incoming cn) = None"
| "event_peer (Outgoing a p c) = None"
| "event_peer (Ingress i r m) = Some i"
| "event_peer (Decoded i) = Some i"
| "event_peer (Egress i ok) = Some i"
| "event_peer (DumbTimer i) = Some i"
| "event_peer (StopTimer i) = Some i"
| "event_peer (MonitorPing i) = Some i"
| "event_peer (MonitorCheck i) = Some i"
| "event_peer (SendCommand i c cmd p) = Some i"
| "event_peer StopPeers = None"

inductive net_reach :: "'i net_lib \<Rightarrow> net \<Rightarrow> bool" for N where
  start: "net_reach N (mk_net junk)"
| step: "net_reach N s \<Longrightarrow> (\<forall>i. event_peer ev = Some i \<longrightarrow> i < next_peer s) \<Longrightarrow>
    net_step N now ev s = (r, s') \<Longrightarrow> net_reach N s'"

inductive_cases net_reachE: "net_reach N s"

end
