(* ===== verification/Peer_Invariant.thy ===== *)
theory Peer_Invariant
  imports Peer_Manager
begin

text \<open>
  The invariant of the peer manager and its peers, kept by every event: stopped peers are not
  listed, every peer has its protocols once, and the peers whose hello was accepted are at most
  \<open>max_peers\<close>, with different public keys, none of them the own one.
\<close>

section \<open>The invariant\<close>

definition accepted :: "peer \<Rightarrow> bool" where
  "accepted p \<longleftrightarrow> remote_capabilities p \<noteq> None"

text \<open>
  The protocols that can be connected: that of the peer manager, and those of the services; in
  Python 3 a name can only match when it is a text.
\<close>

definition connectable :: "pm_config \<Rightarrow> protocol_class set" where
  "connectable cfg = insert p2p_protocol
     {c. c \<in> sv_protocol ` set (services cfg) \<and> (py3 cfg \<longrightarrow> (\<exists>b. pc_name c = Str b))}"

definition protocols_ok :: "pm_config \<Rightarrow> peer \<Rightarrow> bool" where
  "protocols_ok cfg p \<longleftrightarrow>
     (case protocols p of
        None \<Rightarrow> is_stopped p
      | Some cs \<Rightarrow> \<not> is_stopped p \<and> distinct cs \<and> set cs \<subseteq> connectable cfg)"

definition key_ok :: "pm_config \<Rightarrow> peer \<Rightarrow> bool" where
  "key_ok cfg p \<longleftrightarrow> (accepted p \<longrightarrow>
     (\<exists>k. ms_remote_pubkey (session p) = Some k \<and> length k = 64 \<and> k \<noteq> own_id cfg))"

definition accepted_keys_distinct :: "net \<Rightarrow> bool" where
  "accepted_keys_distinct s \<longleftrightarrow>
     (\<forall>i \<in> set (peers s). \<forall>j \<in> set (peers s). accepted (peer_at s i) \<longrightarrow> accepted (peer_at s j) \<longrightarrow>
        ms_remote_pubkey (session (peer_at s i)) = ms_remote_pubkey (session (peer_at s j)) \<longrightarrow> i = j)"

text \<open>A hello could be made: no service has a text for the name of its protocol.\<close>

definition sendable_names :: "pm_config \<Rightarrow> bool" where
  "sendable_names cfg \<longleftrightarrow> (\<forall>sv \<in> set (services cfg). \<exists>b. pc_name (sv_protocol sv) = ByteStr b)"

definition net_inv :: "pm_config \<Rightarrow> net \<Rightarrow> bool" where
  "net_inv cfg s \<longleftrightarrow>
     distinct (peers s) \<and> (\<forall>i \<in> set (peers s). i < next_peer s \<and> \<not> is_stopped (peer_at s i)) \<and>
     (\<forall>i < next_peer s. protocols_ok cfg (peer_at s i) \<and> key_ok cfg (peer_at s i)) \<and>
     length (filter (\<lambda>i. accepted (peer_at s i)) (peers s)) \<le> max_peers cfg \<and> accepted_keys_distinct s \<and>
     (0 < next_peer s \<longrightarrow> sendable_names cfg)"

lemma net_invD:
  assumes "net_inv cfg s"
  shows "distinct (peers s)" "i \<in> set (peers s) \<Longrightarrow> i < next_peer s" "i \<in> set (peers s) \<Longrightarrow> \<not> is_stopped (peer_at s i)"
    "i < next_peer s \<Longrightarrow> protocols_ok cfg (peer_at s i)" "i < next_peer s \<Longrightarrow> key_ok cfg (peer_at s i)"
    "length (filter (\<lambda>i. accepted (peer_at s i)) (peers s)) \<le> max_peers cfg" "accepted_keys_distinct s"
    "0 < next_peer s \<Longrightarrow> sendable_names cfg"
  using assms by (simp_all add: net_inv_def)

text \<open>What the invariant looks at.\<close>

definition core :: "peer \<Rightarrow> bool \<times> protocol_class list option \<times> (bytes \<times> nat) list option \<times> bytes option" where
  "core p = (is_stopped p, protocols p, remote_capabilities p, ms_remote_pubkey (session p))"

lemma core_parts:
  assumes "core p = core q"
  shows "is_stopped p = is_stopped q" "protocols p = protocols q" "accepted p = accepted q"
    "ms_remote_pubkey (session p) = ms_remote_pubkey (session q)" "protocols_ok cfg p = protocols_ok cfg q"
    "key_ok cfg p = key_ok cfg q"
  using assms by (simp_all add: core_def accepted_def protocols_ok_def key_ok_def split: option.split)

lemma net_inv_cong:
  assumes "peers s' = peers s" "next_peer s' = next_peer s" "\<And>i. core (peer_at s' i) = core (peer_at s i)"
  shows "net_inv cfg s' = net_inv cfg s"
  using core_parts [OF assms(3)] by (simp add: net_inv_def accepted_keys_distinct_def assms(1,2))

section \<open>Statements that leave it alone\<close>

lemma upd_keeps: "(\<And>p. core (f p) = core p) \<Longrightarrow> keeps (net_inv cfg) (upd i f)"
  unfolding upd_def by (rule keeps_modify) (subst net_inv_cong; simp)

lemma look_keeps: "keeps I (look i f)"
  unfolding look_def by (rule keeps_gets)

text \<open>Nothing in a session but the setter changes the key that was set.\<close>

lemma on_mux_key: "keeps (\<lambda>ms. ms_remote_pubkey ms = x) (on_mux f)"
  by (auto simp: keeps_def on_mux_def split: prod.split)

lemma on_rlpx_key: "keeps (\<lambda>ms. ms_remote_pubkey ms = x) (on_rlpx f)"
  unfolding on_rlpx_def by (rule on_mux_key)

lemma put_message_key: "keeps (\<lambda>ms. ms_remote_pubkey ms = x) (put_message b)"
  unfolding put_message_def by (rule keeps_modify) simp

lemma put_frame_key: "keeps (\<lambda>ms. ms_remote_pubkey ms = x) (put_frame L P f)"
  unfolding put_frame_def split_beta by (intro keeps_seq on_rlpx_key put_message_key)

lemma ms_add_packet_key: "keeps (\<lambda>ms. ms_remote_pubkey ms = x) (ms_add_packet L P pk)"
  unfolding ms_add_packet_def by (intro keeps_seq keeps_gets keeps_assert on_mux_key keeps_for_each put_frame_key)

lemma post_handshake_key: "keeps (\<lambda>ms. ms_remote_pubkey ms = x) (add_message_post_handshake L P msg)"
  unfolding add_message_post_handshake_def by (intro keeps_seq on_mux_key keeps_modify) simp

lemma add_message_key: "keeps (\<lambda>ms. ms_remote_pubkey ms = x) (add_message L P E r msg)"
  unfolding add_message_def add_message_during_handshake_def
  by (intro keeps_seq keeps_gets keeps_if keeps_ret keeps_assert on_rlpx_key put_message_key post_handshake_key
      ms_add_packet_key) (rule keeps_modify, simp)

lemma on_session_keeps:
  assumes "\<And>x. keeps (\<lambda>ms. ms_remote_pubkey ms = x) m"
  shows "keeps (net_inv cfg) (on_session i m)"
  unfolding keeps_def
proof (intro allI impI)
  fix s assume s: "net_inv cfg s"
  obtain r ms where m: "m (session (peer_at s i)) = (r, ms)" by force
  have "ms_remote_pubkey ms = ms_remote_pubkey (session (peer_at s i))" by (rule keeps_result [OF assms refl m])
  then have "net_inv cfg (snd (on_session i m s)) = net_inv cfg s"
    by (intro net_inv_cong) (simp_all add: on_session_def m core_def)
  with s show "net_inv cfg (snd (on_session i m s))" by simp
qed

lemma errors_add_keeps: "keeps (net_inv cfg) (errors_add cfg' a e v)"
  unfolding errors_add_def
  by (intro keeps_if keeps_seq keeps_ret; rule keeps_modify, subst net_inv_cong; simp)

lemma report_error_keeps: "keeps (net_inv cfg) (report_error cfg' i e)"
  unfolding report_error_def split_beta by (intro keeps_seq look_keeps errors_add_keeps)

lemma the_protocols_keeps: "keeps I (the_protocols i)"
  unfolding the_protocols_def by (intro keeps_seq look_keeps keeps_option keeps_ret keeps_throw)

lemma send_packet_keeps: "keeps (net_inv cfg) (send_packet N i pk)"
  unfolding send_packet_def
  by (intro keeps_seq look_keeps the_protocols_keeps keeps_lift on_session_keeps ms_add_packet_key)

lemma send_p2p_keeps: "keeps (net_inv cfg) (send_p2p N i d)"
  unfolding send_p2p_def by (intro keeps_seq keeps_lift send_packet_keeps)

lemma send_disconnect_keeps: "keeps (net_inv cfg) (send_disconnect N i r)"
  unfolding send_disconnect_def
  by (intro keeps_seq report_error_keeps upd_keeps send_p2p_keeps) (simp add: core_def)

section \<open>The end of a peer\<close>

lemma filter_remove1_le: "length (filter P (remove1 x xs)) \<le> length (filter P xs)"
  by (induction xs) auto

lemma stop_inv:
  assumes "net_inv cfg s"
  shows "net_inv cfg (snd (stop i s))"
proof (cases "is_stopped (peer_at s i)")
  case True
  with assms show ?thesis by (simp add: stop_def look_def step_simps ret_def)
next
  case False
  define t where "t = s\<lparr>peer_at := (peer_at s)(i := (peer_at s i)\<lparr>is_stopped := True, monitor_started := False, protocols := None\<rparr>)\<rparr>"
  have t: "snd (stop i s) = (if i \<in> set (peers s) then t\<lparr>peers := remove1 i (peers s)\<rparr> else t)"
    using False by (auto simp: stop_def look_def upd_def remove_peer_def step_simps throw_def t_def)
  have acc: "accepted (peer_at t j) = accepted (peer_at s j)" "session (peer_at t j) = session (peer_at s j)" for j
    by (simp_all add: t_def accepted_def)
  have ok: "protocols_ok cfg (peer_at t j) \<and> key_ok cfg (peer_at t j)" if "j < next_peer s" for j
    using net_invD(4,5) [OF assms that] by (auto simp: t_def protocols_ok_def key_ok_def accepted_def)
  have stopped: "is_stopped (peer_at t j) = (j = i \<or> is_stopped (peer_at s j))" for j by (simp add: t_def)
  have same: "peers t = peers s" "next_peer t = next_peer s" by (simp_all add: t_def)
  show ?thesis
  proof (cases "i \<in> set (peers s)")
    case True
    have sub: "set (remove1 i (peers s)) = set (peers s) - {i}" using net_invD(1) [OF assms] by (rule set_remove1_eq)
    have "length (filter (\<lambda>j. accepted (peer_at s j)) (remove1 i (peers s))) \<le> max_peers cfg"
      using filter_remove1_le net_invD(6) [OF assms] by (rule order_trans)
    then show ?thesis using True net_invD(1-3,7,8) [OF assms] ok
      by (auto simp: t net_inv_def sub acc stopped same accepted_keys_distinct_def)
  next
    case False
    then show ?thesis using net_invD(1-3,6-8) [OF assms] ok
      by (auto simp: t net_inv_def acc stopped same accepted_keys_distinct_def)
  qed
qed

lemma stop_keeps: "keeps (net_inv cfg) (stop i)"
  by (simp add: keeps_def stop_inv)

lemma try_catch_keeps: "keeps I m \<Longrightarrow> (\<And>e. keeps I (f e)) \<Longrightarrow> keeps I (try_catch m f)"
  unfolding keeps_def try_catch_def by (metis (no_types, lifting) case_prod_beta eq_snd_iff sum.case_eq_if)

section \<open>New protocols and the hello\<close>

lemma keeps_look_seq: "(\<And>s. I s \<Longrightarrow> I (snd (g (f (peer_at s i)) s))) \<Longrightarrow> keeps I (seq (look i f) g)"
  by (simp add: keeps_def look_def seq_gets_run)

text \<open>A peer replaced by one that differs in its protocols and in what the invariant ignores.\<close>

lemma replace_inv:
  assumes "net_inv cfg s" "is_stopped q = is_stopped (peer_at s i)" "accepted q = accepted (peer_at s i)"
    "ms_remote_pubkey (session q) = ms_remote_pubkey (session (peer_at s i))" "i < next_peer s \<Longrightarrow> protocols_ok cfg q"
  shows "net_inv cfg (s\<lparr>peer_at := (peer_at s)(i := q)\<rparr>)"
proof -
  let ?t = "s\<lparr>peer_at := (peer_at s)(i := q)\<rparr>"
  have same: "is_stopped (peer_at ?t j) = is_stopped (peer_at s j)" "accepted (peer_at ?t j) = accepted (peer_at s j)"
    "ms_remote_pubkey (session (peer_at ?t j)) = ms_remote_pubkey (session (peer_at s j))"
    "key_ok cfg (peer_at ?t j) = key_ok cfg (peer_at s j)" "j < next_peer s \<Longrightarrow> protocols_ok cfg (peer_at ?t j)" for j
    using assms(2-5) net_invD(4) [OF assms(1)] by (auto simp: key_ok_def)
  have "accepted_keys_distinct ?t"
    using net_invD(7) [OF assms(1)] unfolding accepted_keys_distinct_def same by simp
  then show ?thesis using net_invD(1-3,5,6,8) [OF assms(1)] same(5) unfolding net_inv_def same by simp
qed

lemma register_inv:
  assumes "net_inv cfg s" "protocols (peer_at s i) = Some cs" "c \<notin> set cs" "c \<in> connectable cfg"
  shows "net_inv cfg (s\<lparr>peer_at := (peer_at s)(i := (peer_at s i)\<lparr>protocols := Some (cs @ [c])\<rparr>)\<rparr>)"
proof (rule replace_inv [OF assms(1)])
  assume "i < next_peer s"
  then have "protocols_ok cfg (peer_at s i)" by (rule net_invD(4) [OF assms(1)])
  then show "protocols_ok cfg ((peer_at s i)\<lparr>protocols := Some (cs @ [c])\<rparr>)"
    using assms(2-4) by (auto simp: protocols_ok_def)
qed (simp_all add: accepted_def)

lemma connect_service_keeps:
  assumes "sv_protocol sv \<in> connectable cfg"
  shows "keeps (net_inv cfg) (connect_service now i sv)"
  unfolding connect_service_def Let_def
proof (intro keeps_seq [OF keeps_if] keeps_ret upd_keeps keeps_look_seq)
  fix s assume s: "net_inv cfg s"
  let ?c = "sv_protocol sv"
  have reg: "keeps (net_inv cfg) (on_session i (on_mux (add_protocol (pc_protocol_id ?c))))"
    by (intro on_session_keeps on_mux_key)
  show "net_inv cfg (snd ((case protocols (peer_at s i) of None \<Rightarrow> throw TypeError
      | Some cs \<Rightarrow> seq (py_assert (?c \<notin> set cs)) (\<lambda>_. seq (upd i (\<lambda>p. p\<lparr>protocols := Some (cs @ [?c])\<rparr>)) (\<lambda>_.
          on_session i (on_mux (add_protocol (pc_protocol_id ?c)))))) s))"
  proof (cases "protocols (peer_at s i)")
    case (Some cs)
    with s assms show ?thesis
      by (cases "?c \<in> set cs") (auto simp: upd_def step_simps py_assert_def seq_lift_run intro!: keepsD [OF reg] register_inv)
  qed (use s in \<open>simp add: throw_def\<close>)
qed (simp add: core_def)

text \<open>When the manager agrees, there is room, and no other peer has the key.\<close>

definition admissible :: "'i net_lib \<Rightarrow> nat \<Rightarrow> bytes \<Rightarrow> net \<Rightarrow> bool" where
  "admissible N i k s \<longleftrightarrow> length (peers s) \<le> max_peers (nl_config N) \<and>
     (\<forall>j \<in> set (peers s). j \<noteq> i \<longrightarrow> remote_pubkey (peer_at s j) \<noteq> Some k)"

lemma on_hello_received_triple:
  "triple (net_inv cfg) (on_hello_received N i k) (\<lambda>r s. net_inv cfg s \<and> (r \<longrightarrow> admissible N i k s)) (\<lambda>_. net_inv cfg)"
proof (rule tripleI)
  have refused: "keeps (net_inv cfg) (seq (send_disconnect N i r) (\<lambda>_. ret False))" for r
    by (intro keeps_seq send_disconnect_keeps keeps_ret)
  have never: "seq (send_disconnect N i r) (\<lambda>_. ret False) s = (Inr True, s') \<longleftrightarrow> False" for r s s'
    by (auto simp: seq_eq_Inr ret_eq_Inr)
  fix s x s' assume s: "net_inv cfg s"
  {
    assume "on_hello_received N i k s = (Inr x, s')"
    then show "net_inv cfg s' \<and> (x \<longrightarrow> admissible N i k s')"
      using s keeps_result [OF refused] never
      by (cases x) (auto simp: on_hello_received_def seq_gets_run ret_def admissible_def image_iff split: if_splits)
  next
    fix e assume "on_hello_received N i k s = (Inl e, s')"
    then show "net_inv cfg s'"
      using s keeps_result [OF refused] by (auto simp: on_hello_received_def seq_gets_run ret_def split: if_splits)
  }
qed

text \<open>The key is set, and the peer counts as accepted.\<close>

lemma remote_pubkey_set: "ms_remote_pubkey (session p) = Some k \<Longrightarrow> length k = 64 \<Longrightarrow> remote_pubkey p = Some k"
  by (auto simp: remote_pubkey_def ms_get_remote_pubkey_def py_or_def)

lemma accept_inv:
  assumes "net_inv (nl_config N) s" "admissible N i k s" "length k = 64" "k \<noteq> own_id (nl_config N)"
    and q: "is_stopped q = is_stopped (peer_at s i)" "protocols q = protocols (peer_at s i)"
      "ms_remote_pubkey (session q) = Some k"
  shows "net_inv (nl_config N) (s\<lparr>peer_at := (peer_at s)(i := q)\<rparr>)"
proof -
  let ?cfg = "nl_config N" and ?t = "s\<lparr>peer_at := (peer_at s)(i := q)\<rparr>"
  note inv = net_invD [OF assms(1)]
  have "protocols_ok ?cfg (peer_at ?t j) \<and> key_ok ?cfg (peer_at ?t j)" if "j < next_peer s" for j
    using inv(4,5) [OF that] q assms(3,4) by (cases "protocols (peer_at s i)") (auto simp: protocols_ok_def key_ok_def)
  moreover have "length (filter (\<lambda>j. accepted (peer_at ?t j)) (peers ?t)) \<le> max_peers ?cfg"
    using assms(2) by (intro order_trans [OF length_filter_le]) (simp add: admissible_def)
  moreover have "accepted_keys_distinct ?t"
  proof -
    have other: "ms_remote_pubkey (session (peer_at s j)) \<noteq> Some k" if "j \<in> set (peers s)" "j \<noteq> i" for j
      using assms(2,3) that remote_pubkey_set [of "peer_at s j" k] unfolding admissible_def by blast
    show ?thesis using inv(7) other q(3)
      unfolding accepted_keys_distinct_def by (auto simp: eq_commute [of "Some k"])
  qed
  ultimately show ?thesis using inv(1-3,8) q(1) by (auto simp: net_inv_def)
qed

lemma accept_run:
  "seq (upd i f) (\<lambda>_. seq (set_remote_pubkey i v) (\<lambda>_. seq (upd i g) (\<lambda>_. m))) s =
   m (s\<lparr>peer_at := (peer_at s)(i := g ((f (peer_at s i))\<lparr>remote_pubkey_available := (py_or v [] \<noteq> []),
     session := (session (f (peer_at s i)))\<lparr>ms_remote_pubkey := v\<rparr>\<rparr>))\<rparr>)"
  by (simp add: upd_def set_remote_pubkey_def on_session_def ms_set_remote_pubkey_def seq_def modify_def)

lemma remote_services_names: "remote_services three caps = Inr remote \<Longrightarrow> three \<Longrightarrow> r \<in> set remote \<Longrightarrow> \<exists>b. fst r = Str b"
  by (induction three caps arbitrary: remote rule: remote_services.induct) (auto simp: bind_res_eq_Inr split: if_splits)

lemma connect_common_keeps:
  assumes "sv \<in> set (services (nl_config N))" "remote_services (py3 (nl_config N)) caps = Inr remote"
  shows "keeps (net_inv (nl_config N)) (connect_common N now i remote sv)"
proof -
  have "sv_protocol sv \<in> connectable (nl_config N)" if "(pc_name (sv_protocol sv), v) \<in> set remote" for v
    using assms(1) remote_services_names [OF assms(2) _ that] by (auto simp: connectable_def)
  then show ?thesis unfolding connect_common_def Let_def
    by (intro keeps_if keeps_ret connect_service_keeps report_error_keeps)
qed

lemma receive_hello_keeps:
  assumes "h_remote_pubkey h \<noteq> own_id (nl_config N)"
  shows "keeps (net_inv (nl_config N)) (receive_hello N now i h)"
proof (cases "length (h_remote_pubkey h) = 64")
  case False
  then show ?thesis by (simp add: receive_hello_def keeps_def py_assert_def seq_lift_run)
next
  case True
  let ?I = "net_inv (nl_config N)" and ?k = "h_remote_pubkey h"
  define rest where "rest = seq (lift_res (remote_services (py3 (nl_config N)) (h_capabilities h))) (\<lambda>remote.
       for_each (sort_key sv_name (services (nl_config N))) (connect_common N now i remote))"
  have rest: "keeps ?I rest"
    unfolding rest_def by (intro keeps_lift_seq keeps_for_each connect_common_keeps) simp_all
  have agreed: "triple (\<lambda>s. ?I s \<and> (agree \<longrightarrow> admissible N i ?k s))
      (if \<not> agree then ret () else
         seq (upd i (\<lambda>p. p\<lparr>remote_client_version := h_client_version_string h\<rparr>)) (\<lambda>_.
         seq (set_remote_pubkey i (Some ?k)) (\<lambda>_.
         seq (upd i (\<lambda>p. p\<lparr>remote_capabilities := Some (h_capabilities h)\<rparr>)) (\<lambda>_. rest))))
      (\<lambda>_. ?I) (\<lambda>_. ?I)" for agree
  proof (cases agree)
    case True
    show ?thesis unfolding triple_def
    proof (intro allI impI)
      fix s assume "?I s \<and> (agree \<longrightarrow> admissible N i ?k s)"
      with True have s: "?I s" "admissible N i ?k s" by simp_all
      define q where "q = (peer_at s i)\<lparr>remote_client_version := h_client_version_string h, remote_pubkey_available := (?k \<noteq> []),
          session := (session (peer_at s i))\<lparr>ms_remote_pubkey := Some ?k\<rparr>, remote_capabilities := Some (h_capabilities h)\<rparr>"
      have "?I (s\<lparr>peer_at := (peer_at s)(i := q)\<rparr>)"
        by (rule accept_inv [OF s \<open>length ?k = 64\<close> assms]) (simp_all add: q_def)
      from keepsD [OF rest this] show "case (if \<not> agree then ret () else
         seq (upd i (\<lambda>p. p\<lparr>remote_client_version := h_client_version_string h\<rparr>)) (\<lambda>_.
         seq (set_remote_pubkey i (Some ?k)) (\<lambda>_.
         seq (upd i (\<lambda>p. p\<lparr>remote_capabilities := Some (h_capabilities h)\<rparr>)) (\<lambda>_. rest)))) s
         of (Inl e, s') \<Rightarrow> ?I s' | (Inr x, s') \<Rightarrow> ?I s'"
        using True by (auto simp: accept_run py_or_def q_def split: prod.split sum.split)
    qed
  qed (simp add: triple_ret)
  have version: "keeps ?I (if h_version h \<le> compatible_p2p_version
      then upd i (\<lambda>p. p\<lparr>offset_based_dispatch := True\<rparr>) else send_disconnect N i reason_incompatible_p2p_version)"
    by (intro keeps_if upd_keeps send_disconnect_keeps) (simp add: core_def)
  show ?thesis
    unfolding receive_hello_def rest_def [symmetric] split_beta keeps_triple
    by (rule triple_keeps_seq [OF keeps_assert], rule triple_keeps_seq [OF look_keeps], rule triple_keeps_seq [OF keeps_assert],
        rule triple_keeps_seq [OF upd_keeps], simp add: core_def, rule triple_keeps_seq [OF version],
        rule triple_seq [OF on_hello_received_triple agreed])
qed

end
