(* ===== verification/Peer_Events.thy ===== *)
theory Peer_Events
  imports Peer_Invariant
begin

text \<open>
  Every event keeps the invariant of the peer manager.
\<close>

section \<open>Packets\<close>

abbreviation net_ok :: "'i net_lib \<Rightarrow> net \<Rightarrow> bool" where
  "net_ok N \<equiv> net_inv (nl_config N)"

lemma p2p_receive_keeps: "keeps (net_ok N) (p2p_receive N now i d)"
proof (cases d)
  case (HelloData h)
  have "keeps (net_ok N) (upd i (\<lambda>p. p\<lparr>monitor_started := True\<rparr>))" by (rule upd_keeps) (simp add: core_def)
  then show ?thesis
    by (auto simp: HelloData p2p_receive_defs intro!: keeps_if send_disconnect_keeps keeps_seq receive_hello_keeps)
next
  case PongData
  have "keeps (net_ok N) (track_response now i)" unfolding track_response_def by (rule upd_keeps) (simp add: core_def)
  then show ?thesis by (simp add: PongData p2p_receive_defs)
qed (auto simp: p2p_receive_defs intro!: send_p2p_keeps keeps_seq report_error_keeps stop_keeps)

lemma receive_packet_keeps: "keeps (net_ok N) (receive_packet N now i c cmd payload)"
proof -
  have app: "keeps (net_ok N) (modify (\<lambda>s. s\<lparr>delivered := delivered s @ [(i, c, cmd, payload)]\<rparr>))"
    by (rule keeps_modify) (subst net_inv_cong; simp)
  show ?thesis unfolding receive_packet_def stop_protocol_def
    by (intro try_catch_keeps keeps_seq keeps_lift keeps_if app p2p_receive_keeps stop_keeps keeps_throw keeps_ret)
qed

lemma peer_handle_packet_keeps: "keeps (net_ok N) (peer_handle_packet N now i pk)"
  unfolding peer_handle_packet_def split_beta
  by (intro try_catch_keeps keeps_seq keeps_lift keeps_if keeps_ret stop_keeps look_keeps the_protocols_keeps
      receive_packet_keeps)

section \<open>Greenlets and timers\<close>

lemma keeps_list_case: "keeps I m \<Longrightarrow> (\<And>x xs. keeps I (f x xs)) \<Longrightarrow> keeps I (case l of [] \<Rightarrow> m | x # xs \<Rightarrow> f x xs)"
  by (cases l) auto

lemma keeps_read_case:
  "(\<And>data. keeps I (f data)) \<Longrightarrow> (\<And>e. keeps I (g e)) \<Longrightarrow>
   keeps I (case imsg of Received data \<Rightarrow> f data | ReadError e \<Rightarrow> g e)"
  by (cases imsg) auto

lemma queue_keeps:
  "keeps (net_inv cfg) (on_session i (modify (\<lambda>s. s\<lparr>ms_packets := rest\<rparr>)))"
  "keeps (net_inv cfg) (on_session i (modify (\<lambda>s. s\<lparr>ms_messages := msgs\<rparr>)))"
  by (rule on_session_keeps, rule keeps_modify, simp)+

lemma greenlets_keep:
  "keeps (net_ok N) (run_decoded_packet N now i)" "keeps (net_ok N) (run_egress_message N i ok)"
  "keeps (net_ok N) (peer_greenlet N i r imsg)"
proof -
  have wire: "keeps (net_ok N) (upd i (\<lambda>p. p\<lparr>wire := wire p @ [data]\<rparr>))" for data
    by (rule upd_keeps) (simp add: core_def)
  show "keeps (net_ok N) (run_decoded_packet N now i)"
    unfolding run_decoded_packet_def split_beta
    by (intro keeps_seq look_keeps keeps_if keeps_ret keeps_list_case queue_keeps peer_handle_packet_keeps)
  show "keeps (net_ok N) (run_egress_message N i ok)"
    unfolding run_egress_message_def split_beta
    by (intro keeps_seq look_keeps keeps_if keeps_ret keeps_list_case queue_keeps wire report_error_keeps stop_keeps)
  show "keeps (net_ok N) (peer_greenlet N i r imsg)"
    unfolding peer_greenlet_def run_ingress_message_def on_peer_exit_def
    by (intro try_catch_keeps keeps_seq look_keeps keeps_if keeps_read_case keeps_ret keeps_throw report_error_keeps stop_keeps
        on_session_keeps add_message_key)
qed

lemma timers_keep:
  "keeps (net_ok N) (check_if_dumb_remote N i)" "keeps (net_ok N) (stop_timer i)"
  "keeps (net_ok N) (monitor_ping N now i)" "keeps (net_ok N) (monitor_check N i)"
  unfolding check_if_dumb_remote_def stop_timer_def monitor_ping_def monitor_check_def split_beta
  by (intro keeps_seq look_keeps keeps_if keeps_ret report_error_keeps stop_keeps try_catch_keeps send_p2p_keeps
      upd_keeps; simp add: core_def)+

section \<open>New peers\<close>

text \<open>A peer that has just been made is known to nobody.\<close>

definition fresh_peer :: "nat \<Rightarrow> net \<Rightarrow> bool" where
  "fresh_peer i s \<longleftrightarrow> i < next_peer s \<and> i \<notin> set (peers s) \<and> \<not> is_stopped (peer_at s i) \<and> \<not> accepted (peer_at s i)"

lemma upd_fresh:
  "(\<And>p. is_stopped (f p) = is_stopped p \<and> accepted (f p) = accepted p) \<Longrightarrow> keeps (fresh_peer i) (upd j f)"
  unfolding upd_def by (rule keeps_modify) (auto simp: fresh_peer_def)

lemma on_session_fresh: "keeps (fresh_peer i) (on_session j m)"
  by (auto simp: keeps_def on_session_def fresh_peer_def accepted_def split: prod.split)

lemma connect_service_fresh: "keeps (fresh_peer i) (connect_service now j sv)"
  unfolding connect_service_def Let_def
  by (intro keeps_seq keeps_if keeps_ret look_keeps keeps_option keeps_throw keeps_assert upd_fresh on_session_fresh)
    (simp_all add: accepted_def)

lemma keeps_both: "keeps I m \<Longrightarrow> keeps J m \<Longrightarrow> keeps (\<lambda>s. I s \<and> J s) m"
  by (simp add: keeps_def)

lemma alloc_inv:
  assumes "net_inv cfg s" "p = (blank_peer cn ms)\<lparr>remote_pubkey_available := b, session := ms'\<rparr>" "sendable_names cfg"
  shows "net_inv cfg (s\<lparr>next_peer := next_peer s + 1, peer_at := (peer_at s)(next_peer s := p)\<rparr>)"
    "fresh_peer (next_peer s) (s\<lparr>next_peer := next_peer s + 1, peer_at := (peer_at s)(next_peer s := p)\<rparr>)"
proof -
  let ?t = "s\<lparr>next_peer := next_peer s + 1, peer_at := (peer_at s)(next_peer s := p)\<rparr>"
  note inv = net_invD [OF assms(1)]
  have out: "next_peer s \<notin> set (peers s)" using inv(2) by blast
  have p: "\<not> accepted p" "\<not> is_stopped p" "protocols p = Some []" by (simp_all add: assms(2) blank_peer_def accepted_def)
  have old: "j \<in> set (peers s) \<Longrightarrow> peer_at ?t j = peer_at s j" for j using out by auto
  have "protocols_ok cfg (peer_at ?t j) \<and> key_ok cfg (peer_at ?t j)" if "j < next_peer s + 1" for j
  proof (cases "j = next_peer s")
    case False
    then have "j < next_peer s" "peer_at ?t j = peer_at s j" using that by auto
    then show ?thesis using inv(4,5) by simp
  qed (simp add: p protocols_ok_def key_ok_def)
  moreover have "filter (\<lambda>j. accepted (peer_at ?t j)) (peers s) = filter (\<lambda>j. accepted (peer_at s j)) (peers s)"
    by (rule filter_cong [OF refl]) (simp only: old)
  moreover have "accepted_keys_distinct ?t" using inv(7) old unfolding accepted_keys_distinct_def by simp
  moreover have "j < next_peer s + 1 \<and> \<not> is_stopped (peer_at ?t j)" if "j \<in> set (peers s)" for j
    unfolding old [OF that] using inv(2,3) [OF that] by simp
  ultimately show "net_inv cfg ?t" using inv(1,6) assms(3) unfolding net_inv_def by simp
  show "fresh_peer (next_peer s) ?t" using out p by (simp add: fresh_peer_def)
qed

lemma hello_names: "get_hello_packet N = Inr h \<Longrightarrow> sendable_names (nl_config N)"
proof -
  have "announced svs = Inr caps \<Longrightarrow> \<forall>sv \<in> set svs. \<exists>b. pc_name (sv_protocol sv) = ByteStr b" for svs caps
    by (induction svs arbitrary: caps) (auto simp: bind_res_eq_Inr split: pyname.splits)
  then show "get_hello_packet N = Inr h \<Longrightarrow> ?thesis"
    by (auto simp: get_hello_packet_def sendable_names_def Let_def bind_res_eq_Inr)
qed

lemma new_peer_triple:
  "triple (net_ok N) (new_peer N now cn pk) (\<lambda>i s. net_ok N s \<and> fresh_peer i s) (\<lambda>_. net_ok N)"
  unfolding triple_def
proof (intro allI impI)
  fix s assume s: "net_ok N s"
  show "case new_peer N now cn pk s of (Inl e, s') \<Rightarrow> net_ok N s' | (Inr i, s') \<Rightarrow> net_ok N s' \<and> fresh_peer i s'"
  proof (cases "get_hello_packet N")
    case (Inl e)
    with s show ?thesis by (simp add: new_peer_def seq_lift_run)
  next
    case (Inr hello)
    obtain r ms where ms: "new_msession (nl_crypto N) (cn_draws cn) (node_key (nl_config N)) (cn_ephemeral cn) hello pk = (r, ms)"
      by force
    show ?thesis
    proof (cases r)
      case (Inl e)
      with s Inr ms show ?thesis by (simp add: new_peer_def seq_lift_run throw_def)
    next
      case r: (Inr u)
      let ?i = "next_peer s"
      define t where "t = s\<lparr>next_peer := ?i + 1, peer_at := (peer_at s)(?i :=
        (blank_peer cn ms)\<lparr>remote_pubkey_available := (py_or pk [] \<noteq> []), session := ms\<lparr>ms_remote_pubkey := pk\<rparr>\<rparr>)\<rparr>"
      obtain x t' where t': "connect_service now ?i peermanager_service t = (x, t')" by force
      have run: "new_peer N now cn pk s = seq (connect_service now ?i peermanager_service) (\<lambda>_. ret ?i) t"
        unfolding new_peer_def t_def
        by (simp add: seq_lift_run Inr ms r seq_gets_run seq_modify_run)
          (simp add: seq_def set_remote_pubkey_def upd_def on_session_def ms_set_remote_pubkey_def modify_def blank_peer_def)
      have "net_ok N t \<and> fresh_peer ?i t" unfolding t_def using alloc_inv [OF s refl hello_names [OF Inr]] by blast
      then have "net_ok N t' \<and> fresh_peer ?i t'"
        using keeps_result [OF keeps_both [OF connect_service_keeps connect_service_fresh] _ t', of "nl_config N"]
        by (auto simp: peermanager_service_def connectable_def)
      then show ?thesis unfolding run seq_def t' by (cases x) (auto simp: ret_def)
    qed
  qed
qed

lemma list_fresh_inv:
  assumes "net_inv cfg s" "fresh_peer i s"
  shows "net_inv cfg (s\<lparr>peers := peers s @ [i]\<rparr>)"
proof -
  note inv = net_invD [OF assms(1)]
  have f: "i < next_peer s" "i \<notin> set (peers s)" "\<not> is_stopped (peer_at s i)" "\<not> accepted (peer_at s i)"
    using assms(2) by (simp_all add: fresh_peer_def)
  have "accepted_keys_distinct (s\<lparr>peers := peers s @ [i]\<rparr>)"
    using inv(7) f(4) by (auto simp: accepted_keys_distinct_def)
  then show ?thesis using inv(1-6,8) f by (auto simp: net_inv_def)
qed

lemma start_peer_keeps: "keeps (net_ok N) (start_peer N now cn pk)"
proof -
  have add: "triple (\<lambda>s. net_ok N s \<and> fresh_peer i s) (modify (\<lambda>s. s\<lparr>peers := peers s @ [i]\<rparr>)) (\<lambda>_. net_ok N) (\<lambda>_. net_ok N)"
    for i by (rule triple_modify) (simp add: list_fresh_inv)
  have fin: "triple (net_ok N) (seq (py_assert (\<not> cn_closed cn)) (\<lambda>_. ret i)) (\<lambda>_. net_ok N) (\<lambda>_. net_ok N)" for i :: nat
    unfolding keeps_triple [symmetric] by (intro keeps_rules)
  show ?thesis unfolding start_peer_def keeps_triple
    by (rule triple_seq [OF new_peer_triple], rule triple_seq [OF add fin])
qed

lemma connect_keeps: "keeps (net_ok N) (connect N now address pk outcome)"
  by (cases outcome) (auto simp: connect_def intro!: keeps_seq errors_add_keeps keeps_ret start_peer_keeps)

section \<open>All events\<close>

lemma stop_from_keeps: "keeps (net_inv cfg) (stop_from fuel k)"
proof (induction fuel arbitrary: k)
  case (Suc fuel)
  have "keeps (net_inv cfg) (seq (stop j) (\<lambda>_. stop_from fuel (k + 1)))" for j
    by (rule keeps_seq [OF stop_keeps Suc])
  then show ?case by (simp add: keeps_def)
qed (simp add: keeps_def)

lemma net_step_keeps: "keeps (net_ok N) (net_step N now ev)"
proof (cases ev)
  case StopPeers
  then show ?thesis using stop_from_keeps by (simp add: net_step_def stop_peers_def keeps_def)
qed (auto simp: net_step_def send_command_def intro!: keeps_seq start_peer_keeps connect_keeps keeps_ret
    greenlets_keep timers_keep send_packet_keeps)

lemma net_reach_inv: "net_reach N s \<Longrightarrow> net_ok N s"
proof (induction rule: net_reach.induct)
  case (start junk)
  show ?case by (simp add: net_inv_def mk_net_def accepted_keys_distinct_def)
next
  case (step s ev now r s')
  then show ?case using keeps_result [OF net_step_keeps] by blast
qed

end
