(* ===== verification/Peer_Errors.thy ===== *)
theory Peer_Errors
  imports Peer_Events
begin

text \<open>
  How a peer ends: what \<open>stop\<close> and \<open>report_error\<close> do, when the manager agrees to a hello, a first message of the
  handshake that comes in parts, and the loop that stops all peers.
\<close>

section \<open>Statements in closed form\<close>

lemma stop_run:
  "stop j s = (if is_stopped (peer_at s j) then (Inr (), s)
     else let t = s\<lparr>peer_at := (peer_at s)(j := (peer_at s j)\<lparr>is_stopped := True, monitor_started := False, protocols := None\<rparr>)\<rparr>
          in if j \<in> set (peers s) then (Inr (), t\<lparr>peers := remove1 j (peers s)\<rparr>) else (Inl ValueError, t))"
  by (simp add: stop_def look_def upd_def remove_peer_def step_simps throw_def ret_def Let_def)

lemma seq_on_session_modify: "seq (on_session i (modify f)) g s = g () (s\<lparr>peer_at := (peer_at s)(i := (peer_at s i)\<lparr>session := f (session (peer_at s i))\<rparr>)\<rparr>)"
  by (simp add: on_session_def modify_def seq_run)

text \<open>The manager agrees when there is room and no other peer has the key.\<close>

lemma on_hello_agrees:
  assumes "admissible N i k s" "peers t = peers s" "\<And>j. session (peer_at t j) = session (peer_at s j)"
  shows "on_hello_received N i k t = (Inr True, t)"
  using assms by (auto simp: on_hello_received_def step_simps admissible_def ret_def remote_pubkey_def)

lemma report_error_run:
  "seq (report_error cfg i e) f s = f () (snd (report_error cfg i e s))"
  "peers (snd (report_error cfg i e s)) = peers s" "peer_at (snd (report_error cfg i e s)) = peer_at s"
  by (simp_all add: report_error_def errors_add_def look_def step_simps seq_def modify_def ret_def split: prod.splits)

section \<open>A first message in parts\<close>

text \<open>A responder needs the whole first message of the handshake at once.\<close>

lemma short_auth_fails:
  assumes "\<not> ms_post s" "\<not> ms_is_ready s" "\<not> ms_is_initiator s" "\<not> s_is_initiator (cipher_state (ms_mux s))"
    "length data < 307"
  shows "add_message L P E r data s = (Inl FormatError, s)"
proof -
  have "on_rlpx (decode_authentication P E data) s = (Inl FormatError, s)"
    using assms(4,5) by (simp add: on_rlpx_def on_mux_def on_cipher_def decode_authentication_def step_simps throw_def)
  then show ?thesis using assms(1-3)
    by (simp add: add_message_def add_message_during_handshake_def step_simps) (simp add: seq_def)
qed

section \<open>Stopping all peers\<close>

text \<open>The peers that are left when a list is iterated over from which the current element is taken.\<close>

fun every_second :: "'a list \<Rightarrow> 'a list" where
  "every_second [] = []"
| "every_second [x] = []"
| "every_second (x # y # xs) = y # every_second xs"

lemma every_second_subset: "set (every_second xs) \<subseteq> set xs"
  by (induction xs rule: every_second.induct) auto

declare stop_from.simps [simp del]

lemma stop_from_run:
  assumes "peers s = pre @ xs" "distinct (pre @ xs)" "\<forall>i \<in> set xs. \<not> is_stopped (peer_at s i)" "length xs \<le> fuel"
  shows "\<exists>s'. stop_from fuel (length pre) s = (Inr (), s') \<and> peers s' = pre @ every_second xs \<and>
    (\<forall>i. is_stopped (peer_at s' i) \<longleftrightarrow> is_stopped (peer_at s i) \<or> i \<in> set xs - set (every_second xs))"
  using assms
proof (induction xs arbitrary: pre s fuel rule: every_second.induct)
  case 1
  then show ?case by (subst stop_from.simps) (simp split: nat.split)
next
  case (2 x)
  obtain f where f: "fuel = Suc f" using 2 by (cases fuel) auto
  have "stop x s = (Inr (), s\<lparr>peer_at := (peer_at s)(x := (peer_at s x)\<lparr>is_stopped := True, monitor_started := False, protocols := None\<rparr>),
      peers := pre\<rparr>)" using 2 by (simp add: stop_run Let_def remove1_append)
  then show ?case using 2
    by (subst stop_from.simps) (simp add: f seq_def stop_from.simps [of f] split: nat.split)
next
  case (3 x y xs)
  obtain f where f: "fuel = Suc f" using 3 by (cases fuel) auto
  let ?s = "s\<lparr>peer_at := (peer_at s)(x := (peer_at s x)\<lparr>is_stopped := True, monitor_started := False, protocols := None\<rparr>),
      peers := pre @ y # xs\<rparr>"
  have stop: "stop x s = (Inr (), ?s)" using 3 by (simp add: stop_run Let_def remove1_append)
  have "\<exists>s'. stop_from f (length (pre @ [y])) ?s = (Inr (), s') \<and> peers s' = (pre @ [y]) @ every_second xs \<and>
    (\<forall>i. is_stopped (peer_at s' i) \<longleftrightarrow> is_stopped (peer_at ?s i) \<or> i \<in> set xs - set (every_second xs))"
    by (rule "3.IH") (use "3.prems" f in auto)
  moreover have "stop_from fuel (length pre) s = stop_from f (length (pre @ [y])) ?s"
    using "3.prems" by (subst stop_from.simps) (simp add: f seq_def stop)
  ultimately show ?case using "3.prems" every_second_subset [of xs] by auto
qed

end
