(* ===== verification/Peer_Agreement.thy ===== *)
theory Peer_Agreement
  imports Peer_Errors
begin

text \<open>
  What a hello leads to: which protocols are connected and in which order, and the key the peer has
  afterwards.
\<close>

section \<open>Connecting the common services\<close>

text \<open>The protocols that the loop of \<open>receive_hello\<close> connects.\<close>

definition common :: "(pyname \<times> nat) list \<Rightarrow> service list \<Rightarrow> protocol_class list" where
  "common remote svs = map sv_protocol (filter (\<lambda>sv. (pc_name (sv_protocol sv), pc_version (sv_protocol sv)) \<in> set remote \<and>
     sv \<noteq> peermanager_service) svs)"

lemma report_error_peers: "keeps (\<lambda>s. peer_at s = f \<and> peers s = ps) (report_error cfg i e)"
  unfolding report_error_def errors_add_def split_beta look_def
  by (intro keeps_seq keeps_gets keeps_if keeps_ret; rule keeps_modify; simp)

lemma connect_service_run:
  assumes "connect_service now i sv s = (Inr (), s')" "protocols (peer_at s i) = Some cs"
  shows "protocols (peer_at s' i) = Some (cs @ [sv_protocol sv])"
  using assms
  by (auto simp: connect_service_def Let_def run_simps look_def upd_def py_assert_def seq_lift_run assert_res_def
      on_session_def split: if_splits prod.splits option.splits)

lemma connect_common_run:
  assumes "connect_common N now i remote sv s = (Inr (), s')" "protocols (peer_at s i) = Some cs"
  shows "protocols (peer_at s' i) = Some (cs @ common remote [sv])"
proof -
  have err: "report_error (nl_config N) i WrongVersion s = (Inr (), s') \<Longrightarrow> protocols (peer_at s' i) = Some cs"
    using keeps_result [OF report_error_peers [of "peer_at s" "peers s"], of s] assms(2) by auto
  show ?thesis
    using assms err connect_service_run [OF _ assms(2), of now sv s']
    by (auto simp: connect_common_def common_def Let_def ret_eq_Inr image_iff split: if_splits)
qed

lemma connect_all_run:
  assumes "for_each svs (connect_common N now i remote) s = (Inr (), s')" "protocols (peer_at s i) = Some cs"
  shows "protocols (peer_at s' i) = Some (cs @ common remote svs)"
  using assms
proof (induction svs arbitrary: s cs)
  case Nil
  then show ?case by (simp add: ret_def common_def)
next
  case (Cons sv svs)
  then obtain s1 where 1: "connect_common N now i remote sv s = (Inr (), s1)"
    "for_each svs (connect_common N now i remote) s1 = (Inr (), s')" by (auto simp: seq_eq_Inr)
  from Cons.IH [OF 1(2) connect_common_run [OF 1(1) Cons.prems(2)]] show ?case by (simp add: common_def)
qed

section \<open>The hello as a whole\<close>

lemma send_protocols: "keeps (\<lambda>s. protocols (peer_at s i) = x \<and> remote_capabilities (peer_at s i) = y) (send_packet N j pk)"
  unfolding send_packet_def the_protocols_def look_def
  by (intro keeps_seq keeps_gets keeps_option keeps_throw keeps_ret keeps_lift)
    (auto simp: keeps_def on_session_def split: prod.split)

lemma upd_protocols:
  "(\<And>p. protocols (f p) = protocols p \<and> remote_capabilities (f p) = remote_capabilities p) \<Longrightarrow>
   keeps (\<lambda>s. protocols (peer_at s i) = x \<and> remote_capabilities (peer_at s i) = y) (upd j f)"
  unfolding upd_def by (rule keeps_modify) auto

lemma report_protocols:
  "keeps (\<lambda>s. protocols (peer_at s i) = x \<and> remote_capabilities (peer_at s i) = y) (report_error cfg j e)"
  unfolding report_error_def errors_add_def split_beta look_def
  by (intro keeps_seq keeps_gets keeps_if keeps_ret; rule keeps_modify; simp)

lemma send_disconnect_protocols:
  "keeps (\<lambda>s. protocols (peer_at s i) = x \<and> remote_capabilities (peer_at s i) = y) (send_disconnect N j r)"
  unfolding send_disconnect_def send_p2p_def
  by (intro keeps_seq keeps_lift send_protocols upd_protocols report_protocols) simp

lemma on_hello_protocols:
  "keeps (\<lambda>s. protocols (peer_at s i) = x \<and> remote_capabilities (peer_at s i) = y) (on_hello_received N j k)"
  unfolding on_hello_received_def
  by (intro keeps_seq keeps_gets keeps_if keeps_ret send_disconnect_protocols)

text \<open>A hello that makes the peer an accepted one connects the common protocols.\<close>

lemma receive_hello_run:
  assumes "receive_hello N now i h s = (Inr (), s')" "protocols (peer_at s i) = Some cs"
    "\<not> accepted (peer_at s i)" "accepted (peer_at s' i)"
  obtains remote where "remote_services (py3 (nl_config N)) (h_capabilities h) = Inr remote"
    "protocols (peer_at s' i) = Some (cs @ common remote (sort_key sv_name (services (nl_config N))))"
proof -
  let ?J = "\<lambda>s. protocols (peer_at s i) = Some cs \<and> remote_capabilities (peer_at s i) = None"
  have s: "?J s" using assms(2,3) by (simp add: accepted_def)
  have v: "keeps ?J (if h_version h \<le> compatible_p2p_version
      then upd i (\<lambda>p. p\<lparr>offset_based_dispatch := True\<rparr>) else send_disconnect N i reason_incompatible_p2p_version)"
    by (intro keeps_if upd_protocols send_disconnect_protocols) simp
  have u: "keeps ?J (upd i (\<lambda>p. p\<lparr>hello_received := True\<rparr>))" by (rule upd_protocols) simp
  define k where "k = (\<lambda>agree. if \<not> agree then ret () else
         seq (upd i (\<lambda>p. p\<lparr>remote_client_version := h_client_version_string h\<rparr>)) (\<lambda>_.
         seq (set_remote_pubkey i (Some (h_remote_pubkey h))) (\<lambda>_.
         seq (upd i (\<lambda>p. p\<lparr>remote_capabilities := Some (h_capabilities h)\<rparr>)) (\<lambda>_.
         seq (lift_res (remote_services (py3 (nl_config N)) (h_capabilities h))) (\<lambda>remote.
         for_each (sort_key sv_name (services (nl_config N))) (connect_common N now i remote))))))"
  obtain u1 u2 u3 agree where run: "upd i (\<lambda>p. p\<lparr>hello_received := True\<rparr>) s = (Inr (), u1)"
    "(if h_version h \<le> compatible_p2p_version
      then upd i (\<lambda>p. p\<lparr>offset_based_dispatch := True\<rparr>) else send_disconnect N i reason_incompatible_p2p_version) u1 = (Inr (), u2)"
    "on_hello_received N i (h_remote_pubkey h) u2 = (Inr agree, u3)"
    "k agree u3 = (Inr (), s')"
    using assms(1) unfolding receive_hello_def look_def seq_assert_Inr seq_gets_run split_beta k_def [symmetric]
    by (auto simp: seq_eq_Inr)
  have 3: "?J u3"
    using keeps_result [OF on_hello_protocols keeps_result [OF v keeps_result [OF u s run(1)] run(2)] run(3)] .
  show thesis
  proof (cases agree)
    case False
    with run(4) 3 assms(4) show thesis by (simp add: k_def ret_def accepted_def)
  next
    case True
    define q where "q = (peer_at u3 i)\<lparr>remote_client_version := h_client_version_string h,
        remote_pubkey_available := (h_remote_pubkey h \<noteq> []),
        session := (session (peer_at u3 i))\<lparr>ms_remote_pubkey := Some (h_remote_pubkey h)\<rparr>,
        remote_capabilities := Some (h_capabilities h)\<rparr>"
    from run(4) True obtain remote where r: "remote_services (py3 (nl_config N)) (h_capabilities h) = Inr remote"
      "for_each (sort_key sv_name (services (nl_config N))) (connect_common N now i remote)
         (u3\<lparr>peer_at := (peer_at u3)(i := q)\<rparr>) = (Inr (), s')"
      by (auto simp: k_def accept_run seq_lift_run py_or_def q_def split: sum.splits)
    have "protocols (peer_at (u3\<lparr>peer_at := (peer_at u3)(i := q)\<rparr>) i) = Some cs" using 3 by (simp add: q_def)
    from that [OF r(1) connect_all_run [OF r(2) this]] show thesis .
  qed
qed

section \<open>Both sides connect the same protocols in the same order\<close>

lemma announced_set:
  "announced svs = Inr caps \<Longrightarrow>
   (ByteStr b, v) \<in> set (map (\<lambda>(n, v). (ByteStr n, v)) caps) \<longleftrightarrow>
   (\<exists>sv \<in> set svs. pc_name (sv_protocol sv) = ByteStr b \<and> pc_version (sv_protocol sv) = v)"
  by (induction svs arbitrary: caps) (auto simp: bind_res_eq_Inr split: pyname.splits)

lemma remote_services_py2: "remote_services False caps = Inr (map (\<lambda>(n, v). (ByteStr n, v)) caps)"
  by (induction caps) auto

lemma common_sorted:
  assumes "distinct (map sv_name xs)" "distinct (map sv_name ys)" "{sv \<in> set xs. P sv} = {sv \<in> set ys. Q sv}"
  shows "filter P (sort_key sv_name xs) = filter Q (sort_key sv_name ys)"
proof -
  let ?A = "filter P (sort_key sv_name xs)" and ?B = "filter Q (sort_key sv_name ys)"
  have set: "set ?A = set ?B" using assms(3) by auto
  have d: "distinct (map sv_name (filter R (sort_key sv_name zs)))" if "distinct (map sv_name zs)" for R zs
    using that by (simp add: distinct_map inj_on_def)
  have s: "sorted (map sv_name (filter R (sort_key sv_name zs)))" for R zs
    by (rule sorted_filter) simp
  have "map sv_name ?A = map sv_name ?B"
    by (rule sorted_distinct_set_unique [OF s d [OF assms(1)] s d [OF assms(2)]]) (simp only: set_map set)
  moreover have "inj_on sv_name (set ?A \<union> set ?B)"
    using d [OF assms(1), of P] unfolding set [symmetric] Un_absorb distinct_map by blast
  ultimately show ?thesis by (rule map_inj_on)
qed

text \<open>A service of one side is among the capabilities of the other exactly when the other has it.\<close>

lemma offered:
  assumes "announced X = Inr caps'" "x \<in> set X" "announced Y = Inr caps"
    and "\<And>y. y \<in> set Y \<Longrightarrow> pc_name (sv_protocol x) = pc_name (sv_protocol y) \<Longrightarrow>
      pc_version (sv_protocol x) = pc_version (sv_protocol y) \<Longrightarrow> x = y"
  shows "(pc_name (sv_protocol x), pc_version (sv_protocol x)) \<in> set (map (\<lambda>(n, v). (ByteStr n, v)) caps) \<longleftrightarrow> x \<in> set Y"
proof -
  obtain b where b: "pc_name (sv_protocol x) = ByteStr b"
    using assms(1,2) by (induction X arbitrary: caps') (auto simp: bind_res_eq_Inr split: pyname.splits)
  show ?thesis unfolding b announced_set [OF assms(3)] using assms(4) b by (metis (no_types, lifting))
qed

lemma common_set:
  assumes "announced A = Inr capsA" "announced B = Inr capsB"
    and "\<And>a b. a \<in> set A \<Longrightarrow> b \<in> set B \<Longrightarrow> pc_name (sv_protocol a) = pc_name (sv_protocol b) \<Longrightarrow>
      pc_version (sv_protocol a) = pc_version (sv_protocol b) \<Longrightarrow> a = b"
  shows "set (common (map (\<lambda>(n, v). (ByteStr n, v)) capsB) (sort_key sv_name A)) =
    sv_protocol ` (set A \<inter> set B - {peermanager_service})"
proof -
  have "{sv \<in> set A. (pc_name (sv_protocol sv), pc_version (sv_protocol sv)) \<in> set (map (\<lambda>(n, v). (ByteStr n, v)) capsB) \<and>
      sv \<noteq> peermanager_service} = set A \<inter> set B - {peermanager_service}"
    using offered [OF assms(1) _ assms(2)] assms(3) by blast
  then show ?thesis unfolding common_def set_map set_filter set_sort by simp
qed

lemma sides_agree:
  assumes "announced A = Inr capsA" "announced B = Inr capsB" "distinct (map sv_name A)" "distinct (map sv_name B)"
    and same: "\<And>a b. a \<in> set A \<Longrightarrow> b \<in> set B \<Longrightarrow> pc_name (sv_protocol a) = pc_name (sv_protocol b) \<Longrightarrow>
      pc_version (sv_protocol a) = pc_version (sv_protocol b) \<Longrightarrow> a = b"
  shows "common (map (\<lambda>(n, v). (ByteStr n, v)) capsB) (sort_key sv_name A) =
    common (map (\<lambda>(n, v). (ByteStr n, v)) capsA) (sort_key sv_name B)"
proof -
  have "{sv \<in> set A. (pc_name (sv_protocol sv), pc_version (sv_protocol sv)) \<in> set (map (\<lambda>(n, v). (ByteStr n, v)) capsB) \<and>
        sv \<noteq> peermanager_service} = {sv \<in> set A \<inter> set B. sv \<noteq> peermanager_service}"
    using offered [OF assms(1) _ assms(2)] same by blast
  moreover have "{sv \<in> set B. (pc_name (sv_protocol sv), pc_version (sv_protocol sv)) \<in> set (map (\<lambda>(n, v). (ByteStr n, v)) capsA) \<and>
        sv \<noteq> peermanager_service} = {sv \<in> set A \<inter> set B. sv \<noteq> peermanager_service}"
    using offered [OF assms(2) _ assms(1)] same by (metis (no_types, lifting) Int_iff)
  ultimately show ?thesis unfolding common_def
    by (intro arg_cong [of _ _ "map sv_protocol"] common_sorted [OF assms(3,4)]) simp
qed

end
