(* ===== verification/Peer_Samples.thy ===== *)
theory Peer_Samples
  imports Peer_Agreement Session_Properties
begin

text \<open>
  Concrete peer managers for the instances of the properties of peers: a configuration with one
  service besides the peer manager, codecs that suffice for it, and states with one peer.
\<close>

definition sample_protocol :: "nat \<Rightarrow> protocol_class" where
  "sample_protocol m = \<lparr>pc_protocol_id = 1, pc_name = ByteStr [101, 120], pc_version = 1, pc_max_cmd_id = m, pc_cmds = [0]\<rparr>"

definition sample_service :: service where
  "sample_service = \<lparr>sv_name = [101], sv_protocol = sample_protocol 32\<rparr>"

definition sample_config :: "bool \<Rightarrow> byte \<Rightarrow> pm_config" where
  "sample_config three b = \<lparr>py3 = three, own_id = replicate 64 b, node_key = sample_key b, client_version = [118],
     p2p_port = 7, min_peers = 1, max_peers = 1, log_disconnects = True, services = [peermanager_service, sample_service]\<rparr>"

definition sample_hello_of :: "byte \<Rightarrow> hello_data" where
  "sample_hello_of b = \<lparr>h_version = 4, h_client_version_string = [118], h_capabilities = [(p2p_name, 4), ([101, 120], 1)],
     h_listen_port = 7, h_remote_pubkey = replicate 64 b\<rparr>"

text \<open>Only what the instances need is encoded: a hello by its key, and the other commands by nothing.\<close>

definition sample_net :: "bool \<Rightarrow> byte \<Rightarrow> bytes net_lib" where
  "sample_net three b = \<lparr>nl_rlp = sample_rlp, nl_crypto = sample_crypto, nl_eip8 = sample_eip8,
     encode_p2p = (\<lambda>d. Inr (case d of HelloData h \<Rightarrow> [last (0 # h_remote_pubkey h)] | _ \<Rightarrow> [0])),
     decode_p2p = (\<lambda>cmd p. Inr (if cmd = 0 then HelloData (sample_hello_of (last (0 # p))) else PongData)),
     app_receive = (\<lambda>_ _ _. Inr ()), nl_config = sample_config three b\<rparr>"

definition sample_connection :: connection where
  "sample_connection = \<lparr>cn_peername = Some ([10], 7), cn_ephemeral = sample_key 8, cn_draws = sample_draws, cn_closed = False\<rparr>"

definition sample_junk :: peer where
  "sample_junk = blank_peer sample_connection (sample_session 1 None)"

text \<open>A manager with one peer, an incoming connection.\<close>

definition sample_started :: "bool \<Rightarrow> byte \<Rightarrow> net" where
  "sample_started three b = snd (net_step (sample_net three b) 0 (Incoming sample_connection) (mk_net (\<lambda>_. sample_junk)))"

lemmas sample_net_defs = sample_net_def sample_config_def sample_connection_def

lemma sample_started_reach: "net_reach (sample_net three b) (sample_started three b)"
  unfolding sample_started_def
  by (rule net_reach.step [OF net_reach.start, where ev = "Incoming sample_connection" and now = 0]) (simp_all add: prod_eq_iff)

lemmas sample_start_defs = net_step_def start_peer_def new_peer_def get_hello_packet_def p2p_packet_def sample_net_defs
      new_msession_def mk_msession_def prog_defs mk_net_def set_remote_pubkey_def upd_def on_session_def ms_set_remote_pubkey_def
      connect_service_def peermanager_service_def p2p_protocol_def look_def py_or_def on_mux_def add_protocol_def Let_def
      blank_peer_def sample_service_def sample_protocol_def mk_mux_def p2p_name_def

lemma sample_started_run:
  "net_step (sample_net three b) 0 (Incoming sample_connection) (mk_net (\<lambda>_. sample_junk)) = (Inr (), sample_started three b) \<and>
   peers (sample_started three b) = [0] \<and> next_peer (sample_started three b) = 1 \<and>
   protocols (peer_at (sample_started three b) 0) = Some [p2p_protocol] \<and>
   \<not> is_stopped (peer_at (sample_started three b) 0) \<and> remote_capabilities (peer_at (sample_started three b) 0) = None \<and>
   remote_pubkey_available (peer_at (sample_started three b) 0) = False \<and>
   offset_based_dispatch (peer_at (sample_started three b) 0) = False"
  unfolding sample_started_def
  by (simp add: sample_start_defs)

lemmas sample_started_simps [simp] = sample_started_run [THEN conjunct2, THEN conjunct1]
  sample_started_run [THEN conjunct2, THEN conjunct2, THEN conjunct1]
  sample_started_run [THEN conjunct2, THEN conjunct2, THEN conjunct2, THEN conjunct1]
  sample_started_run [THEN conjunct2, THEN conjunct2, THEN conjunct2, THEN conjunct2, THEN conjunct1]
  sample_started_run [THEN conjunct2, THEN conjunct2, THEN conjunct2, THEN conjunct2, THEN conjunct2]

section \<open>An accepted hello\<close>

lemma connect_sample:
  assumes "protocols (peer_at s 0) = Some [p2p_protocol]" "map_of (queues (ms_mux (session (peer_at s 0)))) 1 = None" "accepted (peer_at s 0)"
  shows "\<exists>s'. connect_service now 0 sample_service s = (Inr (), s') \<and> accepted (peer_at s' 0)"
  using assms
  by (simp add: connect_service_def look_def upd_def step_simps sample_service_def sample_protocol_def p2p_protocol_def Let_def
     on_session_def on_mux_def add_protocol_def accepted_def)

lemma sample_remote: "remote_services False (h_capabilities (sample_hello_of c)) = Inr [(ByteStr p2p_name, 4), (ByteStr [101, 120], 1)]"
  by (simp add: sample_hello_of_def)

lemma sample_connected:
  assumes "protocols (peer_at s 0) = Some [p2p_protocol]" "map_of (queues (ms_mux (session (peer_at s 0)))) 1 = None" "accepted (peer_at s 0)"
  shows "\<exists>s'. for_each (sort_key sv_name (services (sample_config False b)))
     (connect_common (sample_net False b) now 0 [(ByteStr p2p_name, 4), (ByteStr [101, 120], 1)]) s = (Inr (), s') \<and> accepted (peer_at s' 0)"
proof -
  obtain s' where "connect_service now 0 sample_service s = (Inr (), s')" "accepted (peer_at s' 0)"
    using connect_sample [OF assms] by blast
  then show ?thesis
    by (simp add: sample_config_def peermanager_service_def sample_service_def [unfolded sample_protocol_def] connect_common_def  p2p_protocol_def p2p_name_def  Let_def seq_run ret_def)
qed

lemma sample_started_queue: "map_of (queues (ms_mux (session (peer_at (sample_started three b) 0)))) 1 = None"
  unfolding sample_started_def by (simp add: sample_start_defs)

lemma sample_started_session:
  "session (peer_at (sample_started three b) 0) = snd (on_mux (add_protocol 0) (mk_msession (sample_key b) (sample_key 8)
     \<lparr>pk_protocol_id = 0, pk_cmd_id = 0, pk_payload = [b], pk_prioritize = False\<rparr> None))"
  unfolding sample_started_def by (simp add: sample_start_defs p2p_cmd_id_def numeral_eq_Suc)

lemma sample_accepts:
  "\<exists>s'. receive_hello (sample_net False b) 0 0 (sample_hello_of c) (sample_started False b) = (Inr (), s') \<and> accepted (peer_at s' 0)"
proof -
  let ?N = "sample_net False b"
  have N: "nl_config ?N = sample_config False b" "py3 (sample_config False b) = False" "max_peers (sample_config False b) = 1"
    by (simp_all add: sample_net_defs)
  have h: "h_version (sample_hello_of c) = 4" "length (h_remote_pubkey (sample_hello_of c)) = 64" by (simp_all add: sample_hello_of_def)
  show ?thesis
    unfolding receive_hello_def
    by (simp add: look_def step_simps upd_def on_hello_received_def set_remote_pubkey_def ms_set_remote_pubkey_def N
        compatible_p2p_version_def seq_assoc seq_on_session_modify h sample_remote)
      (rule sample_connected [unfolded One_nat_def]; simp add: sample_started_queue [unfolded One_nat_def] accepted_def)
qed

lemma sample_bad_message:
  "\<exists>ms. add_message sample_rlp sample_crypto sample_eip8 sample_draws [1] (session (peer_at (sample_started False 9) 0)) =
    (Inl FormatError, ms)"
proof -
  have "\<not> ms_post (session (peer_at (sample_started False 9) 0)) \<and> \<not> ms_is_ready (session (peer_at (sample_started False 9) 0)) \<and>
    \<not> ms_is_initiator (session (peer_at (sample_started False 9) 0)) \<and>
    \<not> s_is_initiator (cipher_state (ms_mux (session (peer_at (sample_started False 9) 0))))"
    unfolding sample_started_session
    by (simp add: on_mux_def mk_msession_def py_or_def Let_def add_protocol_def prog_defs mk_mux_def ms_is_ready_def mk_session_def)
  note state = this
  show ?thesis by (rule exI, rule short_auth_fails) (use state in simp_all)
qed

end
