(* ===== verification/Session_Framing.thy ===== *)
theory Session_Framing
  imports Mux_Session_Hello
begin

text \<open>
  What the operations of a multiplexed session do not depend on: the messages that are still in its
  queue, and for the first message the protocols that are registered later; and that they
  register no protocols.
\<close>

section \<open>Programs that commute with a change of the state\<close>

definition natural :: "('s \<Rightarrow> 's) \<Rightarrow> ('s, 'a) prog \<Rightarrow> bool" where
  "natural g m \<longleftrightarrow> (\<forall>s. m (g s) = (fst (m s), g (snd (m s))))"

named_theorems natural_rules

lemma naturalD: "natural g m \<Longrightarrow> m s = (r, s') \<Longrightarrow> m (g s) = (r, g s')"
  by (simp add: natural_def)

lemma natural_ret [natural_rules]: "natural g (ret x)"
  by (simp add: natural_def ret_def)

lemma natural_throw [natural_rules]: "natural g (throw e)"
  by (simp add: natural_def throw_def)

lemma natural_lift [natural_rules]: "natural g (lift_res r)"
  by (simp add: natural_def lift_res_def)

lemma natural_assert [natural_rules]: "natural g (py_assert b)"
  by (simp add: natural_def py_assert_def lift_res_def)

lemma natural_gets [natural_rules]: "(\<And>s. f (g s) = f s) \<Longrightarrow> natural g (gets f)"
  by (simp add: natural_def gets_def)

lemma natural_modify [natural_rules]: "(\<And>s. f (g s) = g (f s)) \<Longrightarrow> natural g (modify f)"
  by (simp add: natural_def modify_def)

lemma natural_seq [natural_rules]: "natural g m \<Longrightarrow> (\<And>x. natural g (f x)) \<Longrightarrow> natural g (seq m f)"
  by (auto simp: natural_def seq_def split: prod.splits sum.splits)

lemma natural_if [natural_rules]: "natural g m \<Longrightarrow> natural g n \<Longrightarrow> natural g (if b then m else n)"
  by simp

lemma natural_for_each [natural_rules]: "(\<And>x. natural g (f x)) \<Longrightarrow> natural g (for_each xs f)"
  by (induction xs) (auto intro: natural_ret natural_seq)

section \<open>The queue of messages\<close>

definition with_messages :: "bytes list \<Rightarrow> msession \<Rightarrow> msession" where
  "with_messages xs s = s\<lparr>ms_messages := xs @ ms_messages s\<rparr>"

lemma with_messages_same: "ms_messages s = xs \<Longrightarrow> with_messages xs (s\<lparr>ms_messages := []\<rparr>) = s"
  by (simp add: with_messages_def)

lemma natural_on_mux [natural_rules]: "natural (with_messages xs) (on_mux f)"
  by (simp add: natural_def on_mux_def with_messages_def split: prod.split)

lemma natural_put_message [natural_rules]: "natural (with_messages xs) (put_message b)"
  unfolding put_message_def by (rule natural_modify) (simp add: with_messages_def)

lemma natural_put_frame [natural_rules]: "natural (with_messages xs) (put_frame L P f)"
  unfolding put_frame_def on_rlpx_def split_beta by (intro natural_rules)

lemma ms_is_ready_messages [simp]: "ms_is_ready (with_messages xs s) = ms_is_ready s"
  by (simp add: ms_is_ready_def with_messages_def)

lemma natural_add_packet [natural_rules]: "natural (with_messages xs) (ms_add_packet L P pk)"
  unfolding ms_add_packet_def by (intro natural_rules) simp

lemma natural_post_handshake [natural_rules]: "natural (with_messages xs) (add_message_post_handshake L P msg)"
  unfolding add_message_post_handshake_def by (intro natural_rules) (simp add: with_messages_def)

lemma natural_add_message: "natural (with_messages xs) (add_message L P E r msg)"
  unfolding add_message_def add_message_during_handshake_def on_rlpx_def
  by (intro natural_rules) (simp_all add: with_messages_def ms_is_ready_def)

section \<open>Protocols registered after the first message\<close>

definition registered :: "nat \<Rightarrow> 'c mux \<Rightarrow> 'c mux" where
  "registered p m = m\<lparr>queues := AList.update p (\<lambda>_. []) (queues m), sequence_ids := AList.update p 0 (sequence_ids m),
     chunked_buffers := AList.update p [] (chunked_buffers m), last_protocol := Some p\<rparr>"

lemma add_protocol_run: "map_of (queues m) p = None \<Longrightarrow> add_protocol p m = (Inr (), registered p m)"
  by (simp add: add_protocol_def step_simps registered_def)

definition with_protocol :: "nat \<Rightarrow> msession \<Rightarrow> msession" where
  "with_protocol p s = s\<lparr>ms_mux := registered p (ms_mux s)\<rparr>"

lemma natural_on_rlpx: "natural (with_protocol p) (on_rlpx f)"
  by (simp add: natural_def on_rlpx_def on_mux_def on_cipher_def with_protocol_def registered_def split: prod.split)

lemma natural_send_init_msg: "natural (with_protocol p) (send_init_msg P r)"
  unfolding send_init_msg_def put_message_def
  by (intro natural_rules natural_on_rlpx) (simp_all add: with_protocol_def)

section \<open>No protocol is registered by an operation\<close>

definition protocol_ids :: "msession \<Rightarrow> nat list" where
  "protocol_ids s = map fst (queues (ms_mux s))"

lemma add_packet_queues_keys: "keeps (\<lambda>m. map fst (queues m) = ks) (add_packet L pk)"
proof -
  have "keeps (\<lambda>m. map fst (queues m) = ks) (put_frames q fs p)" for q fs p
    unfolding put_frames_def
    by (rule keeps_modify) (simp add: set_queues_def update_keys_present map_of_Some_key split: option.split)
  then show ?thesis unfolding add_packet_def Let_def
    by (intro keeps_rules) simp_all
qed

lemma pop_for_protocol_keys: "keeps (\<lambda>m. map fst (queues m) = ks) (pop_frames_for_protocol L p)"
  unfolding keeps_def pop_frames_for_protocol_def
  by (auto simp: prog_defs set_queues_def update_keys_present map_of_Some_key split: sum.splits option.splits prod.splits)

lemma pop_frames_keys: "keeps (\<lambda>m. map fst (queues m) = ks) (pop_frames L)"
proof -
  have "keeps (\<lambda>m. map fst (queues m) = ks) (first_nonempty (pop_frames_for_protocol L) ps)" for ps
    by (induction ps) (auto intro!: keeps_rules pop_for_protocol_keys)
  then show ?thesis unfolding pop_frames_def next_protocol_def by (intro keeps_rules) simp_all
qed

lemma pop_all_keys: "map fst (queues (snd (pop_all_from L acc m))) = map fst (queues m)"
proof (induction L acc m rule: pop_all_from.induct)
  case (1 L acc m)
  obtain r m1 where r: "pop_frames L m = (r, m1)" by force
  have m1: "map fst (queues m1) = map fst (queues m)" by (rule keeps_result [OF pop_frames_keys refl r])
  show ?case using "1.IH" r m1 by (cases r) (auto simp: pop_all_from.simps [of L acc m])
qed

lemma on_cipher_queues: "keeps (\<lambda>m. queues m = q) (on_cipher f)"
  by (simp add: keeps_def on_cipher_def split: prod.split)

lemma frame_header_queues: "keeps (\<lambda>m. queues m = q) (frame_header_of C)"
proof -
  have "keeps (\<lambda>m. queues m = q) (seq (decode_header C b) (\<lambda>h. seq (modify (\<lambda>m. m\<lparr>cached_header := Some h\<rparr>)) (\<lambda>_. ret (Some h))))" for b
    unfolding decode_header_def by (intro keeps_rules on_cipher_queues) simp_all
  then show ?thesis by (auto simp: keeps_def frame_header_of_def split: option.split list.split)
qed

lemma decode_body_queues: "keeps (\<lambda>m. queues m = q) (decode_body L C b h)"
proof -
  have "keeps (\<lambda>m. queues m = q) (reassemble L i j t d)" for i j t d
    unfolding reassemble_def set_buffer_def Let_def split_beta
    by (intro keeps_rules) (auto split: option.split intro!: keeps_rules)
  moreover have "keeps (\<lambda>m. queues m = q) (fetch_body C b n)" for n
    unfolding fetch_body_def Let_def by (intro keeps_rules on_cipher_queues)
  ultimately show ?thesis unfolding decode_body_def Let_def split_beta by (intro keeps_rules)
qed

lemma decode_frames_queues: "queues (snd (decode_frames L C m)) = queues m"
proof (induction L C m rule: decode_frames.induct)
  case (1 L C m)
  obtain r m1 where r: "frame_header_of C m = (r, m1)" by force
  have m1: "queues m1 = queues m" by (rule keeps_result [OF frame_header_queues refl r])
  show ?case
  proof (cases "\<exists>h n d m2. r = Inr (Some h) \<and> header_body_size h = Inr n \<and>
      f_header_size + f_mac_size + ceil16 n + f_mac_size \<le> length (decode_buffer m) \<and>
      decode_body L C (decode_buffer m) (Some h) m1 = (Inr d, m2)")
    case True
    then obtain h n d m2 where t: "r = Inr (Some h)" "header_body_size h = Inr n"
      "f_header_size + f_mac_size + ceil16 n + f_mac_size \<le> length (decode_buffer m)"
      "decode_body L C (decode_buffer m) (Some h) m1 = (Inr d, m2)" by blast
    have "queues m2 = queues m" using keeps_result [OF decode_body_queues m1 t(4)] .
    then show ?thesis
      using "1.IH" [OF refl r [symmetric] t(1) refl t(2) refl t(3) t(4) [symmetric] refl] r t
      by (subst decode_frames.simps) (simp add: Let_def split: sum.split prod.split, metis snd_conv)
  next
    case False
    have "queues m2 = queues m" if "decode_body L C (decode_buffer m) (Some h) m1 = (x, m2)" for h x m2
      using keeps_result [OF decode_body_queues m1 that] .
    then show ?thesis using False r m1
      by (subst decode_frames.simps) (auto simp: Let_def split: sum.split option.split prod.split)
  qed
qed

lemma protocol_ids_on_mux:
  "keeps (\<lambda>m. map fst (queues m) = ks) f \<Longrightarrow> keeps (\<lambda>s. protocol_ids s = ks) (on_mux f)"
  by (auto simp: keeps_def on_mux_def protocol_ids_def split: prod.splits)

lemma protocol_ids_on_rlpx: "keeps (\<lambda>s. protocol_ids s = ks) (on_rlpx f)"
  by (auto simp: keeps_def on_rlpx_def on_mux_def on_cipher_def protocol_ids_def split: prod.splits)

lemma protocol_ids_add_packet: "keeps (\<lambda>s. protocol_ids s = ks) (ms_add_packet L P pk)"
proof -
  have "keeps (\<lambda>m. map fst (queues m) = ks) (pop_all_frames L)"
    by (simp add: keeps_def pop_all_frames_def pop_all_keys)
  moreover have "keeps (\<lambda>s. protocol_ids s = ks) (put_frame L P f)" for f
    unfolding put_frame_def put_message_def split_beta
    by (intro keeps_rules protocol_ids_on_rlpx) (simp add: protocol_ids_def)
  ultimately show ?thesis unfolding ms_add_packet_def
    by (intro keeps_rules protocol_ids_on_mux add_packet_queues_keys) simp_all
qed

lemma protocol_ids_add_message: "keeps (\<lambda>s. protocol_ids s = ks) (add_message L P E r msg)"
proof -
  have "keeps (\<lambda>m. map fst (queues m) = ks) (decode L C d)" for C :: "session cipher option" and d
    unfolding decode_def by (intro keeps_rules) (simp_all add: keeps_def decode_frames_queues)
  then have post: "keeps (\<lambda>s. protocol_ids s = ks) (add_message_post_handshake L P d)" for d
    unfolding add_message_post_handshake_def
    by (intro keeps_rules protocol_ids_on_mux) (simp_all add: protocol_ids_def)
  show ?thesis unfolding add_message_def add_message_during_handshake_def put_message_def
    by (intro keeps_rules protocol_ids_on_rlpx protocol_ids_add_packet post) (simp_all add: protocol_ids_def)
qed

end
