(* ===== verification/Peer_Connect.thy ===== *)
theory Peer_Connect
  imports Peer_Agreement Session_Framing
begin

text \<open>
  Two managers that connect: what the steps of a new connection do to the states, composed from the
  exchange of the hello packets by the sessions and the agreement on the protocols.
\<close>

section \<open>The sessions of a new connection\<close>

definition hello_packet :: "bytes \<Rightarrow> packet" where
  "hello_packet d = \<lparr>pk_protocol_id = 0, pk_cmd_id = 0, pk_payload = d, pk_prioritize = False\<rparr>"

text \<open>A hello fits into one frame when only one protocol is registered.\<close>

definition hello_fits :: "'i rlp_lib \<Rightarrow> bytes \<Rightarrow> bool" where
  "hello_fits L d \<longleftrightarrow> d \<noteq> [] \<and> 48 + ceil16 (length (enc_int L 0) + length d) \<le> 8192"

lemma new_session_before:
  assumes "rlp_ok L" "hello_fits L d"
  shows "before_handshake L (py_or remote [] \<noteq> []) ecc eph (hello_packet d) 0 (hello_packet d')
    (with_protocol 0 (mk_msession ecc eph (hello_packet d) remote))"
proof -
  have len: "length (enc_int L 0) \<in> {1, 2}" using assms(1) by (simp add: rlp_ok_def)
  have "length d \<le> ceil16 (length (enc_int L 0) + length d)"
    using ceil16_bounds(1) [of "length (enc_int L 0) + length d"] by simp
  then have small: "length d < 2 ^ 31" using assms(2) by (simp add: hello_fits_def)
  have "idle_for L (hello_packet d) 0 (ms_mux (with_protocol 0 (mk_msession ecc eph (hello_packet d) remote)))"
    using assms(2) len
    by (simp add: idle_for_def with_protocol_def registered_def mk_msession_def mk_mux_def Let_def mux_wf_def all_queued_def
        hello_packet_def packet_ok_def hello_fits_def)
  then show ?thesis using small
    by (simp add: before_handshake_def with_protocol_def registered_def mk_msession_def mk_mux_def Let_def hello_packet_def)
qed

text \<open>What a session gets is not empty: an empty message is no message of the handshake, and no packet.\<close>

lemma no_empty_handshake_message:
  assumes "add_message L P E r data s = (Inr (), s')" "\<not> ms_post s"
  shows "data \<noteq> []"
proof
  assume "data = []"
  have "on_rlpx (decode_auth_ack_message P E []) s \<noteq> (Inr x, u)" "on_rlpx (decode_authentication P E []) s \<noteq> (Inr x, u)" for x u
    by (auto simp: on_rlpx_def on_mux_def on_cipher_def decode_auth_ack_message_def decode_authentication_def run_simps
        py_assert_def lift_res_def throw_def split: prod.split)
  then show False using assms \<open>data = []\<close>
    by (auto simp: add_message_def add_message_during_handshake_def run_simps py_assert_def lift_res_def split: if_splits)
qed

lemma no_packet_in_nothing:
  assumes "add_message L P E r data s = (Inr (), s')" "ms_post s" "ms_packets s = []" "ms_packets s' \<noteq> []"
    "decode_buffer (ms_mux s) = []" "cached_header (ms_mux s) = None"
  shows "data \<noteq> []"
proof
  assume "data = []"
  have "decode L C [] m = (Inr [], m)" if "decode_buffer m = []" "cached_header m = None" for C and m :: "session mux"
    using that by (simp add: decode_def step_simps decode_frames.simps [of L _ m] frame_header_of_def f_header_size_def)
  then show False using assms \<open>data = []\<close>
    by (simp add: add_message_def step_simps add_message_post_handshake_def on_mux_def seq_def modify_def)
qed

definition flushed :: "msession \<Rightarrow> msession" where
  "flushed s = s\<lparr>ms_messages := []\<rparr>"

lemma flushed_add_message:
  assumes "add_message L P E r data s = (Inr (), s')"
  obtains u where "add_message L P E r data (flushed s) = (Inr (), u)" "s' = with_messages (ms_messages s) u"
proof -
  obtain q u where u: "add_message L P E r data (flushed s) = (q, u)" by force
  from naturalD [OF natural_add_message u, of "ms_messages s"] assms
  have "q = Inr ()" "s' = with_messages (ms_messages s) u"
    by (simp_all add: flushed_def with_messages_same)
  with that u show thesis by simp
qed

lemma with_messages_fields [simp]:
  "ms_messages (with_messages xs s) = xs @ ms_messages s" "ms_packets (with_messages xs s) = ms_packets s"
  "ms_remote_pubkey (with_messages xs s) = ms_remote_pubkey s" "ms_mux (with_messages xs s) = ms_mux s"
  "ms_post (with_messages xs s) = ms_post s" "awaits_packets (with_messages xs s) = awaits_packets s"
  "protocol_ids (with_messages xs s) = protocol_ids s"
  by (simp_all add: with_messages_def awaits_packets_def protocol_ids_def)

lemma flushed_fields [simp]:
  "ms_packets (flushed s) = ms_packets s" "ms_remote_pubkey (flushed s) = ms_remote_pubkey s" "ms_mux (flushed s) = ms_mux s"
  "ms_post (flushed s) = ms_post s" "ms_messages (flushed s) = []" "awaits_packets (flushed s) = awaits_packets s"
  "protocol_ids (flushed s) = protocol_ids s"
  by (simp_all add: flushed_def awaits_packets_def protocol_ids_def)

lemma send_init_msg_key: "keeps (\<lambda>ms. ms_remote_pubkey ms = x) (send_init_msg P r)"
  unfolding send_init_msg_def by (intro keeps_rules on_rlpx_key put_message_key)

lemma send_init_msg_ids: "keeps (\<lambda>s. protocol_ids s = ks) (send_init_msg P r)"
  unfolding send_init_msg_def put_message_def by (intro keeps_rules protocol_ids_on_rlpx) (simp add: protocol_ids_def)

text \<open>The exchange of the sessions, each message taken out of the queue before the next is received.\<close>

lemma sessions_connect:
  assumes L: "rlp_ok L" and ok: "hashes_ok P" "keys_ok P"
    and keys: "key_pair P a" "key_pair P ea" "key_pair P b" "key_pair P eb" "key_pair P (d_ephem r1)" "key_pair P (d_ephem r2)"
    and iv: "length (d_iv r1) = 16" "length (d_iv r2) = 16" and fit: "hello_fits L da" "hello_fits L db"
  obtains s0 auth ack bs bt s2 s3 t1 t2 where
    "new_msession P r1 a ea (hello_packet da) (Some (e_pubkey b)) = (Inr (), s0)" "ms_messages (with_protocol 0 s0) = [auth]"
    "add_message L P E r2 auth (with_protocol 0 (mk_msession b eb (hello_packet db) None)) = (Inr (), t1)" "ms_messages t1 = [ack, bt]"
    "add_message L P E r3 ack (flushed (with_protocol 0 s0)) = (Inr (), s2)" "ms_messages s2 = [bs]"
    "add_message L P E r4 bs (flushed t1) = (Inr (), t2)" "ms_packets t2 = [hello_packet da]"
    "add_message L P E r5 bt (flushed s2) = (Inr (), s3)" "ms_packets s3 = [hello_packet db]"
    "auth \<noteq> []" "ack \<noteq> []" "bs \<noteq> []" "bt \<noteq> []"
    "ms_remote_pubkey s0 = Some (e_pubkey b)" "map_of (queues (ms_mux s0)) 0 = None"
    "protocol_ids s3 = [0]" "protocol_ids t2 = [0]" "ms_remote_pubkey s3 = Some (e_pubkey b)" "ms_remote_pubkey t2 = None"
proof -
  let ?s = "mk_msession a ea (hello_packet da) (Some (e_pubkey b))" and ?t = "with_protocol 0 (mk_msession b eb (hello_packet db) None)"
  have b: "py_or (Some (e_pubkey b)) [] \<noteq> []" using keys_distinct_bytes [OF ok(2) keys(3)] by (simp add: py_or_def)
  have S: "before_handshake L True a ea (hello_packet da) 0 (hello_packet db) (with_protocol 0 ?s)"
    using new_session_before [OF L fit(1), of "Some (e_pubkey b)" a ea db] b by simp
  have T: "before_handshake L False b eb (hello_packet db) 0 (hello_packet da) ?t"
    using new_session_before [OF L fit(2), of None b eb da] by (simp add: py_or_def)
  have rem: "ms_remote_pubkey (with_protocol 0 ?s) = Some (e_pubkey b)" "protocol_ids (with_protocol 0 ?s) = [0]" "protocol_ids ?t = [0]" "ms_remote_pubkey ?t = None"
    by (simp_all add: with_protocol_def registered_def mk_msession_def Let_def protocol_ids_def mk_mux_def)
  have dl: "Wire_Roundtrip.delivered (pk_protocol_id (hello_packet d)) (pk_cmd_id (hello_packet d)) (pk_payload (hello_packet d)) = [hello_packet d]"
    if "hello_fits L d" for d using that by (simp add: Wire_Roundtrip.delivered_def whole_packet_def hello_packet_def hello_fits_def)
  obtain auth ack bs bt s1 s2 s3 t1 t2 where x: "send_init_msg P r1 (with_protocol 0 ?s) = (Inr (), s1)" "ms_messages s1 = [auth]"
    "add_message L P E r2 auth ?t = (Inr (), t1)" "ms_messages t1 = [ack, bt]"
    "add_message L P E r3 ack s1 = (Inr (), s2)" "ms_messages s2 = [auth, bs]"
    "add_message L P E r4 bs t1 = (Inr (), t2)" "ms_packets t2 = [hello_packet da]"
    "add_message L P E r5 bt s2 = (Inr (), s3)" "ms_packets s3 = [hello_packet db]"
    "awaits_packets t1" "awaits_packets s2" "\<not> ms_post s1"
    using hello_packets_exchanged [OF L ok keys iv S rem(1) T, of E r3 r4 r5] unfolding dl [OF fit(1)] dl [OF fit(2)] by metis
  obtain q s0 where s0: "send_init_msg P r1 ?s = (q, s0)" by force
  from naturalD [OF natural_send_init_msg this, of 0] x(1) have q: "q = Inr ()" "with_protocol 0 s0 = s1" by simp_all
  obtain u2 where u2: "add_message L P E r3 ack (flushed s1) = (Inr (), u2)" "s2 = with_messages [auth] u2"
    using flushed_add_message [OF x(5)] x(2) by metis
  obtain v2 where v2: "add_message L P E r4 bs (flushed t1) = (Inr (), v2)" "t2 = with_messages [ack, bt] v2"
    using flushed_add_message [OF x(7)] x(4) by metis
  obtain u3 where "add_message L P E r5 bt (flushed s2) = (Inr (), u3)" "s3 = with_messages [auth, bs] u3"
    using flushed_add_message [OF x(9)] x(6) by metis
  moreover have "flushed s2 = flushed u2" by (simp add: u2(2) flushed_def with_messages_def)
  ultimately have u3: "add_message L P E r5 bt (flushed u2) = (Inr (), u3)" "s3 = with_messages [auth, bs] u3" by simp_all
  have init: "new_msession P r1 a ea (hello_packet da) (Some (e_pubkey b)) = (Inr (), s0)"
    using s0 q(1) b by (simp add: new_msession_def Let_def mk_msession_def)
  have key: "ms_remote_pubkey s1 = Some (e_pubkey b)"
    using keeps_result [OF send_init_msg_key rem(1) x(1)] .
  show thesis
  proof (rule that)
    show "new_msession P r1 a ea (hello_packet da) (Some (e_pubkey b)) = (Inr (), s0)" by (rule init)
    show "ms_messages (with_protocol 0 s0) = [auth]" "add_message L P E r2 auth ?t = (Inr (), t1)" "ms_messages t1 = [ack, bt]"
      "add_message L P E r3 ack (flushed (with_protocol 0 s0)) = (Inr (), u2)" "ms_messages u2 = [bs]"
      "add_message L P E r4 bs (flushed t1) = (Inr (), v2)" "ms_packets v2 = [hello_packet da]"
      "add_message L P E r5 bt (flushed u2) = (Inr (), u3)" "ms_packets u3 = [hello_packet db]"
      using x u2 v2 u3 q(2) by simp_all
    show "auth \<noteq> []" "ack \<noteq> []"
      using no_empty_handshake_message [OF x(3)] no_empty_handshake_message [OF x(5)] x(13) T by (simp_all add: before_handshake_def)
    show "bs \<noteq> []" "bt \<noteq> []"
      using no_packet_in_nothing [OF x(7)] no_packet_in_nothing [OF x(9)] x(8,10,11,12) by (simp_all add: awaits_packets_def)
    show "ms_remote_pubkey s0 = Some (e_pubkey b)" using key by (simp add: q(2) [symmetric] with_protocol_def)
    show "map_of (queues (ms_mux s0)) 0 = None"
      using keeps_result [OF send_init_msg_ids _ s0, of "[]"]
      by (simp add: protocol_ids_def mk_msession_def Let_def mk_mux_def)
    show "protocol_ids u3 = [0]"
      using keeps_result [OF protocol_ids_add_message _ u3(1), of "[0]"] keeps_result [OF protocol_ids_add_message _ u2(1), of "[0]"]
        keeps_result [OF send_init_msg_ids rem(2) x(1)] by simp
    show "protocol_ids v2 = [0]"
      using keeps_result [OF protocol_ids_add_message _ v2(1), of "[0]"] keeps_result [OF protocol_ids_add_message rem(3) x(3)] by simp
    show "ms_remote_pubkey u3 = Some (e_pubkey b)"
      using keeps_result [OF add_message_key _ u3(1), of "Some (e_pubkey b)"] keeps_result [OF add_message_key _ u2(1), of "Some (e_pubkey b)"] key by simp
    show "ms_remote_pubkey v2 = None"
      using keeps_result [OF add_message_key _ v2(1), of None] keeps_result [OF add_message_key rem(4) x(3)] by simp
  qed
qed

end
