(* ===== verification/Peer_Handshake.thy ===== *)
theory Peer_Handshake
  imports Peer_Connect
begin

text \<open>
  The steps of a new connection as runs of the two managers: starting a peer, passing on its
  messages, and accepting the hello.
\<close>

section \<open>Steps of one peer\<close>

definition put :: "nat \<Rightarrow> peer \<Rightarrow> net \<Rightarrow> net" where
  "put i p s = s\<lparr>peer_at := (peer_at s)(i := p)\<rparr>"

lemma put_simps [simp]:
  "peer_at (put i p s) i = p" "j \<noteq> i \<Longrightarrow> peer_at (put i p s) j = peer_at s j" "put i q (put i p s) = put i q s"
  "peers (put i p s) = peers s" "next_peer (put i p s) = next_peer s"
  by (simp_all add: put_def)

definition started_peer :: "connection \<Rightarrow> msession \<Rightarrow> bool \<Rightarrow> rat \<Rightarrow> peer" where
  "started_peer cn ms known now = (blank_peer cn (with_protocol 0 ms))\<lparr>remote_pubkey_available := known,
     protocols := Some [p2p_protocol], last_request := now, last_response := now\<rparr>"

lemma start_run:
  assumes "get_hello_packet N = Inr h"
    "new_msession (nl_crypto N) (cn_draws cn) (node_key (nl_config N)) (cn_ephemeral cn) h pk = (Inr (), ms)"
    "ms_remote_pubkey ms = pk" "map_of (queues (ms_mux ms)) 0 = None" "\<not> cn_closed cn"
  shows "start_peer N now cn pk s = (Inr (next_peer s), put (next_peer s) (started_peer cn ms (py_or pk [] \<noteq> []) now)
    (s\<lparr>next_peer := next_peer s + 1, peers := peers s @ [next_peer s]\<rparr>))"
proof -
  have mux: "on_mux (add_protocol 0) (ms\<lparr>ms_remote_pubkey := pk\<rparr>) = (Inr (), with_protocol 0 ms)"
    using assms(3,4) by (simp add: on_mux_def add_protocol_run with_protocol_def)
  then show ?thesis
    using assms(1,2,5)
    by (simp add: start_peer_def new_peer_def step_simps seq_assoc set_remote_pubkey_def upd_def ms_set_remote_pubkey_def
        seq_on_session_modify connect_service_def peermanager_service_def look_def blank_peer_def Let_def)
      (simp add: seq_def on_session_def mux p2p_protocol_def ret_def put_def started_peer_def blank_peer_def modify_def)
qed

lemma peer_ingress_run:
  assumes "\<not> is_stopped (peer_at s i)" "data \<noteq> []"
    "add_message (nl_rlp N) (nl_crypto N) (nl_eip8 N) r data (session (peer_at s i)) = (Inr (), ms)"
  shows "peer_greenlet N i r (Received data) s = (Inr (), put i ((peer_at s i)\<lparr>session := ms\<rparr>) s)"
  using assms by (simp add: peer_greenlet_def run_ingress_message_def look_def step_simps try_catch_def on_session_def put_def)

lemma peer_egress_run:
  assumes "\<not> is_stopped (peer_at s i)" "ms_messages (session (peer_at s i)) = data # rest" "data \<noteq> []"
  shows "run_egress_message N i True s = (Inr (), put i ((peer_at s i)\<lparr>session := (session (peer_at s i))\<lparr>ms_messages := rest\<rparr>,
    wire := wire (peer_at s i) @ [data]\<rparr>) s)"
  using assms by (simp add: run_egress_message_def look_def step_simps seq_on_session_modify upd_def put_def)

lemma decoded_hello_run:
  assumes "\<not> is_stopped (peer_at s i)" "ms_packets (session (peer_at s i)) = [hello_packet d]"
    "protocols (peer_at s i) = Some [p2p_protocol]" "\<not> offset_based_dispatch (peer_at s i)"
    "decode_p2p N 0 d = Inr (HelloData h)" "h_remote_pubkey h \<noteq> own_id (nl_config N)"
    "receive_hello N now i h (put i ((peer_at s i)\<lparr>session := (session (peer_at s i))\<lparr>ms_packets := []\<rparr>\<rparr>) s) = (Inr (), s')"
  shows "run_decoded_packet N now i s = (Inr (), put i ((peer_at s' i)\<lparr>monitor_started := True\<rparr>) s')"
proof -
  let ?s = "put i ((peer_at s i)\<lparr>session := (session (peer_at s i))\<lparr>ms_packets := []\<rparr>\<rparr>) s"
  have dispatch: "protocol_cmd_id_from_packet False [p2p_protocol] (hello_packet d) = Inr (p2p_protocol, 0)"
    "cmd_by_id p2p_protocol 0 = Inr 0"
    "pk_payload (hello_packet d) = d"
    by (simp_all add: protocol_cmd_id_from_packet_def hello_packet_def p2p_protocol_def cmd_by_id_def)
  have "receive_packet N now i p2p_protocol 0 d ?s = (Inr (), put i ((peer_at s' i)\<lparr>monitor_started := True\<rparr>) s')"
    using assms(5,6,7)
    by (simp add: receive_packet_def dispatch try_catch_def p2p_receive_def hello_receive_def seq_run upd_def put_def modify_def)
  then have "peer_handle_packet N now i (hello_packet d) ?s = (Inr (), put i ((peer_at s' i)\<lparr>monitor_started := True\<rparr>) s')"
    using assms(3,4)
    by (simp add: peer_handle_packet_def try_catch_def the_protocols_def look_def step_simps seq_assoc dispatch)
  moreover have "run_decoded_packet N now i s = peer_handle_packet N now i (hello_packet d) ?s"
    using assms(1,2) by (simp add: run_decoded_packet_def look_def step_simps seq_on_session_modify put_def)
  ultimately show ?thesis by simp
qed

section \<open>Connecting the services\<close>

text \<open>The key that the other side has proved in the handshake, if it was the one to prove one.\<close>

definition proved_key :: "peer \<Rightarrow> bytes option" where
  "proved_key p = s_remote_pubkey (cipher_state (ms_mux (session p)))"

lemma connect_service_succeeds:
  assumes "protocols (peer_at s i) = Some cs" "protocol_ids (session (peer_at s i)) = map pc_protocol_id cs"
    "pc_protocol_id (sv_protocol sv) \<notin> pc_protocol_id ` set cs"
  shows "\<exists>p. connect_service now i sv s = (Inr (), put i p s) \<and> protocols p = Some (cs @ [sv_protocol sv]) \<and>
    protocol_ids (session p) = map pc_protocol_id (cs @ [sv_protocol sv]) \<and> wire p = wire (peer_at s i) \<and>
    remote_capabilities p = remote_capabilities (peer_at s i) \<and> ms_remote_pubkey (session p) = ms_remote_pubkey (session (peer_at s i)) \<and>
    proved_key p = proved_key (peer_at s i)"
proof -
  have "map_of (queues (ms_mux (session (peer_at s i)))) (pc_protocol_id (sv_protocol sv)) = None"
    using assms(2,3) by (metis map_of_eq_None_iff protocol_ids_def set_map)
  note mux = add_protocol_run [OF this]
  have new: "sv_protocol sv \<notin> set cs" using assms(3) by auto
  have ids: "map fst (AList.update (pc_protocol_id (sv_protocol sv)) (\<lambda>_. []) (queues (ms_mux (session (peer_at s i))))) =
      map pc_protocol_id (cs @ [sv_protocol sv])"
    using update_keys_absent [of "pc_protocol_id (sv_protocol sv)" "queues (ms_mux (session (peer_at s i)))"] assms(2,3)
    by (metis (no_types, lifting) list.set_map list.simps(8,9) map_append protocol_ids_def)
  have "\<exists>p. (if sv_protocol sv = p2p_protocol then upd i (\<lambda>p. p\<lparr>last_request := now, last_response := now\<rparr>) else ret ()) s =
      (Inr (), put i p s) \<and> protocols p = protocols (peer_at s i) \<and> session p = session (peer_at s i) \<and>
      wire p = wire (peer_at s i) \<and> remote_capabilities p = remote_capabilities (peer_at s i)"
  proof (cases "sv_protocol sv = p2p_protocol")
    case True
    then show ?thesis by (simp add: upd_def modify_def put_def) (rule exI, rule conjI, rule refl, simp)
  next
    case False
    then show ?thesis by (intro exI [of _ "peer_at s i"]) (simp add: ret_def put_def)
  qed
  then obtain p where p: "(if sv_protocol sv = p2p_protocol then upd i (\<lambda>p. p\<lparr>last_request := now, last_response := now\<rparr>) else ret ()) s =
      (Inr (), put i p s)" "protocols p = Some cs" "session p = session (peer_at s i)" "wire p = wire (peer_at s i)"
      "remote_capabilities p = remote_capabilities (peer_at s i)" using assms(1) by auto
  have step: "seq (if sv_protocol sv = p2p_protocol then upd i (\<lambda>p. p\<lparr>last_request := now, last_response := now\<rparr>) else ret ()) g s =
      g () (put i p s)" for g :: "unit \<Rightarrow> (net, unit) prog"
    by (simp only: seq_def p(1) prod.case sum.case)
  let ?q = "p\<lparr>protocols := Some (cs @ [sv_protocol sv]), session := with_protocol (pc_protocol_id (sv_protocol sv)) (session p)\<rparr>"
  have "connect_service now i sv s = (Inr (), put i ?q s)"
    unfolding connect_service_def Let_def step
    using p(2,3) new
    by (simp add: look_def step_simps upd_def) (simp add: on_session_def on_mux_def mux put_def with_protocol_def)
  moreover have "protocol_ids (session ?q) = map pc_protocol_id (cs @ [sv_protocol sv])"
    using ids by (simp add: protocol_ids_def with_protocol_def registered_def p(3))
  ultimately show ?thesis using p
    by (intro exI [of _ ?q]) (simp add: with_protocol_def registered_def proved_key_def)
qed

text \<open>The services, the peer manager aside, whose protocols have different ids other than 0.\<close>

definition separate_ids :: "service list \<Rightarrow> bool" where
  "separate_ids svs \<longleftrightarrow> distinct (0 # map (\<lambda>sv. pc_protocol_id (sv_protocol sv)) (filter (\<lambda>sv. sv \<noteq> peermanager_service) svs))"

lemma separate_ids_sorted: "separate_ids svs \<Longrightarrow> separate_ids (sort_key f svs)"
  unfolding separate_ids_def
  by (subst filter_sort) (simp add: distinct_map inj_on_def)

definition same_remote :: "peer \<Rightarrow> peer \<Rightarrow> bool" where
  "same_remote p q \<longleftrightarrow> wire p = wire q \<and> remote_capabilities p = remote_capabilities q \<and>
     ms_remote_pubkey (session p) = ms_remote_pubkey (session q) \<and> proved_key p = proved_key q"

lemma connect_all_succeeds:
  assumes "protocols (peer_at s i) = Some cs" "protocol_ids (session (peer_at s i)) = map pc_protocol_id cs"
    "distinct (map pc_protocol_id cs @ map (\<lambda>sv. pc_protocol_id (sv_protocol sv)) (filter (\<lambda>sv. sv \<noteq> peermanager_service) svs))"
  shows "\<exists>s'. for_each svs (connect_common N now i remote) s = (Inr (), s') \<and> same_remote (peer_at s' i) (peer_at s i)"
  using assms
proof (induction svs arbitrary: s cs)
  case Nil
  then show ?case by (simp add: ret_def same_remote_def)
next
  case (Cons sv svs)
  let ?c = "sv_protocol sv"
  show ?case
  proof (cases "pc_name ?c \<in> fst ` set remote \<and> (pc_name ?c, pc_version ?c) \<in> set remote \<and> sv \<noteq> peermanager_service")
    case True
    then obtain p where p: "connect_common N now i remote sv s = (Inr (), put i p s)" "protocols p = Some (cs @ [?c])"
      "protocol_ids (session p) = map pc_protocol_id (cs @ [?c])" "same_remote p (peer_at s i)"
      using connect_service_succeeds [OF Cons.prems(1,2), of sv now] Cons.prems(3)
      by (auto simp: connect_common_def Let_def same_remote_def)
    have "\<exists>s'. for_each svs (connect_common N now i remote) (put i p s) = (Inr (), s') \<and> same_remote (peer_at s' i) (peer_at (put i p s) i)"
      by (rule Cons.IH [of _ "cs @ [?c]"]) (use p(2,3) Cons.prems(3) True in simp_all)
    then show ?thesis using p(4) by (auto simp: seq_def p(1) same_remote_def)
  next
    case False
    obtain u where u: "connect_common N now i remote sv s = (Inr (), u)" "peer_at u = peer_at s"
    proof -
      have "report_error (nl_config N) i WrongVersion s = (Inr (), snd (report_error (nl_config N) i WrongVersion s))"
        using report_error_run(1) [of "nl_config N" i WrongVersion ret s] by (simp add: ret_def seq_def prod_eq_iff split: sum.splits prod.splits)
      moreover have "connect_common N now i remote sv = report_error (nl_config N) i WrongVersion \<or> connect_common N now i remote sv = ret ()"
        using False by (auto simp: connect_common_def Let_def)
      ultimately show thesis using that report_error_run(3) [of "nl_config N" i WrongVersion s] by (elim disjE) (auto simp: ret_def)
    qed
    have "\<exists>s'. for_each svs (connect_common N now i remote) u = (Inr (), s') \<and> same_remote (peer_at s' i) (peer_at u i)"
      by (rule Cons.IH) (use u(2) Cons.prems in \<open>auto split: if_splits\<close>)
    then show ?thesis using u by (auto simp: seq_def)
  qed
qed

lemma receive_hello_succeeds:
  assumes "h_version h \<le> 5" "length (h_remote_pubkey h) = 64" "admissible N i (h_remote_pubkey h) s"
    and "remote_pubkey_available (peer_at s i) \<longrightarrow> remote_pubkey (peer_at s i) = Some (h_remote_pubkey h)"
    and "protocols (peer_at s i) = Some [p2p_protocol]" "protocol_ids (session (peer_at s i)) = [0]"
    and "\<not> py3 (nl_config N)" "separate_ids (services (nl_config N))"
  shows "\<exists>s'. receive_hello N now i h s = (Inr (), s') \<and> accepted (peer_at s' i) \<and>
    remote_pubkey (peer_at s' i) = Some (h_remote_pubkey h) \<and> wire (peer_at s' i) = wire (peer_at s i) \<and>
    proved_key (peer_at s' i) = proved_key (peer_at s i)"
proof -
  let ?remote = "map (\<lambda>(n, v). (ByteStr n, v)) (h_capabilities h)"
  let ?p = "(peer_at s i)\<lparr>hello_received := True, offset_based_dispatch := True, remote_client_version := h_client_version_string h,
    remote_pubkey_available := (py_or (Some (h_remote_pubkey h)) [] \<noteq> []),
    session := (session (peer_at s i))\<lparr>ms_remote_pubkey := Some (h_remote_pubkey h)\<rparr>, remote_capabilities := Some (h_capabilities h)\<rparr>"
  have run: "receive_hello N now i h s =
      for_each (sort_key sv_name (services (nl_config N))) (connect_common N now i ?remote) (put i ?p s)"
    using assms(1,2,4,7)
    by (simp add: receive_hello_def look_def step_simps upd_def compatible_p2p_version_def seq_run [OF on_hello_agrees [OF assms(3)]]
        set_remote_pubkey_def seq_assoc ms_set_remote_pubkey_def seq_on_session_modify remote_services_py2 put_def)
  have "distinct (map pc_protocol_id [p2p_protocol] @ map (\<lambda>sv. pc_protocol_id (sv_protocol sv))
      (filter (\<lambda>sv. sv \<noteq> peermanager_service) (sort_key sv_name (services (nl_config N)))))"
    using separate_ids_sorted [OF assms(8), of sv_name] by (simp add: separate_ids_def p2p_protocol_def)
  from connect_all_succeeds [OF _ _ this, of "put i ?p s" i N now ?remote] assms(5,6)
  obtain s' where s': "receive_hello N now i h s = (Inr (), s')" "same_remote (peer_at s' i) ?p"
    by (auto simp: run p2p_protocol_def protocol_ids_def)
  then have "ms_remote_pubkey (session (peer_at s' i)) = Some (h_remote_pubkey h)" by (simp add: same_remote_def)
  from remote_pubkey_set [OF this assms(2)] s' show ?thesis
    by (auto simp: same_remote_def accepted_def proved_key_def)
qed

end
