(* ===== verification/Peer_Properties.thy ===== *)
theory Peer_Properties
  imports Peer_Samples Peer_Handshake Kademlia_Properties
begin

text \<open>
  The correctness properties of peers and their manager, each with a concrete instance.
\<close>

section \<open>Dispatch\<close>

text \<open>C20. What \<open>send_packet\<close> makes of a packet is dispatched by a peer with the same protocols to the
  protocol and the command it was made for, by its offset for a legacy peer and by its protocol id
  otherwise. This asks that no command id exceeds the \<open>max_cmd_id\<close> of its protocol, and for the offsets that
  every \<open>max_cmd_id\<close> is positive: for the default of 0 it fails (\<open>zero_max_misdispatch\<close>).\<close>

theorem dispatch_roundtrip:
  assumes "rewrite_packet offset_based cs pk = Inr pk'"
    and "\<forall>c \<in> set cs. \<forall>i \<in> set (pc_cmds c). i \<le> pc_max_cmd_id c"
    and "offset_based \<longrightarrow> (\<forall>c \<in> set cs. 0 < pc_max_cmd_id c)"
  shows "\<exists>c. find_protocol (pk_protocol_id pk) cs = Inr c \<and> pk_payload pk' = pk_payload pk \<and>
    protocol_cmd_id_from_packet offset_based cs pk' = Inr (c, pk_cmd_id pk)"
proof -
  obtain c where "find_protocol (pk_protocol_id pk) cs = Inr c"
    "protocol_cmd_id_from_packet offset_based cs pk' = Inr (c, pk_cmd_id pk)"
    using rewritten_dispatched [OF assms] .
  moreover have "pk_payload pk' = pk_payload pk"
    using assms(1) by (auto simp: rewrite_packet_def bind_res_eq_Inr split: if_splits)
  ultimately show ?thesis by blast
qed

definition sample_command :: packet where
  "sample_command = \<lparr>pk_protocol_id = 1, pk_cmd_id = 0, pk_payload = [7], pk_prioritize = False\<rparr>"

lemma dispatch_roundtrip_witness:
  "\<exists>pk'. rewrite_packet True [p2p_protocol, sample_protocol 32] sample_command = Inr pk' \<and> pk_cmd_id pk' = 16 \<and>
    protocol_cmd_id_from_packet True [p2p_protocol, sample_protocol 32] pk' = Inr (sample_protocol 32, 0)"
  using dispatch_roundtrip [of True "[p2p_protocol, sample_protocol 32]" sample_command
      "sample_command\<lparr>pk_cmd_id := 16, pk_protocol_id := 0\<rparr>"]
  by (simp add: rewrite_packet_def sample_command_def sample_protocol_def p2p_protocol_def cmd_by_id_def cmd_space_def)

text \<open>A protocol that keeps the default \<open>max_cmd_id\<close> of 0 breaks the offsets: the sender counts no ids
  for it and the receiver counts one, so the first command of the protocol after it is taken for
  a command of that protocol.\<close>

theorem zero_max_misdispatch:
  assumes "pc_max_cmd_id z = 0" "\<forall>d \<in> set pre. 0 < pc_max_cmd_id d"
    and "pc_protocol_id c \<notin> pc_protocol_id ` (set pre \<union> {z})" "0 \<in> set (pc_cmds c)"
    and "pk_protocol_id pk = pc_protocol_id c" "pk_cmd_id pk = 0"
  shows "\<exists>pk'. rewrite_packet True (pre @ z # c # post) pk = Inr pk' \<and>
    protocol_cmd_id_from_packet True (pre @ z # c # post) pk' = Inr (z, 0)"
proof -
  have "find_protocol (pc_protocol_id c) (pre @ z # c # post) = Inr c"
    using assms(3) by (induction pre) (auto simp: find_protocol_Cons)
  with zero_max_misdispatched [OF assms(1-3), of post] assms(4-6) show ?thesis
    by (simp add: rewrite_packet_def cmd_by_id_def protocol_cmd_id_from_packet_def)
qed

lemma zero_max_misdispatch_witness:
  "\<exists>pk'. rewrite_packet True [p2p_protocol, sample_protocol 0, (sample_protocol 5)\<lparr>pc_protocol_id := 2\<rparr>]
      (sample_command\<lparr>pk_protocol_id := 2\<rparr>) = Inr pk' \<and>
    protocol_cmd_id_from_packet True [p2p_protocol, sample_protocol 0, (sample_protocol 5)\<lparr>pc_protocol_id := 2\<rparr>] pk' =
      Inr (sample_protocol 0, 0)"
  using zero_max_misdispatch [of "sample_protocol 0" "[p2p_protocol]" "(sample_protocol 5)\<lparr>pc_protocol_id := 2\<rparr>"
      "sample_command\<lparr>pk_protocol_id := 2\<rparr>" "[]"]
  by (simp add: sample_command_def sample_protocol_def p2p_protocol_def)

section \<open>The peers that a manager accepts\<close>

text \<open>C3. Whatever happens to a manager and its peers, those of its peers whose hello was accepted are at
  most \<open>max_peers\<close>, their public keys have 64 bytes and are not its own, and no two of them have
  the same.\<close>

theorem accepted_peers_bounded:
  assumes "net_reach N s"
  shows "length (filter (\<lambda>i. accepted (peer_at s i)) (peers s)) \<le> max_peers (nl_config N) \<and> distinct (peers s) \<and>
    (\<forall>i \<in> set (peers s). accepted (peer_at s i) \<longrightarrow>
       (\<exists>k. remote_pubkey (peer_at s i) = Some k \<and> length k = 64 \<and> k \<noteq> own_id (nl_config N) \<and>
          (\<forall>j \<in> set (peers s). accepted (peer_at s j) \<longrightarrow> remote_pubkey (peer_at s j) = Some k \<longrightarrow> j = i)))"
proof -
  note inv = net_reach_inv [OF assms]
  have key: "\<exists>k. ms_remote_pubkey (session (peer_at s i)) = Some k \<and> remote_pubkey (peer_at s i) = Some k \<and>
      length k = 64 \<and> k \<noteq> own_id (nl_config N)" if "i \<in> set (peers s)" "accepted (peer_at s i)" for i
    using net_invD(5) [OF inv net_invD(2) [OF inv that(1)]] that(2) remote_pubkey_set by (auto simp: key_ok_def)
  moreover have "i = j" if "i \<in> set (peers s)" "accepted (peer_at s i)" "j \<in> set (peers s)" "accepted (peer_at s j)"
    "remote_pubkey (peer_at s i) = remote_pubkey (peer_at s j)" for i j
    using net_invD(7) [OF inv] that key [OF that(1,2)] key [OF that(3,4)] by (auto simp: accepted_keys_distinct_def)
  ultimately show ?thesis using net_invD(1,6) [OF inv] by metis
qed

lemma accepted_peers_bounded_witness:
  "length (filter (\<lambda>i. accepted (peer_at (sample_started False 9) i)) (peers (sample_started False 9))) \<le> 1"
  using accepted_peers_bounded [OF sample_started_reach [of False 9]] by (simp add: sample_net_defs)

text \<open>C33. In Python 3 no service is ever connected: every peer has at most the protocol of the peer manager.
  The names of the services must be byte strings for \<open>rlp\<close>, but those of the remote are decoded to
  texts before they are compared.\<close>

theorem python3_connects_no_service:
  assumes "net_reach N s" "py3 (nl_config N)" "i < next_peer s" "protocols (peer_at s i) = Some cs"
  shows "set cs \<subseteq> {p2p_protocol}"
proof -
  note inv = net_reach_inv [OF assms(1)]
  have "sendable_names (nl_config N)" using net_invD(8) [OF inv] assms(3) by simp
  then have "connectable (nl_config N) = {p2p_protocol}"
    using assms(2) by (auto simp: connectable_def sendable_names_def)
  with net_invD(4) [OF inv assms(3)] assms(4) show ?thesis by (simp add: protocols_ok_def)
qed

lemma python3_connects_no_service_witness: "set [p2p_protocol] \<subseteq> {p2p_protocol}"
  by (rule python3_connects_no_service [OF sample_started_reach [of True 9], where i = 0]) (simp_all add: sample_net_defs)

section \<open>Services\<close>

text \<open>C7. In Python 2: when each of two peers has accepted the other's hello, and services with the same protocol
  name and version are the same on both sides, the names that the services have in the application included,
  and distinct within a side, then both have connected the same protocols in the same order, the order that
  the offsets of the commands depend on: first the protocol of the peer manager, then those of the services
  that both have.\<close>

theorem services_agree:
  assumes "receive_hello A now i hb s = (Inr (), s')" "receive_hello B now' j ha t = (Inr (), t')"
    and "announced (services (nl_config A)) = Inr (h_capabilities ha)"
    and "announced (services (nl_config B)) = Inr (h_capabilities hb)"
    and "\<not> py3 (nl_config A)" "\<not> py3 (nl_config B)"
    and "distinct (map sv_name (services (nl_config A)))" "distinct (map sv_name (services (nl_config B)))"
    and "\<forall>a \<in> set (services (nl_config A)). \<forall>b \<in> set (services (nl_config B)).
      pc_name (sv_protocol a) = pc_name (sv_protocol b) \<and> pc_version (sv_protocol a) = pc_version (sv_protocol b) \<longrightarrow> a = b"
    and "protocols (peer_at s i) = Some [p2p_protocol]" "\<not> accepted (peer_at s i)" "accepted (peer_at s' i)"
    and "protocols (peer_at t j) = Some [p2p_protocol]" "\<not> accepted (peer_at t j)" "accepted (peer_at t' j)"
  shows "\<exists>cs. protocols (peer_at s' i) = Some (p2p_protocol # cs) \<and> protocols (peer_at t' j) = Some (p2p_protocol # cs) \<and>
    set cs = sv_protocol ` (set (services (nl_config A)) \<inter> set (services (nl_config B)) - {peermanager_service})"
proof -
  let ?A = "services (nl_config A)" and ?B = "services (nl_config B)"
  let ?names = "map (\<lambda>(n, v). (ByteStr n, v :: nat))"
  have s': "protocols (peer_at s' i) = Some (p2p_protocol # common (?names (h_capabilities hb)) (sort_key sv_name ?A))"
    using receive_hello_run [OF assms(1,10-12)] assms(5) by (auto simp: remote_services_py2)
  have t': "protocols (peer_at t' j) = Some (p2p_protocol # common (?names (h_capabilities ha)) (sort_key sv_name ?B))"
    using receive_hello_run [OF assms(2,13-15)] assms(6) by (auto simp: remote_services_py2)
  have "common (?names (h_capabilities hb)) (sort_key sv_name ?A) = common (?names (h_capabilities ha)) (sort_key sv_name ?B)"
    using sides_agree [OF assms(3,4,7,8)] assms(9) by blast
  moreover have "set (common (?names (h_capabilities hb)) (sort_key sv_name ?A)) =
      sv_protocol ` (set ?A \<inter> set ?B - {peermanager_service})"
    using common_set [OF assms(3,4)] assms(9) by simp
  ultimately show ?thesis using s' t' by auto
qed

lemma services_agree_witness:
  "\<exists>s' t' cs. receive_hello (sample_net False 9) 0 0 (sample_hello_of 8) (sample_started False 9) = (Inr (), s') \<and>
    receive_hello (sample_net False 8) 0 0 (sample_hello_of 9) (sample_started False 8) = (Inr (), t') \<and>
    protocols (peer_at s' 0) = Some (p2p_protocol # cs) \<and> protocols (peer_at t' 0) = Some (p2p_protocol # cs) \<and>
    set cs = {sample_protocol 32}"
proof -
  obtain s' t' where run: "receive_hello (sample_net False 9) 0 0 (sample_hello_of 8) (sample_started False 9) = (Inr (), s')"
    "accepted (peer_at s' 0)"
    "receive_hello (sample_net False 8) 0 0 (sample_hello_of 9) (sample_started False 8) = (Inr (), t')"
    "accepted (peer_at t' 0)" using sample_accepts by blast
  have sv: "services (nl_config (sample_net False b)) = [peermanager_service, sample_service]" for b
    by (simp add: sample_net_defs)
  have *: "sample_service \<noteq> peermanager_service" "sv_protocol sample_service = sample_protocol 32"
    "pc_name (sample_protocol 32) \<noteq> pc_name p2p_protocol" "sv_protocol peermanager_service = p2p_protocol"
    "sv_name sample_service \<noteq> sv_name peermanager_service"
    by (simp_all add: sample_service_def peermanager_service_def sample_protocol_def p2p_protocol_def p2p_name_def)
  have caps: "announced [peermanager_service, sample_service] = Inr (h_capabilities (sample_hello_of b))" for b
    by (simp add: sample_service_def peermanager_service_def sample_protocol_def p2p_protocol_def sample_hello_of_def)
  have py2: "\<not> py3 (nl_config (sample_net False b))" for b by (simp add: sample_net_defs)
  have new: "protocols (peer_at (sample_started False b) 0) = Some [p2p_protocol]" "\<not> accepted (peer_at (sample_started False b) 0)" for b
    by (simp_all add: accepted_def)
  obtain cs where cs: "protocols (peer_at s' 0) = Some (p2p_protocol # cs) \<and> protocols (peer_at t' 0) = Some (p2p_protocol # cs) \<and>
    set cs = sv_protocol ` (set [peermanager_service, sample_service] \<inter> set [peermanager_service, sample_service] - {peermanager_service})"
    using services_agree [OF run(1) run(3), unfolded sv, OF caps caps py2 py2 _ _ _ new run(2) new run(4)] *
    by (auto simp: eq_commute [of "pc_name p2p_protocol"])
  show ?thesis by (intro exI [of _ s'] exI [of _ t'] exI [of _ cs]) (use run cs * in auto)
qed

section \<open>Errors\<close>

text \<open>C35. When the bytes that a peer reads make its session raise, whatever the exception, the loop that reads them
  reports the errors of the session and of the multiplexer and ends regularly, and lets every other exception
  out; in both cases the peer is stopped, in the second by the link of its greenlet, the manager no longer
  lists it, and what was put in its queues before stays there.\<close>

theorem session_error_stops_peer:
  assumes "i \<in> set (peers s)" "distinct (peers s)" "\<not> is_stopped (peer_at s i)" "data \<noteq> []"
    and "add_message (nl_rlp N) (nl_crypto N) (nl_eip8 N) r data (session (peer_at s i)) = (Inl e, ms)"
  shows "fst (run_ingress_message N i r (Received data) s) =
      (if is_rlpx_error e \<or> is_multiplexer_error e then Inr () else Inl e) \<and>
    (\<exists>s'. peer_greenlet N i r (Received data) s = (Inr (), s') \<and> is_stopped (peer_at s' i) \<and>
      set (peers s') = set (peers s) - {i} \<and> protocols (peer_at s' i) = None \<and> session (peer_at s' i) = ms)"
proof -
  define u where "u = s\<lparr>peer_at := (peer_at s)(i := (peer_at s i)\<lparr>session := ms\<rparr>)\<rparr>"
  define err where "err = (if is_rlpx_error e then RlpxError else MuxError)"
  define v where "v = (if is_rlpx_error e \<or> is_multiplexer_error e then snd (report_error (nl_config N) i err u) else u)"
  have v: "peers v = peers u" "peer_at v = peer_at u"
    unfolding v_def by (simp_all add: report_error_run)
  obtain w where w: "stop i v = (Inr (), w)"
    using assms(1,3) by (simp add: stop_run u_def v Let_def)
  have run: "run_ingress_message N i r (Received data) s =
    (if is_rlpx_error e \<or> is_multiplexer_error e then stop i v else (Inl e, v))"
    using assms(3-5) unfolding v_def err_def
    by (simp add: run_ingress_message_def look_def step_simps try_catch_def on_session_def u_def [symmetric])
      (simp add: report_error_run throw_def)
  then have "peer_greenlet N i r (Received data) s = (Inr (), w)"
    using w by (simp add: peer_greenlet_def try_catch_def on_peer_exit_def)
  moreover have "is_stopped (peer_at w i) \<and> set (peers w) = set (peers s) - {i} \<and> protocols (peer_at w i) = None \<and>
      session (peer_at w i) = ms"
    using w v assms(1-3) by (auto simp: stop_run u_def Let_def)
  ultimately show ?thesis using run w by simp
qed

lemma session_error_stops_peer_witness:
  "\<exists>s'. peer_greenlet (sample_net False 9) 0 sample_draws (Received [1]) (sample_started False 9) = (Inr (), s') \<and>
    is_stopped (peer_at s' 0) \<and> peers s' = []"
proof -
  obtain ms where "add_message sample_rlp sample_crypto sample_eip8 sample_draws [1] (session (peer_at (sample_started False 9) 0)) =
    (Inl FormatError, ms)" using sample_bad_message by blast
  with session_error_stops_peer [of 0 "sample_started False 9" "[1]" "sample_net False 9" sample_draws FormatError ms]
  show ?thesis by (auto simp: sample_net_defs)
qed

section \<open>Identities\<close>

text \<open>C34. On the side of the responder the key in the hello is not compared with the key that the initiator has
  proved in the handshake: a hello with any other key of 64 bytes, as long as it is neither the own one nor that
  of another peer, is accepted (with room, in Python 2, for a version of at most 5, the services having different
  protocol ids), whatever capabilities it lists. From then on the peer has the claimed key, and the session still knows the proved one.\<close>

theorem responder_takes_claimed_key:
  assumes "\<not> remote_pubkey_available (peer_at s i)" "proved_key (peer_at s i) = Some proved"
    and "protocols (peer_at s i) = Some [p2p_protocol]" "protocol_ids (session (peer_at s i)) = [0]"
    and "admissible N i (h_remote_pubkey h) s" "h_remote_pubkey h \<noteq> own_id (nl_config N)"
    and "length (h_remote_pubkey h) = 64" "h_version h \<le> 5"
    and "\<not> py3 (nl_config N)" "separate_ids (services (nl_config N))"
  shows "\<exists>s'. hello_receive N now i h s = (Inr (), s') \<and> accepted (peer_at s' i) \<and>
    remote_pubkey (peer_at s' i) = Some (h_remote_pubkey h) \<and> proved_key (peer_at s' i) = Some proved"
proof -
  obtain u where u: "receive_hello N now i h s = (Inr (), u)" "accepted (peer_at u i)"
    "remote_pubkey (peer_at u i) = Some (h_remote_pubkey h)" "proved_key (peer_at u i) = Some proved"
    using receive_hello_succeeds [OF assms(8,7,5) _ assms(3,4,9,10)] assms(1,2) by fastforce
  have "seq (receive_hello N now i h) g s = g () u" for g :: "unit \<Rightarrow> (net, unit) prog"
    using u(1) by (simp add: seq_def)
  then show ?thesis using assms(6) u
    by (simp add: hello_receive_def upd_def modify_def accepted_def remote_pubkey_def proved_key_def)
qed

definition sample_authenticated :: net where
  "sample_authenticated = snd (on_session 0 (on_rlpx (modify (\<lambda>s. s\<lparr>s_remote_pubkey := Some (replicate 64 8)\<rparr>)))
     (sample_started False 9))"

lemma responder_takes_claimed_key_witness:
  "\<exists>s'. hello_receive (sample_net False 9) 0 0 (sample_hello_of 7) sample_authenticated = (Inr (), s') \<and>
    remote_pubkey (peer_at s' 0) = Some (replicate 64 7) \<and> proved_key (peer_at s' 0) = Some (replicate 64 8)"
proof -
  have ids: "protocol_ids (session (peer_at sample_authenticated 0)) = [0]"
    by (simp add: sample_authenticated_def on_session_def on_rlpx_def on_mux_def on_cipher_def modify_def sample_started_session
        protocol_ids_def add_protocol_def mk_msession_def mk_mux_def prog_defs py_or_def Let_def)
  have sep: "separate_ids (services (nl_config (sample_net False 9)))"
    by (simp add: separate_ids_def sample_net_defs peermanager_service_def sample_service_def sample_protocol_def p2p_protocol_def)
  have "(7 :: byte) \<noteq> 9" by simp
  then have key: "replicate 64 (7 :: byte) \<noteq> replicate 64 9" by (simp add: numeral_eq_Suc)
  show ?thesis
    using responder_takes_claimed_key [of sample_authenticated 0 "replicate 64 8" "sample_net False 9" "sample_hello_of 7" 0] ids sep key
    by (auto simp: sample_authenticated_def on_session_def on_rlpx_def on_mux_def on_cipher_def modify_def admissible_def
        proved_key_def sample_net_defs sample_hello_of_def)
qed

section \<open>The manager\<close>

text \<open>Stopping the manager leaves every second peer running: \<open>stop\<close> iterates over the list that each
  stopped peer takes itself out of.\<close>

theorem manager_stop_skips_peers:
  assumes "distinct (peers s)" "\<forall>i \<in> set (peers s). \<not> is_stopped (peer_at s i)"
  shows "\<exists>s'. stop_peers s = (Inr (), s') \<and> peers s' = every_second (peers s) \<and>
    (\<forall>i \<in> set (peers s). is_stopped (peer_at s' i) \<longleftrightarrow> i \<notin> set (every_second (peers s)))"
  using stop_from_run [of s "[]" "peers s" "length (peers s)"] assms by (auto simp: stop_peers_def)

lemma manager_stop_skips_peers_witness:
  "\<exists>s'. stop_peers (sample_started False 9\<lparr>peers := [0, 1, 2], peer_at := \<lambda>_. sample_junk\<rparr>) = (Inr (), s') \<and> peers s' = [1]"
  using manager_stop_skips_peers [of "sample_started False 9\<lparr>peers := [0, 1, 2], peer_at := \<lambda>_. sample_junk\<rparr>"]
  by (auto simp: sample_junk_def blank_peer_def)

text \<open>The node that the discovery loop connects to is in the routing table, at most one node of the table is
  closer to the random id, no peer of the manager has its key, and it is not the node itself.\<close>

theorem discovery_choice_sound:
  assumes "rt_wf hash (routing k)" "discovery_choice cfg pick nodeid k s = Some n" "\<forall>ns. ns \<noteq> [] \<longrightarrow> pick ns \<in> set ns"
  shows "n \<in> set (rt_nodes (routing k)) \<and> card {m \<in> set (rt_nodes (routing k)). id_distance nodeid m < id_distance nodeid n} \<le> 1 \<and>
    (\<forall>i \<in> set (peers s). remote_pubkey (peer_at s i) \<noteq> Some (pubkey n)) \<and> pubkey n \<noteq> own_id cfg"
proof -
  let ?d = "id_distance nodeid" and ?ns = "sort_key (id_distance nodeid) (rt_nodes (routing k))"
  have ns: "neighbours 2 nodeid (routing k) = take 2 ?ns" by (rule neighbours_eq [OF assms(1)])
  have c: "n \<in> set (take 2 ?ns)" "Some (pubkey n) \<notin> set (remote_pubkeys s)" "pubkey n \<noteq> own_id cfg"
    using assms(2) assms(3) [rule_format, of "take 2 ?ns"] by (auto simp: discovery_choice_def ns Let_def split: if_splits)
  have closer: "{m \<in> set (rt_nodes (routing k)). ?d m < ?d n} \<subseteq> set (take 1 ?ns)"
  proof
    fix m assume m: "m \<in> {m \<in> set (rt_nodes (routing k)). ?d m < ?d n}"
    obtain i where i: "i < 2" "i < length ?ns" "n = ?ns ! i" using c(1) by (auto simp: in_set_conv_nth)
    obtain j where j: "j < length ?ns" "m = ?ns ! j" using m by (metis (no_types, lifting) in_set_conv_nth mem_Collect_eq set_sort)
    have "j < i"
    proof (rule ccontr)
      assume "\<not> j < i"
      then have "map ?d ?ns ! i \<le> map ?d ?ns ! j" using i j by (intro sorted_nth_mono) simp_all
      then show False using m i j by simp
    qed
    then have "j = 0" using i(1) by simp
    then show "m \<in> set (take 1 ?ns)" using j by (auto simp: in_set_conv_nth)
  qed
  have "card (set (take 1 ?ns)) \<le> length (take 1 ?ns)" by (rule card_length)
  then have "card {m \<in> set (rt_nodes (routing k)). ?d m < ?d n} \<le> 1"
    using card_mono [OF _ closer] by (simp add: le_trans)
  moreover have "n \<in> set (rt_nodes (routing k))" using set_take_subset [of 2 ?ns] c(1) by auto
  ultimately show ?thesis using c(2,3) by (auto simp: remote_pubkeys_def image_iff)
qed

lemma discovery_choice_sound_witness:
  "discovery_choice (sample_config False 9) hd 2 (sample_kad [1, 2, 3] []) (sample_started False 9) = Some (sample_node 2) \<and>
    card {m \<in> {sample_node 1, sample_node 2, sample_node 3}. id_distance 2 m < id_distance 2 (sample_node 2)} \<le> 1"
proof -
  have wf: "rt_wf sample_hash (routing (sample_kad [1, 2, 3] []))" using sample_rt_wf [of "[1, 2, 3]"] by (simp add: sample_kad_def)
  have ns: "neighbours 2 2 (routing (sample_kad [1, 2, 3] [])) = [sample_node 2, sample_node 3]"
    unfolding neighbours_eq [OF wf] by (simp add: sample_kad_def sample_rt_def sample_bucket_def rt_nodes_def id_distance_def)
  have "remote_pubkey (peer_at (sample_started False 9) 0) = None"
    unfolding remote_pubkey_def ms_get_remote_pubkey_def sample_started_session
    by (simp add: on_mux_def mk_msession_def py_or_def Let_def add_protocol_def prog_defs mk_mux_def mk_session_def)
  moreover have "pubkey (sample_node 2) \<noteq> replicate 64 9"
  proof
    assume "pubkey (sample_node 2) = replicate 64 9"
    then have "hd (pubkey (sample_node 2)) = 9" by simp
    then show False by (simp add: sample_node_def hd_append)
  qed
  ultimately have c: "discovery_choice (sample_config False 9) hd 2 (sample_kad [1, 2, 3] []) (sample_started False 9) = Some (sample_node 2)"
    unfolding discovery_choice_def ns by (simp add: remote_pubkeys_def sample_config_def)
  have "set (rt_nodes (routing (sample_kad [1, 2, 3] []))) = {sample_node 1, sample_node 2, sample_node 3}"
    by (simp add: sample_kad_def sample_rt_def sample_bucket_def rt_nodes_def)
  with discovery_choice_sound [OF wf c] c show ?thesis by simp
qed

end
