(* ===== verification/Connection_Strategy.thy ===== *)
theory Connection_Strategy
  imports Routing_Table
begin

text \<open>
  The connection strategies of \<open>examples/connection_strategy_simulator.py\<close>: nodes with targets in
  the id space, the connections they make to nodes close to their targets, and the rounds of the
  simulation. A node is known by its id; routing tables are those of the discovery. The language
  of the file is Python 2, whose division of integers rounds down. Statistics and drawing are left out.
\<close>

section \<open>State\<close>

record target =
  tg_address :: int
  tg_tolerance :: int
  tg_connected :: "int option"

record cnode =
  nd_routing :: rtable
  nd_min_peers :: nat
  nd_max_peers :: nat
  nd_connections :: "int list"
  nd_targets :: "target list"

text \<open>The ordered dictionary of nodes: its keys, and the nodes by their ids.\<close>

record network =
  nw_order :: "int list"
  nw_node :: "int \<Rightarrow> cnode"

definition node_get :: "int \<Rightarrow> (cnode \<Rightarrow> 'a) \<Rightarrow> (network, 'a) prog" where
  "node_get i f = gets (\<lambda>s. f (nw_node s i))"

definition node_upd :: "int \<Rightarrow> (cnode \<Rightarrow> cnode) \<Rightarrow> (network, unit) prog" where
  "node_upd i f = modify (\<lambda>s. s\<lparr>nw_node := (nw_node s)(i := f (nw_node s i))\<rparr>)"

definition mk_cnode :: "rtable \<Rightarrow> nat \<Rightarrow> nat \<Rightarrow> cnode" where
  "mk_cnode rt min_peers max_peers =
     \<lparr>nd_routing = rt, nd_min_peers = min_peers, nd_max_peers = max_peers, nd_connections = [], nd_targets = []\<rparr>"

definition outbound :: "cnode \<Rightarrow> int list" where
  "outbound c = List.map_filter tg_connected (nd_targets c)"

definition inbound :: "cnode \<Rightarrow> int list" where
  "inbound c = filter (\<lambda>n. n \<notin> set (outbound c)) (nd_connections c)"

section \<open>Connections\<close>

definition receive_connect :: "int \<Rightarrow> int \<Rightarrow> (network, bool) prog" where
  "receive_connect i other =
     seq (node_get i (\<lambda>c. length (nd_connections c) \<ge> nd_max_peers c)) (\<lambda>full.
     if full then ret False
     else
       seq (node_get i nd_connections) (\<lambda>cs.
       seq (py_assert (other \<notin> set cs)) (\<lambda>_.
       seq (node_upd i (\<lambda>c. c\<lparr>nd_connections := nd_connections c @ [other]\<rparr>)) (\<lambda>_.
       seq (node_get i (\<lambda>c. length (nd_connections c) \<le> nd_max_peers c)) (\<lambda>ok.
       seq (py_assert ok) (\<lambda>_.
       ret True))))))"

definition receive_disconnect :: "int \<Rightarrow> int \<Rightarrow> (network, unit) prog" where
  "receive_disconnect i other =
     seq (node_get i nd_connections) (\<lambda>cs.
     seq (py_assert (other \<in> set cs)) (\<lambda>_.
     seq (node_upd i (\<lambda>c. c\<lparr>nd_connections := remove1 other (nd_connections c)\<rparr>)) (\<lambda>_.
     node_upd i (\<lambda>c. c\<lparr>nd_targets := map (\<lambda>t. if tg_connected t = Some other then t\<lparr>tg_connected := None\<rparr> else t) (nd_targets c)\<rparr>))))"

text \<open>The loop of \<open>connect_peers\<close> over the candidates for the target at \<open>k\<close>; the result tells whether one was connected.\<close>

fun try_candidates :: "int \<Rightarrow> nat \<Rightarrow> node list \<Rightarrow> (network, bool) prog" where
  "try_candidates i k [] = ret False"
| "try_candidates i k (n # ns) =
     seq (node_get i (\<lambda>c. (length (nd_connections c) < nd_max_peers c, nd_targets c ! k))) (\<lambda>(room, t).
     seq (py_assert room) (\<lambda>_.
     if id_distance (tg_address t) n < tg_tolerance t then
       seq (gets (\<lambda>s. node_id n \<in> set (nw_order s))) (\<lambda>known.
       seq (if known then ret () else throw KeyError) (\<lambda>_.
       seq (node_get i nd_connections) (\<lambda>cs.
       if node_id n \<notin> set cs \<and> node_id n \<noteq> i then
         seq (receive_connect (node_id n) i) (\<lambda>accepted.
         if accepted then
           seq (node_get i (\<lambda>c. length (nd_connections c) < nd_max_peers c)) (\<lambda>ok.
           seq (py_assert ok) (\<lambda>_.
           seq (node_upd i (\<lambda>c. c\<lparr>nd_targets := (nd_targets c)[k := (nd_targets c ! k)\<lparr>tg_connected := Some (node_id n)\<rparr>]\<rparr>)) (\<lambda>_.
           seq (node_upd i (\<lambda>c. c\<lparr>nd_connections := nd_connections c @ [node_id n]\<rparr>)) (\<lambda>_.
           seq (node_get i (\<lambda>c. length (nd_connections c) \<le> nd_max_peers c)) (\<lambda>ok.
           seq (py_assert ok) (\<lambda>_.
           ret True))))))
         else try_candidates i k ns)
       else try_candidates i k ns)))
     else try_candidates i k ns))"

text \<open>
  The loop over the targets. \<open>nearby\<close> is \<open>random_within_distance\<close> with the shuffling; the variable
  \<open>candidates\<close> is the parameter of the method, which the loop overwrites.
\<close>

fun connect_targets ::
  "int \<Rightarrow> nat \<Rightarrow> (node list \<Rightarrow> node list) option \<Rightarrow> nat list \<Rightarrow> node list \<Rightarrow> nat \<Rightarrow> (network, nat) prog" where
  "connect_targets i max_connects nearby [] candidates num_connected = ret num_connected"
| "connect_targets i max_connects nearby (k # ks) candidates num_connected =
     seq (node_get i (\<lambda>c. (nd_targets c ! k, length (nd_connections c) \<ge> nd_max_peers c, nd_routing c))) (\<lambda>(t, full, rt).
     if tg_connected t \<noteq> None then connect_targets i max_connects nearby ks candidates num_connected
     else if full then ret num_connected
     else
       seq (if candidates \<noteq> [] then seq (py_assert (nearby = None)) (\<lambda>_. ret candidates)
            else ret (case nearby of
                Some shuffle \<Rightarrow> shuffle (neighbours_within_distance (tg_address t) (tg_tolerance t) rt)
              | None \<Rightarrow> neighbours k_bucket_size (tg_address t) rt)) (\<lambda>candidates.
       seq (try_candidates i k candidates) (\<lambda>connected.
       if connected then
         if max_connects \<noteq> 0 \<and> num_connected + 1 = max_connects then ret (num_connected + 1)
         else connect_targets i max_connects nearby ks candidates (num_connected + 1)
       else connect_targets i max_connects nearby ks candidates num_connected)))"

definition connect_peers ::
  "nat \<Rightarrow> (node list \<Rightarrow> node list) option \<Rightarrow> node list \<Rightarrow> int \<Rightarrow> (network, nat) prog" where
  "connect_peers max_connects nearby candidates i =
     seq (node_get i nd_targets) (\<lambda>ts.
     seq (py_assert (ts \<noteq> [])) (\<lambda>_.
     connect_targets i max_connects nearby [0..<length ts] candidates 0))"

section \<open>Strategies\<close>

text \<open>\<open>setup_targets\<close> of \<open>CNodeRandom\<close>; \<open>randints\<close> are the distances drawn.\<close>

definition add_target :: "int \<Rightarrow> int \<Rightarrow> int \<Rightarrow> (network, unit) prog" where
  "add_target i address tolerance = node_upd i (\<lambda>c. c\<lparr>nd_targets := nd_targets c @
     [\<lparr>tg_address = address, tg_tolerance = tolerance, tg_connected = None\<rparr>]\<rparr>)"

definition setup_random :: "(nat \<Rightarrow> int) \<Rightarrow> int \<Rightarrow> (network, unit) prog" where
  "setup_random randints i =
     seq (node_get i nd_min_peers) (\<lambda>n.
     seq (node_get i nd_max_peers) (\<lambda>max_peers.
     for_each [0..<n] (\<lambda>j.
       if max_peers = 0 then throw (LibraryError ''ZeroDivisionError'')
       else add_target i ((i + randints j) mod (k_max_node_id + 1)) (k_max_node_id div int max_peers))))"

text \<open>\<open>setup_targets\<close> of \<open>CNodeKademlia\<close>: the distance is halved for each target.\<close>

fun kademlia_targets :: "int \<Rightarrow> nat \<Rightarrow> int \<Rightarrow> (network, unit) prog" where
  "kademlia_targets i 0 d = ret ()"
| "kademlia_targets i (Suc n) d =
     (let d = d div 2 in
      seq (add_target i ((i + d) mod (k_max_node_id + 1)) (d div 2)) (\<lambda>_.
      kademlia_targets i n d))"

definition setup_kademlia :: "int \<Rightarrow> (network, unit) prog" where
  "setup_kademlia i = seq (node_get i nd_min_peers) (\<lambda>n. kademlia_targets i n k_max_node_id)"

text \<open>
  The selection in \<open>setup_targets\<close> of \<open>CNodeRandomSelfLookup\<close> and \<open>CNodeSelfOtherSide\<close>: nodes are drawn
  until enough different ones were seen; \<open>None\<close> when the draws given do not suffice.
\<close>

fun select_targets :: "nat \<Rightarrow> node list \<Rightarrow> node list \<Rightarrow> node list option" where
  "select_targets 0 draws selected = Some selected"
| "select_targets (Suc n) [] selected = None"
| "select_targets (Suc n) (d # draws) selected =
     (if d \<in> set selected then select_targets (Suc n) draws selected
      else select_targets n draws (selected @ [d]))"

definition add_selected :: "int \<Rightarrow> node list \<Rightarrow> (network, unit) prog" where
  "add_selected i selected = for_each selected (\<lambda>n. add_target i (node_id n) 1)"

text \<open>\<open>find_targets\<close> of \<open>CNodeRandomFast\<close>: the candidates for its targets among all nodes.\<close>

fun fast_candidates :: "node list \<Rightarrow> target list \<Rightarrow> node list res" where
  "fast_candidates all_nodes [] = Inr []"
| "fast_candidates all_nodes (t # ts) =
     (let tolerance = k_max_node_id div int (length all_nodes) * 100;
          nodes = filter (\<lambda>n. id_distance (tg_address t) n < tolerance) all_nodes in
      if nodes = [] then Inl AssertionError
      else bind_res (fast_candidates all_nodes ts) (\<lambda>cs.
           Inr (take 4 (sort_key (id_distance (tg_address t)) nodes) @ cs)))"

definition find_targets_fast :: "node list \<Rightarrow> int \<Rightarrow> network \<Rightarrow> node list res" where
  "find_targets_fast all_nodes i s =
     (if all_nodes = [] then Inl AssertionError else fast_candidates all_nodes (nd_targets (nw_node s i)))"

text \<open>
  \<open>connect_peers\<close> of the classes, with the \<open>max_connects\<close> of the simulation: the nearest neighbours,
  the candidates found before (\<open>CNodeRandomFast\<close>), or random nodes nearby (\<open>CNodeFelixNoLimits\<close> and
  \<open>CNodeKademliaRandom\<close>).
\<close>

definition connect_nearest :: "int \<Rightarrow> (network, nat) prog" where
  "connect_nearest = connect_peers 1 None []"

definition connect_fast :: "(int \<Rightarrow> node list) \<Rightarrow> int \<Rightarrow> (network, nat) prog" where
  "connect_fast candidates i = connect_peers 1 None (candidates i) i"

definition connect_nearby :: "(node list \<Rightarrow> node list) \<Rightarrow> int \<Rightarrow> (network, nat) prog" where
  "connect_nearby shuffle = connect_peers 1 (Some shuffle) []"

section \<open>The simulation\<close>

text \<open>
  One round, in which every node may connect once, and the rounds until one connects nobody;
  \<open>connect\<close> is the strategy's \<open>connect_peers\<close> with \<open>max_connects\<close> 1. \<open>None\<close> is that the fuel was not enough.
\<close>

fun connect_round :: "(int \<Rightarrow> (network, nat) prog) \<Rightarrow> int list \<Rightarrow> nat \<Rightarrow> (network, nat) prog" where
  "connect_round connect [] n_connects = ret n_connects"
| "connect_round connect (i # order) n_connects =
     seq (connect i) (\<lambda>n. connect_round connect order (n_connects + n))"

fun connect_rounds :: "(int \<Rightarrow> (network, nat) prog) \<Rightarrow> nat \<Rightarrow> network \<Rightarrow> (unit res \<times> network) option" where
  "connect_rounds connect 0 s = None"
| "connect_rounds connect (Suc fuel) s =
     (case connect_round connect (nw_order s) 0 s of
        (Inl e, s') \<Rightarrow> Some (Inl e, s')
      | (Inr n, s') \<Rightarrow> if n = 0 then Some (Inr (), s') else connect_rounds connect fuel s')"

end
