(* ===== verification/Connection_Laws.thy ===== *)
theory Connection_Laws
  imports Connection_Strategy Neighbours
begin

text \<open>
  Connections are mutual and bounded: the invariant of the network, what one attempt to connect does,
  and that every round with a connection uses up room, so that the rounds end.
\<close>

section \<open>The invariant\<close>

definition target_ok :: "cnode \<Rightarrow> target \<Rightarrow> bool" where
  "target_ok c t \<longleftrightarrow> (\<forall>j. tg_connected t = Some j \<longrightarrow> j \<in> set (nd_connections c) \<and> j XOR tg_address t < tg_tolerance t)"

definition cnode_ok :: "network \<Rightarrow> int \<Rightarrow> bool" where
  "cnode_ok s i \<longleftrightarrow> distinct (nd_connections (nw_node s i)) \<and> i \<notin> set (nd_connections (nw_node s i)) \<and>
     length (nd_connections (nw_node s i)) \<le> nd_max_peers (nw_node s i) \<and>
     (\<forall>j \<in> set (nd_connections (nw_node s i)). j \<in> set (nw_order s) \<and> i \<in> set (nd_connections (nw_node s j))) \<and>
     (\<forall>t \<in> set (nd_targets (nw_node s i)). target_ok (nw_node s i) t)"

definition network_ok :: "network \<Rightarrow> bool" where
  "network_ok s \<longleftrightarrow> distinct (nw_order s) \<and> (\<forall>i \<in> set (nw_order s). cnode_ok s i)"

lemma network_okD:
  assumes "network_ok s" "i \<in> set (nw_order s)"
  shows "distinct (nd_connections (nw_node s i))" "i \<notin> set (nd_connections (nw_node s i))"
    "length (nd_connections (nw_node s i)) \<le> nd_max_peers (nw_node s i)"
    "j \<in> set (nd_connections (nw_node s i)) \<Longrightarrow> j \<in> set (nw_order s) \<and> i \<in> set (nd_connections (nw_node s j))"
    "t \<in> set (nd_targets (nw_node s i)) \<Longrightarrow> target_ok (nw_node s i) t"
proof -
  have "cnode_ok s i" using assms by (simp add: network_ok_def)
  then show "distinct (nd_connections (nw_node s i))" "i \<notin> set (nd_connections (nw_node s i))"
    "length (nd_connections (nw_node s i)) \<le> nd_max_peers (nw_node s i)"
    "j \<in> set (nd_connections (nw_node s i)) \<Longrightarrow> j \<in> set (nw_order s) \<and> i \<in> set (nd_connections (nw_node s j))"
    "t \<in> set (nd_targets (nw_node s i)) \<Longrightarrow> target_ok (nw_node s i) t"
    by (simp_all add: cnode_ok_def)
qed

text \<open>What stays the same when nodes connect.\<close>

definition same_frame :: "network \<Rightarrow> network \<Rightarrow> bool" where
  "same_frame s s' \<longleftrightarrow> nw_order s' = nw_order s \<and>
     (\<forall>i. nd_routing (nw_node s' i) = nd_routing (nw_node s i) \<and> nd_max_peers (nw_node s' i) = nd_max_peers (nw_node s i) \<and>
          map tg_address (nd_targets (nw_node s' i)) = map tg_address (nd_targets (nw_node s i)) \<and>
          map tg_tolerance (nd_targets (nw_node s' i)) = map tg_tolerance (nd_targets (nw_node s i)))"

lemma same_frame_refl [simp]: "same_frame s s"
  by (simp add: same_frame_def)

lemma same_frame_trans: "same_frame s t \<Longrightarrow> same_frame t u \<Longrightarrow> same_frame s u"
  by (simp add: same_frame_def)

lemma same_frame_length: "same_frame s s' \<Longrightarrow> length (nd_targets (nw_node s' i)) = length (nd_targets (nw_node s i))"
  unfolding same_frame_def by (metis length_map)

section \<open>Connecting two nodes\<close>

text \<open>The state after node \<open>i\<close> has connected to \<open>j\<close> for its target at \<open>k\<close>.\<close>

definition link :: "int \<Rightarrow> nat \<Rightarrow> int \<Rightarrow> network \<Rightarrow> network" where
  "link i k j s = s\<lparr>nw_node := (nw_node s)
     (j := (nw_node s j)\<lparr>nd_connections := nd_connections (nw_node s j) @ [i]\<rparr>,
      i := (nw_node s i)\<lparr>nd_targets := (nd_targets (nw_node s i))[k := (nd_targets (nw_node s i) ! k)\<lparr>tg_connected := Some j\<rparr>],
                      nd_connections := nd_connections (nw_node s i) @ [j]\<rparr>)\<rparr>"

lemma link_frame: "j \<noteq> i \<Longrightarrow> same_frame s (link i k j s)"
proof -
  have "(map f ts)[k := f (ts ! k)] = map f ts" for f :: "target \<Rightarrow> int" and ts
    by (cases "k < length ts") (simp_all add: list_update_same_conv list_update_beyond)
  then show ?thesis by (simp add: same_frame_def link_def map_update)
qed

text \<open>When \<open>i\<close> may connect to \<open>j\<close> for that target.\<close>

definition linkable :: "int \<Rightarrow> nat \<Rightarrow> int \<Rightarrow> network \<Rightarrow> bool" where
  "linkable i k j s \<longleftrightarrow> j \<in> set (nw_order s) \<and> j \<noteq> i \<and> j \<notin> set (nd_connections (nw_node s i)) \<and>
     length (nd_connections (nw_node s i)) < nd_max_peers (nw_node s i) \<and>
     length (nd_connections (nw_node s j)) < nd_max_peers (nw_node s j) \<and>
     j XOR tg_address (nd_targets (nw_node s i) ! k) < tg_tolerance (nd_targets (nw_node s i) ! k)"

lemma link_ok:
  assumes "network_ok s" "i \<in> set (nw_order s)" "k < length (nd_targets (nw_node s i))" "linkable i k j s"
  shows "network_ok (link i k j s)"
proof -
  note l = assms(4) [unfolded linkable_def]
  have notin: "i \<notin> set (nd_connections (nw_node s j))" using network_okD(4) [OF assms(1), of j i] l by blast
  have "cnode_ok (link i k j s) m" if "m \<in> set (nw_order s)" for m
  proof -
    note m = network_okD [OF assms(1) that]
    have new: "nd_connections (nw_node (link i k j s) n) =
        nd_connections (nw_node s n) @ (if n = i then [j] else if n = j then [i] else [])" for n
      using l by (simp add: link_def)
    have t: "target_ok (nw_node (link i k j s) m) t" if "t \<in> set (nd_targets (nw_node (link i k j s) m))" for t
    proof (cases "t \<in> set (nd_targets (nw_node s m))")
      case True
      then show ?thesis using m(5) [of t] by (auto simp: target_ok_def new)
    next
      case False
      then have "m = i" "t = (nd_targets (nw_node s i) ! k)\<lparr>tg_connected := Some j\<rparr>"
        using that l set_update_subset_insert [of "nd_targets (nw_node s i)" k]
        by (auto simp: link_def split: if_splits dest!: subsetD [OF set_update_subset_insert])
      then show ?thesis using l by (simp add: target_ok_def new)
    qed
    have "nd_max_peers (nw_node (link i k j s) m) = nd_max_peers (nw_node s m)" by (simp add: link_def)
    moreover have "nw_order (link i k j s) = nw_order s" by (simp add: link_def)
    ultimately show ?thesis unfolding cnode_ok_def new
      using m(1-4) l notin assms(2) that t by (auto simp: new)
  qed
  then show ?thesis using assms(1) by (simp add: network_ok_def link_def)
qed

definition links :: "network \<Rightarrow> nat" where
  "links s = (\<Sum>i \<in> set (nw_order s). length (nd_connections (nw_node s i)))"

lemma links_link:
  assumes "i \<in> set (nw_order s)" "j \<in> set (nw_order s)" "j \<noteq> i"
  shows "links (link i k j s) = links s + 2"
proof -
  have "length (nd_connections (nw_node (link i k j s) m)) =
      length (nd_connections (nw_node s m)) + (if m = i then 1 else 0) + (if m = j then 1 else 0)" for m
    using assms(3) by (simp add: link_def)
  moreover have "nw_order (link i k j s) = nw_order s" by (simp add: link_def)
  ultimately show ?thesis using assms by (simp add: links_def sum.distrib)
qed

lemma links_bounded: "network_ok s \<Longrightarrow> links s \<le> (\<Sum>i \<in> set (nw_order s). nd_max_peers (nw_node s i))"
  unfolding links_def by (rule sum_mono) (rule network_okD(3))

section \<open>The candidates of a target\<close>

lemma receive_connect_run:
  "receive_connect j i s =
     (if nd_max_peers (nw_node s j) \<le> length (nd_connections (nw_node s j)) then (Inr False, s)
      else if i \<in> set (nd_connections (nw_node s j)) then (Inl AssertionError, s)
      else (Inr True, s\<lparr>nw_node := (nw_node s)(j := (nw_node s j)\<lparr>nd_connections := nd_connections (nw_node s j) @ [i]\<rparr>)\<rparr>))"
  by (simp add: receive_connect_def node_get_def node_upd_def step_simps ret_def py_assert_def lift_res_def assert_res_def seq_def)

lemma try_candidates_run:
  assumes "network_ok s" "i \<in> set (nw_order s)" "length (nd_connections (nw_node s i)) < nd_max_peers (nw_node s i)"
    and "\<forall>n \<in> set ns. node_id n \<in> set (nw_order s)"
  shows "try_candidates i k ns s = (Inr False, s) \<or>
    (\<exists>n \<in> set ns. linkable i k (node_id n) s \<and> try_candidates i k ns s = (Inr True, link i k (node_id n) s))"
  using assms(4)
proof (induction ns)
  case Nil
  then show ?case by (simp add: ret_def)
next
  case (Cons n ns)
  let ?j = "node_id n" and ?t = "nd_targets (nw_node s i) ! k"
  show ?case
  proof (cases "id_distance (tg_address ?t) n < tg_tolerance ?t \<and> ?j \<notin> set (nd_connections (nw_node s i)) \<and> ?j \<noteq> i \<and>
      length (nd_connections (nw_node s ?j)) < nd_max_peers (nw_node s ?j)")
    case True
    have "i \<notin> set (nd_connections (nw_node s ?j))"
      using network_okD(4) [OF assms(1), of ?j i] True Cons.prems by auto
    moreover have "linkable i k ?j s" using True assms(3) Cons.prems by (simp add: linkable_def id_distance_def)
    moreover have "\<not> nd_max_peers (nw_node s ?j) \<le> length (nd_connections (nw_node s ?j))" using True by simp
    ultimately have "linkable i k ?j s \<and> try_candidates i k (n # ns) s = (Inr True, link i k ?j s)"
      using True assms(3) Cons.prems
      by (simp add: node_get_def step_simps seq_def [of "receive_connect _ _"] receive_connect_run node_upd_def link_def)
        (simp add: ret_def)
    then show ?thesis by auto
  next
    case False
    have "try_candidates i k (n # ns) s = try_candidates i k ns s"
      using False assms(3) Cons.prems
      by (auto simp: node_get_def step_simps seq_def [of "receive_connect _ _"] receive_connect_run)
    then show ?thesis using Cons by auto
  qed
qed

section \<open>The targets of a node\<close>

text \<open>The nodes that a strategy of node \<open>i\<close> can meet belong to the network.\<close>

definition closed_for :: "network \<Rightarrow> (node list \<Rightarrow> node list) option \<Rightarrow> int \<Rightarrow> bool" where
  "closed_for s nearby i \<longleftrightarrow> (\<exists>h. rt_wf h (nd_routing (nw_node s i))) \<and>
     (\<forall>n \<in> set (rt_nodes (nd_routing (nw_node s i))). node_id n \<in> set (nw_order s)) \<and>
     (\<forall>shuffle. nearby = Some shuffle \<longrightarrow> (\<forall>ns. set (shuffle ns) \<subseteq> set ns))"

lemma closed_for_frame: "same_frame s s' \<Longrightarrow> closed_for s' nearby i = closed_for s nearby i"
  by (simp add: closed_for_def same_frame_def)

text \<open>How a run of \<open>connect_peers\<close>, or of its loop, ends.\<close>

definition connected_by :: "(node list \<Rightarrow> node list) option \<Rightarrow> nat \<Rightarrow> network \<Rightarrow> nat res \<times> network \<Rightarrow> bool" where
  "connected_by nearby num s p \<longleftrightarrow> network_ok (snd p) \<and> same_frame s (snd p) \<and>
     (case fst p of
        Inl e \<Rightarrow> e = AssertionError \<and> nearby \<noteq> None
      | Inr n \<Rightarrow> num \<le> n \<and> links (snd p) = links s + 2 * (n - num))"

lemma connected_by_after:
  assumes "connected_by nearby (num + 1) (link i k j s) p" "linkable i k j s" "i \<in> set (nw_order s)"
  shows "connected_by nearby num s p"
proof -
  have j: "j \<in> set (nw_order s)" "j \<noteq> i" using assms(2) by (simp_all add: linkable_def)
  note f = same_frame_trans [OF link_frame [OF j(2), of s k]] and l = links_link [OF assms(3) j, of k]
  show ?thesis
  proof (cases "fst p")
    case (Inl e)
    then show ?thesis using assms(1) f by (simp add: connected_by_def)
  next
    case (Inr n)
    then show ?thesis using assms(1) f l by (auto simp: connected_by_def)
  qed
qed

lemma chosen_closed:
  assumes "closed_for s nearby i" "\<forall>n \<in> set candidates. node_id n \<in> set (nw_order s)"
    and "cs = (if candidates \<noteq> [] then candidates else (case nearby of
                Some shuffle \<Rightarrow> shuffle (neighbours_within_distance a d (nd_routing (nw_node s i)))
              | None \<Rightarrow> neighbours k_bucket_size a (nd_routing (nw_node s i))))"
  shows "\<forall>n \<in> set cs. node_id n \<in> set (nw_order s)"
proof -
  let ?R = "set (rt_nodes (nd_routing (nw_node s i)))"
  obtain h where "rt_wf h (nd_routing (nw_node s i))" using assms(1) by (auto simp: closed_for_def)
  note near = neighbours_subset [OF this, of k_bucket_size a]
  have around: "set (neighbours_within_distance a d (nd_routing (nw_node s i))) \<subseteq> ?R"
    by (auto simp: neighbours_within_distance_def)
  have shuffled: "set (shuffle ns) \<subseteq> set ns" if "nearby = Some shuffle" for shuffle ns
    using assms(1) that by (simp add: closed_for_def)
  have "set cs \<subseteq> set candidates \<union> ?R"
  proof (cases "candidates = []")
    case True
    show ?thesis
    proof (cases nearby)
      case None
      then show ?thesis using True near by (simp add: assms(3))
    next
      case (Some shuffle)
      then show ?thesis using True shuffled [OF Some] around by (simp add: assms(3)) blast
    qed
  qed (simp add: assms(3))
  moreover have "\<forall>n \<in> ?R. node_id n \<in> set (nw_order s)" using assms(1) by (simp add: closed_for_def)
  ultimately show ?thesis using assms(2) by blast
qed

lemma connect_targets_spec:
  assumes "network_ok s" "i \<in> set (nw_order s)" "closed_for s nearby i"
    and "\<forall>n \<in> set candidates. node_id n \<in> set (nw_order s)" "\<forall>k \<in> set ks. k < length (nd_targets (nw_node s i))"
  shows "connected_by nearby num s (connect_targets i mx nearby ks candidates num s)"
  using assms
proof (induction ks arbitrary: s candidates num)
  case Nil
  then show ?case by (simp add: ret_def connected_by_def)
next
  case (Cons k ks)
  let ?t = "nd_targets (nw_node s i) ! k"
  define cs where "cs = (if candidates \<noteq> [] then candidates else (case nearby of
                Some shuffle \<Rightarrow> shuffle (neighbours_within_distance (tg_address ?t) (tg_tolerance ?t) (nd_routing (nw_node s i)))
              | None \<Rightarrow> neighbours k_bucket_size (tg_address ?t) (nd_routing (nw_node s i))))"
  note closed = chosen_closed [OF Cons.prems(3,4) cs_def]
  show ?case
  proof (cases "tg_connected ?t \<noteq> None \<or> length (nd_connections (nw_node s i)) \<ge> nd_max_peers (nw_node s i)")
    case True
    then show ?thesis using Cons.IH [of s candidates num] Cons.prems
      by (auto simp: node_get_def step_simps ret_def connected_by_def)
  next
    case open_target: False
    show ?thesis
    proof (cases "candidates \<noteq> [] \<and> nearby \<noteq> None")
      case True
      then have "connect_targets i mx nearby (k # ks) candidates num s = (Inl AssertionError, s)"
        using open_target by (auto simp: node_get_def step_simps) (simp add: seq_def py_assert_def lift_res_def assert_res_def)
      then show ?thesis using True Cons.prems(1) by (auto simp: connected_by_def)
    next
      case False
      then have chosen: "seq (if candidates \<noteq> [] then seq (py_assert (nearby = None)) (\<lambda>_. ret candidates)
            else ret (case nearby of
                Some shuffle \<Rightarrow> shuffle (neighbours_within_distance (tg_address ?t) (tg_tolerance ?t) (nd_routing (nw_node s i)))
              | None \<Rightarrow> neighbours k_bucket_size (tg_address ?t) (nd_routing (nw_node s i)))) f = f cs" for f :: "node list \<Rightarrow> (network, nat) prog"
        by (auto simp: cs_def)
      have run: "connect_targets i mx nearby (k # ks) candidates num s =
          seq (try_candidates i k cs) (\<lambda>connected.
            if connected then
              if mx \<noteq> 0 \<and> num + 1 = mx then ret (num + 1) else connect_targets i mx nearby ks cs (num + 1)
            else connect_targets i mx nearby ks cs num) s"
        unfolding connect_targets.simps node_get_def seq_gets_run split_conv chosen using open_target by simp
      from try_candidates_run [OF Cons.prems(1,2) _ closed, of k] open_target
      consider "try_candidates i k cs s = (Inr False, s)"
        | n where "n \<in> set cs" "linkable i k (node_id n) s" "try_candidates i k cs s = (Inr True, link i k (node_id n) s)"
        by (auto simp: not_le)
      then show ?thesis
      proof cases
        case 1
        then show ?thesis using Cons.IH [of s cs num] Cons.prems closed by (simp add: run seq_def [of "try_candidates i k cs"] 1 del: connect_targets.simps)
      next
        case 2
        let ?s = "link i k (node_id n) s"
        have f: "same_frame s ?s" using 2(2) by (auto simp: linkable_def intro: link_frame)
        then have o: "nw_order ?s = nw_order s" by (simp add: same_frame_def)
        have ok: "network_ok ?s" using link_ok [OF Cons.prems(1,2) _ 2(2)] Cons.prems(5) by simp
        have "connected_by nearby num s (connect_targets i mx nearby ks cs (num + 1) ?s)"
          by (rule connected_by_after [OF Cons.IH 2(2) Cons.prems(2)])
            (use ok o closed Cons.prems closed_for_frame [OF f] same_frame_length [OF f] in auto)
        moreover have "connected_by nearby num s (ret (num + 1) ?s)"
          by (rule connected_by_after [OF _ 2(2) Cons.prems(2)]) (use ok in \<open>simp add: connected_by_def ret_def\<close>)
        ultimately show ?thesis
          by (simp add: run seq_def [of "try_candidates i k cs"] 2(3) del: connect_targets.simps) metis
      qed
    qed
  qed
qed

lemma connect_peers_spec:
  assumes "network_ok s" "i \<in> set (nw_order s)" "closed_for s nearby i"
    and "\<forall>n \<in> set candidates. node_id n \<in> set (nw_order s)" "nd_targets (nw_node s i) \<noteq> []"
  shows "connected_by nearby 0 s (connect_peers mx nearby candidates i s)"
  using connect_targets_spec [OF assms(1-4), of "[0..<length (nd_targets (nw_node s i))]"] assms(5)
  by (simp add: connect_peers_def node_get_def step_simps)

end
