(* ===== verification/Connection_Rounds.thy ===== *)
theory Connection_Rounds
  imports Connection_Laws
begin

text \<open>
  What the rounds of the simulation need of a strategy, as a locale, and what they give for every
  strategy that provides it: connections stay mutual and bounded, and the rounds come to an end.
\<close>

locale strategy =
  fixes connect :: "int \<Rightarrow> (network, nat) prog"
    and nearby :: "(node list \<Rightarrow> node list) option"
    and fit :: "network \<Rightarrow> bool"
  assumes connects: "network_ok s \<Longrightarrow> fit s \<Longrightarrow> i \<in> set (nw_order s) \<Longrightarrow> connected_by nearby 0 s (connect i s)"
    and fit_frame: "fit s \<Longrightarrow> same_frame s s' \<Longrightarrow> fit s'"
begin

lemma round_spec:
  assumes "network_ok s" "fit s" "set order \<subseteq> set (nw_order s)"
  shows "connected_by nearby num s (connect_round connect order num s)"
  using assms
proof (induction order arbitrary: s num)
  case Nil
  then show ?case by (simp add: ret_def connected_by_def)
next
  case (Cons i order)
  obtain r u where run: "connect i s = (r, u)" by fastforce
  have c: "connected_by nearby 0 s (r, u)" using connects [of s i] Cons.prems run by simp
  then have u: "network_ok u" "same_frame s u" by (simp_all add: connected_by_def)
  show ?case
  proof (cases r)
    case (Inl e)
    then show ?thesis using c by (simp add: seq_def run connected_by_def)
  next
    case (Inr n)
    have "set order \<subseteq> set (nw_order u)" using Cons.prems(3) u(2) by (simp add: same_frame_def)
    from Cons.IH [OF u(1) fit_frame [OF Cons.prems(2) u(2)] this, of "num + n"]
    show ?thesis using c Inr same_frame_trans [OF u(2)]
      by (auto simp: run seq_run connected_by_def split: sum.splits)
  qed
qed

lemma rounds_spec:
  assumes "network_ok s" "fit s" "(\<Sum>i \<in> set (nw_order s). nd_max_peers (nw_node s i)) < links s + 2 * fuel"
  shows "\<exists>r s'. connect_rounds connect fuel s = Some (r, s') \<and> network_ok s' \<and> same_frame s s' \<and>
    (case r of
       Inl e \<Rightarrow> e = AssertionError \<and> nearby \<noteq> None
     | Inr u \<Rightarrow> \<exists>t. connect_round connect (nw_order t) 0 t = (Inr 0, s'))"
  using assms
proof (induction fuel arbitrary: s)
  case 0
  then show ?case using links_bounded [of s] by simp
next
  case (Suc fuel)
  obtain r u where run: "connect_round connect (nw_order s) 0 s = (r, u)" by fastforce
  have c: "connected_by nearby 0 s (r, u)" using round_spec [OF Suc.prems(1,2) order_refl, of 0] run by simp
  then have u: "network_ok u" "same_frame s u" by (simp_all add: connected_by_def)
  show ?case
  proof (cases r)
    case (Inl e)
    then show ?thesis using c u run by (auto simp: connected_by_def)
  next
    case (Inr n)
    show ?thesis
    proof (cases "n = 0")
      case True
      then show ?thesis using u run Inr by auto
    next
      case False
      have "(\<Sum>i \<in> set (nw_order u). nd_max_peers (nw_node u i)) < links u + 2 * fuel"
        using Suc.prems(3) c u(2) False Inr by (simp add: connected_by_def same_frame_def)
      from Suc.IH [OF u(1) fit_frame [OF Suc.prems(2) u(2)] this] show ?thesis
        using same_frame_trans [OF u(2)] run Inr False by auto
    qed
  qed
qed

end

section \<open>The strategies\<close>

definition closed_network :: "(node list \<Rightarrow> node list) option \<Rightarrow> network \<Rightarrow> bool" where
  "closed_network nearby s \<longleftrightarrow>
     (\<forall>i \<in> set (nw_order s). closed_for s nearby i \<and> nd_targets (nw_node s i) \<noteq> [])"

lemma closed_network_frame: "closed_network nearby s \<Longrightarrow> same_frame s s' \<Longrightarrow> closed_network nearby s'"
  using same_frame_length [of s s'] closed_for_frame [of s s']
  by (auto simp: closed_network_def same_frame_def) (metis length_0_conv)+

interpretation nearest: strategy connect_nearest None "closed_network None"
proof (unfold_locales, goal_cases)
  case (1 s i)
  then show ?case unfolding connect_nearest_def by (intro connect_peers_spec) (auto simp: closed_network_def)
next
  case (2 s s')
  then show ?case by (rule closed_network_frame)
qed

interpretation nearby: strategy "connect_nearby shuffle" "Some shuffle" "closed_network (Some shuffle)" for shuffle
proof (unfold_locales, goal_cases)
  case (1 s i)
  then show ?case unfolding connect_nearby_def by (intro connect_peers_spec) (auto simp: closed_network_def)
next
  case (2 s s')
  then show ?case by (rule closed_network_frame)
qed

definition candidates_known :: "(int \<Rightarrow> node list) \<Rightarrow> network \<Rightarrow> bool" where
  "candidates_known candidates s \<longleftrightarrow> (\<forall>i \<in> set (nw_order s). \<forall>n \<in> set (candidates i). node_id n \<in> set (nw_order s))"

interpretation fast: strategy "connect_fast candidates" None
    "\<lambda>s. closed_network None s \<and> candidates_known candidates s" for candidates
proof (unfold_locales, goal_cases)
  case (1 s i)
  then show ?case unfolding connect_fast_def
    by (intro connect_peers_spec) (auto simp: closed_network_def candidates_known_def)
next
  case (2 s s')
  then show ?case using closed_network_frame [of None s s'] by (simp add: candidates_known_def same_frame_def)
qed

end
