(* ===== verification/Connection_Properties.thy ===== *)
theory Connection_Properties
  imports Connection_Rounds Kademlia_Properties
begin

text \<open>
  The correctness properties of the connection strategies, each with a concrete instance.
\<close>

section \<open>A concrete network\<close>

text \<open>Node 0 knows the nodes 1 and 2 and has a target close to each of them; these know nobody.\<close>

definition sample_network :: network where
  "sample_network = \<lparr>nw_order = [0, 1, 2], nw_node = (\<lambda>i.
     if i = 0 then \<lparr>nd_routing = sample_rt [1, 2], nd_min_peers = 2, nd_max_peers = 2, nd_connections = [],
       nd_targets = [\<lparr>tg_address = 1, tg_tolerance = 4, tg_connected = None\<rparr>, \<lparr>tg_address = 2, tg_tolerance = 4, tg_connected = None\<rparr>]\<rparr>
     else \<lparr>nd_routing = mk_rtable 0 (sample_node (nat i)), nd_min_peers = 1, nd_max_peers = (if i = 1 then 0 else 2), nd_connections = [],
       nd_targets = [\<lparr>tg_address = 0, tg_tolerance = 4, tg_connected = None\<rparr>]\<rparr>)\<rparr>"

lemma sample_network_ok: "network_ok sample_network"
  by (simp add: network_ok_def cnode_ok_def sample_network_def target_ok_def)

lemma sample_network_closed:
  assumes "i \<in> set (nw_order sample_network)" "\<And>shuffle. nearby = Some shuffle \<Longrightarrow> \<forall>ns. set (shuffle ns) \<subseteq> set ns"
  shows "closed_for sample_network nearby i"
proof -
  have "rt_wf sample_hash (sample_rt [1, 2])" by (rule sample_rt_wf) simp_all
  moreover have "rt_wf sample_hash (mk_rtable 0 (sample_node 1))" "rt_wf sample_hash (mk_rtable 0 (sample_node 2))"
    by (intro mk_rtable_wf sample_node_ok; simp)+
  moreover have "rt_nodes (mk_rtable 0 n) = []" for n by (simp add: rt_nodes_def mk_rtable_def mk_kbucket_def)
  moreover have "rt_nodes (sample_rt [1, 2]) = [sample_node 1, sample_node 2]" by (simp add: rt_nodes_def sample_rt_def sample_bucket_def)
  ultimately show ?thesis using assms unfolding closed_for_def by (auto simp: sample_network_def)
qed

section \<open>Connecting\<close>

text \<open>C10. Connecting to peers keeps the connections of a network mutual, without duplicates, bounded by
  \<open>max_peers\<close>, and the connected targets within their tolerance, for every strategy; the result is
  the number of new connections. An assertion can only fail when random nodes nearby are chosen.\<close>

theorem connections_stay_mutual:
  assumes "network_ok s" "i \<in> set (nw_order s)" "closed_for s nearby i"
    and "\<forall>n \<in> set candidates. node_id n \<in> set (nw_order s)" "nd_targets (nw_node s i) \<noteq> []"
  shows "\<exists>r s'. connect_peers mx nearby candidates i s = (r, s') \<and> network_ok s' \<and> nw_order s' = nw_order s \<and>
    (case r of Inl e \<Rightarrow> e = AssertionError \<and> nearby \<noteq> None | Inr n \<Rightarrow> links s' = links s + 2 * n)"
  using connect_peers_spec [OF assms, of mx]
  by (cases "connect_peers mx nearby candidates i s") (auto simp: connected_by_def same_frame_def split: sum.splits)

lemma connections_stay_mutual_witness:
  "\<exists>r s'. connect_peers 1 None [] 0 sample_network = (r, s') \<and> network_ok s' \<and> r \<noteq> Inl KeyError"
  using connections_stay_mutual [OF sample_network_ok _ sample_network_closed, of 0 None "[]" 1]
  by (force simp: sample_network_def)

text \<open>C12. The rounds of the simulation end for each of the strategies, with enough fuel for as many rounds as there
  is room for peers. With the nearest neighbours or with candidates found before (\<open>CNodeRandomFast\<close>, which \<open>main\<close>
  runs), they end regularly, after a round that connected nobody; with random nodes nearby they end in this
  way or with an \<open>AssertionError\<close>. In every case the connections of the network in the end are mutual, distinct
  and bounded. The nodes of all routing tables and all candidates must belong to the network, and every
  node must have targets.\<close>

theorem simulation_ends:
  assumes "network_ok s" "closed_network nearby s" "(\<Sum>i \<in> set (nw_order s). nd_max_peers (nw_node s i)) < fuel"
    and strategy: "connect = connect_nearest \<and> nearby = None \<or>
      connect = connect_fast candidates \<and> nearby = None \<and> candidates_known candidates s \<or>
      (\<exists>shuffle. connect = connect_nearby shuffle \<and> nearby = Some shuffle)"
  shows "\<exists>r s'. connect_rounds connect fuel s = Some (r, s') \<and> network_ok s' \<and> nw_order s' = nw_order s \<and>
    (case r of
       Inr u \<Rightarrow> \<exists>t. connect_round connect (nw_order t) 0 t = (Inr 0, s')
     | Inl e \<Rightarrow> e = AssertionError \<and> (\<exists>shuffle. connect = connect_nearby shuffle))"
proof -
  have room: "(\<Sum>i \<in> set (nw_order s). nd_max_peers (nw_node s i)) < links s + 2 * fuel" using assms(3) by linarith
  obtain r s' where r: "connect_rounds connect fuel s = Some (r, s')" "network_ok s'" "same_frame s s'"
    "case r of Inl e \<Rightarrow> e = AssertionError \<and> nearby \<noteq> None
     | Inr u \<Rightarrow> \<exists>t. connect_round connect (nw_order t) 0 t = (Inr 0, s')"
    using strategy
  proof (elim disjE exE conjE)
    assume c: "connect = connect_nearest" "nearby = None"
    show thesis using nearest.rounds_spec [OF assms(1) _ room] assms(2) that unfolding c by blast
  next
    assume c: "connect = connect_fast candidates" "nearby = None" "candidates_known candidates s"
    show thesis using fast.rounds_spec [OF assms(1) _ room, of candidates] assms(2) c(3) that unfolding c(1,2) by blast
  next
    fix shuffle assume c: "connect = connect_nearby shuffle" "nearby = Some shuffle"
    show thesis using nearby.rounds_spec [OF assms(1) _ room, of shuffle] assms(2) that unfolding c by blast
  qed
  moreover have "\<exists>shuffle. connect = connect_nearby shuffle" if "nearby \<noteq> None" using strategy that by blast
  ultimately show ?thesis by (cases r) (auto simp: same_frame_def)
qed

text \<open>With candidates: each node of the sample knows node 1.\<close>

lemma simulation_ends_witness:
  "\<exists>r s'. connect_rounds (connect_fast (\<lambda>_. [sample_node 1])) 10 sample_network = Some (r, s') \<and> network_ok s' \<and>
    (\<nexists>e. r = Inl e \<and> e \<noteq> AssertionError)"
proof -
  have "closed_network None sample_network"
    unfolding closed_network_def by (intro ballI conjI sample_network_closed) (auto simp: sample_network_def)
  moreover have "candidates_known (\<lambda>_. [sample_node 1]) sample_network"
    by (simp add: candidates_known_def sample_network_def)
  moreover have "(\<Sum>i \<in> set (nw_order sample_network). nd_max_peers (nw_node sample_network i)) < 10"
    by (simp add: sample_network_def)
  ultimately obtain r s' where r: "connect_rounds (connect_fast (\<lambda>_. [sample_node 1])) 10 sample_network = Some (r, s')" "network_ok s'"
    "case r of Inr u \<Rightarrow> \<exists>t. connect_round (connect_fast (\<lambda>_. [sample_node 1])) (nw_order t) 0 t = (Inr 0, s')
     | Inl e \<Rightarrow> e = AssertionError \<and> (\<exists>shuffle. connect_fast (\<lambda>_. [sample_node 1]) = connect_nearby shuffle)"
    using simulation_ends [OF sample_network_ok, of None 10 "connect_fast (\<lambda>_. [sample_node 1])" "\<lambda>_. [sample_node 1]"]
    by blast
  then show ?thesis by (intro exI [of _ r] exI [of _ s']) (auto split: sum.splits)
qed

section \<open>Candidates\<close>

lemma first_open_target:
  assumes "k \<in> set ks" "tg_connected (nd_targets (nw_node s i) ! k) = None" "sorted_wrt (<) ks"
    "\<forall>j < k. tg_connected (nd_targets (nw_node s i) ! j) \<noteq> None"
  shows "connect_targets i mx nearby ks cs num s = connect_targets i mx nearby (dropWhile (\<lambda>j. j < k) ks) cs num s"
  using assms
proof (induction ks)
  case (Cons j ks)
  show ?case
  proof (cases "j < k")
    case True
    then show ?thesis using Cons by (auto simp: node_get_def step_simps)
  qed simp
qed simp

lemma dropWhile_upt: "k < n \<Longrightarrow> dropWhile (\<lambda>j. j < k) [0..<n] = k # [Suc k..<n]"
proof -
  assume "k < n"
  then have "[0..<n] = [0..<k] @ k # [Suc k..<n]" by (metis less_imp_le_nat upt_add_eq_append le_add_diff_inverse upt_rec zero_le)
  moreover have "dropWhile (\<lambda>j. j < k) ([0..<k] @ k # [Suc k..<n]) = k # [Suc k..<n]"
    by (rule trans [OF dropWhile_append2]) auto
  ultimately show ?thesis by simp
qed

lemma connect_from_open:
  assumes "k < length (nd_targets (nw_node s i))" "tg_connected (nd_targets (nw_node s i) ! k) = None"
    "\<forall>j < k. tg_connected (nd_targets (nw_node s i) ! j) \<noteq> None"
  shows "connect_peers mx nearby cs i s = connect_targets i mx nearby (k # [Suc k..<length (nd_targets (nw_node s i))]) cs 0 s"
  using first_open_target [of k "[0..<length (nd_targets (nw_node s i))]" s i mx nearby cs 0] assms
  by (cases "nd_targets (nw_node s i) = []")
    (auto simp: connect_peers_def node_get_def step_simps dropWhile_upt simp del: connect_targets.simps)

text \<open>C27. The candidates found for the first open target serve all later targets too: once that target has any
  neighbours, connecting is the same as connecting with these as the given candidates.\<close>

theorem first_candidates_serve_all:
  assumes "k < length (nd_targets (nw_node s i))" "tg_connected (nd_targets (nw_node s i) ! k) = None"
    and "\<forall>j < k. tg_connected (nd_targets (nw_node s i) ! j) \<noteq> None"
    and "cs = neighbours k_bucket_size (tg_address (nd_targets (nw_node s i) ! k)) (nd_routing (nw_node s i))" "cs \<noteq> []"
  shows "connect_peers mx None [] i s = connect_peers mx None cs i s"
  unfolding connect_from_open [OF assms(1-3)] using assms(2,4,5) by (simp add: node_get_def step_simps)

lemma first_candidates_serve_all_witness:
  "connect_peers 0 None [] 0 sample_network = connect_peers 0 None [sample_node 1, sample_node 2] 0 sample_network"
proof -
  have "rt_wf sample_hash (sample_rt [1, 2])" by (rule sample_rt_wf) simp_all
  from neighbours_eq [OF this] have "neighbours 16 1 (sample_rt [1, 2]) = [sample_node 1, sample_node 2]"
    by (simp add: sample_rt_def sample_bucket_def rt_nodes_def id_distance_def)
  then show ?thesis
    by (intro first_candidates_serve_all [where k = 0]) (simp_all add: sample_network_def k_bucket_size_def)
qed

text \<open>When random nodes nearby are chosen, a second open target is never tried: if there are candidates for
  the first one but none of them can be connected, the assertion that no candidates were given fails.\<close>

theorem nearby_fails_at_second_target:
  assumes "network_ok s" "i \<in> set (nw_order s)" "closed_for s (Some shuffle) i"
    and "length (nd_connections (nw_node s i)) < nd_max_peers (nw_node s i)"
    and "k < length (nd_targets (nw_node s i))" "tg_connected (nd_targets (nw_node s i) ! k) = None"
    and "\<forall>j < k. tg_connected (nd_targets (nw_node s i) ! j) \<noteq> None"
    and "cs = shuffle (neighbours_within_distance (tg_address (nd_targets (nw_node s i) ! k))
      (tg_tolerance (nd_targets (nw_node s i) ! k)) (nd_routing (nw_node s i)))" "cs \<noteq> []"
    and "\<forall>n \<in> set cs. \<not> linkable i k (node_id n) s"
    and "Suc k < length (nd_targets (nw_node s i))" "tg_connected (nd_targets (nw_node s i) ! Suc k) = None"
  shows "connect_peers mx (Some shuffle) [] i s = (Inl AssertionError, s)"
proof -
  have "\<forall>n \<in> set cs. node_id n \<in> set (nw_order s)"
    using chosen_closed [OF assms(3), of "[]" cs] assms(8) by simp
  from try_candidates_run [OF assms(1,2,4) this, of k] assms(10)
  have none: "try_candidates i k cs s = (Inr False, s)" by auto
  have rest: "[Suc k..<length (nd_targets (nw_node s i))] = Suc k # [Suc (Suc k)..<length (nd_targets (nw_node s i))]"
    using assms(11) by (simp add: upt_rec)
  have "connect_peers mx (Some shuffle) [] i s =
      connect_targets i mx (Some shuffle) [Suc k..<length (nd_targets (nw_node s i))] cs 0 s"
    unfolding connect_from_open [OF assms(5-7)] using assms(4,6)
    by (simp add: node_get_def step_simps assms(8) [symmetric]) (simp add: seq_def none assms(8) [symmetric])
  also have "\<dots> = (Inl AssertionError, s)"
    unfolding rest using assms(4,9,12)
    by (simp add: node_get_def step_simps) (simp add: seq_def py_assert_def lift_res_def assert_res_def)
  finally show ?thesis .
qed

lemma nearby_fails_at_second_target_witness:
  "connect_peers 1 (Some (filter (\<lambda>n. node_id n = 1))) [] 0 sample_network = (Inl AssertionError, sample_network)"
proof -
  have "neighbours_within_distance 1 4 (sample_rt [1, 2]) = [sample_node 1, sample_node 2]"
    by (simp add: neighbours_within_distance_def sample_rt_def sample_bucket_def rt_nodes_def id_distance_def)
  then show ?thesis
    by (intro nearby_fails_at_second_target [where k = 0, OF sample_network_ok _ sample_network_closed])
      (auto simp: sample_network_def linkable_def)
qed

section \<open>Choosing targets\<close>

lemma select_targets_iff:
  "distinct selected \<Longrightarrow>
   (case select_targets n draws selected of
      None \<Rightarrow> card (set draws - set selected) < n
    | Some sel \<Rightarrow> n \<le> card (set draws - set selected) \<and> distinct sel \<and> length sel = length selected + n \<and>
        set sel \<subseteq> set selected \<union> set draws)"
proof (induction n draws selected rule: select_targets.induct)
  case (3 n d draws selected)
  show ?case
  proof (cases "d \<in> set selected")
    case True
    then have "set (d # draws) - set selected = set draws - set selected" by auto
    then show ?thesis using 3 True by (auto split: option.splits)
  next
    case False
    have "set (d # draws) - set selected = insert d (set draws - set (selected @ [d]))" using False by auto
    moreover have "card (insert d (set draws - set (selected @ [d]))) = Suc (card (set draws - set (selected @ [d])))"
      by (rule card_insert_disjoint) auto
    ultimately show ?thesis using 3 False by (auto split: option.splits)
  qed
qed auto

text \<open>Selecting targets for a self lookup ends exactly when enough different nodes are drawn, and then yields
  that many different nodes: with fewer than \<open>min_peers\<close> nodes in the routing table it never ends.\<close>

theorem selection_ends_iff:
  "(select_targets n draws [] = None \<longleftrightarrow> card (set draws) < n) \<and>
   (case select_targets n draws [] of None \<Rightarrow> True | Some sel \<Rightarrow> distinct sel \<and> length sel = n \<and> set sel \<subseteq> set draws)"
  using select_targets_iff [of "[]", where n = n and draws = draws] by (auto split: option.splits)

lemma kademlia_targets_run:
  "\<exists>s'. kademlia_targets i n d s = (Inr (), s') \<and> nd_targets (nw_node s' i) = nd_targets (nw_node s i) @
     map (\<lambda>j. \<lparr>tg_address = (i + d div 2 ^ Suc j) mod (k_max_node_id + 1), tg_tolerance = d div 2 ^ Suc j div 2, tg_connected = None\<rparr>) [0..<n]"
proof (induction n arbitrary: d s)
  case (Suc n)
  let ?s = "snd (add_target i ((i + d div 2) mod (k_max_node_id + 1)) (d div 2 div 2) s)"
  have "[0..<Suc n] = 0 # map Suc [0..<n]" by (metis map_Suc_upt upt_conv_Cons zero_less_Suc)
  then have upt: "map f [0..<Suc n] = f 0 # map (f \<circ> Suc) [0..<n]" for f :: "nat \<Rightarrow> target" by simp
  have "d div 2 div 2 ^ Suc j = d div 2 ^ Suc (Suc j)" for j
    unfolding power_Suc [of 2 "Suc j"] by (rule zdiv_zmult2_eq [symmetric]) simp
  then show ?case using Suc.IH [of "d div 2" ?s]
    by (simp add: upt add_target_def node_upd_def step_simps Let_def comp_def del: upt_Suc power_Suc)
qed (simp add: ret_def)

text \<open>C39. \<open>CNodeKademlia\<close> sets up \<open>min_peers\<close> targets, the distance from the node halved from one to the next;
  their addresses lie in the id space, and a tolerance is half the distance and not negative.\<close>

theorem kademlia_targets_bounded:
  assumes "nd_targets (nw_node s i) = []"
  shows "\<exists>s'. setup_kademlia i s = (Inr (), s') \<and> length (nd_targets (nw_node s' i)) = nd_min_peers (nw_node s i) \<and>
    (\<forall>j < nd_min_peers (nw_node s i). let t = nd_targets (nw_node s' i) ! j; d = k_max_node_id div 2 ^ Suc j in
       tg_address t = (i + d) mod (k_max_node_id + 1) \<and> 0 \<le> tg_address t \<and> tg_address t \<le> k_max_node_id \<and>
       tg_tolerance t = d div 2 \<and> 0 \<le> tg_tolerance t)"
proof -
  obtain s' where "kademlia_targets i (nd_min_peers (nw_node s i)) k_max_node_id s = (Inr (), s')"
    "nd_targets (nw_node s' i) = map (\<lambda>j. \<lparr>tg_address = (i + k_max_node_id div 2 ^ Suc j) mod (k_max_node_id + 1),
       tg_tolerance = k_max_node_id div 2 ^ Suc j div 2, tg_connected = None\<rparr>) [0..<nd_min_peers (nw_node s i)]"
    using kademlia_targets_run [of i "nd_min_peers (nw_node s i)" k_max_node_id s] assms by auto
  moreover have "0 \<le> (x :: int) mod (k_max_node_id + 1) \<and> x mod (k_max_node_id + 1) \<le> k_max_node_id" for x
    using pos_mod_bound [of "k_max_node_id + 1" x] pos_mod_sign [of "k_max_node_id + 1" x] by (simp add: k_max_node_id_def)
  moreover have "0 \<le> k_max_node_id div 2 ^ n" for n by (simp add: k_max_node_id_def k_id_size_def pos_imp_zdiv_nonneg_iff)
  moreover have "0 \<le> k_max_node_id div 2 ^ n div 2" for n by (simp add: k_max_node_id_def k_id_size_def pos_imp_zdiv_nonneg_iff)
  ultimately show ?thesis by (simp add: setup_kademlia_def node_get_def step_simps Let_def del: power_Suc)
qed

lemma kademlia_targets_bounded_witness:
  "\<exists>s'. setup_kademlia 5 (sample_network\<lparr>nw_node := \<lambda>_. mk_cnode (sample_rt []) 3 6\<rparr>) = (Inr (), s') \<and>
    length (nd_targets (nw_node s' 5)) = 3"
  using kademlia_targets_bounded [of "sample_network\<lparr>nw_node := \<lambda>_. mk_cnode (sample_rt []) 3 6\<rparr>" 5]
  by (auto simp: mk_cnode_def)

end
