(* ===== verification/Peer_Meeting.thy ===== *)
theory Peer_Meeting
  imports Peer_Handshake
begin

text \<open>
  Two managers meet: from a connection attempt on one side and an incoming connection on the other
  to peers that both have accepted, with the same protocols.
\<close>

section \<open>What the managers need\<close>

definition hello_of :: "'i net_lib \<Rightarrow> (bytes \<times> nat) list \<Rightarrow> hello_data" where
  "hello_of N caps = \<lparr>h_version = pc_version p2p_protocol, h_client_version_string = client_version (nl_config N),
     h_capabilities = caps, h_listen_port = p2p_port (nl_config N), h_remote_pubkey = own_id (nl_config N)\<rparr>"

text \<open>\<open>d\<close> is the payload of the hello of \<open>N\<close>, short enough for a frame, and \<open>M\<close> can decode it.\<close>

definition announces :: "'i net_lib \<Rightarrow> 'i net_lib \<Rightarrow> (bytes \<times> nat) list \<Rightarrow> bytes \<Rightarrow> bool" where
  "announces N M caps d \<longleftrightarrow> announced (services (nl_config N)) = Inr caps \<and>
     encode_p2p N (HelloData (hello_of N caps)) = Inr d \<and> decode_p2p M 0 d = Inr (HelloData (hello_of N caps)) \<and>
     hello_fits (nl_rlp N) d"

definition identity_ok :: "'i net_lib \<Rightarrow> bool" where
  "identity_ok N \<longleftrightarrow> key_pair (nl_crypto N) (node_key (nl_config N)) \<and> own_id (nl_config N) = e_pubkey (node_key (nl_config N)) \<and>
     \<not> py3 (nl_config N) \<and> separate_ids (services (nl_config N)) \<and> distinct (map sv_name (services (nl_config N)))"

definition draws_ok :: "crypto_lib \<Rightarrow> draws \<Rightarrow> bool" where
  "draws_ok P r \<longleftrightarrow> key_pair P (d_ephem r) \<and> length (d_iv r) = 16"

definition connection_ok :: "crypto_lib \<Rightarrow> connection \<Rightarrow> bool" where
  "connection_ok P cn \<longleftrightarrow> key_pair P (cn_ephemeral cn) \<and> draws_ok P (cn_draws cn) \<and> \<not> cn_closed cn"

text \<open>There is room for a peer with the key \<open>k\<close>.\<close>

definition room_for :: "'i net_lib \<Rightarrow> bytes \<Rightarrow> net \<Rightarrow> bool" where
  "room_for N k s \<longleftrightarrow> length (peers s) < max_peers (nl_config N) \<and> next_peer s \<notin> set (peers s) \<and>
     (\<forall>j \<in> set (peers s). remote_pubkey (peer_at s j) \<noteq> Some k)"

lemma hello_made:
  assumes "announces N M caps d"
  shows "get_hello_packet N = Inr (hello_packet d)"
proof -
  have "p2p_packet N (HelloData (hello_of N caps)) = Inr (hello_packet d)"
    using assms by (simp add: announces_def p2p_packet_def p2p_cmd_id_def hello_packet_def)
  then show ?thesis using assms by (simp add: get_hello_packet_def Let_def announces_def hello_of_def)
qed

section \<open>The hello is accepted\<close>

text \<open>A peer of a new connection when the hello has arrived in the queue of its session.\<close>

definition hello_waiting :: "bytes \<Rightarrow> bytes \<Rightarrow> peer \<Rightarrow> bool" where
  "hello_waiting d k p \<longleftrightarrow> \<not> is_stopped p \<and> ms_packets (session p) = [hello_packet d] \<and> protocols p = Some [p2p_protocol] \<and>
     \<not> offset_based_dispatch p \<and> \<not> accepted p \<and> protocol_ids (session p) = [0] \<and>
     (remote_pubkey_available p \<longrightarrow> ms_remote_pubkey (session p) = Some k)"

definition joined :: "net \<Rightarrow> net" where
  "joined s = s\<lparr>next_peer := next_peer s + 1, peers := peers s @ [next_peer s]\<rparr>"

lemma hello_accepted:
  assumes "hello_waiting d k p" "room_for N k s" "identity_ok N" "announces M N caps d" "k = own_id (nl_config M)"
    "length k = 64" "k \<noteq> own_id (nl_config N)"
  shows "\<exists>s'. run_decoded_packet N now (next_peer s) (put (next_peer s) p (joined s)) = (Inr (), s') \<and>
    accepted (peer_at s' (next_peer s)) \<and> remote_pubkey (peer_at s' (next_peer s)) = Some k \<and>
    wire (peer_at s' (next_peer s)) = wire p \<and>
    protocols (peer_at s' (next_peer s)) = Some (p2p_protocol #
      common (map (\<lambda>(n, v). (ByteStr n, v)) caps) (sort_key sv_name (services (nl_config N))))"
proof -
  let ?i = "next_peer s" and ?h = "hello_of M caps"
  let ?p = "p\<lparr>session := (session p)\<lparr>ms_packets := []\<rparr>\<rparr>"
  let ?s = "put ?i ?p (joined s)"
  note w = assms(1) [unfolded hello_waiting_def]
  have h: "h_version ?h \<le> 5" "h_remote_pubkey ?h = k" "h_capabilities ?h = caps"
    by (simp_all add: hello_of_def p2p_protocol_def assms(5))
  have adm: "admissible N ?i (h_remote_pubkey ?h) ?s"
    using assms(2) by (auto simp: admissible_def room_for_def h joined_def put_def)
  have known: "remote_pubkey_available (peer_at ?s ?i) \<longrightarrow> remote_pubkey (peer_at ?s ?i) = Some (h_remote_pubkey ?h)"
    using w assms(6) by (auto simp: h intro!: remote_pubkey_set)
  obtain s' where s': "receive_hello N now ?i ?h ?s = (Inr (), s')" "accepted (peer_at s' ?i)" "remote_pubkey (peer_at s' ?i) = Some k"
    "wire (peer_at s' ?i) = wire p"
    using receive_hello_succeeds [OF h(1) _ adm known, of now] w assms(3,6) h
    by (auto simp: identity_ok_def protocol_ids_def)
  have p0: "protocols (peer_at ?s ?i) = Some [p2p_protocol]" "\<not> accepted (peer_at ?s ?i)" using w by (simp_all add: accepted_def)
  have "protocols (peer_at s' ?i) = Some ([p2p_protocol] @
      common (map (\<lambda>(n, v). (ByteStr n, v)) caps) (sort_key sv_name (services (nl_config N))))"
    using receive_hello_run [OF s'(1) p0 s'(2)] assms(3) by (auto simp: identity_ok_def remote_services_py2 h)
  moreover have "run_decoded_packet N now ?i (put ?i p (joined s)) = (Inr (), put ?i ((peer_at s' ?i)\<lparr>monitor_started := True\<rparr>) s')"
    by (rule decoded_hello_run [where h = ?h and d = d]) (use w assms(4,7) s'(1) h in \<open>simp_all add: announces_def\<close>)
  ultimately show ?thesis using s' by (intro exI conjI) (assumption, simp_all add: accepted_def remote_pubkey_def)
qed

section \<open>Both runs\<close>

definition net_run :: "'i net_lib \<Rightarrow> rat \<Rightarrow> event list \<Rightarrow> (net, unit) prog" where
  "net_run N now evs = for_each evs (net_step N now)"

lemma net_run_Cons: "net_step N now ev s = (Inr (), s') \<Longrightarrow> net_run N now (ev # evs) s = net_run N now evs s'"
  by (simp add: net_run_def seq_def)

lemma net_run_Nil [simp]: "net_run N now [] s = (Inr (), s)"
  by (simp add: net_run_def ret_def)

lemma ingress_step:
  assumes "\<not> is_stopped p" "data \<noteq> []"
    "add_message (nl_rlp N) (nl_crypto N) (nl_eip8 N) r data (session p) = (Inr (), ms)"
  shows "net_step N now (Ingress i r (Received data)) (put i p s) = (Inr (), put i (p\<lparr>session := ms\<rparr>) s)"
  using peer_ingress_run [of "put i p s" i data N r ms] assms by (simp add: net_step_def)

lemma egress_step:
  assumes "\<not> is_stopped p" "ms_messages (session p) = data # rest" "data \<noteq> []"
  shows "net_step N now (Egress i True) (put i p s) =
    (Inr (), put i (p\<lparr>session := (session p)\<lparr>ms_messages := rest\<rparr>, wire := wire p @ [data]\<rparr>) s)"
  using peer_egress_run [of "put i p s" i data rest N] assms by (simp add: net_step_def)

lemma started_fields [simp]:
  "is_stopped (started_peer cn ms b now) = False" "session (started_peer cn ms b now) = with_protocol 0 ms"
  "wire (started_peer cn ms b now) = []" "protocols (started_peer cn ms b now) = Some [p2p_protocol]"
  "offset_based_dispatch (started_peer cn ms b now) = False" "remote_capabilities (started_peer cn ms b now) = None"
  "remote_pubkey_available (started_peer cn ms b now) = b"
  by (simp_all add: started_peer_def blank_peer_def)

lemma initiator_run:
  assumes "start_peer N now cn (Some k) s = (Inr i, put i (started_peer cn s0 True now) u)"
    and "ms_messages (with_protocol 0 s0) = [auth]" "auth \<noteq> []" "ack \<noteq> []" "bs \<noteq> []" "bt \<noteq> []"
    and "add_message (nl_rlp N) (nl_crypto N) (nl_eip8 N) r3 ack (flushed (with_protocol 0 s0)) = (Inr (), s2)" "ms_messages s2 = [bs]"
    and "add_message (nl_rlp N) (nl_crypto N) (nl_eip8 N) r5 bt (flushed s2) = (Inr (), s3)" "ms_packets s3 = [hello_packet d]"
    and "protocol_ids s3 = [0]" "ms_remote_pubkey s3 = Some k"
  shows "\<exists>p. net_run N now [Outgoing address k (Connected cn), Egress i True, Ingress i r3 (Received ack), Egress i True,
      Ingress i r5 (Received bt), Decoded i] s = net_run N now [Decoded i] (put i p u) \<and> hello_waiting d k p \<and> wire p = [auth, bs]"
proof -
  let ?p = "started_peer cn s0 True now"
  have start: "net_step N now (Outgoing address k (Connected cn)) s = (Inr (), put i ?p u)"
    using assms(1) by (simp add: net_step_def connect_def seq_assoc seq_def ret_def)
  let ?p1 = "?p\<lparr>session := flushed (with_protocol 0 s0), wire := [auth]\<rparr>"
  have 1: "net_step N now (Egress i True) (put i ?p u) = (Inr (), put i ?p1 u)"
    using egress_step [of ?p auth "[]"] assms(2,3) by (simp add: flushed_def)
  have 2: "net_step N now (Ingress i r3 (Received ack)) (put i ?p1 u) = (Inr (), put i (?p1\<lparr>session := s2\<rparr>) u)"
    by (rule ingress_step) (use assms(4,7) in simp_all)
  have 3: "net_step N now (Egress i True) (put i (?p1\<lparr>session := s2\<rparr>) u) =
      (Inr (), put i (?p1\<lparr>session := flushed s2, wire := [auth, bs]\<rparr>) u)"
    using egress_step [of "?p1\<lparr>session := s2\<rparr>" bs "[]"] assms(5,8) by (simp add: flushed_def)
  let ?q = "?p1\<lparr>session := flushed s2, wire := [auth, bs], session := s3\<rparr>"
  have 4: "net_step N now (Ingress i r5 (Received bt)) (put i (?p1\<lparr>session := flushed s2, wire := [auth, bs]\<rparr>) u) = (Inr (), put i ?q u)"
    by (rule ingress_step) (use assms(6,9) in simp_all)
  show ?thesis
    unfolding net_run_Cons [OF start] net_run_Cons [OF 1] net_run_Cons [OF 2] net_run_Cons [OF 3] net_run_Cons [OF 4]
    by (rule exI [of _ ?q]) (use assms(10-12) in \<open>simp add: hello_waiting_def accepted_def\<close>)
qed

lemma responder_run:
  assumes "start_peer N now cn None s = (Inr j, put j (started_peer cn t0 False now) u)"
    and "auth \<noteq> []" "ack \<noteq> []" "bs \<noteq> []" "bt \<noteq> []"
    and "add_message (nl_rlp N) (nl_crypto N) (nl_eip8 N) r2 auth (with_protocol 0 t0) = (Inr (), t1)" "ms_messages t1 = [ack, bt]"
    and "add_message (nl_rlp N) (nl_crypto N) (nl_eip8 N) r4 bs (flushed t1) = (Inr (), t2)" "ms_packets t2 = [hello_packet d]"
    and "protocol_ids t2 = [0]"
  shows "\<exists>p. net_run N now [Incoming cn, Ingress j r2 (Received auth), Egress j True, Egress j True,
      Ingress j r4 (Received bs), Decoded j] s = net_run N now [Decoded j] (put j p u) \<and> hello_waiting d k p \<and> wire p = [ack, bt]"
proof -
  let ?p = "started_peer cn t0 False now"
  have start: "net_step N now (Incoming cn) s = (Inr (), put j ?p u)"
    using assms(1) by (simp add: net_step_def seq_def ret_def)
  let ?p1 = "?p\<lparr>session := t1\<rparr>"
  have 1: "net_step N now (Ingress j r2 (Received auth)) (put j ?p u) = (Inr (), put j ?p1 u)"
    by (rule ingress_step) (use assms(2,6) in simp_all)
  have 2: "net_step N now (Egress j True) (put j ?p1 u) = (Inr (), put j (?p1\<lparr>session := t1\<lparr>ms_messages := [bt]\<rparr>, wire := [ack]\<rparr>) u)"
    using egress_step [of ?p1 ack "[bt]"] assms(3,7) by simp
  have 3: "net_step N now (Egress j True) (put j (?p1\<lparr>session := t1\<lparr>ms_messages := [bt]\<rparr>, wire := [ack]\<rparr>) u) =
      (Inr (), put j (?p1\<lparr>session := flushed t1, wire := [ack, bt]\<rparr>) u)"
    using egress_step [of "?p1\<lparr>session := t1\<lparr>ms_messages := [bt]\<rparr>, wire := [ack]\<rparr>" bt "[]"] assms(5) by (simp add: flushed_def)
  let ?q = "?p1\<lparr>session := flushed t1, wire := [ack, bt], session := t2\<rparr>"
  have 4: "net_step N now (Ingress j r4 (Received bs)) (put j (?p1\<lparr>session := flushed t1, wire := [ack, bt]\<rparr>) u) = (Inr (), put j ?q u)"
    by (rule ingress_step) (use assms(4,8) in simp_all)
  show ?thesis
    unfolding net_run_Cons [OF start] net_run_Cons [OF 1] net_run_Cons [OF 2] net_run_Cons [OF 3] net_run_Cons [OF 4]
    by (rule exI [of _ ?q]) (use assms(9,10) in \<open>simp add: hello_waiting_def accepted_def\<close>)
qed

section \<open>The exchange\<close>

text \<open>Two managers over the same packages, which satisfy their laws, with different identities.\<close>

definition compatible :: "'i net_lib \<Rightarrow> 'i net_lib \<Rightarrow> bool" where
  "compatible A B \<longleftrightarrow> nl_rlp B = nl_rlp A \<and> nl_crypto B = nl_crypto A \<and> nl_eip8 B = nl_eip8 A \<and>
     rlp_ok (nl_rlp A) \<and> hashes_ok (nl_crypto A) \<and> keys_ok (nl_crypto A) \<and>
     identity_ok A \<and> identity_ok B \<and> own_id (nl_config A) \<noteq> own_id (nl_config B)"

lemma compatible_keys:
  assumes "compatible A B"
  shows "key_pair (nl_crypto A) (node_key (nl_config A))" "key_pair (nl_crypto A) (node_key (nl_config B))"
    "own_id (nl_config A) = e_pubkey (node_key (nl_config A))" "own_id (nl_config B) = e_pubkey (node_key (nl_config B))"
    "length (own_id (nl_config A)) = 64" "length (own_id (nl_config B)) = 64"
proof -
  note c = assms [unfolded compatible_def identity_ok_def]
  moreover from this have "nl_crypto B = nl_crypto A" by (elim conjE) assumption
  ultimately show k: "key_pair (nl_crypto A) (node_key (nl_config A))" "key_pair (nl_crypto A) (node_key (nl_config B))"
    "own_id (nl_config A) = e_pubkey (node_key (nl_config A))" "own_id (nl_config B) = e_pubkey (node_key (nl_config B))" by simp_all
  have "keys_ok (nl_crypto A)" using c by simp
  from key_pair_pub [OF this k(1)] key_pair_pub [OF this k(2)] k(3,4)
  show "length (own_id (nl_config A)) = 64" "length (own_id (nl_config B)) = 64" by simp_all
qed

lemma hellos_exchanged:
  assumes c: "compatible A B" and hello: "announces A B capsA da" "announces B A capsB db"
    and draws: "connection_ok (nl_crypto A) cnA" "connection_ok (nl_crypto A) cnB" "draws_ok (nl_crypto A) r2"
  obtains auth ack bs bt p q where
    "net_run A now [Outgoing address (own_id (nl_config B)) (Connected cnA), Egress (next_peer s) True, Ingress (next_peer s) r3 (Received ack),
      Egress (next_peer s) True, Ingress (next_peer s) r5 (Received bt), Decoded (next_peer s)] s =
      net_run A now [Decoded (next_peer s)] (put (next_peer s) p (joined s))"
    "hello_waiting db (own_id (nl_config B)) p" "wire p = [auth, bs]"
    "net_run B now' [Incoming cnB, Ingress (next_peer t) r2 (Received auth), Egress (next_peer t) True, Egress (next_peer t) True,
      Ingress (next_peer t) r4 (Received bs), Decoded (next_peer t)] t = net_run B now' [Decoded (next_peer t)] (put (next_peer t) q (joined t))"
    "hello_waiting da (own_id (nl_config A)) q" "wire q = [ack, bt]"
proof -
  let ?P = "nl_crypto A" and ?ka = "node_key (nl_config A)" and ?kb = "node_key (nl_config B)"
  note lib = c [unfolded compatible_def] and key = compatible_keys [OF c]
  have fit: "hello_fits (nl_rlp A) da" "hello_fits (nl_rlp A) db" using hello lib by (simp_all add: announces_def)
  have k: "key_pair ?P (cn_ephemeral cnA)" "key_pair ?P (cn_ephemeral cnB)" "key_pair ?P (d_ephem (cn_draws cnA))" "key_pair ?P (d_ephem r2)"
    "length (d_iv (cn_draws cnA)) = 16" "length (d_iv r2) = 16" "rlp_ok (nl_rlp A)" "hashes_ok ?P" "keys_ok ?P"
    using draws lib by (simp_all add: connection_ok_def draws_ok_def)
  obtain s0 auth ack bs bt s2 s3 t1 t2 where x:
    "new_msession ?P (cn_draws cnA) ?ka (cn_ephemeral cnA) (hello_packet da) (Some (e_pubkey ?kb)) = (Inr (), s0)"
    "ms_messages (with_protocol 0 s0) = [auth]"
    "add_message (nl_rlp A) ?P (nl_eip8 A) r2 auth (with_protocol 0 (mk_msession ?kb (cn_ephemeral cnB) (hello_packet db) None)) = (Inr (), t1)"
    "ms_messages t1 = [ack, bt]"
    "add_message (nl_rlp A) ?P (nl_eip8 A) r3 ack (flushed (with_protocol 0 s0)) = (Inr (), s2)" "ms_messages s2 = [bs]"
    "add_message (nl_rlp A) ?P (nl_eip8 A) r4 bs (flushed t1) = (Inr (), t2)" "ms_packets t2 = [hello_packet da]"
    "add_message (nl_rlp A) ?P (nl_eip8 A) r5 bt (flushed s2) = (Inr (), s3)" "ms_packets s3 = [hello_packet db]"
    "auth \<noteq> []" "ack \<noteq> []" "bs \<noteq> []" "bt \<noteq> []"
    "ms_remote_pubkey s0 = Some (e_pubkey ?kb)" "map_of (queues (ms_mux s0)) 0 = None"
    "protocol_ids s3 = [0]" "protocol_ids t2 = [0]" "ms_remote_pubkey s3 = Some (e_pubkey ?kb)"
    by (rule sessions_connect [OF k(7-9) key(1) k(1) key(2) k(2-6) fit, where E = "nl_eip8 A" and ?r3.0 = r3 and ?r4.0 = r4 and ?r5.0 = r5])
      (rule that; assumption)
  have known: "py_or (Some (e_pubkey ?kb)) [] \<noteq> []" using key(4,6) by (auto simp: py_or_def)
  have start_a: "start_peer A now cnA (Some (own_id (nl_config B))) s =
      (Inr (next_peer s), put (next_peer s) (started_peer cnA s0 True now) (joined s))"
    using start_run [OF hello_made [OF hello(1)] x(1) x(15,16), of now s] draws(1) known
    by (simp add: key(4) joined_def connection_ok_def)
  have resp: "new_msession (nl_crypto B) (cn_draws cnB) ?kb (cn_ephemeral cnB) (hello_packet db) None =
      (Inr (), mk_msession ?kb (cn_ephemeral cnB) (hello_packet db) None)"
    by (simp add: new_msession_def mk_msession_def Let_def py_or_def)
  have start_b: "start_peer B now' cnB None t = (Inr (next_peer t),
      put (next_peer t) (started_peer cnB (mk_msession ?kb (cn_ephemeral cnB) (hello_packet db) None) False now') (joined t))"
    using start_run [OF hello_made [OF hello(2)] resp, of now' t] draws(2)
    by (simp add: joined_def connection_ok_def py_or_def mk_msession_def mk_mux_def Let_def)
  note run_a = initiator_run [OF start_a x(2,11-14,5,6,9,10,17)]
    and run_b = responder_run [OF start_b x(11-14)]
  show thesis using that run_a x(19) run_b x(3,4,7,8,18) lib key(4) by metis
qed

end
