(* ===== verification/Meeting_Properties.thy ===== *)
theory Meeting_Properties
  imports Peer_Meeting Peer_Samples
begin

text \<open>
  The property that spans sessions, multiplexers, peers and managers: two managers connect.
\<close>

text \<open>C1. Two managers connect: when one has reached the other, passing on what each of them writes makes the
  handshake, exchanges the hello packets and lets both accept the peer under the other's key, with
  the same protocols in the same order; nothing else has to be written or read. It is assumed that there is
  room, that the sides know each other's hello format, that the interpreters are Python 2 and that
  the packages satisfy their laws.\<close>

theorem managers_connect:
  assumes c: "compatible A B" and hello: "announces A B capsA da" "announces B A capsB db"
    and same: "\<forall>a \<in> set (services (nl_config A)). \<forall>b \<in> set (services (nl_config B)).
      pc_name (sv_protocol a) = pc_name (sv_protocol b) \<and> pc_version (sv_protocol a) = pc_version (sv_protocol b) \<longrightarrow> a = b"
    and draws: "connection_ok (nl_crypto A) cnA" "connection_ok (nl_crypto A) cnB" "draws_ok (nl_crypto A) r2"
    and room: "room_for A (own_id (nl_config B)) s" "room_for B (own_id (nl_config A)) t"
    and ij: "i = next_peer s" "j = next_peer t"
  shows "\<exists>auth ack bs bt s' t' cs.
    net_run A now [Outgoing address (own_id (nl_config B)) (Connected cnA), Egress i True, Ingress i r3 (Received ack),
      Egress i True, Ingress i r5 (Received bt), Decoded i] s = (Inr (), s') \<and>
    net_run B now' [Incoming cnB, Ingress j r2 (Received auth), Egress j True, Egress j True,
      Ingress j r4 (Received bs), Decoded j] t = (Inr (), t') \<and>
    wire (peer_at s' i) = [auth, bs] \<and> wire (peer_at t' j) = [ack, bt] \<and>
    accepted (peer_at s' i) \<and> remote_pubkey (peer_at s' i) = Some (own_id (nl_config B)) \<and>
    accepted (peer_at t' j) \<and> remote_pubkey (peer_at t' j) = Some (own_id (nl_config A)) \<and>
    protocols (peer_at s' i) = Some (p2p_protocol # cs) \<and> protocols (peer_at t' j) = Some (p2p_protocol # cs) \<and>
    set cs = sv_protocol ` (set (services (nl_config A)) \<inter> set (services (nl_config B)) - {peermanager_service})"
proof -
  let ?names = "map (\<lambda>(n, v). (ByteStr n, v :: nat))" and ?A = "services (nl_config A)" and ?B = "services (nl_config B)"
  have ids: "identity_ok A" "identity_ok B" "own_id (nl_config A) \<noteq> own_id (nl_config B)"
    using c by (simp_all add: compatible_def)
  obtain auth ack bs bt p q where run: "net_run A now [Outgoing address (own_id (nl_config B)) (Connected cnA),
        Egress (next_peer s) True, Ingress (next_peer s) r3 (Received ack), Egress (next_peer s) True,
        Ingress (next_peer s) r5 (Received bt), Decoded (next_peer s)] s = net_run A now [Decoded (next_peer s)] (put (next_peer s) p (joined s))"
    "net_run B now' [Incoming cnB, Ingress (next_peer t) r2 (Received auth), Egress (next_peer t) True, Egress (next_peer t) True,
      Ingress (next_peer t) r4 (Received bs), Decoded (next_peer t)] t = net_run B now' [Decoded (next_peer t)] (put (next_peer t) q (joined t))"
    and p: "hello_waiting db (own_id (nl_config B)) p" "wire p = [auth, bs]"
    and q: "hello_waiting da (own_id (nl_config A)) q" "wire q = [ack, bt]"
    by (rule hellos_exchanged [OF c hello draws, where now = now and address = address and s = s and ?r3.0 = r3 and ?r5.0 = r5
          and now' = now' and t = t and ?r4.0 = r4]) (rule that, assumption+)
  note run = run [folded ij]
  obtain s' where s': "run_decoded_packet A now i (put i p (joined s)) = (Inr (), s')" "accepted (peer_at s' i)"
    "remote_pubkey (peer_at s' i) = Some (own_id (nl_config B))" "wire (peer_at s' i) = wire p"
    "protocols (peer_at s' i) = Some (p2p_protocol # common (?names capsB) (sort_key sv_name ?A))"
    using hello_accepted [OF p(1) room(1) ids(1) hello(2) refl compatible_keys(6) [OF c], of now] ids(3) ij by auto
  obtain t' where t': "run_decoded_packet B now' j (put j q (joined t)) = (Inr (), t')" "accepted (peer_at t' j)"
    "remote_pubkey (peer_at t' j) = Some (own_id (nl_config A))" "wire (peer_at t' j) = wire q"
    "protocols (peer_at t' j) = Some (p2p_protocol # common (?names capsA) (sort_key sv_name ?B))"
    using hello_accepted [OF q(1) room(2) ids(2) hello(1) refl compatible_keys(5) [OF c], of now'] ids(3) ij by auto
  have caps: "announced ?A = Inr capsA" "announced ?B = Inr capsB" "distinct (map sv_name ?A)" "distinct (map sv_name ?B)"
    using hello ids by (simp_all add: announces_def identity_ok_def)
  have agree: "common (?names capsB) (sort_key sv_name ?A) = common (?names capsA) (sort_key sv_name ?B)"
    using sides_agree [OF caps] same by blast
  have members: "set (common (?names capsB) (sort_key sv_name ?A)) = sv_protocol ` (set ?A \<inter> set ?B - {peermanager_service})"
    using common_set [OF caps(1,2)] same by blast
  have "net_run A now [Decoded i] (put i p (joined s)) = (Inr (), s')" "net_run B now' [Decoded j] (put j q (joined t)) = (Inr (), t')"
    using s'(1) t'(1) by (simp_all add: net_run_Cons net_step_def)
  then show ?thesis
    by (intro exI [of _ auth] exI [of _ ack] exI [of _ bs] exI [of _ bt] exI [of _ s'] exI [of _ t']
        exI [of _ "common (?names capsB) (sort_key sv_name ?A)"])
      (simp add: run p q s' t' agree [symmetric] members)
qed

section \<open>A concrete meeting\<close>

lemma sample_identity: "identity_ok (sample_net False b)"
proof -
  have "sample_service \<noteq> peermanager_service" "pc_protocol_id (sv_protocol sample_service) = 1"
    "sv_name sample_service \<noteq> sv_name peermanager_service"
    by (simp_all add: sample_service_def peermanager_service_def sample_protocol_def)
  moreover have "e_pubkey (sample_key b) = replicate 64 b"
    by (simp add: sample_key_def sample_ecc_def replicate_add [symmetric])
  ultimately show ?thesis by (auto simp: identity_ok_def separate_ids_def sample_net_defs sample_key_ok)
qed

lemma sample_announces: "announces (sample_net False b) (sample_net False c) (h_capabilities (sample_hello_of b)) [b]"
proof -
  have "last (replicate 64 b) = b" by (simp add: last_replicate)
  moreover have "hello_fits sample_rlp [b]" by (simp add: hello_fits_def sample_rlp_def ceil16_def)
  ultimately show ?thesis
    by (simp add: announces_def hello_of_def sample_net_defs sample_hello_of_def sample_service_def peermanager_service_def
        sample_protocol_def p2p_protocol_def)
qed

lemma managers_connect_witness:
  "\<exists>auth ack bs bt s' t'.
    net_run (sample_net False 9) 0 [Outgoing ([10], 7) (replicate 64 8) (Connected sample_connection), Egress 0 True,
      Ingress 0 sample_draws (Received ack), Egress 0 True, Ingress 0 sample_draws (Received bt), Decoded 0] (mk_net (\<lambda>_. sample_junk)) = (Inr (), s') \<and>
    net_run (sample_net False 8) 0 [Incoming sample_connection, Ingress 0 sample_draws (Received auth), Egress 0 True, Egress 0 True,
      Ingress 0 sample_draws (Received bs), Decoded 0] (mk_net (\<lambda>_. sample_junk)) = (Inr (), t') \<and>
    remote_pubkey (peer_at s' 0) = Some (replicate 64 8) \<and> remote_pubkey (peer_at t' 0) = Some (replicate 64 9)"
proof -
  let ?s = "mk_net (\<lambda>_. sample_junk)"
  have own: "own_id (nl_config (sample_net False b)) = replicate 64 b" "nl_crypto (sample_net False b) = sample_crypto"
    "services (nl_config (sample_net False b)) = [peermanager_service, sample_service]" "max_peers (nl_config (sample_net False b)) = 1" for b
    by (simp_all add: sample_net_defs)
  have ne: "replicate 64 (9 :: byte) \<noteq> replicate 64 8" by (simp add: replicate_eq_replicate)
  have c: "compatible (sample_net False 9) (sample_net False 8)"
    using sample_identity ne by (simp add: compatible_def own sample_rlp_ok sample_hashes_ok sample_keys_ok) (simp add: sample_net_defs sample_rlp_ok)
  have d: "connection_ok (nl_crypto (sample_net False 9)) sample_connection" "draws_ok (nl_crypto (sample_net False 9)) sample_draws"
    by (simp_all add: own connection_ok_def draws_ok_def sample_connection_def sample_draws_def sample_key_ok)
  have r: "room_for (sample_net False b) k ?s" "0 = next_peer ?s" for b k by (simp_all add: room_for_def own mk_net_def)
  have "pc_name (sv_protocol sample_service) \<noteq> pc_name (sv_protocol peermanager_service)"
    by (simp add: sample_service_def peermanager_service_def sample_protocol_def p2p_protocol_def p2p_name_def)
  then have same: "\<forall>a \<in> set (services (nl_config (sample_net False 9))). \<forall>b \<in> set (services (nl_config (sample_net False 8))).
      pc_name (sv_protocol a) = pc_name (sv_protocol b) \<and> pc_version (sv_protocol a) = pc_version (sv_protocol b) \<longrightarrow> a = b"
    by (auto simp: own)
  from managers_connect [OF c sample_announces sample_announces same d(1,1,2) r(1,1,2,2),
      of 0 "([10], 7)" sample_draws sample_draws 0 sample_draws]
  show ?thesis unfolding own by blast
qed

end
