(* ===== verification/Command.thy ===== *)
theory Command
  imports Peer
begin

text \<open>
  The commands of protocols (\<open>BaseProtocol.command\<close> in \<open>devp2p/protocol.py\<close>): making, encoding, decoding
  and receiving their payloads, the methods that \<open>_setup\<close> makes for them, and the commands of
  \<open>P2PProtocol\<close> (\<open>devp2p/p2p_protocol.py\<close>).
\<close>

section \<open>Payloads\<close>

text \<open>
  \<open>'s\<close> are the \<open>sedes\<close> of \<open>rlp\<close>, \<open>'v\<close> the values. A structure lists named parts or is a
  \<open>CountableList\<close>; a payload is a dictionary or a sequence.
\<close>

datatype 's layout = Fields "(string \<times> 's) list" | Countable 's

datatype 'v payload = Kargs "(string, 'v) dict" | Args "'v list"

record 's command =
  c_name :: string
  c_id :: nat
  c_structure :: "'s layout"
  c_strict :: bool

text \<open>
  What is used of \<open>rlp\<close>: encoding and decoding by \<open>sedes.List\<close> (strict or not about the number of
  elements) and by \<open>sedes.CountableList\<close>, decoding without \<open>sedes\<close>, and which exceptions are its own.
\<close>

record ('s, 'v) sedes_lib =
  enc_list :: "'s list \<Rightarrow> 'v list \<Rightarrow> bytes res"
  dec_list :: "'s list \<Rightarrow> bool \<Rightarrow> bytes \<Rightarrow> 'v list res"
  enc_countable :: "'s \<Rightarrow> 'v list \<Rightarrow> bytes res"
  dec_countable :: "'s \<Rightarrow> bytes \<Rightarrow> 'v list res"
  dec_raw :: "bytes \<Rightarrow> unit res"
  is_rlp_exception :: "exn \<Rightarrow> bool"

definition is_countable :: "'s layout \<Rightarrow> bool" where
  "is_countable s = (case s of Fields _ \<Rightarrow> False | Countable _ \<Rightarrow> True)"

text \<open>\<open>command.create\<close>: \<open>kargs or args\<close>, so that sequential arguments beside keywords are dropped.\<close>

definition command_create :: "'s command \<Rightarrow> 'v list \<Rightarrow> (string, 'v) dict \<Rightarrow> 'v payload res" where
  "command_create c args kargs =
     bind_res (assert_res (\<not> (kargs \<noteq> [] \<and> is_countable (c_structure c)))) (\<lambda>_.
     Inr (if kargs \<noteq> [] then Kargs kargs else Args args))"

text \<open>\<open>[data[x[0]] for x in cls.structure]\<close>.\<close>

fun ordered_values :: "(string \<times> 's) list \<Rightarrow> (string, 'v) dict \<Rightarrow> 'v list res" where
  "ordered_values [] data = Inr []"
| "ordered_values ((n, _) # fs) data =
     (case map_of data n of
        None \<Rightarrow> Inl KeyError
      | Some v \<Rightarrow> bind_res (ordered_values fs data) (\<lambda>vs. Inr (v # vs)))"

definition encode_payload :: "('s, 'v) sedes_lib \<Rightarrow> 's command \<Rightarrow> 'v payload \<Rightarrow> bytes res" where
  "encode_payload S c data =
     bind_res
       (case data of
          Args vs \<Rightarrow> Inr vs
        | Kargs d \<Rightarrow> (case c_structure c of Fields fs \<Rightarrow> ordered_values fs d | Countable _ \<Rightarrow> Inl AssertionError))
       (\<lambda>vs.
     case c_structure c of
       Countable s \<Rightarrow> enc_countable S s vs
     | Fields fs \<Rightarrow> bind_res (assert_res (length vs = length fs)) (\<lambda>_. enc_list S (map snd fs) vs))"

text \<open>
  \<open>dict(\<dots>)\<close> of pairs. A value that cannot be decoded is decoded again for the log, which may raise an
  exception of its own.
\<close>

definition dict_of :: "('k \<times> 'v) list \<Rightarrow> ('k, 'v) dict" where
  "dict_of ps = foldl (\<lambda>d (k, v). AList.update k v d) [] ps"

definition decode_payload :: "('s, 'v) sedes_lib \<Rightarrow> 's command \<Rightarrow> bytes \<Rightarrow> 'v payload res" where
  "decode_payload S c rlp_data =
     (case (case c_structure c of
              Countable s \<Rightarrow> dec_countable S s rlp_data
            | Fields fs \<Rightarrow> dec_list S (map snd fs) (c_strict c) rlp_data) of
        Inl e \<Rightarrow>
          if e = AssertionError \<or> e = TypeError \<or> is_rlp_exception S e
          then bind_res (dec_raw S rlp_data) (\<lambda>_. Inl e) else Inl e
      | Inr data \<Rightarrow>
          (case c_structure c of
             Countable _ \<Rightarrow> Inr (Args data)
           | Fields fs \<Rightarrow>
               if length data > length fs then Inl IndexError
               else Inr (Kargs (dict_of (zip (map fst fs) data)))))"

section \<open>The methods of a protocol\<close>

text \<open>\<open>_setup\<close>: the commands have different ids; \<open>cmd_by_id\<close> gives their names.\<close>

definition setup_commands :: "'s command list \<Rightarrow> (nat, string) dict res" where
  "setup_commands klasses =
     bind_res (assert_res (card (set (map c_id klasses)) = length klasses)) (\<lambda>_.
     Inr (dict_of (map (\<lambda>k. (c_id k, c_name k)) klasses)))"

text \<open>
  The methods \<open>create_X\<close> and \<open>_receive_X\<close>. A class of commands may have its own \<open>create\<close> and \<open>receive\<close>:
  here the outcome of the first and the whole of the second are arguments.
\<close>

definition create_packet :: "('s, 'v) sedes_lib \<Rightarrow> nat \<Rightarrow> 's command \<Rightarrow> 'v payload res \<Rightarrow> packet res" where
  "create_packet S protocol_id c created =
     bind_res created (\<lambda>data.
     bind_res (encode_payload S c data) (\<lambda>payload.
     Inr \<lparr>pk_protocol_id = protocol_id, pk_cmd_id = c_id c, pk_payload = payload, pk_prioritize = False\<rparr>))"

definition command_receive ::
  "('s, 'v) sedes_lib \<Rightarrow> 's command \<Rightarrow> ('v payload \<Rightarrow> ('st, unit) prog) \<Rightarrow> packet \<Rightarrow> ('st, unit) prog" where
  "command_receive S c receive pk = seq (lift_res (decode_payload S c (pk_payload pk))) receive"

text \<open>
  \<open>command.receive\<close>, which a class has unless it defines its own (as \<open>ping\<close>, \<open>hello\<close> and \<open>disconnect\<close> of
  \<open>P2PProtocol\<close> do): the callbacks are called one after the other with what was decoded.
\<close>

definition default_receive :: "('v payload \<Rightarrow> ('st, unit) prog) list \<Rightarrow> 'v payload \<Rightarrow> ('st, unit) prog" where
  "default_receive callbacks data = for_each callbacks (\<lambda>cb. cb data)"

section \<open>The commands of \<open>P2PProtocol\<close>\<close>

datatype sedes = BigEndianInt | Binary | ListOf "sedes list" | CountableList sedes

datatype py_value = PyInt nat | PyBytes bytes | PyList "py_value list"

definition ping_command :: "sedes command" where
  "ping_command = \<lparr>c_name = ''ping'', c_id = 2, c_structure = Fields [], c_strict = True\<rparr>"

definition pong_command :: "sedes command" where
  "pong_command = \<lparr>c_name = ''pong'', c_id = 3, c_structure = Fields [], c_strict = True\<rparr>"

definition hello_fields :: "(string \<times> sedes) list" where
  "hello_fields = [(''version'', BigEndianInt), (''client_version_string'', Binary),
     (''capabilities'', CountableList (ListOf [Binary, BigEndianInt])),
     (''listen_port'', BigEndianInt), (''remote_pubkey'', Binary)]"

definition hello_command :: "sedes command" where
  "hello_command = \<lparr>c_name = ''hello'', c_id = 0, c_structure = Fields hello_fields, c_strict = False\<rparr>"

definition disconnect_command :: "sedes command" where
  "disconnect_command = \<lparr>c_name = ''disconnect'', c_id = 1, c_structure = Fields [(''reason'', BigEndianInt)], c_strict = True\<rparr>"

definition p2p_commands :: "sedes command list" where
  "p2p_commands = [ping_command, pong_command, hello_command, disconnect_command]"

text \<open>
  The command of the example application (\<open>examples/full_app.py\<close>), which has both default methods; a \<open>Token\<close>
  is written as the list of its fields.
\<close>

definition token_command :: "sedes command" where
  "token_command = \<lparr>c_name = ''token'', c_id = 0, c_structure = Fields [(''token'', ListOf [BigEndianInt, Binary])], c_strict = True\<rparr>"

text \<open>The dictionaries that \<open>create\<close> of the hello and the disconnect return.\<close>

definition hello_dict :: "hello_data \<Rightarrow> (string, py_value) dict" where
  "hello_dict h = [(''version'', PyInt (h_version h)), (''client_version_string'', PyBytes (h_client_version_string h)),
     (''capabilities'', PyList (map (\<lambda>(n, v). PyList [PyBytes n, PyInt v]) (h_capabilities h))),
     (''listen_port'', PyInt (h_listen_port h)), (''remote_pubkey'', PyBytes (h_remote_pubkey h))]"

definition p2p_encode :: "(sedes, py_value) sedes_lib \<Rightarrow> p2p_data \<Rightarrow> bytes res" where
  "p2p_encode S d =
     (case d of
        PingData \<Rightarrow> encode_payload S ping_command (Args [])
      | PongData \<Rightarrow> encode_payload S pong_command (Args [])
      | HelloData h \<Rightarrow> encode_payload S hello_command (Kargs (hello_dict h))
      | DisconnectData reason \<Rightarrow> encode_payload S disconnect_command (Kargs [(''reason'', PyInt reason)]))"

text \<open>
  The other way, with the keys in the order in which the methods \<open>receive\<close> ask for them: the first two
  are looked up, the others are keyword arguments of \<open>receive_hello\<close>. A value of
  another type than that of its \<open>sedes\<close> does not occur; it is a \<open>TypeError\<close> here.
\<close>

definition get_int :: "exn \<Rightarrow> (string, py_value) dict \<Rightarrow> string \<Rightarrow> nat res" where
  "get_int e d k = (case map_of d k of None \<Rightarrow> Inl e | Some (PyInt n) \<Rightarrow> Inr n | _ \<Rightarrow> Inl TypeError)"

definition get_bytes :: "exn \<Rightarrow> (string, py_value) dict \<Rightarrow> string \<Rightarrow> bytes res" where
  "get_bytes e d k = (case map_of d k of None \<Rightarrow> Inl e | Some (PyBytes b) \<Rightarrow> Inr b | _ \<Rightarrow> Inl TypeError)"

fun read_capabilities :: "py_value list \<Rightarrow> (bytes \<times> nat) list res" where
  "read_capabilities [] = Inr []"
| "read_capabilities (PyList [PyBytes n, PyInt v] # vs) = bind_res (read_capabilities vs) (\<lambda>cs. Inr ((n, v) # cs))"
| "read_capabilities _ = Inl TypeError"

definition read_hello :: "(string, py_value) dict \<Rightarrow> hello_data res" where
  "read_hello d =
     bind_res (get_int KeyError d ''version'') (\<lambda>version.
     bind_res (get_bytes KeyError d ''remote_pubkey'') (\<lambda>key.
     bind_res (get_bytes TypeError d ''client_version_string'') (\<lambda>client.
     bind_res (case map_of d ''capabilities'' of Some (PyList vs) \<Rightarrow> read_capabilities vs | _ \<Rightarrow> Inl TypeError) (\<lambda>caps.
     bind_res (get_int TypeError d ''listen_port'') (\<lambda>port.
     Inr \<lparr>h_version = version, h_client_version_string = client, h_capabilities = caps, h_listen_port = port, h_remote_pubkey = key\<rparr>)))))"

definition p2p_decode :: "(sedes, py_value) sedes_lib \<Rightarrow> nat \<Rightarrow> bytes \<Rightarrow> p2p_data res" where
  "p2p_decode S cmd payload =
     (if cmd = 2 then bind_res (decode_payload S ping_command payload) (\<lambda>_. Inr PingData)
      else if cmd = 3 then bind_res (decode_payload S pong_command payload) (\<lambda>_. Inr PongData)
      else if cmd = 0 then
        bind_res (decode_payload S hello_command payload) (\<lambda>data.
        case data of Args _ \<Rightarrow> Inl TypeError | Kargs d \<Rightarrow> bind_res (read_hello d) (\<lambda>h. Inr (HelloData h)))
      else if cmd = 1 then
        bind_res (decode_payload S disconnect_command payload) (\<lambda>data.
        case data of Args _ \<Rightarrow> Inl TypeError | Kargs d \<Rightarrow> bind_res (get_int KeyError d ''reason'') (\<lambda>r. Inr (DisconnectData r)))
      else Inl KeyError)"

end
