(* ===== verification/Command_Properties.thy ===== *)
theory Command_Properties
  imports Command Discovery_Samples Peer_Samples Peer_Meeting
begin

text \<open>
  What is put into a command comes out of it: the laws assumed of \<open>rlp\<close>, the round trip of payloads and
  packets, the commands of \<open>P2PProtocol\<close>, and the extensibility of the hello that EIP-8 asks for.
\<close>

section \<open>Laws of the package\<close>

text \<open>
  Decoding gives back what could be encoded; without strictness, the elements after those of the
  structure are left out.
\<close>

definition sedes_ok :: "('s, 'v) sedes_lib \<Rightarrow> bool" where
  "sedes_ok S \<longleftrightarrow>
     (\<forall>ss vs strict b. enc_list S ss vs = Inr b \<longrightarrow> dec_list S ss strict b = Inr vs) \<and>
     (\<forall>s vs b. enc_countable S s vs = Inr b \<longrightarrow> dec_countable S s b = Inr vs) \<and>
     (\<forall>ss ts vs ws b. length vs = length ss \<longrightarrow> enc_list S (ss @ ts) (vs @ ws) = Inr b \<longrightarrow> dec_list S ss False b = Inr vs)"

section \<open>Payloads\<close>

fun part_names :: "'s layout \<Rightarrow> string list" where
  "part_names (Fields fs) = map fst fs"
| "part_names (Countable s) = []"

text \<open>
  What the receiver gets of what \<open>create\<close> returned: the named parts in the order of the structure, or the
  sequence.
\<close>

definition received :: "'s command \<Rightarrow> 'v payload \<Rightarrow> 'v payload" where
  "received c data =
     (case c_structure c of
        Countable _ \<Rightarrow> data
      | Fields fs \<Rightarrow> Kargs (case data of
          Args vs \<Rightarrow> zip (map fst fs) vs
        | Kargs d \<Rightarrow> map (\<lambda>(n, _). (n, the (map_of d n))) fs))"

lemma dict_of_append: "distinct (map fst d @ map fst ps) \<Longrightarrow> foldl (\<lambda>d (k, v). AList.update k v d) d ps = d @ ps"
proof (induction ps arbitrary: d)
  case Nil
  then show ?case by simp
next
  case (Cons p ps)
  obtain k v where p: "p = (k, v)" by (cases p)
  have "AList.update k v d = d @ [(k, v)]"
    using Cons.prems by (induction d) (auto simp: p)
  then show ?case using Cons.IH [of "d @ [(k, v)]"] Cons.prems by (simp add: p)
qed

lemma dict_of_distinct: "distinct (map fst ps) \<Longrightarrow> dict_of ps = ps"
  using dict_of_append [of "[]" ps] by (simp add: dict_of_def)

lemma ordered_values_eq:
  "ordered_values fs d = Inr vs \<Longrightarrow> zip (map fst fs) vs = map (\<lambda>(n, _). (n, the (map_of d n))) fs \<and> length vs = length fs"
  by (induction fs d arbitrary: vs rule: ordered_values.induct) (auto simp: bind_res_eq_Inr split: option.splits)

lemma decode_fields:
  assumes "c_structure c = Fields fs" "distinct (map fst fs)" "dec_list S (map snd fs) (c_strict c) b = Inr vs" "length vs = length fs"
  shows "decode_payload S c b = Inr (Kargs (zip (map fst fs) vs))"
  using assms by (simp add: decode_payload_def dict_of_distinct)

lemma payload_roundtrip:
  assumes "sedes_ok S" "distinct (part_names (c_structure c))" "encode_payload S c data = Inr b"
  shows "decode_payload S c b = Inr (received c data)"
proof (cases "c_structure c")
  case (Countable s)
  with assms(3) obtain vs where "data = Args vs" "enc_countable S s vs = Inr b"
    by (cases data) (auto simp: encode_payload_def)
  then show ?thesis using assms(1) by (simp add: sedes_ok_def decode_payload_def received_def Countable)
next
  case (Fields fs)
  then obtain vs where vs: "enc_list S (map snd fs) vs = Inr b" "length vs = length fs"
    and src: "data = Args vs \<or> (\<exists>d. data = Kargs d \<and> ordered_values fs d = Inr vs)"
    using assms(3) by (auto simp: encode_payload_def bind_res_eq_Inr split: payload.splits)
  have "dec_list S (map snd fs) (c_strict c) b = Inr vs" using vs(1) assms(1) by (simp add: sedes_ok_def)
  then have "decode_payload S c b = Inr (Kargs (zip (map fst fs) vs))"
    using decode_fields [OF Fields] assms(2) vs(2) by (simp add: Fields)
  then show ?thesis using src ordered_values_eq [of fs _ vs] by (auto simp: received_def Fields)
qed

text \<open>C15. A packet of a command, made from what the default \<open>create\<close> returns, carries the ids of the protocol and of
  the command, and receiving it calls the \<open>receive\<close> of the command, whichever that is, once with the sequence, or
  with a value for each named part: the value of the keyword if there are keywords, whatever their order (then
  sequential arguments, and keywords that the structure does not name, are dropped without notice), and
  otherwise the sequential argument at its place. For a command with the default \<open>receive\<close>, each callback is
  called with that.\<close>

theorem command_roundtrip:
  assumes "sedes_ok S" "distinct (part_names (c_structure c))"
    and "create_packet S i c (command_create c args kargs) = Inr pk"
  defines "got \<equiv> received c (if kargs = [] then Args args else Kargs kargs)"
  shows "pk_protocol_id pk = i \<and> pk_cmd_id pk = c_id c \<and> command_receive S c receive pk = receive got \<and>
    command_receive S c (default_receive callbacks) pk = for_each callbacks (\<lambda>cb. cb got)"
proof -
  obtain data b where d: "command_create c args kargs = Inr data" "encode_payload S c data = Inr b"
    and pk: "pk = \<lparr>pk_protocol_id = i, pk_cmd_id = c_id c, pk_payload = b, pk_prioritize = False\<rparr>"
    using assms(3) by (auto simp: create_packet_def bind_res_eq_Inr)
  have "data = (if kargs = [] then Args args else Kargs kargs)"
    using d(1) by (auto simp: command_create_def bind_res_eq_Inr)
  then show ?thesis
    using payload_roundtrip [OF assms(1,2) d(2)] by (simp add: pk command_receive_def default_receive_def got_def)
qed

section \<open>The peer-to-peer commands\<close>

text \<open>The classes of commands are those that the model of \<open>P2PProtocol\<close> has.\<close>

lemma p2p_setup: "\<exists>d. setup_commands p2p_commands = Inr d \<and> map fst d = pc_cmds p2p_protocol"
  by (simp add: setup_commands_def p2p_commands_def ping_command_def pong_command_def hello_command_def
      disconnect_command_def dict_of_def p2p_protocol_def)

lemma read_capabilities_inv: "read_capabilities (map (\<lambda>(n, v). PyList [PyBytes n, PyInt v]) cs) = Inr cs"
  by (induction cs) auto

lemma read_hello_inv: "read_hello (hello_dict h) = Inr h"
  by (simp add: read_hello_def hello_dict_def get_int_def get_bytes_def read_capabilities_inv)

lemma hello_dict_fields: "zip (map fst hello_fields) (map snd (hello_dict h)) = hello_dict h"
    "length (map snd (hello_dict h)) = length hello_fields" "distinct (map fst hello_fields)"
  by (simp_all add: hello_fields_def hello_dict_def)

lemma decode_hello:
  assumes "dec_list S (map snd hello_fields) False b = Inr (map snd (hello_dict h))"
  shows "p2p_decode S 0 b = Inr (HelloData h)"
proof -
  have "decode_payload S hello_command b = Inr (Kargs (hello_dict h))"
    using decode_fields [of hello_command hello_fields S b "map snd (hello_dict h)"] assms hello_dict_fields(1,2) [of h] hello_dict_fields(3)
    by (simp add: hello_command_def)
  then show ?thesis by (simp add: p2p_decode_def read_hello_inv)
qed

lemma ordered_hello: "ordered_values hello_fields (hello_dict h) = Inr (map snd (hello_dict h))"
  by (simp add: hello_fields_def hello_dict_def)

lemma p2p_roundtrip:
  assumes "sedes_ok S" and e: "p2p_encode S d = Inr b"
  shows "p2p_decode S (p2p_cmd_id d) b = Inr d"
proof -
  note S = assms(1) [unfolded sedes_ok_def]
  show ?thesis
  proof (cases d)
    case PingData
    with e have "enc_list S [] [] = Inr b" by (simp add: p2p_encode_def encode_payload_def ping_command_def)
    then have "dec_list S [] True b = Inr []" using S by blast
    then show ?thesis by (simp add: PingData p2p_cmd_id_def p2p_decode_def decode_payload_def ping_command_def)
  next
    case PongData
    with e have "enc_list S [] [] = Inr b" by (simp add: p2p_encode_def encode_payload_def pong_command_def)
    then have "dec_list S [] True b = Inr []" using S by blast
    then show ?thesis by (simp add: PongData p2p_cmd_id_def p2p_decode_def decode_payload_def pong_command_def)
  next
    case (HelloData h)
    with e have "enc_list S (map snd hello_fields) (map snd (hello_dict h)) = Inr b"
      using hello_dict_fields(2) [of h] by (simp add: p2p_encode_def encode_payload_def hello_command_def ordered_hello)
    then show ?thesis using S decode_hello [of S b h] by (simp add: HelloData p2p_cmd_id_def)
  next
    case (DisconnectData r)
    with e have "enc_list S [BigEndianInt] [PyInt r] = Inr b" by (simp add: p2p_encode_def encode_payload_def disconnect_command_def)
    then have "dec_list S [BigEndianInt] True b = Inr [PyInt r]" using S by blast
    then show ?thesis
      by (simp add: DisconnectData p2p_cmd_id_def p2p_decode_def decode_payload_def disconnect_command_def dict_of_def get_int_def)
  qed
qed

lemma hello_extended:
  assumes "sedes_ok S" "enc_list S (map snd hello_fields @ ts) (map snd (hello_dict h) @ ws) = Inr b"
  shows "p2p_decode S 0 b = Inr (HelloData h)"
proof (rule decode_hello)
  have "length (map snd (hello_dict h)) = length (map snd hello_fields)" by (simp add: hello_dict_def hello_fields_def)
  then show "dec_list S (map snd hello_fields) False b = Inr (map snd (hello_dict h))"
    using assms unfolding sedes_ok_def by blast
qed

text \<open>Managers whose messages are encoded in this way announce their services to each other.\<close>

lemma codec_announces:
  assumes "sedes_ok S" "encode_p2p N = p2p_encode S" "decode_p2p M = p2p_decode S"
    and "announced (services (nl_config N)) = Inr caps" "p2p_encode S (HelloData (hello_of N caps)) = Inr d"
    and "hello_fits (nl_rlp N) d"
  shows "announces N M caps d"
  using assms p2p_roundtrip [OF assms(1,5)] by (simp add: announces_def p2p_cmd_id_def)

text \<open>C16. The messages of the peer-to-peer protocol survive encoding and decoding, and a hello is read the same
  when later versions of the protocol add elements to it (EIP-8).\<close>

theorem p2p_codec:
  assumes "sedes_ok S"
  shows "(\<forall>d b. p2p_encode S d = Inr b \<longrightarrow> p2p_decode S (p2p_cmd_id d) b = Inr d) \<and>
    (\<forall>h ts ws b. enc_list S (map snd hello_fields @ ts) (map snd (hello_dict h) @ ws) = Inr b \<longrightarrow>
       p2p_decode S 0 b = Inr (HelloData h))"
  using p2p_roundtrip [OF assms] hello_extended [OF assms] by blast

section \<open>A concrete codec\<close>

fun py_item :: "py_value \<Rightarrow> item" where
  "py_item (PyInt n) = Items [Bytes (w_int n)]"
| "py_item (PyBytes b) = Bytes b"
| "py_item (PyList vs) = Items (Items [] # map py_item vs)"

fun item_py :: "item \<Rightarrow> py_value" where
  "item_py (Bytes b) = PyBytes b"
| "item_py (Items (Bytes b # _)) = PyInt (be_val b)"
| "item_py (Items (Items _ # xs)) = PyList (map item_py xs)"
| "item_py (Items []) = PyList []"

lemma item_py_item: "item_py (py_item v) = v"
  by (induction v rule: py_item.induct) (auto simp: be_val_w_int intro: map_idI)

definition sample_items :: "bytes \<Rightarrow> py_value list option" where
  "sample_items b = (case r_item (length b) b of Some (Items xs, []) \<Rightarrow> Some (map item_py xs) | _ \<Rightarrow> None)"

definition sample_sedes :: "(sedes, py_value) sedes_lib" where
  "sample_sedes =
     \<lparr>enc_list = \<lambda>ss vs. if length vs = length ss then Inr (w_item (Items (map py_item vs))) else Inl TypeError,
      dec_list = \<lambda>ss strict b. (case sample_items b of
        Some vs \<Rightarrow> if strict \<and> length vs \<noteq> length ss then Inl TypeError else Inr (take (length ss) vs)
      | None \<Rightarrow> Inl TypeError),
      enc_countable = \<lambda>s vs. Inr (w_item (Items (map py_item vs))),
      dec_countable = \<lambda>s b. (case sample_items b of Some vs \<Rightarrow> Inr vs | None \<Rightarrow> Inl TypeError),
      dec_raw = \<lambda>b. Inr (), is_rlp_exception = \<lambda>e. False\<rparr>"

lemma sample_items_inv: "sample_items (w_item (Items (map py_item vs))) = Some vs"
proof -
  have "r_item (length b) b = Some (Items (map py_item vs), [])" if "b = w_item (Items (map py_item vs))" for b
    using r_w_item [of "Items (map py_item vs)" "length b" "[]"] that by simp
  then show ?thesis by (simp add: sample_items_def comp_def item_py_item del: w_item.simps)
qed

lemma sample_sedes_ok: "sedes_ok sample_sedes"
  using sample_items_inv [of "vs @ ws" for vs ws]
  by (auto simp: sedes_ok_def sample_sedes_def sample_items_inv split: if_splits simp del: w_item.simps)

text \<open>A token of the example application, sent as a sequential argument, and a callback that records what it gets.\<close>

lemma command_roundtrip_witness:
  "\<exists>pk. create_packet sample_sedes 1 token_command (command_create token_command [PyList [PyInt 5, PyBytes [9]]] []) = Inr pk \<and>
     pk_protocol_id pk = 1 \<and>
     command_receive sample_sedes token_command (default_receive [\<lambda>d. modify (\<lambda>s. s @ [d])]) pk [] =
       (Inr (), [Kargs [(''token'', PyList [PyInt 5, PyBytes [9]])]])"
proof -
  let ?v = "PyList [PyInt 5, PyBytes [9]]"
  obtain pk where pk: "create_packet sample_sedes 1 token_command (command_create token_command [?v] []) = Inr pk"
    by (simp add: create_packet_def command_create_def token_command_def is_countable_def encode_payload_def sample_sedes_def)
  have d: "distinct (part_names (c_structure token_command))" by (simp add: token_command_def)
  note r = command_roundtrip [OF sample_sedes_ok d pk, of "\<lambda>_ s :: py_value payload list. (Inr (), s)" "[\<lambda>d. modify (\<lambda>s. s @ [d])]"]
  have "command_receive sample_sedes token_command (default_receive [\<lambda>d. modify (\<lambda>s. s @ [d])]) pk [] =
      for_each [\<lambda>d. modify (\<lambda>s. s @ [d])] (\<lambda>cb. cb (received token_command (Args [?v]))) []"
    using r [THEN conjunct2, THEN conjunct2, THEN conjunct2, THEN fun_cong, of "[]"] by simp
  also have "\<dots> = (Inr (), [Kargs [(''token'', ?v)]])"
    by (simp add: received_def token_command_def seq_def modify_def ret_def)
  finally show ?thesis using pk r by blast
qed

lemma p2p_codec_witness:
  "\<exists>b. enc_list sample_sedes (map snd hello_fields @ [Binary]) (map snd (hello_dict (sample_hello_of 9)) @ [PyBytes [1]]) = Inr b \<and>
     p2p_decode sample_sedes 0 b = Inr (HelloData (sample_hello_of 9))"
proof -
  obtain b where b: "enc_list sample_sedes (map snd hello_fields @ [Binary]) (map snd (hello_dict (sample_hello_of 9)) @ [PyBytes [1]]) = Inr b"
    by (simp add: sample_sedes_def hello_fields_def hello_dict_def)
  then show ?thesis using p2p_codec [OF sample_sedes_ok] by blast
qed

end
