(* ===== verification/Config.thy ===== *)
theory Config
  imports Prelude
begin

text \<open>
  Configurations and services: merging a configuration with defaults (\<open>devp2p/utils.py\<close>), the registry of
  services (\<open>BaseApp\<close> in \<open>devp2p/app.py\<close>), and how services are made (\<open>BaseService\<close> in \<open>devp2p/service.py\<close>).
\<close>

section \<open>Configurations\<close>

text \<open>A configuration is a dictionary of dictionaries and of other values.\<close>

datatype 'a config = Section "(string \<times> 'a config) list" | Entry 'a

text \<open>
  \<open>update_config_with_defaults\<close>: a section of the defaults is merged into that of the configuration, any
  other default is taken over when its key is missing. Where a configuration has a number for a section, the
  look-ups fail unless the section of the defaults is empty; a text or a list, in which \<open>k not in config\<close> would
  look for a part or an element, is taken for a number there.
\<close>

fun update_config :: "'a config \<Rightarrow> (string \<times> 'a config) list \<Rightarrow> 'a config res" where
  "update_config c [] = Inr c"
| "update_config (Entry x) ((k, Section d) # ds) = Inl AttributeError"
| "update_config (Entry x) ((k, Entry y) # ds) = Inl TypeError"
| "update_config (Section c) ((k, Section d) # ds) =
     bind_res (update_config (case map_of c k of None \<Rightarrow> Section [] | Some v \<Rightarrow> v) d) (\<lambda>r.
     update_config (Section (AList.update k r c)) ds)"
| "update_config (Section c) ((k, Entry y) # ds) =
     update_config (Section (if map_of c k = None then AList.update k (Entry y) c else c)) ds"

section \<open>Services\<close>

text \<open>
  A class of services: the class itself (a number), its attributes \<open>name\<close>, \<open>default_config\<close> and
  \<open>required_services\<close>, and what its constructor does with the configuration after that of \<open>BaseService\<close>; a
  service as an instance of one. The registry is a dictionary: nothing may depend on the order of its entries.
\<close>

record 'a service_class =
  sc_class :: nat
  sc_name :: string
  sc_defaults :: "(string \<times> 'a config) list"
  sc_required :: "nat list"
  sc_setup :: "'a config \<Rightarrow> 'a config res"

record 'a service_object =
  so_class :: "'a service_class"
  so_stopped :: bool

record 'a app =
  a_config :: "'a config"
  a_services :: "(string, 'a service_object) dict"

text \<open>\<open>BaseApp.__init__\<close>, with the defaults of the class of applications.\<close>

definition mk_app :: "(string \<times> 'a config) list \<Rightarrow> 'a config \<Rightarrow> 'a app res" where
  "mk_app defaults c = bind_res (update_config c defaults) (\<lambda>r. Inr \<lparr>a_config = r, a_services = []\<rparr>)"

text \<open>
  The constructor of a service: in \<open>BaseService.__init__\<close> the defaults of the service become part of the
  configuration of the application and the required services must be there; the rest is up to the class.
\<close>

definition init_service :: "'a service_class \<Rightarrow> ('a app, 'a service_object) prog" where
  "init_service K =
     seq (gets (\<lambda>a. update_config (a_config a) (sc_defaults K))) (\<lambda>r.
     seq (lift_res r) (\<lambda>c.
     seq (modify (\<lambda>a. a\<lparr>a_config := c\<rparr>)) (\<lambda>_.
     seq (gets (\<lambda>a. map (\<lambda>(_, s). sc_class (so_class s)) (a_services a))) (\<lambda>available_service.
     seq (py_assert (set (sc_required K) \<subseteq> set available_service)) (\<lambda>_.
     seq (lift_res (sc_setup K c)) (\<lambda>c'.
     seq (modify (\<lambda>a. a\<lparr>a_config := c'\<rparr>)) (\<lambda>_.
     ret \<lparr>so_class = K, so_stopped = False\<rparr>)))))))"

definition register_service :: "'a service_object \<Rightarrow> ('a app, unit) prog" where
  "register_service s =
     seq (gets (\<lambda>a. sc_name (so_class s) \<notin> fst ` set (a_services a))) (\<lambda>new.
     seq (py_assert new) (\<lambda>_.
     modify (\<lambda>a. a\<lparr>a_services := AList.update (sc_name (so_class s)) s (a_services a)\<rparr>)))"

definition register_with_app :: "'a service_class \<Rightarrow> ('a app, unit) prog" where
  "register_with_app K = seq (init_service K) register_service"

text \<open>\<open>deregister_service\<close> calls \<open>remove\<close>, which dictionaries do not have.\<close>

definition deregister_service :: "'a service_object \<Rightarrow> ('a app, unit) prog" where
  "deregister_service s = throw AttributeError"

text \<open>
  Starting and stopping all services, in some order, as far as \<open>BaseService.start\<close> and \<open>BaseService.stop\<close> do it.
\<close>

definition set_stopped :: "bool \<Rightarrow> string \<Rightarrow> ('a app, unit) prog" where
  "set_stopped b n = modify (\<lambda>a. a\<lparr>a_services := map (\<lambda>(k, s). (k, if k = n then s\<lparr>so_stopped := b\<rparr> else s)) (a_services a)\<rparr>)"

definition app_start :: "('a app, unit) prog" where
  "app_start = seq (gets (map fst \<circ> a_services)) (\<lambda>names. for_each names (set_stopped False))"

definition app_stop :: "('a app, unit) prog" where
  "app_stop = seq (gets (map fst \<circ> a_services)) (\<lambda>names. for_each names (set_stopped True))"

section \<open>Making an application\<close>

text \<open>
  The loop of \<open>create_app\<close> (\<open>devp2p/app_helper.py\<close>): services whose names are not deactivated are registered.
\<close>

definition register_services :: "string list \<Rightarrow> 'a service_class list \<Rightarrow> ('a app, unit) prog" where
  "register_services deactivated ks =
     for_each ks (\<lambda>K.
       if sc_name K \<in> set deactivated then ret ()
       else
         seq (gets (\<lambda>a. sc_name K \<notin> fst ` set (a_services a))) (\<lambda>new.
         seq (py_assert new) (\<lambda>_.
         seq (register_with_app K) (\<lambda>_.
         seq (gets (\<lambda>a. sc_name K \<in> fst ` set (a_services a))) py_assert))))"

end
