(* ===== verification/Config_Properties.thy ===== *)
theory Config_Properties
  imports Config
begin

text \<open>
  What a merged configuration says, entry by entry, and the order in which services can be registered.
\<close>

section \<open>Merged configurations\<close>

fun config_at :: "string list \<Rightarrow> 'a config \<Rightarrow> 'a config option" where
  "config_at [] c = Some c"
| "config_at (k # ks) (Section d) = (case map_of d k of None \<Rightarrow> None | Some v \<Rightarrow> config_at ks v)"
| "config_at (k # ks) (Entry x) = None"

definition entry_at :: "string list \<Rightarrow> 'a config \<Rightarrow> 'a option" where
  "entry_at ks c = (case config_at ks c of Some (Entry x) \<Rightarrow> Some x | _ \<Rightarrow> None)"

fun distinct_keys :: "'a config \<Rightarrow> bool" where
  "distinct_keys (Entry x) = True"
| "distinct_keys (Section d) = (distinct (map fst d) \<and> (\<forall>v \<in> snd ` set d. distinct_keys v))"

text \<open>The abstract merge: what the configuration has at a path counts, else what the defaults have.\<close>

definition merged_entry :: "string list \<Rightarrow> 'a config \<Rightarrow> 'a config \<Rightarrow> 'a option" where
  "merged_entry p c d = (case config_at p c of None \<Rightarrow> entry_at p d | Some v \<Rightarrow> entry_at [] v)"

lemma entry_at_Cons: "entry_at (k # ks) (Section d) = (case map_of d k of None \<Rightarrow> None | Some v \<Rightarrow> entry_at ks v)"
  by (simp add: entry_at_def split: option.split)

lemma entry_at_Nil: "entry_at [] (Section d) = None" "entry_at [] (Entry x) = Some x" "entry_at (k # ks) (Entry x) = None"
  by (simp_all add: entry_at_def)

lemma entry_at_from: "(case config_at p c of None \<Rightarrow> None | Some v \<Rightarrow> entry_at [] v) = entry_at p c"
  by (auto simp: entry_at_def split: option.split config.split)

lemma map_of_config_update: "map_of (AList.update k v d) k' = (if k' = k then Some v else map_of d k')"
  by (simp add: update_conv')

lemma update_config_merges:
  assumes "update_config c d = Inr c'" "distinct_keys (Section d)"
  shows "entry_at p c' = merged_entry p c (Section d)"
  using assms
proof (induction c d arbitrary: p c' rule: update_config.induct)
  case (1 c)
  then show ?case
    by (cases p) (auto simp: merged_entry_def entry_at_def split: option.split config.split)
next
  case (4 c k d ds)
  let ?v = "case map_of c k of None \<Rightarrow> Section [] | Some v \<Rightarrow> v"
  obtain r where r: "update_config ?v d = Inr r" "update_config (Section (AList.update k r c)) ds = Inr c'"
    using "4.prems"(1) by (auto simp: bind_res_eq_Inr)
  have k: "map_of ds k = None" using "4.prems"(2) by (simp add: map_of_eq_None_iff)
  have ih1: "entry_at q r = merged_entry q ?v (Section d)" for q using "4.IH"(1) [OF r(1)] "4.prems"(2) by simp
  have ih2: "entry_at p c' = merged_entry p (Section (AList.update k r c)) (Section ds)"
    using "4.IH"(2) [OF r(2)] "4.prems"(2) by simp
  show ?case
  proof (cases p)
    case Nil
    then show ?thesis using ih2 by (simp add: merged_entry_def entry_at_Nil)
  next
    case (Cons q qs)
    show ?thesis
    proof (cases "q = k")
      case True
      have "entry_at p c' = entry_at qs r"
        using ih2 k entry_at_from [of qs r] by (simp add: Cons True merged_entry_def map_of_config_update entry_at_Cons cong: option.case_cong)
      then show ?thesis
        using ih1 [of qs] by (cases qs) (auto simp: Cons True merged_entry_def entry_at_Cons entry_at_Nil split: option.split)
    next
      case False
      then show ?thesis
        using ih2 by (simp add: Cons merged_entry_def map_of_config_update entry_at_Cons cong: option.case_cong)
    qed
  qed
next
  case (5 c k y ds)
  have k: "map_of ds k = None" using "5.prems"(2) by (simp add: map_of_eq_None_iff)
  have ih: "entry_at p c' = merged_entry p (Section (if map_of c k = None then AList.update k (Entry y) c else c)) (Section ds)"
    using "5.IH" "5.prems" by simp
  show ?case
  proof (cases p)
    case Nil
    then show ?thesis using ih by (simp add: merged_entry_def entry_at_Nil)
  next
    case (Cons q qs)
    then show ?thesis
      using ih k by (cases qs) (auto simp: merged_entry_def map_of_config_update entry_at_Cons entry_at_Nil split: option.splits)
  qed
qed simp_all

text \<open>C31. A merged configuration has at every path the entry of the configuration, or that of the defaults where
  the configuration has nothing.\<close>

theorem update_config_entries:
  assumes "update_config c d = Inr c'" "distinct_keys (Section d)"
  shows "entry_at p c' = merged_entry p c (Section d)"
  using assms by (rule update_config_merges)

lemma update_config_entries_witness:
  "\<exists>c'. update_config (Section [(''p2p'', Section [(''port'', Entry 1)])]) [(''p2p'', Section [(''port'', Entry 2), (''host'', Entry 3)])] = Inr c' \<and>
     entry_at [''p2p'', ''port''] c' = Some (1 :: nat) \<and> entry_at [''p2p'', ''host''] c' = Some 3"
proof -
  let ?d = "[(''p2p'', Section [(''port'', Entry 2), (''host'', Entry (3 :: nat))])]"
  have u: "update_config (Section [(''p2p'', Section [(''port'', Entry 1)])]) ?d =
    Inr (Section [(''p2p'', Section [(''port'', Entry 1), (''host'', Entry 3)])])" by simp
  have "distinct_keys (Section ?d)" by simp
  from update_config_entries [OF u this, of "[''p2p'', ''port'']"] update_config_entries [OF u this, of "[''p2p'', ''host'']"] u
  show ?thesis by (simp add: merged_entry_def entry_at_Cons entry_at_Nil)
qed

lemma update_config_keeps:
  assumes "update_config c d = Inr c'" "distinct_keys (Section d)" "entry_at p c = Some x"
  shows "entry_at p c' = Some x"
proof -
  have "merged_entry p c (Section d) = Some x"
    using assms(3) by (auto simp: merged_entry_def entry_at_def split: option.splits config.splits)
  then show ?thesis using update_config_merges [OF assms(1,2), of p] by simp
qed

section \<open>Registered services\<close>

definition service_classes :: "'a app \<Rightarrow> 'a service_class list" where
  "service_classes a = map (\<lambda>(_, s). so_class s) (a_services a)"

text \<open>The services are under their names, and those that they require are registered too.\<close>

definition registry_ok :: "'a app \<Rightarrow> bool" where
  "registry_ok a \<longleftrightarrow> distinct (map fst (a_services a)) \<and> (\<forall>(n, s) \<in> set (a_services a). n = sc_name (so_class s)) \<and>
     (\<forall>K \<in> set (service_classes a). set (sc_required K) \<subseteq> sc_class ` set (service_classes a))"

text \<open>Each class of a list requires only given ones and those before it in the list.\<close>

fun requirements_met :: "nat set \<Rightarrow> 'a service_class list \<Rightarrow> bool" where
  "requirements_met cs [] = True"
| "requirements_met cs (K # ks) = (set (sc_required K) \<subseteq> cs \<and> requirements_met (insert (sc_class K) cs) ks)"

text \<open>The constructors keep the entries of the configuration, except for the id of the node.\<close>

definition constructor_ok :: "'a service_class \<Rightarrow> bool" where
  "constructor_ok K \<longleftrightarrow> distinct_keys (Section (sc_defaults K)) \<and>
     (\<forall>c c' p x. sc_setup K c = Inr c' \<longrightarrow> take 2 p \<noteq> [''node'', ''id''] \<longrightarrow> entry_at p c = Some x \<longrightarrow> entry_at p c' = Some x)"

definition new_service :: "'a service_class \<Rightarrow> 'a service_object" where
  "new_service K = \<lparr>so_class = K, so_stopped = False\<rparr>"

lemma update_new: "k \<notin> fst ` set d \<Longrightarrow> AList.update k v d = d @ [(k, v)]"
  by (induction d) auto

lemma register_with_app_result:
  assumes "register_with_app K a = (Inr (), a')"
  obtains c where "update_config (a_config a) (sc_defaults K) = Inr c" "sc_setup K c = Inr (a_config a')"
    "a_services a' = a_services a @ [(sc_name K, new_service K)]" "sc_name K \<notin> fst ` set (a_services a)"
    "set (sc_required K) \<subseteq> sc_class ` set (service_classes a)"
proof -
  have "sc_class ` set (service_classes a) = set (map (\<lambda>(_, s). sc_class (so_class s)) (a_services a))"
    by (force simp: service_classes_def)
  with assms that show thesis
    by (auto simp: register_with_app_def init_service_def register_service_def seq_gets_run seq_lift_run
        seq_modify_run seq_assert_Inr seq_eq_Inr ret_eq_Inr modify_eq_Inr gets_eq_Inr py_assert_def lift_res_def update_new
        new_service_def split: sum.splits)
qed

lemma register_services_result:
  assumes "register_services deactivated ks a = (Inr (), a')" "\<forall>K \<in> set ks. constructor_ok K"
  shows "a_services a' = a_services a @ map (\<lambda>K. (sc_name K, new_service K)) (filter (\<lambda>K. sc_name K \<notin> set deactivated) ks) \<and>
    (distinct (map fst (a_services a)) \<longrightarrow>
      distinct (map fst (a_services a) @ map sc_name (filter (\<lambda>K. sc_name K \<notin> set deactivated) ks))) \<and>
    requirements_met (sc_class ` set (service_classes a)) (filter (\<lambda>K. sc_name K \<notin> set deactivated) ks) \<and>
    (\<forall>p x. take 2 p \<noteq> [''node'', ''id''] \<longrightarrow> entry_at p (a_config a) = Some x \<longrightarrow> entry_at p (a_config a') = Some x)"
  using assms
proof (induction ks arbitrary: a)
  case Nil
  then show ?case by (simp add: register_services_def ret_eq_Inr)
next
  case (Cons K ks)
  show ?case
  proof (cases "sc_name K \<in> set deactivated")
    case True
    then have "register_services deactivated ks a = (Inr (), a')"
      using Cons.prems(1) by (simp add: register_services_def)
    then show ?thesis using Cons.IH Cons.prems(2) True by simp
  next
    case False
    then obtain b where b: "register_with_app K a = (Inr (), b)" "register_services deactivated ks b = (Inr (), a')"
      using Cons.prems(1)
      by (auto simp: register_services_def seq_gets_run seq_assert_Inr seq_eq_Inr gets_eq_Inr py_assert_def lift_res_def)
    obtain c where c: "update_config (a_config a) (sc_defaults K) = Inr c" "sc_setup K c = Inr (a_config b)"
      "a_services b = a_services a @ [(sc_name K, new_service K)]" "sc_name K \<notin> fst ` set (a_services a)"
      "set (sc_required K) \<subseteq> sc_class ` set (service_classes a)" by (rule register_with_app_result [OF b(1)])
    have ok: "constructor_ok K" using Cons.prems(2) by simp
    have "entry_at p (a_config b) = Some x" if "take 2 p \<noteq> [''node'', ''id'']" "entry_at p (a_config a) = Some x" for p x
      using update_config_keeps [OF c(1) _ that(2)] c(2) that(1) ok unfolding constructor_ok_def by blast
    moreover have "service_classes b = service_classes a @ [K]" by (simp add: service_classes_def c(3) new_service_def)
    ultimately show ?thesis using Cons.IH [OF b(2)] c(3-5) Cons.prems(2) False by (simp add: image_iff)
  qed
qed

lemma requirements_met_all:
  "requirements_met cs ks \<Longrightarrow> K \<in> set ks \<Longrightarrow> set (sc_required K) \<subseteq> cs \<union> sc_class ` set ks"
  by (induction ks arbitrary: cs) auto

text \<open>Stopping the application stops every service.\<close>

lemma set_stopped_run:
  "for_each ns (set_stopped b) a =
     (Inr (), a\<lparr>a_services := map (\<lambda>(k, s). (k, if k \<in> set ns then s\<lparr>so_stopped := b\<rparr> else s)) (a_services a)\<rparr>)"
proof (induction ns arbitrary: a)
  case Nil
  then show ?case by (simp add: ret_def split_def)
next
  case (Cons n ns)
  let ?set = "\<lambda>ns (k, s). (k, if k \<in> set ns then s\<lparr>so_stopped := b\<rparr> else s)"
  have "map (?set ns) (map (?set [n]) xs) = map (?set (n # ns)) xs" for xs :: "(string \<times> 'a service_object) list"
    by (induction xs) auto
  then show ?case using Cons.IH by (simp add: set_stopped_def seq_modify_run del: map_map)
qed

lemma app_stop_stops:
  "app_stop a = (Inr (), a\<lparr>a_services := map (\<lambda>(k, s). (k, s\<lparr>so_stopped := True\<rparr>)) (a_services a)\<rparr>)"
proof -
  have "map (\<lambda>(k, s). (k, if k \<in> fst ` set xs then s\<lparr>so_stopped := True\<rparr> else s)) xs = map (\<lambda>(k, s). (k, s\<lparr>so_stopped := True\<rparr>)) xs"
    for xs :: "(string \<times> 'a service_object) list" by (rule map_cong [OF refl]) force
  then show ?thesis by (simp add: app_stop_def seq_gets_run set_stopped_run)
qed

section \<open>A concrete application\<close>

text \<open>The node discovery and the peer manager, which requires nothing, with a section of defaults each.\<close>

definition sample_services :: "nat service_class list" where
  "sample_services =
     [\<lparr>sc_class = 0, sc_name = ''discovery'', sc_defaults = [(''discovery'', Section [(''listen_port'', Entry 30303)])], sc_required = [],
       sc_setup = Inr\<rparr>,
      \<lparr>sc_class = 1, sc_name = ''peermanager'', sc_defaults = [(''p2p'', Section [(''listen_port'', Entry 30303)])], sc_required = [0],
       sc_setup = Inr\<rparr>]"

text \<open>C26. When an application has registered a list of services, each of them that is not deactivated, and no other,
  has been added to the registry, under its name and not stopped; each service of the list requires only
  services that were registered before it, and every registered service has those that it requires beside it; and
  the entries of the configuration that were there are still the same, except for the id of the node, provided
  that what the constructors do themselves leaves them alone.\<close>

theorem services_registered:
  assumes "register_services deactivated ks a = (Inr (), a')" "registry_ok a" "\<forall>K \<in> set ks. constructor_ok K"
  shows "registry_ok a' \<and>
    map_of (a_services a') = map_of (a_services a) ++
      (\<lambda>n. map_option new_service (find (\<lambda>K. sc_name K = n \<and> n \<notin> set deactivated) ks)) \<and>
    requirements_met (sc_class ` set (service_classes a)) (filter (\<lambda>K. sc_name K \<notin> set deactivated) ks) \<and>
    (\<forall>p x. take 2 p \<noteq> [''node'', ''id''] \<longrightarrow> entry_at p (a_config a) = Some x \<longrightarrow> entry_at p (a_config a') = Some x)"
proof -
  let ?ks = "filter (\<lambda>K. sc_name K \<notin> set deactivated) ks"
  note r = register_services_result [OF assms(1,3)]
  have new: "a_services a' = a_services a @ map (\<lambda>K. (sc_name K, new_service K)) ?ks" using r by blast
  have d: "distinct (map fst (a_services a) @ map sc_name ?ks)" using r assms(2) unfolding registry_ok_def by blast
  then have d': "distinct (map fst (a_services a'))" by (simp add: new comp_def)
  have classes: "service_classes a' = service_classes a @ ?ks"
    by (simp add: service_classes_def new new_service_def comp_def)
  have reg: "registry_ok a'"
    using d' assms(2) requirements_met_all [of "sc_class ` set (service_classes a)" ?ks] r
    unfolding registry_ok_def classes by (auto simp: new new_service_def image_Un; blast)
  have "map_of (map (\<lambda>K. (sc_name K, new_service K)) ?ks) n =
      map_option new_service (find (\<lambda>K. sc_name K = n \<and> n \<notin> set deactivated) ks)" for n
    by (induction ks) auto
  then have found: "map_of (map (\<lambda>K. (sc_name K, new_service K)) ?ks) =
      (\<lambda>n. map_option new_service (find (\<lambda>K. sc_name K = n \<and> n \<notin> set deactivated) ks))" by (rule ext)
  have all: "map_of (a_services a') = map_of (a_services a) ++ map_of (map (\<lambda>K. (sc_name K, new_service K)) ?ks)"
  proof -
    have "fst ` set (map (\<lambda>K. (sc_name K, new_service K)) ?ks) = set (map sc_name ?ks)"
      unfolding set_map image_image fst_conv ..
    moreover have "set (map fst (a_services a)) \<inter> set (map sc_name ?ks) = {}" using d unfolding distinct_append by blast
    ultimately have "dom (map_of (map (\<lambda>K. (sc_name K, new_service K)) ?ks)) \<inter> dom (map_of (a_services a)) = {}"
      unfolding dom_map_of_conv_image_fst set_map by blast
    then show ?thesis unfolding new map_of_append by (rule map_add_comm)
  qed
  show ?thesis unfolding all found using reg r by blast
qed

lemma services_registered_witness:
  "\<exists>a. register_services [] sample_services \<lparr>a_config = Section [(''p2p'', Section [(''listen_port'', Entry 7)])], a_services = []\<rparr> = (Inr (), a) \<and>
     map_of (a_services a) ''peermanager'' = Some (new_service (sample_services ! 1)) \<and>
     entry_at [''p2p'', ''listen_port''] (a_config a) = Some 7"
proof -
  let ?a = "\<lparr>a_config = Section [(''p2p'', Section [(''listen_port'', Entry (7 :: nat))])], a_services = []\<rparr>"
  obtain a where a: "register_services [] sample_services ?a = (Inr (), a)"
    by (simp add: register_services_def sample_services_def register_with_app_def init_service_def register_service_def
        seq_def gets_def ret_def modify_def lift_res_def py_assert_def)
  have "registry_ok ?a" "\<forall>K \<in> set sample_services. constructor_ok K"
    by (simp_all add: registry_ok_def service_classes_def sample_services_def constructor_ok_def)
  from services_registered [OF a this] a show ?thesis
    by (auto simp: sample_services_def entry_at_Cons entry_at_Nil)
qed

end
