(* ===== verification/Enode.thy ===== *)
theory Enode
  imports Discovery_Packet Peer_Manager
begin

text \<open>
  Nodes as URIs (\<open>host_port_pubkey_to_uri\<close> and \<open>host_port_pubkey_from_uri\<close> of \<open>devp2p/utils.py\<close>,
  \<open>Node.to_uri\<close> and \<open>Node.from_uri\<close> of \<open>devp2p/discovery.py\<close>), the texts of numbers, byte strings and
  addresses they are made of, and what is done with the URIs of the bootstrap nodes.
\<close>

section \<open>Texts\<close>

text \<open>A number in base \<open>r\<close>, without leading zeros.\<close>

definition digit_text :: "nat \<Rightarrow> byte" where
  "digit_text d = (if d < 10 then of_nat (48 + d) else of_nat (87 + d))"

fun base_text :: "nat \<Rightarrow> nat \<Rightarrow> bytes" where
  "base_text r n = (if r \<le> 1 \<or> n < r then [digit_text n] else base_text r (n div r) @ [digit_text (n mod r)])"

declare base_text.simps [simp del]

abbreviation dec_text :: "nat \<Rightarrow> bytes" where "dec_text \<equiv> base_text 10"

text \<open>\<open>int\<close> of a byte string: white space around it, a sign, and digits that may have single underscores between them.\<close>

fun int_digits :: "nat \<Rightarrow> bytes \<Rightarrow> nat option" where
  "int_digits acc [] = Some acc"
| "int_digits acc (d # ds) =
     (if is_digit d then int_digits (10 * acc + (unat d - 48)) ds
      else if d = 95 \<and> ds \<noteq> [] \<and> is_digit (hd ds) then int_digits acc ds
      else None)"

definition is_space :: "byte \<Rightarrow> bool" where
  "is_space b \<longleftrightarrow> b = 32 \<or> 9 \<le> unat b \<and> unat b \<le> 13"

definition py_strip :: "bytes \<Rightarrow> bytes" where
  "py_strip b = rev (dropWhile is_space (rev (dropWhile is_space b)))"

definition py_int :: "bytes \<Rightarrow> int res" where
  "py_int b =
     (let s = py_strip b;
          digits = (if s \<noteq> [] \<and> (hd s = 43 \<or> hd s = 45) then tl s else s) in
      if digits = [] \<or> \<not> is_digit (hd digits) then Inl ValueError
      else case int_digits 0 digits of
             None \<Rightarrow> Inl ValueError
           | Some n \<Rightarrow> Inr (if hd s = 45 then - int n else int n))"

text \<open>\<open>repr\<close> of a byte string, which is also its \<open>str\<close> in Python 3.\<close>

definition repr_byte :: "byte \<Rightarrow> byte \<Rightarrow> bytes" where
  "repr_byte quote b =
     (if b = quote \<or> b = 92 then [92, b]
      else if b = 9 then [92, 116] else if b = 10 then [92, 110] else if b = 13 then [92, 114]
      else if unat b < 32 \<or> 127 \<le> unat b
      then [92, 120, digit_text (unat b div 16), digit_text (unat b mod 16)]
      else [b])"

definition bytes_repr :: "bytes \<Rightarrow> bytes" where
  "bytes_repr s =
     (let quote = (if 39 \<in> set s \<and> 34 \<notin> set s then 34 else 39) in
      [98, quote] @ concat (map (repr_byte quote) s) @ [quote])"

text \<open>\<open>str(x)\<close> of a text or a byte string; a text is its UTF-8 form.\<close>

definition py_str :: "bool \<Rightarrow> pyname \<Rightarrow> bytes" where
  "py_str three x = (case x of Str b \<Rightarrow> b | ByteStr b \<Rightarrow> if three then bytes_repr b else b)"

text \<open>\<open>str.join\<close> and \<open>bytes.split\<close>.\<close>

fun join_with :: "byte \<Rightarrow> bytes list \<Rightarrow> bytes" where
  "join_with c [] = []"
| "join_with c [p] = p"
| "join_with c (p # q # ps) = p @ [c] @ join_with c (q # ps)"

fun split_on :: "byte \<Rightarrow> bytes \<Rightarrow> bytes list" where
  "split_on c [] = [[]]"
| "split_on c (b # s) = (if b = c then [] # split_on c s else (b # hd (split_on c s)) # tl (split_on c s))"

section \<open>IP addresses as texts\<close>

text \<open>
  \<open>str\<close> of an \<open>ipaddress\<close> object: four decimal numbers, or eight hexadecimal ones of which the first
  of the longest runs of at least two zeros is left out.
\<close>

definition compress_hextets :: "bytes list \<Rightarrow> bytes list" where
  "compress_hextets gs =
     (let runs = map (\<lambda>i. length (takeWhile (\<lambda>g. g = [48]) (drop i gs))) [0..<length gs];
          best = foldr max runs 0;
          start = length (takeWhile (\<lambda>r. r \<noteq> best) runs) in
      if best > 1
      then let gs = (if start + best = length gs then gs @ [[]] else gs);
               gs = take start gs @ [[]] @ drop (start + best) gs in
           if start = 0 then [] # gs else gs
      else gs)"

definition ip_text :: "bytes \<Rightarrow> bytes" where
  "ip_text a =
     (if length a = 4 then join_with 46 (map (\<lambda>b. dec_text (unat b)) a)
      else join_with 58 (compress_hextets (map (\<lambda>i. base_text 16 (be_val (slice (2 * i) (2 * i + 2) a))) [0..<8])))"

section \<open>URIs\<close>

text \<open>The hexadecimal codec of the package \<open>rlp\<close>.\<close>

record hex_lib =
  enc_hex :: "bytes \<Rightarrow> bytes"
  dec_hex :: "bytes \<Rightarrow> bytes res"

definition node_uri_scheme :: bytes where
  "node_uri_scheme = [101, 110, 111, 100, 101, 58, 47, 47]"

definition host_port_pubkey_from_uri :: "hex_lib \<Rightarrow> bytes \<Rightarrow> (bytes \<times> bytes \<times> bytes) res" where
  "host_port_pubkey_from_uri H uri =
     bind_res (assert_res (take (length node_uri_scheme) uri = node_uri_scheme \<and> 64 \<in> set uri \<and> 58 \<in> set uri)) (\<lambda>_.
     case split_on 64 (drop (length node_uri_scheme) uri) of
       [pubkey_hex, ip_port] \<Rightarrow>
         bind_res (assert_res (length pubkey_hex = 2 * 512 div 8)) (\<lambda>_.
         case split_on 58 ip_port of
           [ip, port] \<Rightarrow> bind_res (dec_hex H pubkey_hex) (\<lambda>pubkey. Inr (ip, port, pubkey))
         | _ \<Rightarrow> Inl ValueError)
     | _ \<Rightarrow> Inl ValueError)"

definition host_port_pubkey_to_uri :: "bool \<Rightarrow> hex_lib \<Rightarrow> pyname \<Rightarrow> nat \<Rightarrow> bytes \<Rightarrow> bytes res" where
  "host_port_pubkey_to_uri three H host port pk =
     bind_res (assert_res (length pk = 512 div 8)) (\<lambda>_.
     Inr (node_uri_scheme @ enc_hex H pk @ [64] @ py_str three host @ [58] @ dec_text port))"

text \<open>
  \<open>Node.from_uri\<close> gives the node, its IP and its port; both ports of its address are the one in the URI.
  \<open>Node.to_uri\<close> passes the text of the IP on as a byte string.
\<close>

definition node_from_uri ::
  "(bytes \<Rightarrow> bytes) \<Rightarrow> wire_lib \<Rightarrow> hex_lib \<Rightarrow> nat \<Rightarrow> bytes \<Rightarrow> (node \<times> bytes \<times> int) res" where
  "node_from_uri h W H r uri =
     bind_res (host_port_pubkey_from_uri H uri) (\<lambda>(ip, port, pubkey).
     bind_res (py_int port) (\<lambda>p.
     bind_res (ip_address W ip) (\<lambda>a.
     bind_res (mk_node h (deser_int W) r pubkey) (\<lambda>n.
     Inr (n, a, p)))))"

definition node_to_uri :: "bool \<Rightarrow> hex_lib \<Rightarrow> node \<Rightarrow> address \<Rightarrow> bytes res" where
  "node_to_uri three H n a = host_port_pubkey_to_uri three H (ByteStr (ip_text (a_ip a))) (udp_port a) (pubkey n)"

section \<open>Bootstrapping\<close>

text \<open>
  \<open>PeerManager._bootstrap\<close>. Only socket errors are caught; the port stays a text, which is the number
  \<open>port_key port\<close> in the address under which errors are filed.
\<close>

definition port_key :: "bytes \<Rightarrow> nat" where "port_key port = be_val port"

definition bootstrap_peer :: "'i net_lib \<Rightarrow> hex_lib \<Rightarrow> rat \<Rightarrow> (bytes \<Rightarrow> connect_outcome) \<Rightarrow> bytes \<Rightarrow> (net, unit) prog" where
  "bootstrap_peer N H now outcome uri =
     seq (lift_res (host_port_pubkey_from_uri H uri)) (\<lambda>(ip, port, pubkey). \<lambda>s.
     case connect N now (ip, port_key port) pubkey (outcome uri) s of
       (Inl e, s') \<Rightarrow> (if e = SocketError then Inr () else Inl e, s')
     | (Inr _, s') \<Rightarrow> (Inr (), s'))"

definition bootstrap_peers :: "'i net_lib \<Rightarrow> hex_lib \<Rightarrow> rat \<Rightarrow> (bytes \<Rightarrow> connect_outcome) \<Rightarrow> bytes list \<Rightarrow> (net, unit) prog" where
  "bootstrap_peers N H now outcome bootstrap_nodes = for_each bootstrap_nodes (bootstrap_peer N H now outcome)"

text \<open>The nodes that \<open>NodeDiscovery.start\<close> hands to \<open>KademliaProtocol.bootstrap\<close>.\<close>

fun bootstrap_nodes ::
  "(bytes \<Rightarrow> bytes) \<Rightarrow> wire_lib \<Rightarrow> hex_lib \<Rightarrow> nat \<Rightarrow> bytes list \<Rightarrow> (node \<times> bytes \<times> int) list res" where
  "bootstrap_nodes h W H r [] = Inr []"
| "bootstrap_nodes h W H r (uri # uris) =
     bind_res (node_from_uri h W H r uri) (\<lambda>n.
     bind_res (bootstrap_nodes h W H (r + 1) uris) (\<lambda>ns.
     Inr (n # ns)))"

end
