(* ===== verification/Application.thy ===== *)
theory Application
  imports Config_Properties Enode
begin

text \<open>
  Networks of applications (\<open>devp2p/app_helper.py\<close>): the configuration of each application, the services it
  registers, and the URI of the first one, at which the others bootstrap.
\<close>

section \<open>Configurations of nodes\<close>

datatype conf_value = CInt int | CText bytes | CTexts "bytes list"

text \<open>The arguments of \<open>run\<close>, which it also puts into the configuration.\<close>

record run_options =
  ro_num_nodes :: nat
  ro_base_port :: nat
  ro_seed :: nat
  ro_min_peers :: nat
  ro_max_peers :: nat

text \<open>\<open>config[k1][k2]... = v\<close>.\<close>

fun set_entry :: "string list \<Rightarrow> 'a \<Rightarrow> 'a config \<Rightarrow> 'a config res" where
  "set_entry [] v c = Inl TypeError"
| "set_entry [k] v (Section d) = Inr (Section (AList.update k (Entry v) d))"
| "set_entry (k # l # ks) v (Section d) =
     (case map_of d k of
        None \<Rightarrow> Inl KeyError
      | Some c \<Rightarrow> bind_res (set_entry (l # ks) v c) (\<lambda>c'. Inr (Section (AList.update k c' d))))"
| "set_entry (k # ks) v (Entry x) = Inl TypeError"

fun set_entries :: "(string list \<times> 'a) list \<Rightarrow> 'a config \<Rightarrow> 'a config res" where
  "set_entries [] c = Inr c"
| "set_entries ((p, v) # es) c = bind_res (set_entry p v c) (set_entries es)"

text \<open>
  What \<open>PeerManager.__init__\<close> does after \<open>WiredService.__init__\<close>: the id of the node becomes the public key of
  its private key, unless the section \<open>p2p\<close> has an \<open>id\<close>; then some entries are looked up.
\<close>

fun get_at :: "string list \<Rightarrow> 'a config \<Rightarrow> 'a config res" where
  "get_at [] c = Inr c"
| "get_at (k # ks) (Section d) = (case map_of d k of None \<Rightarrow> Inl KeyError | Some c \<Rightarrow> get_at ks c)"
| "get_at (k # ks) (Entry x) = Inl TypeError"

definition node_id_of :: "crypto_lib \<Rightarrow> hex_lib \<Rightarrow> conf_value config \<Rightarrow> bytes res" where
  "node_id_of P H c =
     bind_res (get_at [''node'', ''privkey_hex''] c) (\<lambda>v.
     case v of
       Entry (CText t) \<Rightarrow> bind_res (dec_hex H t) (privtopub P)
     | _ \<Rightarrow> Inl TypeError)"

definition peermanager_setup :: "crypto_lib \<Rightarrow> hex_lib \<Rightarrow> conf_value config \<Rightarrow> conf_value config res" where
  "peermanager_setup P H c =
     bind_res (get_at [''log_disconnects''] c) (\<lambda>_.
     bind_res (get_at [''p2p''] c) (\<lambda>p2p.
     bind_res
       (case p2p of
          Entry _ \<Rightarrow> Inl TypeError
        | Section d \<Rightarrow>
            if map_of d ''id'' = None then bind_res (node_id_of P H c) (\<lambda>pk. set_entry [''node'', ''id''] (CText pk) c)
            else Inr c) (\<lambda>c'.
     bind_res (get_at [''p2p'', ''listen_host''] c') (\<lambda>_.
     bind_res (get_at [''p2p'', ''listen_port''] c') (\<lambda>_.
     Inr c')))))"

text \<open>\<open>mk_privkey('%d:udp:%d' % (seed, node_num))\<close>.\<close>

definition node_privkey :: "crypto_lib \<Rightarrow> nat \<Rightarrow> nat \<Rightarrow> bytes" where
  "node_privkey P s node_num = sha3 P (dec_text s @ [58, 117, 100, 112, 58] @ dec_text node_num)"

definition assert_config :: "nat \<Rightarrow> nat \<Rightarrow> nat \<Rightarrow> nat \<Rightarrow> unit res" where
  "assert_config node_num nodes minimum maximum =
     bind_res (assert_res (node_num < nodes)) (\<lambda>_. assert_res (minimum \<le> maximum \<and> maximum < nodes))"

definition node_entries :: "crypto_lib \<Rightarrow> hex_lib \<Rightarrow> nat \<Rightarrow> run_options \<Rightarrow> (string list \<times> conf_value) list" where
  "node_entries P H node_num ro =
     [([''node_num''], CInt (int node_num)),
      ([''node'', ''privkey_hex''], CText (enc_hex H (node_privkey P (ro_seed ro) node_num))),
      ([''discovery'', ''listen_port''], CInt (int (ro_base_port ro + node_num))),
      ([''p2p'', ''listen_port''], CInt (int (ro_base_port ro + node_num))),
      ([''p2p'', ''min_peers''], CInt (int (min 10 (ro_min_peers ro)))),
      ([''p2p'', ''max_peers''], CInt (int (ro_max_peers ro))),
      ([''client_version_string''], CText ([78, 79, 68, 69] @ dec_text node_num))]"

text \<open>\<open>create_app\<close> for a class of applications with the default configuration \<open>defaults\<close>.\<close>

definition create_app ::
  "crypto_lib \<Rightarrow> hex_lib \<Rightarrow> (string \<times> conf_value config) list \<Rightarrow> string list \<Rightarrow> conf_value service_class list \<Rightarrow>
    run_options \<Rightarrow> conf_value config \<Rightarrow> nat \<Rightarrow> conf_value app res" where
  "create_app P H defaults deactivated svs ro c node_num =
     bind_res (assert_config node_num (ro_num_nodes ro) (ro_min_peers ro) (ro_max_peers ro)) (\<lambda>_.
     bind_res (set_entries (node_entries P H node_num ro) c) (\<lambda>c.
     bind_res (mk_app defaults c) (\<lambda>a.
     case register_services deactivated svs a of (Inl e, _) \<Rightarrow> Inl e | (Inr _, a') \<Rightarrow> Inr a')))"

section \<open>Running them\<close>

fun merge_defaults :: "conf_value service_class list \<Rightarrow> conf_value config \<Rightarrow> conf_value config res" where
  "merge_defaults [] c = Inr c"
| "merge_defaults (K # ks) c = bind_res (update_config c (sc_defaults K)) (merge_defaults ks)"

definition base_entries :: "bytes \<Rightarrow> run_options \<Rightarrow> (string list \<times> conf_value) list" where
  "base_entries enode ro =
     [([''discovery'', ''bootstrap_nodes''], CTexts [enode]), ([''seed''], CInt (int (ro_seed ro))),
      ([''base_port''], CInt (int (ro_base_port ro))), ([''num_nodes''], CInt (int (ro_num_nodes ro))),
      ([''min_peers''], CInt (int (ro_min_peers ro))), ([''max_peers''], CInt (int (ro_max_peers ro)))]"

fun create_apps :: "(nat \<Rightarrow> 'b res) \<Rightarrow> nat list \<Rightarrow> 'b list res" where
  "create_apps f [] = Inr []"
| "create_apps f (i # is) = bind_res (f i) (\<lambda>a. bind_res (create_apps f is) (\<lambda>as. Inr (a # as)))"

text \<open>\<open>run\<close> up to the start of the applications. The host 0.0.0.0 is a text.\<close>

definition any_host :: bytes where "any_host = [48, 46, 48, 46, 48, 46, 48]"

definition run_apps ::
  "bool \<Rightarrow> crypto_lib \<Rightarrow> hex_lib \<Rightarrow> (string \<times> conf_value config) list \<Rightarrow> string list \<Rightarrow> conf_value service_class list \<Rightarrow>
    run_options \<Rightarrow> conf_value app list res" where
  "run_apps three P H defaults deactivated svs ro =
     bind_res (privtopub P (node_privkey P (ro_seed ro) 0)) (\<lambda>bootstrap_node_pubkey.
     bind_res (host_port_pubkey_to_uri three H (Str any_host) (ro_base_port ro) bootstrap_node_pubkey) (\<lambda>enode.
     bind_res (merge_defaults svs (Section [])) (\<lambda>c.
     bind_res (set_entries (base_entries enode ro) c) (\<lambda>base_config.
     create_apps (create_app P H defaults deactivated svs ro base_config) [0..<ro_num_nodes ro]))))"

end
