(* ===== verification/Enode_Properties.thy ===== *)
theory Enode_Properties
  imports Enode Discovery_Samples Peer_Samples
begin

text \<open>
  What the URIs of nodes keep: texts of numbers are read back, texts of IPv4 addresses have the form that
  \<open>Address\<close> looks for, and a URI gives back what it was made of, in Python 2.
\<close>

section \<open>Texts\<close>

text \<open>The hexadecimal codec: decoding inverts encoding, which gives two lower-case digits for each byte.\<close>

definition hex_ok :: "hex_lib \<Rightarrow> bool" where
  "hex_ok H \<longleftrightarrow> (\<forall>b. dec_hex H (enc_hex H b) = Inr b \<and> length (enc_hex H b) = 2 * length b \<and>
     (\<forall>x \<in> set (enc_hex H b). is_hex x))"

lemma digit_text_dec: "d < 10 \<Longrightarrow> unat (digit_text d) = 48 + d"
proof -
  assume "d < 10"
  then have "unat (of_nat (48 + d) :: byte) = 48 + d" by (simp only: unat_of_nat) simp
  then show ?thesis using \<open>d < 10\<close> by (simp add: digit_text_def)
qed

lemma digit_text_is_digit: "d < 10 \<Longrightarrow> is_digit (digit_text d)"
  by (simp add: is_digit_def digit_text_dec)

lemma dec_text_digits: "\<forall>b \<in> set (dec_text n). is_digit b"
proof (induction n rule: less_induct)
  case (less n)
  show ?case
    by (subst base_text.simps) (use less [of "n div 10"] in \<open>auto simp: digit_text_is_digit\<close>)
qed

lemma dec_text_not_empty [simp]: "base_text r n \<noteq> []"
  by (subst base_text.simps) simp

lemma hd_dec_text: "is_digit (hd (dec_text n))"
  using dec_text_digits [of n] by simp

lemma int_digits_append:
  assumes "\<forall>b \<in> set ds. is_digit b" "\<forall>b \<in> set es. is_digit b"
  shows "int_digits acc (ds @ es) = int_digits (the (int_digits acc ds)) es \<and> int_digits acc ds \<noteq> None"
  using assms by (induction ds arbitrary: acc) auto

lemma int_digits_dec_text: "int_digits 0 (dec_text n) = Some n"
proof (induction n rule: less_induct)
  case (less n)
  have "int_digits 0 (dec_text (n div 10) @ [digit_text (n mod 10)]) = Some n" if "\<not> n < 10"
  proof -
    have "int_digits 0 (dec_text (n div 10)) = Some (n div 10)" using less [of "n div 10"] that by simp
    moreover have "is_digit (digit_text (n mod 10))" by (simp add: digit_text_is_digit)
    ultimately show ?thesis
      using int_digits_append [of "dec_text (n div 10)" "[digit_text (n mod 10)]" 0] dec_text_digits
      by (simp add: digit_text_dec)
  qed
  then show ?case by (subst base_text.simps) (auto simp: digit_text_is_digit digit_text_dec)
qed

lemma is_digit_ne:
  "is_digit b \<Longrightarrow> \<not> is_space b" "is_digit b \<Longrightarrow> b \<noteq> 43" "is_digit b \<Longrightarrow> b \<noteq> 45" "is_digit b \<Longrightarrow> b \<noteq> 58"
  "is_digit b \<Longrightarrow> b \<noteq> 64" "is_digit b \<Longrightarrow> b \<noteq> 46" "is_digit b \<Longrightarrow> b \<noteq> 39" "is_digit b \<Longrightarrow> b \<noteq> 92" "is_digit b \<Longrightarrow> b \<noteq> 34"
  by (auto simp: is_digit_def is_space_def)

lemma py_strip_digits:
  assumes "\<forall>b \<in> set s. is_digit b"
  shows "py_strip s = s"
proof -
  have "dropWhile is_space x = x" if "\<forall>b \<in> set x. is_digit b" for x
    using that by (cases x) (auto simp: is_digit_ne)
  then show ?thesis using assms by (simp add: py_strip_def)
qed

lemma py_int_dec_text [simp]: "py_int (dec_text n) = Inr (int n)"
  using hd_dec_text [of n] dec_text_digits [of n]
  by (auto simp: py_int_def Let_def py_strip_digits is_digit_ne int_digits_dec_text)

lemma split_on_absent: "c \<notin> set s \<Longrightarrow> split_on c s = [s]"
  by (induction s) auto

lemma split_on_not_empty [simp]: "split_on c s \<noteq> []"
  by (induction s) auto

lemma split_on_append: "c \<notin> set s \<Longrightarrow> split_on c (s @ c # t) = s # split_on c t"
  by (induction s) auto

lemma length_split_on: "length (split_on c s) = Suc (count_list s c)"
  by (induction s) auto

section \<open>URIs\<close>

lemma hex_text:
  assumes "hex_ok H"
  shows "dec_hex H (enc_hex H b) = Inr b" "length (enc_hex H b) = 2 * length b" "64 \<notin> set (enc_hex H b)"
proof -
  show "dec_hex H (enc_hex H b) = Inr b" "length (enc_hex H b) = 2 * length b" using assms by (simp_all add: hex_ok_def)
  have "\<not> is_hex 64" by (simp add: is_hex_def is_digit_def)
  then show "64 \<notin> set (enc_hex H b)" using assms by (auto simp: hex_ok_def)
qed

text \<open>A URI is read in three parts, unless the host has one of the separators.\<close>

lemma from_uri_of_to_uri:
  assumes "hex_ok H" "length pk = 64" "host_port_pubkey_to_uri three H host port pk = Inr uri" "64 \<notin> set (py_str three host)"
  shows "host_port_pubkey_from_uri H uri =
    (if 58 \<in> set (py_str three host) then Inl ValueError else Inr (py_str three host, dec_text port, pk))"
proof -
  let ?x = "py_str three host"
  have uri: "uri = node_uri_scheme @ enc_hex H pk @ 64 # ?x @ 58 # dec_text port"
    using assms(2,3) by (simp add: host_port_pubkey_to_uri_def)
  have digits: "58 \<notin> set (dec_text port)" "64 \<notin> set (dec_text port)" using dec_text_digits is_digit_ne by blast+
  have parts: "split_on 64 (enc_hex H pk @ 64 # ?x @ 58 # dec_text port) = [enc_hex H pk, ?x @ 58 # dec_text port]"
    using hex_text(3) [OF assms(1), of pk] assms(4) digits(2) by (simp add: split_on_append split_on_absent)
  have whole: "host_port_pubkey_from_uri H uri = (case split_on 58 (?x @ 58 # dec_text port) of
      [ip, port] \<Rightarrow> Inr (ip, port, pk) | _ \<Rightarrow> Inl ValueError)"
    using hex_text(1,2) [OF assms(1), of pk] assms(2)
    by (simp add: host_port_pubkey_from_uri_def uri parts cong: list.case_cong)
  show ?thesis
  proof (cases "58 \<in> set ?x")
    case True
    then have "length (split_on 58 (?x @ 58 # dec_text port)) > 2"
      using count_list_0_iff [of ?x "58 :: byte"] by (simp add: length_split_on)
    then obtain p q r ps where "split_on 58 (?x @ 58 # dec_text port) = p # q # r # ps"
      by (auto simp: Suc_le_eq [symmetric] Suc_le_length_iff numeral_2_eq_2)
    then show ?thesis using True whole by simp
  next
    case False
    then show ?thesis using whole digits by (simp add: split_on_append split_on_absent)
  qed
qed

section \<open>IPv4 addresses\<close>

lemma byte_text:
  "length (dec_text (unat (b :: byte))) \<le> 3" "takeWhile is_digit (dec_text n @ 46 # s) = dec_text n"
proof -
  have "unat b < 256" using unsigned_less [where ?'a = nat, of b] by simp
  then have "unat b div 10 div 10 < 10" by simp
  then show "length (dec_text (unat b)) \<le> 3"
    by (subst base_text.simps, subst base_text.simps, subst base_text.simps) simp
  show "takeWhile is_digit (dec_text n @ 46 # s) = dec_text n"
    using dec_text_digits [of n] by (simp add: is_digit_def)
qed

lemma ip_text_length:
  assumes "length a = 4"
  shows "7 \<le> length (ip_text a)"
proof -
  obtain b c d e where a: "a = [b, c, d, e]" using assms by (auto simp: length_Suc_conv numeral_eq_Suc)
  have "1 \<le> length (dec_text n)" for n by (simp add: Suc_le_eq)
  from this [of "unat b"] this [of "unat c"] this [of "unat d"] this [of "unat e"]
  show ?thesis by (simp add: a ip_text_def)
qed

lemma ip_text_v4:
  assumes "length a = 4"
  shows "ip_pattern (ip_text a)" "58 \<notin> set (ip_text a)" "64 \<notin> set (ip_text a)" "\<forall>b \<in> set (ip_text a). is_digit b \<or> b = 46"
proof -
  obtain b c d e where a: "a = [b, c, d, e]" using assms by (auto simp: length_Suc_conv numeral_eq_Suc)
  have t: "ip_text a = dec_text (unat b) @ 46 # dec_text (unat c) @ 46 # dec_text (unat d) @ 46 # dec_text (unat e)"
    by (simp add: a ip_text_def)
  show digits: "\<forall>x \<in> set (ip_text a). is_digit x \<or> x = 46" unfolding t using dec_text_digits by auto
  moreover have "\<not> is_digit 58" "\<not> is_digit 64" "(58 :: byte) \<noteq> 46" "(64 :: byte) \<noteq> 46" by (simp_all add: is_digit_def)
  ultimately show "58 \<notin> set (ip_text a)" "64 \<notin> set (ip_text a)" by blast+
  have last: "takeWhile is_digit (dec_text (unat e)) \<noteq> []" using hd_dec_text [of "unat e"] by (cases "dec_text (unat e)") auto
  have group: "dotted (Suc n) (dec_text (unat x) @ 46 # s) \<longleftrightarrow> dotted n s" if "n \<noteq> 0" for n s and x :: byte
    using that byte_text(1) [of x] by (simp add: byte_text(2))
  have "dotted (Suc (Suc (Suc (Suc 0)))) (ip_text a)"
    unfolding t by (subst group, simp)+ (simp add: last)
  then show "ip_pattern (ip_text a)" by (simp add: ip_pattern_def numeral_eq_Suc)
qed

text \<open>The text of an IP, as \<open>str\<close> of a byte string has it in Python 3, is no text of an IP any more.\<close>

lemma repr_v4:
  assumes "length a = 4"
  shows "bytes_repr (ip_text a) = [98, 39] @ ip_text a @ [39]"
proof -
  have plain: "repr_byte 39 b = [b]" if "is_digit b" for b
    using that is_digit_ne [OF that] by (auto simp: repr_byte_def is_digit_def)
  have dot: "repr_byte 39 46 = [46]" by (simp add: repr_byte_def)
  have "map (repr_byte 39) (ip_text a) = map (\<lambda>b. [b]) (ip_text a)"
    by (rule map_cong [OF refl]) (use ip_text_v4(4) [OF assms] plain dot in blast)
  then have "concat (map (repr_byte 39) (ip_text a)) = concat (map (\<lambda>b. [b]) (ip_text a))" by (rule arg_cong)
  moreover have "(39 :: byte) \<noteq> 46" "\<not> is_digit 39" by (simp_all add: is_digit_def)
  then have "39 \<notin> set (ip_text a)" using ip_text_v4(4) [OF assms] by blast
  ultimately show ?thesis by (simp add: bytes_repr_def del: map_eq_conv)
qed

lemma repr_v4_no_pattern: "\<not> ip_pattern ([98, 39] @ s)"
proof -
  have "\<not> dotted (Suc n) (98 # x)" for n x by (auto simp: is_digit_def)
  from this [of 3 "39 # s"] have "\<not> dotted 4 (98 # 39 # s)" by simp
  moreover have "\<not> hex_groups 0 (98 # 39 # s)" by (simp add: is_hex_def is_digit_def)
  ultimately show ?thesis by (simp add: ip_pattern_def)
qed

section \<open>Properties\<close>

text \<open>C28. In Python 2, the URI of a node with an IPv4 address gives back the node, its IP and its UDP port.
  \<open>ipaddress\<close> is assumed to read the address that it has printed.\<close>

theorem enode_roundtrip:
  assumes "hex_ok H" "mk_node h (deser_int W) r (pubkey n) = Inr n"
    and "length (a_ip a) = 4" "parse_ip_text W (ip_text (a_ip a)) = Inr (a_ip a)"
  shows "\<exists>uri. node_to_uri False H n a = Inr uri \<and> node_from_uri h W H r uri = Inr (n, a_ip a, int (udp_port a))"
proof -
  have "length (pubkey n) = 64" using assms(2) by (auto simp: mk_node_def bind_res_eq_Inr)
  then obtain uri where uri: "node_to_uri False H n a = Inr uri" by (simp add: node_to_uri_def host_port_pubkey_to_uri_def)
  have "host_port_pubkey_from_uri H uri = Inr (ip_text (a_ip a), dec_text (udp_port a), pubkey n)"
    using from_uri_of_to_uri [OF assms(1) \<open>length (pubkey n) = 64\<close> uri [unfolded node_to_uri_def]] ip_text_v4 [OF assms(3)]
    by (simp add: py_str_def)
  then show ?thesis using uri assms(2,4) ip_text_v4(1) [OF assms(3)] by (simp add: node_from_uri_def ip_address_def)
qed

text \<open>C29. In Python 3, the URI of a node with an IPv4 address shows the address as a byte string, quotes included.
  Reading it back fails, except for an address of thirteen characters: the text with the
  quotes then has sixteen, which are taken for a packed IPv6 address.\<close>

theorem enode_broken_in_python3:
  assumes "hex_ok H" "mk_node h (deser_int W) r (pubkey n) = Inr n" "length (a_ip a) = 4"
  shows "\<exists>uri. node_to_uri True H n a = Inr uri \<and> node_from_uri h W H r uri =
    (if length (ip_text (a_ip a)) = 13 then Inr (n, bytes_repr (ip_text (a_ip a)), int (udp_port a)) else Inl ValueError)"
proof -
  let ?t = "ip_text (a_ip a)"
  have "length (pubkey n) = 64" using assms(2) by (auto simp: mk_node_def bind_res_eq_Inr)
  then obtain uri where uri: "node_to_uri True H n a = Inr uri" by (simp add: node_to_uri_def host_port_pubkey_to_uri_def)
  have "host_port_pubkey_from_uri H uri = Inr (bytes_repr ?t, dec_text (udp_port a), pubkey n)"
    using from_uri_of_to_uri [OF assms(1) \<open>length (pubkey n) = 64\<close> uri [unfolded node_to_uri_def]] ip_text_v4 [OF assms(3)]
    by (simp add: py_str_def repr_v4 [OF assms(3)])
  moreover have "ip_address W (bytes_repr ?t) = (if length ?t = 13 then Inr (bytes_repr ?t) else Inl ValueError)"
    using repr_v4_no_pattern [of "?t @ [39]"] ip_text_length [OF assms(3)] by (auto simp: ip_address_def repr_v4 [OF assms(3)])
  ultimately show ?thesis using uri assms(2) by (simp add: node_from_uri_def)
qed

section \<open>A concrete node\<close>

fun unhex :: "bytes \<Rightarrow> bytes" where
  "unhex (a # b # s) = of_nat (16 * (if is_digit a then unat a - 48 else unat a - 87) +
     (if is_digit b then unat b - 48 else unat b - 87)) # unhex s"
| "unhex s = []"

definition sample_hex :: hex_lib where
  "sample_hex = \<lparr>enc_hex = \<lambda>b. concat (map (\<lambda>x. [digit_text (unat x div 16), digit_text (unat x mod 16)]) b),
     dec_hex = \<lambda>b. Inr (unhex b)\<rparr>"

lemma digit_text_hex:
  assumes "d < 16"
  shows "(if is_digit (digit_text d) then unat (digit_text d) - 48 else unat (digit_text d) - 87) = d" "is_hex (digit_text d)"
proof -
  have "unat (of_nat (87 + d) :: byte) = 87 + d" using assms by (simp only: unat_of_nat) simp
  then have "\<not> d < 10 \<Longrightarrow> unat (digit_text d) = 87 + d" by (simp add: digit_text_def)
  moreover have "d < 10 \<Longrightarrow> unat (digit_text d) = 48 + d" by (rule digit_text_dec)
  ultimately show "(if is_digit (digit_text d) then unat (digit_text d) - 48 else unat (digit_text d) - 87) = d" "is_hex (digit_text d)"
    using assms by (cases "d < 10"; simp add: is_hex_def is_digit_def)+
qed

lemma sample_hex_ok: "hex_ok sample_hex"
proof -
  have half: "unat b div 16 < 16" for b :: byte using unsigned_less [where ?'a = nat, of b] by simp
  have byte: "16 * (unat b div 16) + unat b mod 16 = unat b" for b :: byte by simp
  have half': "unat b mod 16 < 16" for b :: byte by simp
  have "unhex (digit_text (unat x div 16) # digit_text (unat x mod 16) # s) = x # unhex s" for x s
    unfolding unhex.simps digit_text_hex(1) [OF half] digit_text_hex(1) [OF half'] byte by simp
  then have "unhex (enc_hex sample_hex b) = b" for b
    by (induction b) (simp_all add: sample_hex_def)
  moreover have "length (enc_hex sample_hex b) = 2 * length b" for b by (induction b) (simp_all add: sample_hex_def)
  ultimately show ?thesis by (auto simp: hex_ok_def sample_hex_def digit_text_hex(2) half)
qed

definition sample_uri_node :: node where
  "sample_uri_node = \<lparr>oref = 0, pubkey = replicate 64 5, node_id = 1\<rparr>"

lemma sample_uri_node: "mk_node (\<lambda>_. [1]) (deser_int sample_wire) 0 (pubkey sample_uri_node) = Inr sample_uri_node"
  by (simp add: sample_uri_node_def mk_node_def k_id_size_def big_endian_to_int_def sample_wire_def)

lemma enode_roundtrip_witness:
  "\<exists>uri. node_to_uri False sample_hex sample_uri_node \<lparr>a_ip = [127, 0, 0, 1], udp_port = 30303, tcp_port = 7\<rparr> = Inr uri \<and>
     node_from_uri (\<lambda>_. [1]) sample_wire sample_hex 0 uri = Inr (sample_uri_node, [127, 0, 0, 1], 30303)"
proof -
  have "ip_text [127, 0, 0, 1] = [49, 50, 55, 46, 48, 46, 48, 46, 49]" by code_simp
  then have "parse_ip_text sample_wire (ip_text [127, 0, 0, 1]) = Inr [127, 0, 0, 1]" by (simp add: sample_wire_def)
  then show ?thesis
    using enode_roundtrip [OF sample_hex_ok sample_uri_node, of "\<lparr>a_ip = [127, 0, 0, 1], udp_port = 30303, tcp_port = 7\<rparr>"] by simp
qed

text \<open>The address 192.168.100.1 becomes the sixteen bytes of its text in quotes.\<close>

lemma enode_broken_in_python3_witness:
  "\<exists>uri. node_to_uri True sample_hex sample_uri_node \<lparr>a_ip = [192, 168, 100, 1], udp_port = 7, tcp_port = 7\<rparr> = Inr uri \<and>
     node_from_uri (\<lambda>_. [1]) sample_wire sample_hex 0 uri =
       Inr (sample_uri_node, [98, 39, 49, 57, 50, 46, 49, 54, 56, 46, 49, 48, 48, 46, 49, 39], 7)"
proof -
  have "ip_text [192, 168, 100, 1] = [49, 57, 50, 46, 49, 54, 56, 46, 49, 48, 48, 46, 49]" by code_simp
  moreover have "bytes_repr [49, 57, 50, 46, 49, 54, 56, 46, 49, 48, 48, 46, 49] =
    [98, 39, 49, 57, 50, 46, 49, 54, 56, 46, 49, 48, 48, 46, 49, 39]" by code_simp
  ultimately show ?thesis
    using enode_broken_in_python3 [OF sample_hex_ok sample_uri_node, of "\<lparr>a_ip = [192, 168, 100, 1], udp_port = 7, tcp_port = 7\<rparr>"]
    by simp
qed

section \<open>Bootstrapping\<close>

text \<open>Connecting to the bootstrap nodes reaches only states that connections from the manager reach.\<close>

lemma bootstrap_peer_reaches:
  assumes "net_reach N s"
  shows "net_reach N (snd (bootstrap_peer N H now outcome uri s))"
proof (cases "host_port_pubkey_from_uri H uri")
  case (Inl e)
  then show ?thesis using assms by (simp add: bootstrap_peer_def seq_lift_run)
next
  case (Inr x)
  obtain ip port k where x: "x = (ip, port, k)" by (cases x)
  obtain r s' where c: "connect N now (ip, port_key port) k (outcome uri) s = (r, s')" by fastforce
  have "net_step N now (Outgoing (ip, port_key port) k (outcome uri)) s = (map_sum id (\<lambda>_. ()) r, s')"
    by (cases r) (simp_all add: net_step_def seq_def ret_def c)
  from net_reach.step [OF assms _ this] have "net_reach N s'" by simp
  then show ?thesis by (simp add: bootstrap_peer_def seq_lift_run Inr x c split: sum.split)
qed

lemma bootstrap_peers_reach: "keeps (net_reach N) (bootstrap_peers N H now outcome uris)"
  unfolding bootstrap_peers_def by (rule keeps_for_each) (simp add: keeps_def bootstrap_peer_reaches)

end
