(* ===== verification/Application_Properties.thy ===== *)
theory Application_Properties
  imports Application Enode_Properties
begin

text \<open>
  What the applications of a network are told: each has its own port, all have the URI of the first.
\<close>

section \<open>Entries that are set\<close>

lemma set_entry_at:
  assumes "set_entry p v c = Inr c'"
  shows "entry_at q c' = (if q = p then Some v else if take (length p) q = p then None else entry_at q c)"
  using assms
proof (induction p v c arbitrary: c' q rule: set_entry.induct)
  case (2 k v d)
  then show ?case
    by (cases q; cases "tl q") (auto simp: entry_at_Cons entry_at_Nil map_of_config_update)
next
  case (3 k l ks v d)
  then obtain c r where c: "map_of d k = Some c" "set_entry (l # ks) v c = Inr r" "c' = Section (AList.update k r d)"
    by (auto simp: bind_res_eq_Inr split: option.splits)
  show ?case
    by (cases q) (auto simp: c(1,3) entry_at_Cons entry_at_Nil map_of_config_update "3.IH" [OF c(1,2)])
qed simp_all

text \<open>A list of entries, none of which is below another: each is there in the end, and only they are new.\<close>

definition apart :: "string list \<Rightarrow> string list \<Rightarrow> bool" where
  "apart p q \<longleftrightarrow> take (length p) q \<noteq> p \<and> take (length q) p \<noteq> q"

lemma set_entries_at:
  assumes "set_entries es c = Inr c'" "\<forall>(p, v) \<in> set es. apart p q"
  shows "entry_at q c' = entry_at q c"
  using assms
proof (induction es arbitrary: c)
  case Nil
  then show ?case by simp
next
  case (Cons e es)
  obtain p v where e: "e = (p, v)" by (cases e)
  then obtain d where d: "set_entry p v c = Inr d" "set_entries es d = Inr c'" using Cons.prems(1) by (auto simp: bind_res_eq_Inr)
  then show ?case using Cons.IH [OF d(2)] Cons.prems(2) set_entry_at [OF d(1), of q] by (auto simp: e apart_def)
qed

lemma set_entries_set:
  assumes "set_entries (es @ (q, v) # fs) c = Inr c'" "\<forall>(p, v) \<in> set fs. apart p q"
  shows "entry_at q c' = Some v"
  using assms
proof (induction es arbitrary: c)
  case Nil
  then obtain d where d: "set_entry q v c = Inr d" "set_entries fs d = Inr c'" by (auto simp: bind_res_eq_Inr)
  then show ?case using set_entries_at [OF d(2) Nil(2)] set_entry_at [OF d(1), of q] by simp
next
  case (Cons e es)
  then show ?case by (cases e) (auto simp: bind_res_eq_Inr)
qed

lemma node_entries_at:
  assumes "set_entries (node_entries P H i ro) c = Inr c'"
  shows "entry_at [''node'', ''privkey_hex''] c' = Some (CText (enc_hex H (node_privkey P (ro_seed ro) i)))"
    "entry_at [''discovery'', ''listen_port''] c' = Some (CInt (int (ro_base_port ro + i)))"
    "entry_at [''p2p'', ''listen_port''] c' = Some (CInt (int (ro_base_port ro + i)))"
    "entry_at [''p2p'', ''max_peers''] c' = Some (CInt (int (ro_max_peers ro)))"
    "entry_at [''discovery'', ''bootstrap_nodes''] c' = entry_at [''discovery'', ''bootstrap_nodes''] c"
proof -
  let ?es = "node_entries P H i ro"
  have get: "entry_at (fst (?es ! j)) c' = Some (snd (?es ! j))" if "j < 7" for j
  proof -
    have "?es = take j ?es @ (fst (?es ! j), snd (?es ! j)) # drop (Suc j) ?es"
      using that id_take_nth_drop [of j ?es] by (simp add: node_entries_def)
    moreover have "\<forall>(p, v) \<in> set (drop (Suc j) ?es). apart p (fst (?es ! j))"
      using that by (auto simp: node_entries_def apart_def less_Suc_eq numeral_eq_Suc)
    ultimately show ?thesis using set_entries_set assms by metis
  qed
  show "entry_at [''node'', ''privkey_hex''] c' = Some (CText (enc_hex H (node_privkey P (ro_seed ro) i)))"
    "entry_at [''discovery'', ''listen_port''] c' = Some (CInt (int (ro_base_port ro + i)))"
    "entry_at [''p2p'', ''listen_port''] c' = Some (CInt (int (ro_base_port ro + i)))"
    "entry_at [''p2p'', ''max_peers''] c' = Some (CInt (int (ro_max_peers ro)))"
    using get [of 1] get [of 2] get [of 3] get [of 5] by (simp_all add: node_entries_def numeral_eq_Suc)
  show "entry_at [''discovery'', ''bootstrap_nodes''] c' = entry_at [''discovery'', ''bootstrap_nodes''] c"
    by (rule set_entries_at [OF assms]) (auto simp: node_entries_def apart_def)
qed

section \<open>Applications\<close>

text \<open>
  Defaults change nothing that is set, neither those of the application nor those of the services, and the
  constructors of services set at most the id of the node, as that of the peer manager does.
\<close>

definition defaults_ok :: "(string \<times> conf_value config) list \<Rightarrow> conf_value service_class list \<Rightarrow> bool" where
  "defaults_ok defaults svs \<longleftrightarrow> distinct_keys (Section defaults) \<and> (\<forall>K \<in> set svs. constructor_ok K)"

lemma peermanager_constructor_ok:
  assumes "distinct_keys (Section (sc_defaults K))" "sc_setup K = peermanager_setup P H"
  shows "constructor_ok K"
  unfolding constructor_ok_def
proof (intro conjI allI impI)
  fix c c' p x assume c: "sc_setup K c = Inr c'" "take 2 p \<noteq> [''node'', ''id'']" "entry_at p c = Some x"
  then have "c' = c \<or> (\<exists>pk. set_entry [''node'', ''id''] (CText pk) c = Inr c')"
  proof -
    from c(1) obtain v :: "conf_value config" and c2 where v: "(case v of Entry _ \<Rightarrow> Inl TypeError | Section d \<Rightarrow>
        if map_of d ''id'' = None then bind_res (node_id_of P H c) (\<lambda>pk. set_entry [''node'', ''id''] (CText pk) c) else Inr c) = Inr c2"
      and c2: "Inr c2 = (Inr c' :: conf_value config res)"
      unfolding assms(2) peermanager_setup_def bind_res_eq_Inr by (elim exE conjE) (rule that, assumption+)
    then show ?thesis using v c2 by (cases v) (auto simp: bind_res_eq_Inr split: if_splits)
  qed
  then show "entry_at p c' = Some x" using c(2,3) set_entry_at [of "[''node'', ''id'']" _ c c' p] by (auto simp: numeral_2_eq_2)
qed (rule assms(1))

lemma run_result: "(case r of (Inl e, _) \<Rightarrow> Inl e | (Inr _, a') \<Rightarrow> Inr a') = Inr a \<longleftrightarrow> r = (Inr (), a)"
  by (cases r; cases "fst r") auto

lemma create_app_result:
  assumes "create_app P H defaults deactivated svs ro c i = Inr a" "defaults_ok defaults svs"
  shows "i < ro_num_nodes ro \<and> ro_min_peers ro \<le> ro_max_peers ro \<and> ro_max_peers ro < ro_num_nodes ro \<and>
    (\<exists>c'. set_entries (node_entries P H i ro) c = Inr c' \<and>
      (\<forall>p x. take 2 p \<noteq> [''node'', ''id''] \<longrightarrow> entry_at p c' = Some x \<longrightarrow> entry_at p (a_config a) = Some x))"
proof -
  obtain c' b where b: "set_entries (node_entries P H i ro) c = Inr c'" "mk_app defaults c' = Inr b"
    "register_services deactivated svs b = (Inr (), a)"
    "i < ro_num_nodes ro" "ro_min_peers ro \<le> ro_max_peers ro" "ro_max_peers ro < ro_num_nodes ro"
    using assms(1) by (auto simp: create_app_def assert_config_def bind_res_eq_Inr run_result)
  obtain r where r: "update_config c' defaults = Inr r" "b = \<lparr>a_config = r, a_services = []\<rparr>"
    using b(2) by (auto simp: mk_app_def bind_res_eq_Inr)
  have "\<forall>K \<in> set svs. constructor_ok K" using assms(2) by (simp add: defaults_ok_def)
  from register_services_result [OF b(3) this]
  have "\<forall>p x. take 2 p \<noteq> [''node'', ''id''] \<longrightarrow> entry_at p r = Some x \<longrightarrow> entry_at p (a_config a) = Some x"
    by (simp add: r(2))
  moreover have "entry_at p r = Some x" if "entry_at p c' = Some x" for p x
    using update_config_keeps [OF r(1) _ that] assms(2) by (simp add: defaults_ok_def)
  ultimately show ?thesis using b by blast
qed

lemma create_apps_nth:
  "create_apps f is = Inr as \<Longrightarrow> length as = length is \<and> (\<forall>j < length is. f (is ! j) = Inr (as ! j))"
  by (induction "is" arbitrary: as) (auto simp: bind_res_eq_Inr less_Suc_eq_0_disj)

section \<open>Properties\<close>

text \<open>C13. When a network of applications is made, the \<open>i\<close>-th listens for packets and for connections on the
  base port plus \<open>i\<close>; all have the same bootstrap node, whose URI names the port, and the public key
  belonging to the private key, of the first one; and the limits on peers allow a network.\<close>

theorem network_bootstraps:
  assumes "hex_ok H" "defaults_ok defaults svs" "run_apps three P H defaults deactivated svs ro = Inr apps" "i < length apps"
  shows "\<exists>enode key pk.
    entry_at [''discovery'', ''bootstrap_nodes''] (a_config (apps ! i)) = Some (CTexts [enode]) \<and>
    host_port_pubkey_from_uri H enode = Inr (any_host, dec_text (ro_base_port ro), pk) \<and> privtopub P key = Inr pk \<and>
    entry_at [''node'', ''privkey_hex''] (a_config (apps ! 0)) = Some (CText (enc_hex H key)) \<and>
    entry_at [''discovery'', ''listen_port''] (a_config (apps ! i)) = Some (CInt (int (ro_base_port ro + i))) \<and>
    entry_at [''p2p'', ''listen_port''] (a_config (apps ! i)) = Some (CInt (int (ro_base_port ro + i))) \<and>
    length apps = ro_num_nodes ro \<and> ro_min_peers ro \<le> ro_max_peers ro \<and> ro_max_peers ro < ro_num_nodes ro"
proof -
  let ?key = "node_privkey P (ro_seed ro) 0"
  obtain pk enode c0 c where run: "privtopub P ?key = Inr pk"
    "host_port_pubkey_to_uri three H (Str any_host) (ro_base_port ro) pk = Inr enode"
    "set_entries (base_entries enode ro) c0 = Inr c"
    "create_apps (create_app P H defaults deactivated svs ro c) [0..<ro_num_nodes ro] = Inr apps"
    using assms(3) by (auto simp: run_apps_def bind_res_eq_Inr)
  have pk: "length pk = 64" using run(2) by (auto simp: host_port_pubkey_to_uri_def bind_res_eq_Inr)
  have uri: "host_port_pubkey_from_uri H enode = Inr (any_host, dec_text (ro_base_port ro), pk)"
    using from_uri_of_to_uri [OF assms(1) pk run(2)] by (simp add: py_str_def any_host_def)
  have base: "entry_at [''discovery'', ''bootstrap_nodes''] c = Some (CTexts [enode])"
    by (rule set_entries_set [where es = "[]" and c = c0]) (use run(3) in \<open>auto simp: base_entries_def apart_def\<close>)
  note apps = create_apps_nth [OF run(4)]
  have app: "create_app P H defaults deactivated svs ro c j = Inr (apps ! j)" if "j < length apps" for j
    using apps that by simp
  obtain ci where ci: "set_entries (node_entries P H i ro) c = Inr ci"
    "\<forall>p x. take 2 p \<noteq> [''node'', ''id''] \<longrightarrow> entry_at p ci = Some x \<longrightarrow> entry_at p (a_config (apps ! i)) = Some x"
    and limits: "ro_min_peers ro \<le> ro_max_peers ro" "ro_max_peers ro < ro_num_nodes ro"
    using create_app_result [OF app [OF assms(4)] assms(2)] by blast
  obtain cz where cz: "set_entries (node_entries P H 0 ro) c = Inr cz"
    "\<forall>p x. take 2 p \<noteq> [''node'', ''id''] \<longrightarrow> entry_at p cz = Some x \<longrightarrow> entry_at p (a_config (apps ! 0)) = Some x"
    using create_app_result [OF app assms(2), of 0] assms(4) by fastforce
  show ?thesis
    using node_entries_at [OF ci(1)] node_entries_at(1) [OF cz(1)] ci(2) cz(2) base uri run(1) limits apps
    by (intro exI [of _ enode] exI [of _ ?key] exI [of _ pk]) simp
qed

section \<open>A concrete network\<close>

definition sample_node_services :: "conf_value service_class list" where
  "sample_node_services =
     [\<lparr>sc_class = 0, sc_name = ''discovery'',
       sc_defaults = [(''discovery'', Section [(''listen_port'', Entry (CInt 30303))]), (''node'', Section [(''privkey_hex'', Entry (CText []))])],
       sc_required = [], sc_setup = Inr\<rparr>,
      \<lparr>sc_class = 1, sc_name = ''peermanager'',
       sc_defaults = [(''log_disconnects'', Entry (CInt 0)),
         (''p2p'', Section [(''min_peers'', Entry (CInt 5)), (''listen_port'', Entry (CInt 30303)), (''listen_host'', Entry (CText any_host))])],
       sc_required = [0], sc_setup = peermanager_setup sample_crypto sample_hex\<rparr>]"

definition sample_options :: run_options where
  "sample_options = \<lparr>ro_num_nodes = 2, ro_base_port = 29870, ro_seed = 0, ro_min_peers = 1, ro_max_peers = 1\<rparr>"

lemma sample_node_services_ok: "\<forall>K \<in> set sample_node_services. constructor_ok K"
proof -
  have "constructor_ok (sample_node_services ! 1)"
    by (rule peermanager_constructor_ok) (simp_all add: sample_node_services_def)
  moreover have "constructor_ok (sample_node_services ! 0)" by (simp add: sample_node_services_def constructor_ok_def)
  ultimately show ?thesis by (simp add: sample_node_services_def)
qed

lemma sample_hex_inverse: "dec_hex sample_hex (enc_hex sample_hex b) = Inr b"
  using sample_hex_ok by (simp add: hex_ok_def)

lemma sample_node_pubkey: "privtopub sample_crypto (node_privkey sample_crypto n i) = Inr (node_privkey sample_crypto n i @ node_privkey sample_crypto n i)"
proof -
  have "length (node_privkey sample_crypto n i) = 32" using hashes_lengths(6) [OF sample_hashes_ok] by (simp add: node_privkey_def)
  then show ?thesis by (simp add: privtopub_def) (simp add: sample_crypto_def)
qed

lemma sample_apps:
  "\<exists>c d. merge_defaults sample_node_services (Section []) = Inr c \<and> set_entries (base_entries enode sample_options) c = Inr d \<and>
     (\<forall>i < 2. \<exists>a. create_app sample_crypto sample_hex [(''client_version_string'', Entry (CText []))] [] sample_node_services sample_options d i = Inr a)"
  by (simp add: sample_node_services_def base_entries_def node_entries_def create_app_def assert_config_def sample_options_def
      mk_app_def register_services_def register_with_app_def init_service_def register_service_def prog_defs peermanager_setup_def
      node_id_of_def sample_hex_inverse sample_node_pubkey)

lemma create_apps_all: "\<forall>i \<in> set is. \<exists>a. f i = Inr a \<Longrightarrow> \<exists>as. create_apps f is = Inr as"
  by (induction "is") fastforce+

text \<open>Two applications: the first is at port 29870, and the second knows it.\<close>

lemma network_bootstraps_witness:
  "\<exists>apps enode pk. run_apps True sample_crypto sample_hex [(''client_version_string'', Entry (CText []))] [] sample_node_services sample_options = Inr apps \<and>
     length apps = 2 \<and> entry_at [''p2p'', ''listen_port''] (a_config (apps ! 1)) = Some (CInt 29871) \<and>
     entry_at [''discovery'', ''bootstrap_nodes''] (a_config (apps ! 1)) = Some (CTexts [enode]) \<and>
     host_port_pubkey_from_uri sample_hex enode = Inr (any_host, [50, 57, 56, 55, 48], pk)"
proof -
  let ?defaults = "[(''client_version_string'', Entry (CText []))]"
  let ?key = "node_privkey sample_crypto 0 0"
  have len: "length ?key = 32" using hashes_lengths(6) [OF sample_hashes_ok] by (simp add: node_privkey_def)
  then obtain enode where e: "host_port_pubkey_to_uri True sample_hex (Str any_host) 29870 (?key @ ?key) = Inr enode"
    by (simp add: host_port_pubkey_to_uri_def)
  obtain c d where c: "merge_defaults sample_node_services (Section []) = Inr c" "set_entries (base_entries enode sample_options) c = Inr d"
    "\<forall>i < 2. \<exists>a. create_app sample_crypto sample_hex ?defaults [] sample_node_services sample_options d i = Inr a"
    using sample_apps by blast
  obtain apps where apps: "create_apps (create_app sample_crypto sample_hex ?defaults [] sample_node_services sample_options d) [0..<2] = Inr apps"
    using create_apps_all [of "[0..<2]"] c(3) by fastforce
  have n: "length apps = 2" using create_apps_nth [OF apps] by simp
  have r: "run_apps True sample_crypto sample_hex ?defaults [] sample_node_services sample_options = Inr apps"
    using apps e c(1,2) len by (simp add: run_apps_def privtopub_def sample_options_def) (simp add: sample_crypto_def)
  have ok: "defaults_ok ?defaults sample_node_services" using sample_node_services_ok by (simp add: defaults_ok_def)
  have one: "1 < length apps" using n by simp
  from network_bootstraps [OF sample_hex_ok ok r one] obtain u pk where
    x: "entry_at [''discovery'', ''bootstrap_nodes''] (a_config (apps ! 1)) = Some (CTexts [u])"
      "host_port_pubkey_from_uri sample_hex u = Inr (any_host, dec_text (ro_base_port sample_options), pk)"
      "entry_at [''p2p'', ''listen_port''] (a_config (apps ! 1)) = Some (CInt (int (ro_base_port sample_options + 1)))"
    by (elim exE conjE) (rule that, assumption+)
  have "dec_text 29870 = [50, 57, 56, 55, 48]" by (simp add: base_text.simps digit_text_def)
  then have "host_port_pubkey_from_uri sample_hex u = Inr (any_host, [50, 57, 56, 55, 48], pk)"
    "entry_at [''p2p'', ''listen_port''] (a_config (apps ! 1)) = Some (CInt 29871)"
    using x(2,3) by (simp_all add: sample_options_def)
  with r n x(1) show ?thesis by (intro exI conjI)
qed

end
