(* ===== verification/Portmap.thy ===== *)
theory Portmap
  imports Prelude
begin

text \<open>
  Port mappings of a router (\<open>devp2p/upnp.py\<close>): finding the router, the search for a free port, adding the
  mapping when the node discovery or the peer manager starts, and removing it when they stop.
\<close>

section \<open>The router\<close>

text \<open>
  The package \<open>miniupnpc\<close>, of which every call may raise: \<open>up_discover\<close> looks for routers, \<open>up_select\<close> chooses one and
  asks it for the addresses that are logged, \<open>up_mapped port proto\<close> is whether there is a mapping for a
  port, \<open>up_add eport proto port\<close> and \<open>up_delete port proto\<close> say whether they succeeded. The state
  is that of the router and whether \<open>_upnp\<close> is set.
\<close>

record 'r upnp_lib =
  up_discover :: "('r, unit) prog"
  up_select :: "('r, unit) prog"
  up_mapped :: "nat \<Rightarrow> string \<Rightarrow> ('r, bool) prog"
  up_add :: "nat \<Rightarrow> string \<Rightarrow> nat \<Rightarrow> ('r, bool) prog"
  up_delete :: "nat \<Rightarrow> string \<Rightarrow> ('r, bool) prog"

record 'r upnp =
  u_known :: bool
  u_router :: 'r

definition on_router :: "('r, 'a) prog \<Rightarrow> ('r upnp, 'a) prog" where
  "on_router m = (\<lambda>s. case m (u_router s) of (x, r) \<Rightarrow> (x, s\<lparr>u_router := r\<rparr>))"

text \<open>\<open>try: m except Exception: \<dots>\<close>, where the handler only logs and \<open>x\<close> is returned.\<close>

definition except_log :: "'a \<Rightarrow> ('s, 'a) prog \<Rightarrow> ('s, 'a) prog" where
  "except_log x m = (\<lambda>s. case m s of (Inl e, s') \<Rightarrow> (Inr x, s') | (Inr y, s') \<Rightarrow> (Inr y, s'))"

text \<open>\<open>_init_upnp\<close> returns \<open>_upnp\<close>, which is set when a search has not raised.\<close>

definition init_upnp :: "'r upnp_lib \<Rightarrow> ('r upnp, bool) prog" where
  "init_upnp U =
     seq (gets u_known) (\<lambda>known.
     if known then ret True
     else except_log False
       (seq (on_router (up_discover U)) (\<lambda>_.
        seq (modify (\<lambda>s. s\<lparr>u_known := True\<rparr>)) (\<lambda>_. ret True))))"

section \<open>Adding a mapping\<close>

text \<open>The loop over \<open>eport\<close>: from the port on until one is free or 65536 is reached.\<close>

function find_port :: "'r upnp_lib \<Rightarrow> string \<Rightarrow> nat \<Rightarrow> 'r \<Rightarrow> nat res \<times> 'r" where
  "find_port U proto eport r =
     (case up_mapped U eport proto r of
        (Inl e, r') \<Rightarrow> (Inl e, r')
      | (Inr used, r') \<Rightarrow> if used \<and> eport < 65536 then find_port U proto (eport + 1) r' else (Inr eport, r'))"
  by pat_completeness auto

termination by (relation "measure (\<lambda>(U, proto, eport, r). 65536 - eport)") auto

declare find_port.simps [simp del]

definition add_portmap :: "'r upnp_lib \<Rightarrow> nat \<Rightarrow> string \<Rightarrow> ('r upnp, bool) prog" where
  "add_portmap U port proto =
     seq (init_upnp U) (\<lambda>u.
     except_log False
       (if \<not> u then throw AttributeError
        else
          seq (on_router (up_select U)) (\<lambda>_.
          seq (on_router (find_port U proto port)) (\<lambda>eport.
          on_router (up_add U eport proto port)))))"

section \<open>Removing it\<close>

definition remove_portmap :: "'r upnp_lib \<Rightarrow> bool \<Rightarrow> nat \<Rightarrow> string \<Rightarrow> ('r upnp, unit) prog" where
  "remove_portmap U u port proto =
     (if \<not> u then ret ()
      else except_log () (seq (on_router (up_delete U port proto)) (\<lambda>_. ret ())))"

text \<open>What starting and stopping \<open>NodeDiscovery\<close> (\<open>UDP\<close>) and \<open>PeerManager\<close> (\<open>TCP\<close>) do to the router.\<close>

definition map_and_unmap :: "'r upnp_lib \<Rightarrow> nat \<Rightarrow> string \<Rightarrow> ('r upnp, unit) prog" where
  "map_and_unmap U listen_port proto =
     seq (add_portmap U listen_port proto) (\<lambda>nat_upnp. remove_portmap U nat_upnp listen_port proto)"

end
