(* ===== verification/Portmap_Properties.thy ===== *)
theory Portmap_Properties
  imports Portmap
begin

text \<open>
  Which port is mapped, and what is left of the mapping when the node stops. \<open>view\<close> is the table of a
  router: which ports of which protocol are mapped.
\<close>

section \<open>Routers that keep their table\<close>

text \<open>Asking changes nothing; adding and deleting change the entry they name when they report success.\<close>

definition upnp_ok :: "('r \<Rightarrow> nat \<Rightarrow> string \<Rightarrow> bool) \<Rightarrow> 'r upnp_lib \<Rightarrow> bool" where
  "upnp_ok view U \<longleftrightarrow>
     (\<forall>x r r'. up_discover U r = (x, r') \<longrightarrow> view r' = view r) \<and>
     (\<forall>x r r'. up_select U r = (x, r') \<longrightarrow> view r' = view r) \<and>
     (\<forall>p q x r r'. up_mapped U p q r = (x, r') \<longrightarrow> view r' = view r \<and> (\<forall>b. x = Inr b \<longrightarrow> b = view r p q)) \<and>
     (\<forall>p q l r r'. up_add U p q l r = (Inr True, r') \<longrightarrow> view r' = (view r)(p := (view r p)(q := True))) \<and>
     (\<forall>p q r r' x. up_delete U p q r = (x, r') \<longrightarrow> (\<forall>p'. p' \<noteq> p \<longrightarrow> view r' p' = view r p'))"

lemma on_router_eq: "on_router m s = (x, s') \<longleftrightarrow> (\<exists>r. m (u_router s) = (x, r) \<and> s' = s\<lparr>u_router := r\<rparr>)"
  by (auto simp: on_router_def split: prod.split)

lemma find_port_result:
  assumes "upnp_ok view U" "find_port U proto eport r = (Inr p, r')"
  shows "view r' = view r \<and> eport \<le> p \<and> (\<forall>q. eport \<le> q \<longrightarrow> q < p \<longrightarrow> view r q proto) \<and>
    (view r p proto \<longrightarrow> 65536 \<le> p) \<and> p \<le> max eport 65536"
  using assms
proof (induction U proto eport r rule: find_port.induct)
  case (1 U proto eport r)
  obtain x r1 where m: "up_mapped U eport proto r = (x, r1)" by fastforce
  obtain used where x: "x = Inr used"
    using "1.prems"(2) m by (cases x) (simp_all add: find_port.simps [of U proto eport r])
  have used: "view r1 = view r" "used = view r eport proto" using "1.prems"(1) m x unfolding upnp_ok_def by blast+
  show ?case
  proof (cases "used \<and> eport < 65536")
    case True
    then have "find_port U proto (eport + 1) r1 = (Inr p, r')"
      using "1.prems"(2) m x by (simp add: find_port.simps [of U proto eport r])
    with "1.IH" [OF m [symmetric] x True "1.prems"(1)] have ih:
      "view r' = view r1" "eport + 1 \<le> p" "\<forall>q. eport + 1 \<le> q \<longrightarrow> q < p \<longrightarrow> view r1 q proto" "view r1 p proto \<longrightarrow> 65536 \<le> p"
      "p \<le> max (eport + 1) 65536" by blast+
    have "view r q proto" if "eport \<le> q" "q < p" for q
      using that ih(3) used True by (cases "q = eport") auto
    then show ?thesis using ih used True by auto
  next
    case False
    then show ?thesis using "1.prems"(2) m x used by (auto simp: find_port.simps [of U proto eport r])
  qed
qed

text \<open>A mapping that was added is at the first port from the wanted one on that was free, or at 65536.\<close>

lemma add_portmap_result:
  assumes "upnp_ok view U" "add_portmap U port proto s = (Inr True, s1)"
  obtains e where "port \<le> e" "e \<le> max port 65536" "\<forall>q. port \<le> q \<longrightarrow> q < e \<longrightarrow> view (u_router s) q proto"
    "view (u_router s) e proto \<Longrightarrow> 65536 \<le> e"
    "view (u_router s1) = (view (u_router s))(e := (view (u_router s) e)(proto := True))"
proof -
  obtain s0 where i: "init_upnp U s = (Inr True, s0)"
    using assms(2) by (auto simp: add_portmap_def except_log_def throw_def seq_def split: prod.splits sum.splits if_splits)
  have v0: "view (u_router s0) = view (u_router s)"
    using i assms(1) by (auto simp: init_upnp_def except_log_def seq_def gets_def ret_def modify_def on_router_def upnp_ok_def
        split: prod.splits sum.splits if_splits)
  obtain t1 e t2 where sel: "up_select U (u_router s0) = (Inr (), t1)" and f: "find_port U proto port t1 = (Inr e, t2)"
    and add: "up_add U e proto port t2 = (Inr True, u_router s1)"
    using assms(2) i by (auto simp: add_portmap_def except_log_def seq_def on_router_def split: prod.splits sum.splits)
  have "view t1 = view (u_router s)" using sel v0 assms(1) unfolding upnp_ok_def by metis
  moreover note find_port_result [OF assms(1) f]
  moreover have "view (u_router s1) = (view t2)(e := (view t2 e)(proto := True))"
    using add assms(1) unfolding upnp_ok_def by blast
  ultimately show thesis using that [of e] by metis
qed

section \<open>Properties\<close>

text \<open>C30. When the port is mapped already, the mapping for the node is made at a later port, which is free or
  is 65536, and it stays when the node stops: the mapping that is deleted then is the one for
  the port, which belongs to somebody else.\<close>

theorem port_mapping_leaks:
  assumes "upnp_ok view U" "view (u_router s) port proto" "port < 65536"
    and "add_portmap U port proto s = (Inr True, s1)" "remove_portmap U True port proto s1 = (Inr (), s2)"
  shows "\<exists>e. port < e \<and> e \<le> 65536 \<and> (\<forall>q. port \<le> q \<longrightarrow> q < e \<longrightarrow> view (u_router s) q proto) \<and>
    (view (u_router s) e proto \<longrightarrow> e = 65536) \<and> view (u_router s2) e proto"
proof -
  obtain e where e: "port \<le> e" "e \<le> max port 65536" "\<forall>q. port \<le> q \<longrightarrow> q < e \<longrightarrow> view (u_router s) q proto"
    "view (u_router s) e proto \<Longrightarrow> 65536 \<le> e" "view (u_router s1) e proto"
    using add_portmap_result [OF assms(1,4)] by (metis fun_upd_same)
  then have later: "port < e" using assms(2,3) by (cases "e = port") auto
  obtain x r where d: "up_delete U port proto (u_router s1) = (x, r)" by fastforce
  then have "u_router s2 = r"
    using assms(5) by (auto simp: remove_portmap_def except_log_def seq_def on_router_def ret_def split: sum.splits)
  moreover have "view r e = view (u_router s1) e" using d assms(1) later unfolding upnp_ok_def by (metis less_irrefl)
  ultimately show ?thesis using e later assms(3) by (intro exI [of _ e]) auto
qed

section \<open>A concrete router\<close>

definition sample_upnp :: "(nat \<times> string) set upnp_lib" where
  "sample_upnp = \<lparr>up_discover = ret (), up_select = ret (), up_mapped = \<lambda>p q. gets (\<lambda>r. (p, q) \<in> r),
     up_add = \<lambda>p q l r. (Inr True, insert (p, q) r), up_delete = \<lambda>p q r. (Inr True, r - {(p, q)})\<rparr>"

lemma sample_upnp_ok: "upnp_ok (\<lambda>r p q. (p, q) \<in> r) sample_upnp"
  by (auto simp: upnp_ok_def sample_upnp_def ret_def gets_def fun_eq_iff)

lemma port_mapping_leaks_witness:
  "\<exists>s1 s2. add_portmap sample_upnp 30303 ''UDP'' \<lparr>u_known = False, u_router = {(30303, ''UDP'')}\<rparr> = (Inr True, s1) \<and>
     remove_portmap sample_upnp True 30303 ''UDP'' s1 = (Inr (), s2) \<and> (\<exists>e. 30303 < e \<and> (e, ''UDP'') \<in> u_router s2)"
proof -
  let ?s = "\<lparr>u_known = False, u_router = {(30303, ''UDP'')}\<rparr>"
  let ?s1 = "\<lparr>u_known = True, u_router = {(30304, ''UDP''), (30303, ''UDP'')}\<rparr>"
  have a: "add_portmap sample_upnp 30303 ''UDP'' ?s = (Inr True, ?s1)"
    by (simp add: add_portmap_def init_upnp_def sample_upnp_def except_log_def seq_def gets_def ret_def modify_def on_router_def
        find_port.simps [of _ _ 30303] find_port.simps [of _ _ 30304])
  have r: "remove_portmap sample_upnp True 30303 ''UDP'' ?s1 = (Inr (), \<lparr>u_known = True, u_router = {(30304, ''UDP'')}\<rparr>)"
    by (auto simp: remove_portmap_def sample_upnp_def except_log_def seq_def ret_def on_router_def)
  have "\<exists>e > 30303 :: nat. (e, ''UDP'') \<in> u_router \<lparr>u_known = True, u_router = {(30304, ''UDP'')}\<rparr>"
    using port_mapping_leaks [OF sample_upnp_ok _ _ a r] by auto
  with a r show ?thesis by blast
qed

end
