(* ===== verification/Duplicates.thy ===== *)
theory Duplicates
  imports Prelude
begin

text \<open>
  \<open>DuplicatesFilter\<close> of the example application (\<open>devp2p/examples/full_app.py\<close>): a bounded list of the items
  seen, what it guarantees, and which item it forgets.
\<close>

section \<open>The filter\<close>

record 'a dup_filter =
  max_items :: nat
  seen :: "'a list"

definition mk_filter :: "nat \<Rightarrow> 'a dup_filter" where
  "mk_filter m = \<lparr>max_items = m, seen = []\<rparr>"

text \<open>\<open>update\<close> returns whether the item is unknown. \<open>pop(0)\<close> takes the first item off.\<close>

definition filter_update :: "'a \<Rightarrow> ('a dup_filter, bool) prog" where
  "filter_update data =
     seq (gets (\<lambda>f. data \<notin> set (seen f))) (\<lambda>unknown.
     if unknown then
       seq (modify (\<lambda>f. f\<lparr>seen := seen f @ [data]\<rparr>)) (\<lambda>_.
       seq (modify (\<lambda>f. if length (seen f) > max_items f then f\<lparr>seen := tl (seen f)\<rparr> else f)) (\<lambda>_.
       ret True))
     else
       seq (modify (\<lambda>f. f\<lparr>seen := tl (seen f) @ [hd (seen f)]\<rparr>)) (\<lambda>_.
       ret False))"

definition filter_contains :: "'a \<Rightarrow> 'a dup_filter \<Rightarrow> bool" where
  "filter_contains v f \<longleftrightarrow> v \<in> set (seen f)"

text \<open>A sequence of updates with what each returned.\<close>

fun filter_updates :: "'a list \<Rightarrow> ('a dup_filter, bool list) prog" where
  "filter_updates [] = ret []"
| "filter_updates (x # xs) = seq (filter_update x) (\<lambda>b. seq (filter_updates xs) (\<lambda>bs. ret (b # bs)))"

section \<open>What it keeps\<close>

lemma filter_update_run:
  "filter_update x f =
     (if x \<in> set (seen f) then (Inr False, f\<lparr>seen := rotate1 (seen f)\<rparr>)
      else (Inr True, f\<lparr>seen := (if length (seen f) \<ge> max_items f then tl (seen f @ [x]) else seen f @ [x])\<rparr>))"
  by (cases "seen f") (auto simp: filter_update_def seq_def gets_def modify_def ret_def)

lemma seq_ret_right: "seq m ret = m"
  by (rule ext) (simp add: seq_def ret_def split: prod.split sum.split)

lemma filter_updates_append:
  "filter_updates (xs @ ys) = seq (filter_updates xs) (\<lambda>bs. seq (filter_updates ys) (\<lambda>cs. ret (bs @ cs)))"
  by (induction xs) (simp_all add: seq_assoc seq_ret_right)

definition filter_ok :: "nat \<Rightarrow> 'a list \<Rightarrow> 'a dup_filter \<Rightarrow> bool" where
  "filter_ok m xs f \<longleftrightarrow> max_items f = m \<and> distinct (seen f) \<and> length (seen f) \<le> m \<and> set (seen f) \<subseteq> set xs \<and>
     (0 < m \<longrightarrow> xs \<noteq> [] \<longrightarrow> last xs \<in> set (seen f))"

lemma filter_update_ok:
  assumes "filter_ok m xs f"
  shows "\<exists>f'. filter_update x f = (Inr (x \<notin> set (seen f)), f') \<and> filter_ok m (xs @ [x]) f'"
proof (cases "seen f")
  case Nil
  then show ?thesis using assms by (auto simp: filter_update_run filter_ok_def)
next
  case (Cons y ys)
  then show ?thesis using assms by (auto simp: filter_update_run filter_ok_def)
qed

lemma filter_updates_ok:
  "\<exists>rs f. filter_updates xs (mk_filter m) = (Inr rs, f) \<and> filter_ok m xs f \<and> length rs = length xs \<and>
     (\<forall>i < length xs. \<not> rs ! i \<longrightarrow> xs ! i \<in> set (take i xs)) \<and> (\<forall>i < length xs. xs ! i \<notin> set (take i xs) \<longrightarrow> rs ! i)"
proof (induction xs rule: rev_induct)
  case Nil
  then show ?case by (simp add: ret_def filter_ok_def mk_filter_def)
next
  case (snoc x xs)
  then obtain rs f where f: "filter_updates xs (mk_filter m) = (Inr rs, f)" "filter_ok m xs f" "length rs = length xs"
    "\<forall>i < length xs. \<not> rs ! i \<longrightarrow> xs ! i \<in> set (take i xs)" by blast
  obtain f' where f': "filter_update x f = (Inr (x \<notin> set (seen f)), f')" "filter_ok m (xs @ [x]) f'"
    using filter_update_ok [OF f(2)] by blast
  have "filter_updates (xs @ [x]) (mk_filter m) = (Inr (rs @ [x \<notin> set (seen f)]), f')"
    by (simp add: filter_updates_append seq_def f(1) f'(1) ret_def)
  moreover have "x \<in> set (seen f) \<Longrightarrow> x \<in> set xs" using f(2) by (auto simp: filter_ok_def)
  ultimately show ?case using f f'(2)
    by (intro exI [of _ "rs @ [x \<notin> set (seen f)]"] exI [of _ f']) (auto simp: nth_append less_Suc_eq)
qed

section \<open>Properties\<close>

text \<open>The filter holds at most \<open>max_items\<close> items, each once, the last one always, never takes a new item for
  a known one, and every item is reported as unknown the first time.\<close>

theorem duplicates_filter:
  "\<exists>rs f. filter_updates xs (mk_filter m) = (Inr rs, f) \<and> filter_ok m xs f \<and> length rs = length xs \<and>
     (\<forall>i < length xs. (\<not> rs ! i \<longrightarrow> xs ! i \<in> set (take i xs)) \<and> (xs ! i \<notin> set (take i xs) \<longrightarrow> rs ! i))"
  using filter_updates_ok [of xs m] by blast

lemma duplicates_filter_witness:
  "\<exists>rs f. filter_updates [1, 2, 1, 3 :: nat] (mk_filter 2) = (Inr rs, f) \<and> length (seen f) \<le> 2 \<and> 3 \<in> set (seen f)"
proof -
  obtain rs f where "filter_updates [1, 2, 1, 3 :: nat] (mk_filter 2) = (Inr rs, f)" "filter_ok 2 [1, 2, 1, 3] f"
    using duplicates_filter [of "[1, 2, 1, 3 :: nat]" 2] by blast
  then show ?thesis by (auto simp: filter_ok_def)
qed

lemma repeated_update:
  assumes "x \<in> set (seen f)"
  shows "filter_updates (replicate n x) f = (Inr (replicate n False), f\<lparr>seen := (rotate1 ^^ n) (seen f)\<rparr>)"
  using assms
proof (induction n arbitrary: f)
  case 0
  then show ?case by (simp add: ret_def)
next
  case (Suc n)
  then show ?case by (simp add: seq_def filter_update_run ret_def funpow_swap1)
qed

text \<open>The filter forgets the wrong item: seeing an item again moves the oldest one to the end, not that
  item. When the filter is full and its newest item is seen again as often as there are others, the
  next new item displaces just that item, which then counts as unknown.\<close>

theorem filter_forgets_latest:
  assumes "seen f = xs @ [x]" "length (seen f) = max_items f" "distinct (seen f)" "y \<notin> set (seen f)" "xs \<noteq> []"
  shows "filter_updates (replicate (length xs) x @ [y, x]) f =
    (Inr (replicate (length xs) False @ [True, True]), f\<lparr>seen := tl xs @ [y, x]\<rparr>)"
proof -
  have "(rotate1 ^^ length xs) (xs @ [x]) = x # xs"
    using rotate_append [of xs "[x]"] by (simp add: rotate_def)
  then have "filter_updates (replicate (length xs) x) f = (Inr (replicate (length xs) False), f\<lparr>seen := x # xs\<rparr>)"
    using repeated_update [of x f "length xs"] assms(1) by simp
  moreover have "filter_updates [y, x] (f\<lparr>seen := x # xs\<rparr>) = (Inr [True, True], f\<lparr>seen := tl xs @ [y, x]\<rparr>)"
    using assms by (cases xs) (auto simp: seq_def filter_update_run ret_def)
  ultimately show ?thesis by (simp add: filter_updates_append seq_def ret_def)
qed

lemma filter_forgets_latest_witness:
  "filter_updates [2, 3, 2] \<lparr>max_items = 2, seen = [1, 2 :: nat]\<rparr> = (Inr [False, True, True], \<lparr>max_items = 2, seen = [3, 2]\<rparr>)"
  using filter_forgets_latest [of "\<lparr>max_items = 2, seen = [1, 2 :: nat]\<rparr>" "[1]" 2 3] by simp

end
