(* ===== verification/Spec2Isabelle.thy ===== *)
theory Spec2Isabelle
  imports
    Kademlia_Properties
    Multiplexer_Properties
    Session_Properties
    Discovery_Properties
    Peer_Properties
    Connection_Properties
    Meeting_Properties
    Command_Properties
    Application_Properties
    Portmap_Properties
    Duplicates
begin

text \<open>
  This development models the peer-to-peer overlay of the repository, the Python package
  \<open>src/pydevp2p/devp2p\<close>, with the simulator of connection strategies in \<open>src/pydevp2p/examples\<close>.

  \<^bold>\<open>The program.\<close>
  A node of the overlay finds other nodes and keeps connections to some of them.

  \<^item> It finds them over UDP. \<open>NodeDiscovery\<close> with \<open>DiscoveryProtocol\<close> (\<open>discovery.py\<close>) signs, packs, checks
    and unpacks datagrams and calls the handlers of \<open>KademliaProtocol\<close> (\<open>kademlia.py\<close>), which keeps a
    \<open>RoutingTable\<close> of \<open>KBucket\<close>s and calls back through its \<open>wire\<close> to send the answers.
  \<^item> \<open>PeerManager\<close> (\<open>peermanager.py\<close>) asks the discovery for nodes, connects to them over TCP, accepts
    connections, and keeps a \<open>Peer\<close> (\<open>peer.py\<close>) for each. It starts from URIs of nodes (\<open>utils.py\<close>).
  \<^item> A \<open>Peer\<close> passes what it reads to a \<open>MultiplexedSession\<close> (\<open>muxsession.py\<close>). This makes the handshake
    with \<open>RLPxSession\<close> (\<open>rlpxcipher.py\<close>), which rests on the ECIES of \<open>crypto.py\<close>, and then encrypts and
    decrypts the frames into which \<open>Multiplexer\<close> (\<open>multiplexer.py\<close>) cuts the packets.
  \<^item> Packets are dispatched by their command to the protocols of the peer (\<open>protocol.py\<close>); the first is
    always \<open>P2PProtocol\<close> (\<open>p2p_protocol.py\<close>) with hello, ping, pong and disconnect.
  \<^item> \<open>BaseApp\<close> (\<open>app.py\<close>) registers the services (\<open>service.py\<close>), the discovery and the manager among them;
    \<open>app_helper.py\<close> makes networks of applications; \<open>upnp.py\<close> maps the port of a node at a router.

  \<^bold>\<open>Conventions.\<close>
  \<open>Prelude\<close> has what all theories share. The exceptions of Python are the datatype \<open>exn\<close>. A function that
  may raise returns \<open>'a res\<close>, and one that also changes an object is a \<open>('s, 'a) prog\<close>, a function from the
  state to a result and the new state, so that the changes made before an exception stay visible. \<open>triple\<close>
  and \<open>keeps\<close> are its pre- and postconditions, with rules for sequencing, branching and loops. Byte strings
  are lists of \<open>8 word\<close>, integers of Python \<open>int\<close> or, where the code keeps them non-negative, \<open>nat\<close>;
  integers on the wire have the width of their encoding. Dictionaries whose order matters are association
  lists. An index or a slice out of range is written out as Python has it. Time, random draws and what
  another host sends are arguments or events, so the theorems hold for each of them.

  \<^bold>\<open>Node discovery\<close> (\<open>kademlia.py\<close>).
  \<open>Kademlia_Node\<close> has \<open>Node\<close> with its distances. \<open>KBucket\<close> has the bucket with every operation, its
  invariant and \<open>split\<close>, and \<open>KBucket_Depth\<close> the depth, the common prefix of the ids. \<open>Routing_Table\<close> has
  the table, \<open>Routing_Invariant\<close> that its buckets partition the id space and hold each contact once and in
  its range; \<open>rt_add_node\<close>, which splits buckets, ends because the range of the split bucket shrinks.
  \<open>Neighbours\<close> relates the search for the nearest contacts to sorting all of them by distance
  (\<open>Xor_Metric\<close>). \<open>Kademlia_Protocol\<close> has the handlers and \<open>update\<close>; its loop over buckets that split while
  it runs is a recursion with a measure. Messages to the wire are recorded in order, and sending one
  may raise (\<open>on_wire\<close>), which leaves the handler with what it did before.
  \<open>Kademlia_Invariant\<close> states reachability by handlers and calls (\<open>kad_reach\<close>) and what holds in every
  reachable state; \<open>Kademlia_Behaviour\<close> what \<open>update\<close> and the handlers send and keep.

  \<^bold>\<open>Packets and frames\<close> (\<open>multiplexer.py\<close>).
  \<open>Frame\<close> has the cutting of packets into frames, \<open>Multiplexer\<close> the queues of the protocols and the
  choice of the next frames in a window, \<open>Decoder\<close> the decoding of a stream with the cached header and the
  buffers of chunked packets. \<open>Mux_Queues\<close>, \<open>Mux_Packets\<close>, \<open>Mux_Traffic\<close>, \<open>Decoder_Errors\<close> and
  \<open>Wire_Roundtrip\<close> show what the queues keep, that frames come out in the order of the packets of a protocol, where a bad frame leaves
  the decoder, and that both ends agree, from \<open>add_packet\<close> at one to \<open>decode\<close> at the other, in whatever
  segments the stream arrives.

  \<^bold>\<open>Cryptography, handshake and sessions\<close> (\<open>crypto.py\<close>, \<open>rlpxcipher.py\<close>, \<open>muxsession.py\<close>).
  \<open>Crypto\<close> has the keys, ECIES and its key derivation; a private key is drawn until it is valid, which is a
  \<open>partial_function (option)\<close> with a lemma that says when it returns. \<open>Crypto_Laws\<close> has the hypotheses on
  the primitives. \<open>Rlpx\<close> has \<open>RLPxSession\<close>; \<open>Handshake_Agreement\<close> follows one handshake through both ends,
  \<open>Handshake_Eip8\<close> does so for the messages of EIP-8. \<open>Rlpx_Transport\<close> shows that paired sessions stay paired
  frame by frame. \<open>Mux_Session\<close>, \<open>Mux_Session_Hello\<close> and \<open>Session_Framing\<close> have the session that joins a
  multiplexer and a cipher, from its first message on.

  \<^bold>\<open>Discovery over UDP\<close> (\<open>discovery.py\<close>).
  \<open>Discovery_Packet\<close> has addresses and packets, \<open>Discovery\<close> the operations and the cache of nodes. Its state
  contains that of the Kademlia protocol. \<open>Discovery_Invariant\<close> shows that any datagrams whatever keep it
  well formed (\<open>disc_reach\<close>), \<open>Discovery_Delivery\<close> and \<open>Discovery_Exchange\<close> that what one instance
  packs makes another run the handler that the Kademlia protocol meant: the datagrams implement the wire of \<open>Kademlia_Protocol\<close>. A
  message is packed and sent at the place where the handler sends it (\<open>wire_send\<close>, the wire in \<open>disc_env\<close>),
  so that one that cannot be packed aborts the handler there (\<open>run_kad\<close>).

  \<^bold>\<open>Peers and their manager\<close> (\<open>peer.py\<close>, \<open>protocol.py\<close>, \<open>p2p_protocol.py\<close>, \<open>peermanager.py\<close>).
  \<open>Peer_Dispatch\<close> has the numbers of commands in both directions, \<open>Peer\<close> and \<open>Peer_Receive\<close> the operations of
  a peer and its protocols, \<open>Peer_Manager\<close> those of the manager, and the events: a greenlet that wakes up, a
  read, a timer, a call of the application. \<open>net_reach\<close> are the states that sequences of events reach, in any
  order. \<open>Peer_Invariant\<close> and \<open>Peer_Events\<close> have their invariants, \<open>Peer_Errors\<close> what happens on errors:
  those that \<open>_run_ingress_message\<close> handles, and those that leave it and reach \<open>on_peer_exit\<close> by the link of
  the greenlet (\<open>peer_greenlet\<close>).
  \<open>Peer_Connect\<close>, \<open>Peer_Handshake\<close> and \<open>Peer_Meeting\<close> compose all layers: two managers, the bytes that each
  writes passed to the other, the handshake, the hello packets in frames of both ciphers, until both accept
  the peer. \<open>Command\<close> has the payloads of commands, the default \<open>create\<close> and \<open>receive\<close>, and the
  codec of \<open>P2PProtocol\<close>, which provides what the peers ask of the codec that is their parameter (\<open>codec_announces\<close>).

  \<^bold>\<open>Around the overlay.\<close>
  \<open>Enode\<close>: making and reading URIs of nodes in both versions of Python, and bootstrapping (\<open>utils.py\<close>,
  \<open>discovery.py\<close>, \<open>peermanager.py\<close>). \<open>Config\<close>: merging configurations, the registry of services and their
  construction (\<open>utils.py\<close>, \<open>app.py\<close>, \<open>service.py\<close>), where \<open>sc_setup\<close> is what the constructor of a class
  does beyond that of \<open>BaseService\<close>. \<open>Application\<close>: the configurations and services of a network of
  applications (\<open>app_helper.py\<close>), and the constructor of \<open>PeerManager\<close>, which sets the id of the node.
  \<open>Portmap\<close>: mapping a port at a router (\<open>upnp.py\<close>).
  \<open>Duplicates\<close>: the filter of broadcasts (\<open>examples/full_app.py\<close>). \<open>Connection_Strategy\<close>,
  \<open>Connection_Laws\<close> and \<open>Connection_Rounds\<close>: nodes that connect by various strategies, in rounds
  (\<open>examples/connection_strategy_simulator.py\<close>).

  \<^bold>\<open>Properties.\<close>
  They stand in the theories named \<open>..._Properties\<close> and \<open>Duplicates\<close>, each after a text
  that states it, and rest on the lemmas of the theories above. The closed lemmas beside them evaluate the
  definitions on concrete inputs and show that the hypotheses can hold (\<open>Discovery_Samples\<close> and
  \<open>Peer_Samples\<close> have the inputs they share).

  \<^bold>\<open>Interfaces.\<close>
  \<open>node_bucket\<close> (\<open>Bucket_Interface\<close>) is what the routing table uses of buckets, interpreted on \<open>KBucket\<close>.
  \<open>node_table\<close> (\<open>Table_Interface\<close>) is what the protocol uses of a table, interpreted on \<open>RoutingTable\<close>.
  \<open>frame_transport\<close> (\<open>Frame_Transport\<close>) is what framing needs of a cipher, interpreted on no cipher and on
  \<open>RLPxSession\<close>; the round trip of packets is proved once for both. \<open>strategy\<close> (\<open>Connection_Rounds\<close>) is what
  the rounds of the simulation need of a way to connect, interpreted on the three that the code has.

  \<^bold>\<open>Termination.\<close>
  Loops end by a measure, with these exceptions. Drawing a key until it is valid (\<open>eccx_loop\<close>) is a partial
  function. \<open>stop_from\<close> has as fuel the number of peers, and each turn takes one
  off the rest of the list. The rounds of the simulation go on until nobody connects: each round but the
  last makes a connection, which counts at both of its ends, so the fuel of \<open>connect_rounds\<close> is enough when
  the sum of \<open>max_peers\<close> is below the links that exist and twice the fuel (\<open>simulation_ends\<close>). The search for a port at a router ends at 65536.

  \<^bold>\<open>Parameters.\<close>
  Packages that are not in the repository are records of functions, arguments of the definitions that use
  them. What the code relies on is a named hypothesis: \<open>crypto_lib\<close> (\<open>hashes_ok\<close>, \<open>keys_ok\<close>: the
  lengths of digests, keys and blocks, a signature recovers to its key, both ends of a Diffie-Hellman exchange
  agree; the ciphers in counter mode are written out over their key stream), \<open>rlp_lib\<close> (\<open>rlp_ok\<close>) and \<open>sedes_lib\<close> (\<open>sedes_ok\<close>) for encoding,
  \<open>wire_lib\<close> (\<open>wire_ok\<close>) for datagrams and addresses, \<open>cache_lib\<close> (\<open>cache_ok\<close>) for the cache of
  nodes, \<open>eip8_lib\<close> for the messages of EIP-8, \<open>hex_lib\<close> (\<open>hex_ok\<close>) for hexadecimal text, \<open>upnp_lib\<close>
  (\<open>upnp_ok\<close>) for the router, and \<open>net_lib\<close> for what a manager is configured with. Each has a concrete
  instance with which the hypotheses are shown to hold.

  \<^bold>\<open>Not modelled.\<close>
  Logging, printing and plots. Sockets and the scheduling of greenlets: the events come in any order, and an
  event is not interrupted by another. The starting of the loops and of listening sockets. Making the methods
  of a protocol by reflection, beyond their names and command ids. Waiting for signals (\<open>main\<close>,
  \<open>serve_until_stopped\<close>). The token service of the example application, which broadcasts random numbers.
  Of the simulator the lookups over the test network, the targets computed in floating-point numbers, and
  the analysis of the resulting graph. Sharing of mutable defaults between applications. Code that nothing
  calls: \<open>FindNodeTask\<close>, \<open>FrameCipherBase\<close>, \<open>hex_decode_config\<close>, \<open>lzpad32\<close>, \<open>_encode_sig\<close> and \<open>_decode_sig\<close>.
  The implementation in C++ (\<open>libgfrp2p\<close>), the adapter in Go, the experiments, the setup and the tests.
\<close>

end
